(* ===== verification/Cohort_Prelude.thy ===== *)
theory Cohort_Prelude
  imports Main "HOL-Library.Word" "HOL-Library.AList" "HOL-Library.Product_Lexorder"
begin

text \<open>
  Shared vocabulary of the development: the Rust integer types as words, panics as values,
  the standard-library operations the sources use (\<open>saturating_sub\<close>, \<open>min_by_key\<close>,
  \<open>max_by_key\<close>, hash maps), and the lemmas every component rests on.

  Integers. A \<open>u32\<close> or \<open>u64\<close> is a word; \<open>+\<close>, \<open>-\<close> and \<open>*\<close> wrap, as in the release
  profile that the repository ships (no \<open>overflow-checks\<close> in any \<open>Cargo.toml\<close>).

  Hash maps. A \<open>HashMap\<close> is an association list with distinct keys, and iterating it walks
  the list. The order of a Rust \<open>HashMap\<close> is unspecified: every list with the same entries
  is a representation of the same map, and the theorems quantify over all of them.
\<close>

unbundle bit_operations_syntax

named_theorems hm_simps \<open>rewriting of hash-map operations\<close>
named_theorems panic_simps \<open>rewriting of computations that may panic\<close>

section \<open>Types\<close>

type_synonym u8 = "8 word"
type_synonym u32 = "32 word"
type_synonym u64 = "64 word"

datatype panic =
    UnwrapNone          \<comment> \<open>\<open>Option::unwrap\<close> on \<open>None\<close>\<close>
  | MissingKey          \<comment> \<open>indexing a map with a key it does not hold\<close>
  | OutOfRange          \<comment> \<open>indexing or slicing out of range\<close>
  | NotCharBoundary     \<comment> \<open>slicing a \<open>str\<close> inside a character\<close>
  | StackOverflow       \<comment> \<open>recursion that never returns\<close>
  | ArithOverflow       \<comment> \<open>integer overflow, where overflow checks are compiled in\<close>
  | BadDuration         \<comment> \<open>\<open>Duration::from_secs_f64\<close> of a negative, huge or non-finite number\<close>

section \<open>Machine integers\<close>

definition saturating_sub :: "'a::len word \<Rightarrow> 'a word \<Rightarrow> 'a word" where
  "saturating_sub a b = (if a < b then 0 else a - b)"

text \<open>\<open>i64::unsigned_abs\<close> on the bit pattern of a signed number.\<close>

definition unsigned_abs :: "'a::len word \<Rightarrow> 'a word" where
  "unsigned_abs d = (if sint d < 0 then - d else d)"

lemma unat_sub_le: "b \<le> a \<Longrightarrow> unat (a - b) = unat a - unat b" for a b :: "'a::len word"
  by (simp add: unat_sub)

lemma unat_saturating_sub [simp]: "unat (saturating_sub a b) = unat a - unat b"
  by (auto simp: saturating_sub_def unat_sub word_less_nat_alt not_less word_le_nat_alt)

lemma unat_add_le: "unat (a + b) \<le> unat a + unat b" for a b :: "'a::len word"
  by (simp add: unat_word_ariths)

lemma unat_plus_one_le: "unat (a + 1) \<le> Suc (unat a)" for a :: "'a::len word"
  using unat_add_le [of a 1] by (cases "LENGTH('a) = 0") auto

lemma uint_less_power: "unat w < 2 ^ n \<Longrightarrow> uint w < 2 ^ n"
  by (metis uint_nat of_nat_less_iff of_nat_power of_nat_numeral)

section \<open>Selection by key\<close>

text \<open>
  \<open>Iterator::min_by_key\<close> returns the first minimal element, \<open>Iterator::max_by_key\<close> the
  last maximal one; both return \<open>None\<close> on an empty iterator.
\<close>

fun min_by_key :: "('a \<Rightarrow> 'b::linorder) \<Rightarrow> 'a list \<Rightarrow> 'a option" where
  "min_by_key f [] = None"
| "min_by_key f (x # xs) = Some (fold (\<lambda>y m. if f y < f m then y else m) xs x)"

fun max_by_key :: "('a \<Rightarrow> 'b::linorder) \<Rightarrow> 'a list \<Rightarrow> 'a option" where
  "max_by_key f [] = None"
| "max_by_key f (x # xs) = Some (fold (\<lambda>y m. if f m \<le> f y then y else m) xs x)"

lemma fold_min_in:
  "fold (\<lambda>y m. if f y < f m then y else m) xs x \<in> insert x (set xs)"
  by (induction xs arbitrary: x) (auto split: if_splits)

lemma fold_min_le:
  "\<forall>y \<in> insert x (set xs). f (fold (\<lambda>y m. if f y < f m then y else m) xs x) \<le> f y"
  for f :: "'a \<Rightarrow> 'b::linorder"
proof (induction xs arbitrary: x)
  case (Cons a xs)
  show ?case
    using Cons.IH [of a] Cons.IH [of x] by fastforce
qed simp

lemma fold_max_in:
  "fold (\<lambda>y m. if f m \<le> f y then y else m) xs x \<in> insert x (set xs)"
  by (induction xs arbitrary: x) (auto split: if_splits)

lemma fold_max_ge:
  "\<forall>y \<in> insert x (set xs). f y \<le> f (fold (\<lambda>y m. if f m \<le> f y then y else m) xs x)"
  for f :: "'a \<Rightarrow> 'b::linorder"
proof (induction xs arbitrary: x)
  case (Cons a xs)
  show ?case
    using Cons.IH [of a] Cons.IH [of x] by fastforce
qed simp

lemma min_by_key_None [simp]: "min_by_key f xs = None \<longleftrightarrow> xs = []"
  by (cases xs) auto

lemma max_by_key_None [simp]: "max_by_key f xs = None \<longleftrightarrow> xs = []"
  by (cases xs) auto

lemma min_by_key_in: "min_by_key f xs = Some m \<Longrightarrow> m \<in> set xs"
  using fold_min_in [of f "tl xs" "hd xs"] by (cases xs) auto

lemma min_by_key_le: "min_by_key f xs = Some m \<Longrightarrow> y \<in> set xs \<Longrightarrow> f m \<le> f y"
  using fold_min_le [of "hd xs" "tl xs" f] by (cases xs) auto

lemma max_by_key_in: "max_by_key f xs = Some m \<Longrightarrow> m \<in> set xs"
  using fold_max_in [of f "tl xs" "hd xs"] by (cases xs) auto

lemma max_by_key_ge: "max_by_key f xs = Some m \<Longrightarrow> y \<in> set xs \<Longrightarrow> f y \<le> f m"
  using fold_max_ge [of "hd xs" "tl xs" f] by (cases xs) auto

lemma min_by_key_ex: "xs \<noteq> [] \<Longrightarrow> \<exists>m. min_by_key f xs = Some m"
  by (cases xs) auto

lemma max_by_key_ex: "xs \<noteq> [] \<Longrightarrow> \<exists>m. max_by_key f xs = Some m"
  by (cases xs) auto

section \<open>Hash maps\<close>

type_synonym ('k, 'v) hashmap = "('k \<times> 'v) list"

abbreviation hm_get :: "('k, 'v) hashmap \<Rightarrow> 'k \<Rightarrow> 'v option" where
  "hm_get m k \<equiv> map_of m k"

abbreviation hm_insert :: "'k \<Rightarrow> 'v \<Rightarrow> ('k, 'v) hashmap \<Rightarrow> ('k, 'v) hashmap" where
  "hm_insert k v m \<equiv> AList.update k v m"

abbreviation hm_remove :: "'k \<Rightarrow> ('k, 'v) hashmap \<Rightarrow> ('k, 'v) hashmap" where
  "hm_remove k m \<equiv> AList.delete k m"

definition hm_contains :: "('k, 'v) hashmap \<Rightarrow> 'k \<Rightarrow> bool" where
  "hm_contains m k = (case map_of m k of None \<Rightarrow> False | Some _ \<Rightarrow> True)"

definition hm_retain :: "('k \<Rightarrow> 'v \<Rightarrow> bool) \<Rightarrow> ('k, 'v) hashmap \<Rightarrow> ('k, 'v) hashmap" where
  "hm_retain P m = filter (\<lambda>(k, v). P k v) m"

text \<open>\<open>*m.entry(k).or_insert(d) = f(that value)\<close>.\<close>

definition hm_entry :: "'k \<Rightarrow> 'v \<Rightarrow> ('v \<Rightarrow> 'v) \<Rightarrow> ('k, 'v) hashmap \<Rightarrow> ('k, 'v) hashmap" where
  "hm_entry k d f m = hm_insert k (f (case hm_get m k of None \<Rightarrow> d | Some v \<Rightarrow> v)) m"

definition hm_wf :: "('k, 'v) hashmap \<Rightarrow> bool" where
  "hm_wf m \<longleftrightarrow> distinct (map fst m)"

lemma hm_wf_Nil [simp]: "hm_wf []"
  by (simp add: hm_wf_def)

lemma hm_wf_insert [simp]: "hm_wf m \<Longrightarrow> hm_wf (hm_insert k v m)"
  by (simp add: hm_wf_def distinct_update)

lemma hm_wf_remove [simp]: "hm_wf m \<Longrightarrow> hm_wf (hm_remove k m)"
  by (simp add: hm_wf_def distinct_delete)

lemma hm_wf_retain [simp]: "hm_wf m \<Longrightarrow> hm_wf (hm_retain P m)"
  by (simp add: hm_wf_def hm_retain_def distinct_map_filter)

lemma hm_wf_entry [simp]: "hm_wf m \<Longrightarrow> hm_wf (hm_entry k d f m)"
  by (simp add: hm_entry_def)

lemma hm_contains_iff [hm_simps]: "hm_contains m k \<longleftrightarrow> (\<exists>v. hm_get m k = Some v)"
  by (auto simp: hm_contains_def split: option.splits)

lemma hm_contains_dom: "hm_contains m k \<longleftrightarrow> k \<in> fst ` set m"
  by (auto simp: hm_contains_iff dom_map_of_conv_image_fst [symmetric])

lemma hm_get_insert [hm_simps]: "hm_get (hm_insert k v m) = (hm_get m)(k \<mapsto> v)"
  by (rule update_conv')

lemma hm_get_remove [hm_simps]: "hm_get (hm_remove k m) = (hm_get m)(k := None)"
  by (rule delete_conv')

lemma hm_dom_insert: "dom (hm_get (hm_insert k v m)) = insert k (dom (hm_get m))"
  by (auto simp: hm_get_insert split: if_splits)

lemma hm_get_in: "hm_wf m \<Longrightarrow> hm_get m k = Some v \<longleftrightarrow> (k, v) \<in> set m"
  by (simp add: hm_wf_def)

lemma hm_get_retain [hm_simps]:
  assumes "hm_wf m"
  shows "hm_get (hm_retain P m) k =
    (case hm_get m k of None \<Rightarrow> None | Some v \<Rightarrow> if P k v then Some v else None)"
  using assms unfolding hm_wf_def hm_retain_def
  by (induction m) (auto simp: dom_map_of_conv_image_fst [symmetric] split: option.splits)

lemma hm_get_entry [hm_simps]:
  "hm_get (hm_entry k d f m) =
    (hm_get m)(k \<mapsto> f (case hm_get m k of None \<Rightarrow> d | Some v \<Rightarrow> v))"
  unfolding hm_entry_def by (rule hm_get_insert)

text \<open>\<open>iter.collect()\<close> into a hash map: a later entry replaces an earlier one.\<close>

definition hm_collect :: "('k \<times> 'v) list \<Rightarrow> ('k, 'v) hashmap" where
  "hm_collect xs = fold (\<lambda>(k, v) m. hm_insert k v m) xs []"

lemma fold_insert_get:
  "hm_get (fold (\<lambda>(k, v) m. hm_insert k v m) xs m) k =
     (case map_of (rev xs) k of None \<Rightarrow> hm_get m k | Some v \<Rightarrow> Some v)"
  by (induction xs arbitrary: m) (auto simp: hm_simps map_add_def split: option.splits)

lemma fold_insert_wf: "hm_wf m \<Longrightarrow> hm_wf (fold (\<lambda>(k, v) m. hm_insert k v m) xs m)"
  by (induction xs arbitrary: m) auto

lemma hm_wf_collect [simp]: "hm_wf (hm_collect xs)"
  by (simp add: hm_collect_def fold_insert_wf)

lemma hm_get_collect [hm_simps]: "hm_get (hm_collect xs) k = map_of (rev xs) k"
  by (simp add: hm_collect_def fold_insert_get split: option.split)

lemma hm_get_collect_distinct:
  assumes "distinct (map fst xs)"
  shows "hm_get (hm_collect xs) k = map_of xs k"
proof -
  have "distinct (map fst (rev xs))" using assms by (simp add: rev_map [symmetric])
  then have "map_of (rev xs) = map_of xs"
    using assms by (simp add: map_of_inject_set)
  then show ?thesis by (simp add: hm_get_collect)
qed

text \<open>
  The order in which a map is walked, for an arbitrary assignment of priorities to its keys: as
  the priorities vary, \<open>hm_iter pri m\<close> is every representation of the map.
\<close>

definition hm_iter :: "('k \<Rightarrow> nat) \<Rightarrow> ('k, 'v) hashmap \<Rightarrow> ('k, 'v) hashmap" where
  "hm_iter pri m = sort_key (\<lambda>e. pri (fst e)) m"

lemma set_hm_iter [simp]: "set (hm_iter pri m) = set m"
  by (simp add: hm_iter_def)

lemma hm_wf_iter [simp]: "hm_wf (hm_iter pri m) = hm_wf m"
  by (simp add: hm_wf_def hm_iter_def distinct_map)

lemma hm_get_iter [simp]: "hm_wf m \<Longrightarrow> hm_get (hm_iter pri m) = hm_get m"
  by (intro map_of_inject_set [THEN iffD2]) (auto simp: hm_wf_def [symmetric])

section \<open>Ordered maps\<close>

text \<open>A \<open>BTreeMap\<close>: the entries in ascending order of their keys.\<close>

definition bt_wf :: "('k::linorder, 'v) hashmap \<Rightarrow> bool" where
  "bt_wf m \<longleftrightarrow> hm_wf m \<and> sorted (map fst m)"

definition bt_insert :: "'k::linorder \<Rightarrow> 'v \<Rightarrow> ('k, 'v) hashmap \<Rightarrow> ('k, 'v) hashmap" where
  "bt_insert k v m = sort_key fst (hm_insert k v m)"

definition bt_entry :: "'k::linorder \<Rightarrow> 'v \<Rightarrow> ('v \<Rightarrow> 'v) \<Rightarrow> ('k, 'v) hashmap \<Rightarrow> ('k, 'v) hashmap" where
  "bt_entry k d f m = sort_key fst (hm_entry k d f m)"

definition bt_collect :: "('k::linorder \<times> 'v) list \<Rightarrow> ('k, 'v) hashmap" where
  "bt_collect xs = sort_key fst (hm_collect xs)"

lemma hm_wf_sort: "hm_wf m \<Longrightarrow> hm_wf (sort_key f m)"
  by (simp add: hm_wf_def distinct_map)

lemma hm_get_sort: "hm_wf m \<Longrightarrow> hm_get (sort_key f m) = hm_get m"
  by (intro map_of_inject_set [THEN iffD2]) (auto simp: hm_wf_sort hm_wf_def [symmetric])

lemma bt_wf_Nil [simp]: "bt_wf []"
  by (simp add: bt_wf_def)

lemma bt_wf_hm: "bt_wf m \<Longrightarrow> hm_wf m"
  by (simp add: bt_wf_def)

lemma bt_wf_insert [simp]: "bt_wf m \<Longrightarrow> bt_wf (bt_insert k v m)"
  by (simp add: bt_wf_def bt_insert_def hm_wf_sort)

lemma bt_wf_entry [simp]: "bt_wf m \<Longrightarrow> bt_wf (bt_entry k d f m)"
  by (simp add: bt_wf_def bt_entry_def hm_wf_sort)

lemma bt_wf_collect [simp]: "bt_wf (bt_collect xs)"
  by (simp add: bt_wf_def bt_collect_def hm_wf_sort)

lemma bt_get_insert [hm_simps]: "bt_wf m \<Longrightarrow> hm_get (bt_insert k v m) = (hm_get m)(k \<mapsto> v)"
  unfolding bt_insert_def by (subst hm_get_sort) (simp_all add: bt_wf_hm hm_get_insert)

lemma bt_get_entry [hm_simps]:
  "bt_wf m \<Longrightarrow> hm_get (bt_entry k d f m) = (hm_get m)(k \<mapsto> f (case hm_get m k of None \<Rightarrow> d | Some v \<Rightarrow> v))"
  unfolding bt_entry_def by (subst hm_get_sort) (simp_all add: bt_wf_hm hm_get_entry)

lemma bt_get_collect [hm_simps]: "hm_get (bt_collect xs) k = map_of (rev xs) k"
  unfolding bt_collect_def by (subst hm_get_sort) (simp_all add: hm_get_collect)

section \<open>Loops that may fail\<close>

text \<open>A \<open>for\<close> loop whose body returns early with an error: \<open>?\<close>, \<open>bail!\<close> or a panic.\<close>

fun try_fold :: "('a \<Rightarrow> 's \<Rightarrow> 'e + 's) \<Rightarrow> 'a list \<Rightarrow> 's \<Rightarrow> 'e + 's" where
  "try_fold f [] s = Inr s"
| "try_fold f (x # xs) s = (case f x s of Inl e \<Rightarrow> Inl e | Inr s' \<Rightarrow> try_fold f xs s')"

lemma try_fold_append [simp]:
  "try_fold f (xs @ ys) s = (case try_fold f xs s of Inl e \<Rightarrow> Inl e | Inr s' \<Rightarrow> try_fold f ys s')"
  by (induction xs arbitrary: s) (auto split: sum.splits)

text \<open>A loop invariant: kept by every iteration that succeeds, so it holds of the result.\<close>

lemma try_fold_invariant:
  assumes "try_fold f xs s = Inr s'" and "I s"
    and "\<And>x s s'. x \<in> set xs \<Longrightarrow> I s \<Longrightarrow> f x s = Inr s' \<Longrightarrow> I s'"
  shows "I s'"
  using assms
proof (induction xs arbitrary: s)
  case (Cons x xs)
  then obtain s1 where s1: "f x s = Inr s1" "try_fold f xs s1 = Inr s'"
    by (auto split: sum.splits)
  have "I s1" using Cons.prems(3) [of x s s1] Cons.prems(2) s1(1) by simp
  then show ?case using Cons.IH [OF s1(2)] Cons.prems(3) by auto
qed simp

text \<open>A loop whose every iteration succeeds under an invariant succeeds.\<close>

lemma try_fold_total:
  assumes "I s" and "\<And>x s. x \<in> set xs \<Longrightarrow> I s \<Longrightarrow> \<exists>s'. f x s = Inr s' \<and> I s'"
  shows "\<exists>s'. try_fold f xs s = Inr s' \<and> I s'"
  using assms
proof (induction xs arbitrary: s)
  case (Cons x xs)
  then obtain s1 where "f x s = Inr s1" "I s1" by (metis list.set_intros(1))
  with Cons show ?case by simp
qed simp

text \<open>Both at once: errors are of one kind and results satisfy the invariant.\<close>

lemma try_fold_safe:
  assumes "I s" and "\<And>x s. x \<in> set xs \<Longrightarrow> I s \<Longrightarrow> case f x s of Inl e \<Rightarrow> Q e | Inr s' \<Rightarrow> I s'"
  shows "case try_fold f xs s of Inl e \<Rightarrow> Q e | Inr s' \<Rightarrow> I s'"
  using assms
proof (induction xs arbitrary: s)
  case (Cons x xs)
  show ?case
  proof (cases "f x s")
    case (Inl e)
    then show ?thesis using Cons.prems(2) [of x s] Cons.prems(1) by simp
  next
    case (Inr s')
    then have "I s'" using Cons.prems(2) [of x s] Cons.prems(1) by simp
    with Cons.IH [of s'] Cons.prems(2) Inr show ?thesis by simp
  qed
qed simp

end
