(* ===== verification/Union_Find_Forest.thy ===== *)
theory Union_Find_Forest
  imports Cohort_Prelude
begin

text \<open>
  The union-find forest inside \<open>WakeGraph::splits\<close> (\<open>scx_cohort/src/wake_graph.rs\<close>): the
  recursive \<open>find\<close> with path compression over a parent map, and the union of two roots. The
  contract a client needs is the locale \<open>union_find\<close>; the theorem that joining a list of edges
  yields the connected components is proved in it, and the forest interprets it.
\<close>

section \<open>Operations\<close>

text \<open>
  \<open>find\<close>, with the recursion depth bounded by the number of keys: a parent chain that is longer
  visits a key twice, so the Rust recursion would not return and would overflow its stack.
  \<open>parent[&x]\<close> panics on a missing key.
\<close>

fun find_fuel :: "nat \<Rightarrow> (u32, u32) hashmap \<Rightarrow> u32 \<Rightarrow> panic + (u32 \<times> (u32, u32) hashmap)" where
  "find_fuel 0 parent x = Inl StackOverflow"
| "find_fuel (Suc n) parent x =
     (case hm_get parent x of
        None \<Rightarrow> Inl MissingKey
      | Some p \<Rightarrow>
          if p = x then Inr (x, parent)
          else case find_fuel n parent p of
                 Inl e \<Rightarrow> Inl e
               | Inr (root, parent') \<Rightarrow> Inr (root, hm_insert x root parent'))"

definition uf_find :: "(u32, u32) hashmap \<Rightarrow> u32 \<Rightarrow> panic + (u32 \<times> (u32, u32) hashmap)" where
  "uf_find parent x = find_fuel (length parent) parent x"

text \<open>
  The body of the edge loop: find both roots, the second on the map the first one compressed,
  and hang one under the other if they differ.
\<close>

definition join :: "('s \<Rightarrow> 'k \<Rightarrow> 'e + ('k \<times> 's)) \<Rightarrow> ('k \<Rightarrow> 'k \<Rightarrow> 's \<Rightarrow> 's) \<Rightarrow> 'k \<Rightarrow> 'k \<Rightarrow> 's \<Rightarrow> 'e + 's" where
  "join find_op link a b s =
     (case find_op s a of
        Inl e \<Rightarrow> Inl e
      | Inr (ra, s1) \<Rightarrow>
          (case find_op s1 b of
             Inl e \<Rightarrow> Inl e
           | Inr (rb, s2) \<Rightarrow> Inr (if ra \<noteq> rb then link ra rb s2 else s2)))"

section \<open>The contract and its client\<close>

text \<open>Symmetric edges, and the classes they generate.\<close>

definition sym_edges :: "('k \<times> 'k) list \<Rightarrow> ('k \<times> 'k) set" where
  "sym_edges es = set es \<union> (set es)\<inverse>"

lemma sym_edges_simps [simp]:
  "sym_edges [] = {}"
  "sym_edges ((a, b) # es) = {(a, b), (b, a)} \<union> sym_edges es"
  "sym_edges (es @ fs) = sym_edges es \<union> sym_edges fs"
  by (auto simp: sym_edges_def)

lemma rtrancl_sym_iff: "sym (R\<^sup>*) \<Longrightarrow> (x, y) \<in> R\<^sup>* \<longleftrightarrow> (y, x) \<in> R\<^sup>*"
  by (auto dest: symD)

lemma sym_sym_edges: "sym ((sym_edges es)\<^sup>*)"
  by (rule sym_rtrancl) (auto simp: sym_edges_def sym_def)

lemma rtrancl_add_edge:
  assumes "sym (R\<^sup>*)"
  shows "(x, y) \<in> ({(a, b), (b, a)} \<union> R)\<^sup>* \<longleftrightarrow>
    (x, y) \<in> R\<^sup>* \<or> (x, a) \<in> R\<^sup>* \<and> (b, y) \<in> R\<^sup>* \<or> (x, b) \<in> R\<^sup>* \<and> (a, y) \<in> R\<^sup>*"
    (is "_ \<longleftrightarrow> ?P x y")
proof
  show "?P x y" if "(x, y) \<in> ({(a, b), (b, a)} \<union> R)\<^sup>*"
    using that
  proof (induction rule: rtrancl_induct)
    case (step y z)
    from step.hyps(2) consider "(y, z) = (a, b)" | "(y, z) = (b, a)" | "(y, z) \<in> R" by blast
    then show ?case
    proof cases
      case 1
      then show ?thesis using step.IH rtrancl_sym_iff [OF assms] by (auto dest: rtrancl_trans)
    next
      case 2
      then show ?thesis using step.IH rtrancl_sym_iff [OF assms] by (auto dest: rtrancl_trans)
    next
      case 3
      then show ?thesis using step.IH by (auto intro: rtrancl_into_rtrancl)
    qed
  qed simp
  have sub: "R\<^sup>* \<subseteq> ({(a, b), (b, a)} \<union> R)\<^sup>*" by (intro rtrancl_mono) auto
  have "(a, b) \<in> ({(a, b), (b, a)} \<union> R)\<^sup>*" "(b, a) \<in> ({(a, b), (b, a)} \<union> R)\<^sup>*" by auto
  then show "(x, y) \<in> ({(a, b), (b, a)} \<union> R)\<^sup>*" if "?P x y"
    using that sub by (meson rtrancl_trans subsetD)
qed

locale union_find =
  fixes find_op :: "'s \<Rightarrow> 'k \<Rightarrow> 'e + ('k \<times> 's)"
    and link :: "'k \<Rightarrow> 'k \<Rightarrow> 's \<Rightarrow> 's"
    and inv :: "'s \<Rightarrow> bool"
    and members :: "'s \<Rightarrow> 'k set"
    and rep :: "'s \<Rightarrow> 'k \<Rightarrow> 'k"
  assumes find_rep: "inv s \<Longrightarrow> x \<in> members s \<Longrightarrow>
      \<exists>s'. find_op s x = Inr (rep s x, s') \<and> inv s' \<and> members s' = members s \<and>
           (\<forall>y \<in> members s. rep s' y = rep s y)"
    and rep_member: "inv s \<Longrightarrow> x \<in> members s \<Longrightarrow> rep s x \<in> members s"
    and rep_idem: "inv s \<Longrightarrow> x \<in> members s \<Longrightarrow> rep s (rep s x) = rep s x"
    and link_rep: "inv s \<Longrightarrow> x \<in> members s \<Longrightarrow> y \<in> members s \<Longrightarrow> rep s x = x \<Longrightarrow> rep s y = y \<Longrightarrow> x \<noteq> y \<Longrightarrow>
      inv (link x y s) \<and> members (link x y s) = members s \<and>
      (\<forall>z \<in> members s. rep (link x y s) z = (if rep s z = x then y else rep s z))"
begin

text \<open>Joining two members merges their classes and leaves the others alone.\<close>

lemma join_rep:
  assumes "inv s" and "a \<in> members s" and "b \<in> members s"
  shows "\<exists>s'. join find_op link a b s = Inr s' \<and> inv s' \<and> members s' = members s \<and>
    (\<forall>x \<in> members s. \<forall>y \<in> members s. rep s' x = rep s' y \<longleftrightarrow>
       rep s x = rep s y \<or> rep s x = rep s a \<and> rep s b = rep s y \<or> rep s x = rep s b \<and> rep s a = rep s y)"
proof -
  obtain s1 where f1: "find_op s a = Inr (rep s a, s1)" and i1: "inv s1" and m1: "members s1 = members s"
    and r1: "\<forall>y \<in> members s. rep s1 y = rep s y"
    using find_rep [OF assms(1,2)] by blast
  obtain s2 where f2: "find_op s1 b = Inr (rep s1 b, s2)" and i2: "inv s2" and m2: "members s2 = members s"
    and r2: "\<forall>y \<in> members s. rep s2 y = rep s y"
    using find_rep [OF i1, of b] assms(3) m1 r1 by auto
  have fb: "rep s1 b = rep s b" using r1 assms(3) by blast
  let ?s' = "if rep s a \<noteq> rep s b then link (rep s a) (rep s b) s2 else s2"
  have j: "join find_op link a b s = Inr ?s'" by (simp add: join_def f1 f2 fb)
  show ?thesis
  proof (cases "rep s a = rep s b")
    case True
    with j i2 m2 r2 show ?thesis by auto
  next
    case False
    have "rep s2 (rep s a) = rep s a" "rep s2 (rep s b) = rep s b"
      using r2 rep_member [OF assms(1)] rep_idem [OF assms(1)] assms by auto
    with False i2 m2 rep_member [OF assms(1)] assms
    have "inv ?s' \<and> members ?s' = members s \<and>
      (\<forall>z \<in> members s. rep ?s' z = (if rep s2 z = rep s a then rep s b else rep s2 z))"
      using link_rep [of s2 "rep s a" "rep s b"] by simp
    then show ?thesis
      using j r2 by (auto split: if_splits)
  qed
qed

text \<open>
  Joining a list of edges between members, starting from singletons, ends with one class per
  connected component.
\<close>

lemma join_all_components:
  assumes "inv s" and "\<forall>x \<in> members s. \<forall>y \<in> members s. rep s x = rep s y \<longleftrightarrow> (x, y) \<in> (sym_edges done)\<^sup>*"
    and "\<forall>(a, b) \<in> set es. a \<in> members s \<and> b \<in> members s"
  shows "\<exists>s'. try_fold (\<lambda>(a, b). join find_op link a b) es s = Inr s' \<and> inv s' \<and> members s' = members s \<and>
    (\<forall>x \<in> members s. \<forall>y \<in> members s. rep s' x = rep s' y \<longleftrightarrow> (x, y) \<in> (sym_edges (es @ done))\<^sup>*)"
  using assms
proof (induction es arbitrary: s "done")
  case (Cons e es)
  obtain a b where e: "e = (a, b)" by (cases e)
  have ab: "a \<in> members s" "b \<in> members s" using Cons.prems(3) e by auto
  obtain s1 where j: "join find_op link a b s = Inr s1" and i1: "inv s1" and m1: "members s1 = members s"
    and r1: "\<forall>x \<in> members s. \<forall>y \<in> members s. rep s1 x = rep s1 y \<longleftrightarrow>
       rep s x = rep s y \<or> rep s x = rep s a \<and> rep s b = rep s y \<or> rep s x = rep s b \<and> rep s a = rep s y"
    using join_rep [OF Cons.prems(1) ab] by blast
  have "\<forall>x \<in> members s1. \<forall>y \<in> members s1. rep s1 x = rep s1 y \<longleftrightarrow> (x, y) \<in> (sym_edges ((a, b) # done))\<^sup>*"
    using r1 Cons.prems(2) ab unfolding sym_edges_simps rtrancl_add_edge [OF sym_sym_edges] m1 by blast
  from Cons.IH [OF i1 this] Cons.prems(3) m1 obtain s' where
    "try_fold (\<lambda>(a, b). join find_op link a b) es s1 = Inr s'" "inv s'" "members s' = members s"
    "\<forall>x \<in> members s. \<forall>y \<in> members s. rep s' x = rep s' y \<longleftrightarrow> (x, y) \<in> (sym_edges (es @ (a, b) # done))\<^sup>*"
    by auto
  moreover have "sym_edges (es @ (a, b) # done) = sym_edges ((e # es) @ done)"
    by (auto simp: e)
  ultimately show ?case using j by (auto simp: e)
qed auto

end

section \<open>The forest\<close>

text \<open>\<open>rootn parent n x r\<close>: following \<open>n\<close> parent pointers from \<open>x\<close> ends in the root \<open>r\<close>.\<close>

inductive rootn :: "(u32, u32) hashmap \<Rightarrow> nat \<Rightarrow> u32 \<Rightarrow> u32 \<Rightarrow> bool" for parent where
  root: "hm_get parent x = Some x \<Longrightarrow> rootn parent 0 x x"
| step: "hm_get parent x = Some y \<Longrightarrow> y \<noteq> x \<Longrightarrow> rootn parent n y r \<Longrightarrow> rootn parent (Suc n) x r"

inductive_cases rootnE: "rootn parent n x r"
inductive_cases rootn_SucE: "rootn parent (Suc n) x r"

lemma rootn_unique: "rootn parent n x r \<Longrightarrow> rootn parent m x r' \<Longrightarrow> m = n \<and> r' = r"
proof (induction arbitrary: m rule: rootn.induct)
  case (root x)
  from root.prems show ?case by (rule rootnE) (use root.hyps in auto)
next
  case (step x y n r)
  from step.prems show ?case by (rule rootnE) (use step in auto)
qed

lemma rootn_root: "rootn parent n x r \<Longrightarrow> hm_get parent r = Some r"
  by (induction rule: rootn.induct) auto

lemma rootn_member: "rootn parent n x r \<Longrightarrow> x \<in> dom (hm_get parent)"
  by (auto elim: rootnE)

lemma rootn_below: "rootn parent n x r \<Longrightarrow> i \<le> n \<Longrightarrow> \<exists>y. rootn parent i y r"
proof (induction rule: rootn.induct)
  case (step x y n r)
  then show ?case by (cases "i = Suc n") (auto intro: rootn.step)
qed (auto intro: rootn.root)

text \<open>
  A chain has at most as many links as the map has keys: its elements have different depths. So
  the bound on the recursion depth of \<open>uf_find\<close> is never met in a forest.
\<close>

lemma rootn_bound:
  assumes "rootn parent n x r"
  shows "n < length parent"
proof -
  have "\<forall>i \<in> {..n}. \<exists>y. rootn parent i y r" using rootn_below [OF assms] by simp
  then obtain f where f: "\<And>i. i \<le> n \<Longrightarrow> rootn parent i (f i) r" by (metis atMost_iff)
  have "inj_on f {..n}"
    by (intro inj_onI) (metis atMost_iff f rootn_unique)
  moreover have "f ` {..n} \<subseteq> fst ` set parent"
    using rootn_member [OF f] by (simp add: image_subset_iff flip: dom_map_of_conv_image_fst)
  ultimately have "card {..n} \<le> card (fst ` set parent)"
    by (metis card_inj_on_le finite_imageI List.finite_set)
  also have "\<dots> \<le> length parent"
    by (metis card_image_le List.finite_set card_length le_trans)
  finally show ?thesis by simp
qed

definition forest :: "(u32, u32) hashmap \<Rightarrow> bool" where
  "forest parent \<longleftrightarrow> hm_wf parent \<and> (\<forall>x \<in> dom (hm_get parent). \<exists>n r. rootn parent n x r)"

definition forest_root :: "(u32, u32) hashmap \<Rightarrow> u32 \<Rightarrow> u32" where
  "forest_root parent x = (THE r. \<exists>n. rootn parent n x r)"

lemma forest_root_eq: "rootn parent n x r \<Longrightarrow> forest_root parent x = r"
  unfolding forest_root_def by (rule the_equality) (auto dest: rootn_unique)

lemma forest_rootn: "forest parent \<Longrightarrow> x \<in> dom (hm_get parent) \<Longrightarrow> \<exists>n. rootn parent n x (forest_root parent x)"
  unfolding forest_def using forest_root_eq by fastforce

text \<open>Path compression moves no element to another root.\<close>

lemma rootn_compress:
  assumes "rootn parent n x r" and "r \<noteq> x"
  shows "rootn parent m y q \<Longrightarrow> \<exists>m'. rootn (hm_insert x r parent) m' y q"
proof (induction rule: rootn.induct)
  case (root y)
  then have "y \<noteq> x" using assms rootn_unique [OF assms(1) rootn.root] by auto
  with root show ?case by (auto intro!: exI rootn.root simp: hm_simps)
next
  case (step y z m q)
  show ?case
  proof (cases "y = x")
    case True
    with step have "rootn parent (Suc m) x q" by (auto intro: rootn.step)
    with assms(1) have "q = r" by (auto dest: rootn_unique)
    have "rootn (hm_insert x r parent) 0 r r"
      using assms(2) rootn_root [OF assms(1)] by (intro rootn.root) (simp add: hm_simps)
    with True \<open>q = r\<close> assms(2) show ?thesis
      by (auto intro!: exI rootn.step [where y = r] simp: hm_simps)
  next
    case False
    then have "hm_get (hm_insert x r parent) y = Some z" using step.hyps(1) by (simp add: hm_simps)
    with step show ?thesis by (blast intro: rootn.step)
  qed
qed

lemma find_fuel_rootn:
  assumes "rootn parent n x r" and "n < k" and "hm_wf parent"
  shows "\<exists>parent'. find_fuel k parent x = Inr (r, parent') \<and> hm_wf parent' \<and>
    dom (hm_get parent') = dom (hm_get parent) \<and>
    (\<forall>m y q. rootn parent m y q \<longrightarrow> (\<exists>m'. rootn parent' m' y q))"
  using assms
proof (induction arbitrary: k rule: rootn.induct)
  case (root x)
  then show ?case by (cases k) auto
next
  case (step x y n r)
  then obtain k' where k: "k = Suc k'" "n < k'" by (cases k) auto
  from step.IH [OF k(2) step.prems(2)] obtain parent' where p':
    "find_fuel k' parent y = Inr (r, parent')" "hm_wf parent'" "dom (hm_get parent') = dom (hm_get parent)"
    "\<And>m y q. rootn parent m y q \<Longrightarrow> \<exists>m'. rootn parent' m' y q" by blast
  have x: "rootn parent (Suc n) x r" using step.hyps by (auto intro: rootn.step)
  have "r \<noteq> x" using rootn_root [OF x] step.hyps(1,2) by auto
  obtain n' where "rootn parent' n' x r" using p'(4) [OF x] by blast
  from rootn_compress [OF this \<open>r \<noteq> x\<close>] p'(4)
  have "\<forall>m y q. rootn parent m y q \<longrightarrow> (\<exists>m'. rootn (hm_insert x r parent') m' y q)" by blast
  moreover have "find_fuel k parent x = Inr (r, hm_insert x r parent')"
    using step.hyps(1,2) p'(1) k(1) by simp
  moreover have "dom (hm_get (hm_insert x r parent')) = dom (hm_get parent)"
    using p'(3) rootn_member [OF x] by (simp add: hm_dom_insert insert_absorb)
  ultimately show ?case using p'(2) by auto
qed

text \<open>
  Exactly what the compression stores: every element on the way from \<open>x\<close> to its root points to the
  root, and no other entry changes.
\<close>

lemma steps_from:
  fixes parent :: "(u32, u32) hashmap"
  defines "R \<equiv> {(a, b). hm_get parent a = Some b}"
  assumes "hm_get parent x = Some y"
  shows "(x, z) \<in> R\<^sup>* \<longleftrightarrow> z = x \<or> (y, z) \<in> R\<^sup>*"
  using assms(2) by (auto simp: R_def elim: converse_rtranclE intro: converse_rtrancl_into_rtrancl)

lemma steps_from_root:
  fixes parent :: "(u32, u32) hashmap"
  assumes "(x, z) \<in> {(a, b). hm_get parent a = Some b}\<^sup>*" and "hm_get parent x = Some x"
  shows "z = x"
  using assms by (induction rule: rtrancl_induct) auto

lemma rootn_steps: "rootn parent n x r \<Longrightarrow> (x, r) \<in> {(a, b). hm_get parent a = Some b}\<^sup>*"
  by (induction rule: rootn.induct) (auto intro: converse_rtrancl_into_rtrancl)

lemma find_fuel_compress:
  assumes "rootn parent n x r" and "n < k"
  shows "\<exists>parent'. find_fuel k parent x = Inr (r, parent') \<and>
    (\<forall>z. hm_get parent' z = (if (x, z) \<in> {(a, b). hm_get parent a = Some b}\<^sup>* then Some r else hm_get parent z))"
  using assms
proof (induction arbitrary: k rule: rootn.induct)
  case (root x)
  then show ?case by (cases k) (auto dest: steps_from_root)
next
  case (step x y n r)
  then obtain k' where k: "k = Suc k'" "n < k'" by (cases k) auto
  from step.IH [OF k(2)] obtain parent' where p': "find_fuel k' parent y = Inr (r, parent')"
    "\<And>z. hm_get parent' z = (if (y, z) \<in> {(a, b). hm_get parent a = Some b}\<^sup>* then Some r else hm_get parent z)" by blast
  have "find_fuel k parent x = Inr (r, hm_insert x r parent')"
    using step.hyps(1,2) p'(1) k(1) by simp
  then show ?case
    using p'(2) by (auto simp: hm_simps steps_from [OF step.hyps(1)])
qed

text \<open>Hanging one root under another moves the trees of the first to the second.\<close>

lemma rootn_link:
  assumes "hm_get parent a = Some a" and "hm_get parent b = Some b" and "a \<noteq> b"
  shows "rootn parent m y q \<Longrightarrow> \<exists>m'. rootn (hm_insert a b parent) m' y (if q = a then b else q)"
proof (induction rule: rootn.induct)
  case (root y)
  have "rootn (hm_insert a b parent) 0 b b"
    using assms by (intro rootn.root) (simp add: hm_simps)
  then have "rootn (hm_insert a b parent) 1 a b"
    using assms(3) by (auto intro!: rootn.step [where y = b] simp: hm_simps)
  moreover have "y \<noteq> a \<Longrightarrow> rootn (hm_insert a b parent) 0 y y"
    using root by (intro rootn.root) (simp add: hm_simps)
  ultimately show ?case by auto
next
  case (step y z m q)
  then have "y \<noteq> a" using assms(1) by auto
  from step.IH obtain m' where "rootn (hm_insert a b parent) m' z (if q = a then b else q)" by blast
  moreover have "hm_get (hm_insert a b parent) y = Some z"
    using step.hyps(1) \<open>y \<noteq> a\<close> by (simp add: hm_simps)
  ultimately show ?case using step.hyps(2) by (blast intro: rootn.step)
qed

lemma uf_find_root:
  assumes "forest parent" and "x \<in> dom (hm_get parent)"
  shows "\<exists>parent'. uf_find parent x = Inr (forest_root parent x, parent') \<and> forest parent' \<and>
    dom (hm_get parent') = dom (hm_get parent) \<and>
    (\<forall>y \<in> dom (hm_get parent). forest_root parent' y = forest_root parent y)"
proof -
  obtain n where n: "rootn parent n x (forest_root parent x)" using forest_rootn [OF assms] by blast
  from find_fuel_rootn [OF this rootn_bound [OF this]] assms(1) obtain parent' where p':
    "uf_find parent x = Inr (forest_root parent x, parent')" "hm_wf parent'"
    "dom (hm_get parent') = dom (hm_get parent)"
    "\<And>m y q. rootn parent m y q \<Longrightarrow> \<exists>m'. rootn parent' m' y q"
    unfolding uf_find_def forest_def by blast
  have "\<exists>m'. rootn parent' m' y (forest_root parent y)" if "y \<in> dom (hm_get parent)" for y
    using forest_rootn [OF assms(1) that] p'(4) by blast
  then have "forest parent' \<and> (\<forall>y \<in> dom (hm_get parent). forest_root parent' y = forest_root parent y)"
    unfolding forest_def p'(3) using p'(2) forest_root_eq by blast
  with p' show ?thesis by blast
qed

lemma forest_link:
  assumes "forest parent" and "a \<in> dom (hm_get parent)" and "b \<in> dom (hm_get parent)"
    and "forest_root parent a = a" and "forest_root parent b = b" and "a \<noteq> b"
  shows "forest (hm_insert a b parent) \<and> dom (hm_get (hm_insert a b parent)) = dom (hm_get parent) \<and>
    (\<forall>z \<in> dom (hm_get parent). forest_root (hm_insert a b parent) z =
       (if forest_root parent z = a then b else forest_root parent z))"
proof -
  have "hm_get parent a = Some a" "hm_get parent b = Some b"
    using forest_rootn [OF assms(1,2)] forest_rootn [OF assms(1,3)] assms(4,5) rootn_root by metis+
  note link = rootn_link [OF this assms(6)]
  have d: "dom (hm_get (hm_insert a b parent)) = dom (hm_get parent)"
    using assms(2) by (simp add: hm_dom_insert insert_absorb)
  have "\<exists>m'. rootn (hm_insert a b parent) m' z (if forest_root parent z = a then b else forest_root parent z)"
    if "z \<in> dom (hm_get parent)" for z
    using forest_rootn [OF assms(1) that] link by blast
  then have new: "\<forall>z \<in> dom (hm_get parent). \<exists>m'. rootn (hm_insert a b parent) m' z
      (if forest_root parent z = a then b else forest_root parent z)" by blast
  then have "forest (hm_insert a b parent)"
    unfolding forest_def d using assms(1) by (intro conjI ballI) (auto simp only: forest_def hm_wf_insert, blast)
  with d new show ?thesis using forest_root_eq by blast
qed

interpretation uf: union_find uf_find hm_insert forest "\<lambda>parent. dom (hm_get parent)" forest_root
proof (unfold_locales, goal_cases)
  case (1 s x)
  then show ?case by (rule uf_find_root)
next
  case (2 s x)
  then obtain n where "rootn s n x (forest_root s x)" using forest_rootn by blast
  then show ?case by (auto dest: rootn_root)
next
  case (3 s x)
  then obtain n where "rootn s n x (forest_root s x)" using forest_rootn by blast
  then have "rootn s 0 (forest_root s x) (forest_root s x)" by (intro rootn.root) (rule rootn_root)
  then show ?case by (rule forest_root_eq)
next
  case (4 s x y)
  then show ?case by (rule forest_link)
qed

text \<open>The initial map of singletons.\<close>

lemma forest_singletons: "forest (hm_collect (map (\<lambda>t. (t, t)) ts))"
  and forest_root_singletons: "t \<in> set ts \<Longrightarrow> forest_root (hm_collect (map (\<lambda>t. (t, t)) ts)) t = t"
  and dom_singletons: "dom (hm_get (hm_collect (map (\<lambda>t. (t, t)) ts))) = set ts"
proof -
  let ?p = "hm_collect (map (\<lambda>t. (t, t)) ts)"
  have g: "hm_get ?p t = (if t \<in> set ts then Some t else None)" for t
    by (simp add: hm_get_collect rev_map map_of_map_keys map_of_eq_None_iff) (auto simp: map_of_map_restrict restrict_map_def)
  then show d: "dom (hm_get ?p) = set ts" by (auto split: if_splits)
  have "rootn ?p 0 t t" if "t \<in> set ts" for t using g that by (auto intro: rootn.root)
  then show "forest ?p" and "t \<in> set ts \<Longrightarrow> forest_root ?p t = t"
    unfolding forest_def d by (auto intro: forest_root_eq)
qed

end
