(* ===== verification/Float64.thy ===== *)
theory Float64
  imports Complex_Main "HOL-Library.Log_Nat" Cohort_Prelude
begin

text \<open>
  The \<open>f64\<close> arithmetic the daemon uses for wake rates and percentages: IEEE 754 binary64 with
  round-to-nearest, ties to even, gradual underflow and overflow to infinity. A finite float is
  its exact rational value; the two zeros are one value, which no operation of the sources can
  tell apart (no division by a zero float is reachable, and no sign of a zero is printed).

  What the proofs need of rounding is the locale \<open>rounding\<close>: monotone, idempotent, odd, and
  exact on 0 and 1. It is interpreted on the binary64 rounding function, so the lemmas about the
  exponentially weighted averages hold of the rounded arithmetic, not of an idealised one.
\<close>

section \<open>Rounding a rational to binary64\<close>

definition round_half_even :: "rat \<Rightarrow> int" where
  "round_half_even x =
     (let f = \<lfloor>x\<rfloor>; r = x - of_int f
      in if r < 1 / 2 then f else if 1 / 2 < r then f + 1 else if even f then f else f + 1)"

text \<open>The binary exponent of a positive rational: \<open>2\<^sup>k \<le> x < 2\<^sup>k\<^sup>+\<^sup>1\<close>.\<close>

definition ilog2 :: "rat \<Rightarrow> int" where
  "ilog2 x =
     (let (n, d) = quotient_of x; k = bitlen n - bitlen d
      in if 2 powi k \<le> x then k else k - 1)"

text \<open>The exponent of the unit in the last place, clamped at the subnormal range.\<close>

definition ulp_exp :: "rat \<Rightarrow> int" where
  "ulp_exp x = max (ilog2 x - 52) (- 1074)"

definition round_pos :: "rat \<Rightarrow> rat" where
  "round_pos x = of_int (round_half_even (x / 2 powi (ulp_exp x))) * 2 powi (ulp_exp x)"

definition f64_round :: "rat \<Rightarrow> rat" where
  "f64_round x = (if x = 0 then 0 else if 0 < x then round_pos x else - round_pos (- x))"

section \<open>Values and operations\<close>

datatype f64 = NaN | PInf | NInf | Fin rat

definition to_f64 :: "rat \<Rightarrow> f64" where
  "to_f64 x =
     (let y = f64_round x
      in if 2 ^ 1024 \<le> y then PInf else if y \<le> - (2 ^ 1024) then NInf else Fin y)"

definition u64_to_f64 :: "u64 \<Rightarrow> f64" where
  "u64_to_f64 w = to_f64 (of_nat (unat w))"

fun f_neg :: "f64 \<Rightarrow> f64" where
  "f_neg NaN = NaN" | "f_neg PInf = NInf" | "f_neg NInf = PInf" | "f_neg (Fin a) = Fin (- a)"

fun f_add :: "f64 \<Rightarrow> f64 \<Rightarrow> f64" where
  "f_add (Fin a) (Fin b) = to_f64 (a + b)"
| "f_add NaN y = NaN"
| "f_add x NaN = NaN"
| "f_add PInf NInf = NaN"
| "f_add NInf PInf = NaN"
| "f_add PInf y = PInf"
| "f_add NInf y = NInf"
| "f_add x PInf = PInf"
| "f_add x NInf = NInf"

definition f_sub :: "f64 \<Rightarrow> f64 \<Rightarrow> f64" where
  "f_sub x y = f_add x (f_neg y)"

text \<open>An infinity times or over a finite number takes the sign of the product.\<close>

definition inf_sign :: "bool \<Rightarrow> f64" where
  "inf_sign neg = (if neg then NInf else PInf)"

fun f_mul :: "f64 \<Rightarrow> f64 \<Rightarrow> f64" where
  "f_mul (Fin a) (Fin b) = to_f64 (a * b)"
| "f_mul NaN y = NaN"
| "f_mul x NaN = NaN"
| "f_mul (Fin a) PInf = (if a = 0 then NaN else inf_sign (a < 0))"
| "f_mul (Fin a) NInf = (if a = 0 then NaN else inf_sign (0 < a))"
| "f_mul PInf (Fin b) = (if b = 0 then NaN else inf_sign (b < 0))"
| "f_mul NInf (Fin b) = (if b = 0 then NaN else inf_sign (0 < b))"
| "f_mul PInf PInf = PInf"
| "f_mul NInf NInf = PInf"
| "f_mul PInf NInf = NInf"
| "f_mul NInf PInf = NInf"

fun f_div :: "f64 \<Rightarrow> f64 \<Rightarrow> f64" where
  "f_div (Fin a) (Fin b) =
     (if b = 0 then (if a = 0 then NaN else inf_sign (a < 0)) else to_f64 (a / b))"
| "f_div NaN y = NaN"
| "f_div x NaN = NaN"
| "f_div (Fin a) _ = Fin 0"
| "f_div PInf (Fin b) = inf_sign (b < 0)"
| "f_div NInf (Fin b) = inf_sign (0 \<le> b)"
| "f_div _ _ = NaN"

text \<open>Comparisons: every comparison with \<open>NaN\<close> is false.\<close>

fun f_lt :: "f64 \<Rightarrow> f64 \<Rightarrow> bool" where
  "f_lt (Fin a) (Fin b) = (a < b)"
| "f_lt NaN y = False"
| "f_lt x NaN = False"
| "f_lt NInf y = (y \<noteq> NInf)"
| "f_lt x PInf = (x \<noteq> PInf)"
| "f_lt x y = False"

definition f_le :: "f64 \<Rightarrow> f64 \<Rightarrow> bool" where
  "f_le x y = (case x of NaN \<Rightarrow> False | _ \<Rightarrow> f_lt x y \<or> x = y)"

text \<open>\<open>f64::min\<close>: the other argument when one is \<open>NaN\<close>.\<close>

definition f_min :: "f64 \<Rightarrow> f64 \<Rightarrow> f64" where
  "f_min x y = (if x = NaN then y else if y = NaN then x else if f_lt y x then y else x)"

section \<open>Properties of the rounding function\<close>

lemma round_half_even_int [simp]: "round_half_even (of_int n) = n"
  by (simp add: round_half_even_def)

lemma round_half_even_cases: "round_half_even x = \<lfloor>x\<rfloor> \<or> round_half_even x = \<lfloor>x\<rfloor> + 1"
  by (auto simp: round_half_even_def Let_def)

lemma round_half_even_mono:
  assumes "x \<le> y"
  shows "round_half_even x \<le> round_half_even y"
proof (cases "\<lfloor>x\<rfloor> = \<lfloor>y\<rfloor>")
  case True
  then show ?thesis using assms by (auto simp: round_half_even_def Let_def)
next
  case False
  then have "\<lfloor>x\<rfloor> + 1 \<le> \<lfloor>y\<rfloor>" using floor_mono [OF assms] by linarith
  then show ?thesis
    using round_half_even_cases [of x] round_half_even_cases [of y] by linarith
qed

lemma round_half_even_le: "x \<le> of_int n \<Longrightarrow> round_half_even x \<le> n"
  using round_half_even_mono [of x "of_int n"] by simp

lemma round_half_even_ge: "of_int n \<le> x \<Longrightarrow> n \<le> round_half_even x"
  using round_half_even_mono [of "of_int n" x] by simp

lemma powi_nat_int: "0 \<le> k \<Longrightarrow> (2 :: rat) powi k = of_int (2 ^ nat k)"
  by (simp add: power_int_nonneg_exp)

lemma bitlen_powi:
  assumes "0 < n"
  shows "(2 :: rat) powi (bitlen n - 1) \<le> of_int n" and "of_int n < (2 :: rat) powi (bitlen n)"
proof -
  have ge: "1 \<le> bitlen n" using assms by (simp add: bitlen_alt_def)
  have "of_int (2 ^ nat (bitlen n - 1)) \<le> (of_int n :: rat)" "(of_int n :: rat) < of_int (2 ^ nat (bitlen n))"
    using bitlen_bounds [OF assms] by (simp_all only: of_int_le_iff of_int_less_iff)
  then show "(2 :: rat) powi (bitlen n - 1) \<le> of_int n" "of_int n < (2 :: rat) powi (bitlen n)"
    using ge by (simp_all only: powi_nat_int)
qed

lemma ilog2_bounds:
  assumes "0 < x"
  shows "2 powi (ilog2 x) \<le> x" and "x < 2 powi (ilog2 x + 1)"
proof -
  obtain n d where q: "quotient_of x = (n, d)" by (cases "quotient_of x")
  have d: "0 < d" using q by (rule quotient_of_denom_pos)
  have x: "x = of_int n / of_int d" using q by (rule quotient_of_div)
  with assms d have n: "0 < n" by (simp add: zero_less_divide_iff)
  let ?a = "bitlen n" and ?b = "bitlen d"
  have "2 powi (?a - 1) / 2 powi ?b < x"
    unfolding x using bitlen_powi [OF n] bitlen_powi [OF d] d
    by (intro frac_less2) auto
  moreover have "(2 :: rat) powi (?a - 1 - ?b) = 2 powi (?a - 1) / 2 powi ?b"
    by (rule power_int_diff) simp
  ultimately have lo: "2 powi (?a - ?b - 1) < x"
    by (simp add: diff_right_commute)
  have "x < 2 powi ?a / 2 powi (?b - 1)"
    unfolding x using bitlen_powi [OF n] bitlen_powi [OF d] d n
    by (intro frac_less) auto
  moreover have "(2 :: rat) powi (?a - (?b - 1)) = 2 powi ?a / 2 powi (?b - 1)"
    by (rule power_int_diff) simp
  ultimately have hi: "x < 2 powi (?a - ?b + 1)"
    by (simp add: algebra_simps)
  show "2 powi (ilog2 x) \<le> x" "x < 2 powi (ilog2 x + 1)"
    using lo hi by (simp_all add: ilog2_def q Let_def)
qed

lemma ilog2_le:
  assumes "0 < x" and "x < 2 powi (k + 1)"
  shows "ilog2 x \<le> k"
proof (rule ccontr)
  assume "\<not> ilog2 x \<le> k"
  then have "(2 :: rat) powi (k + 1) \<le> 2 powi (ilog2 x)"
    by (intro power_int_increasing) auto
  with ilog2_bounds(1) [OF assms(1)] assms(2) show False by linarith
qed

lemma ilog2_ge:
  assumes "0 < x" and "2 powi k \<le> x"
  shows "k \<le> ilog2 x"
proof (rule ccontr)
  assume "\<not> k \<le> ilog2 x"
  then have "(2 :: rat) powi (ilog2 x + 1) \<le> 2 powi k"
    by (intro power_int_increasing) auto
  with ilog2_bounds(2) [OF assms(1)] assms(2) show False by linarith
qed

lemma ilog2_mono: "0 < x \<Longrightarrow> x \<le> y \<Longrightarrow> ilog2 x \<le> ilog2 y"
  using ilog2_bounds [of x] by (intro ilog2_ge) auto

lemma ulp_exp_mono: "0 < x \<Longrightarrow> x \<le> y \<Longrightarrow> ulp_exp x \<le> ulp_exp y"
  using ilog2_mono [of x y] by (auto simp: ulp_exp_def)

lemma round_pos_le:
  assumes "x \<le> of_int m * 2 powi (ulp_exp x)"
  shows "round_pos x \<le> of_int m * 2 powi (ulp_exp x)"
proof -
  have "x / 2 powi (ulp_exp x) \<le> of_int m"
    using assms by (simp add: divide_le_eq)
  then have "round_half_even (x / 2 powi (ulp_exp x)) \<le> m" by (rule round_half_even_le)
  then show ?thesis by (simp add: round_pos_def)
qed

lemma round_pos_ge:
  assumes "of_int m * 2 powi (ulp_exp x) \<le> x"
  shows "of_int m * 2 powi (ulp_exp x) \<le> round_pos x"
proof -
  have "of_int m \<le> x / 2 powi (ulp_exp x)"
    using assms by (simp add: le_divide_eq)
  then have "m \<le> round_half_even (x / 2 powi (ulp_exp x))" by (rule round_half_even_ge)
  then show ?thesis by (simp add: round_pos_def)
qed

text \<open>A power of two above the unit in the last place is a multiple of it.\<close>

lemma powi_multiple:
  assumes "e \<le> k"
  shows "(2 :: rat) powi k = of_int (2 ^ nat (k - e)) * 2 powi e"
proof -
  have "(2 :: rat) powi k = 2 powi (k - e) * 2 powi e"
    by (simp add: power_int_add [symmetric])
  then show ?thesis using assms by (simp only: powi_nat_int)
qed

lemma round_pos_mono:
  assumes "0 < x" and "x \<le> y"
  shows "round_pos x \<le> round_pos y"
proof (cases "ulp_exp x = ulp_exp y")
  case True
  have "x / 2 powi (ulp_exp x) \<le> y / 2 powi (ulp_exp x)"
    using assms(2) by (intro divide_right_mono) auto
  from round_half_even_mono [OF this] True show ?thesis
    by (simp add: round_pos_def)
next
  case False
  let ?k = "ilog2 y"
  have y: "0 < y" using assms by simp
  have lt: "ulp_exp x < ulp_exp y"
    using ulp_exp_mono [OF assms] False by simp
  then have ey: "ulp_exp y = ?k - 52" and "ilog2 x < ?k"
    by (auto simp: ulp_exp_def split: if_splits)
  then have "x \<le> 2 powi ?k"
    using ilog2_bounds(2) [OF assms(1)] power_int_increasing [of "ilog2 x + 1" ?k "2 :: rat"] by auto
  moreover have "ulp_exp x \<le> ?k" "ulp_exp y \<le> ?k" using lt ey by auto
  ultimately have "round_pos x \<le> 2 powi ?k" "2 powi ?k \<le> round_pos y"
    using round_pos_le [of x "2 ^ nat (?k - ulp_exp x)"] round_pos_ge [of "2 ^ nat (?k - ulp_exp y)" y]
      ilog2_bounds(1) [OF y] powi_multiple [of "ulp_exp x" ?k] powi_multiple [of "ulp_exp y" ?k]
    by metis+
  then show ?thesis by linarith
qed

lemma round_pos_nonneg: "0 < x \<Longrightarrow> 0 \<le> round_pos x"
  using round_pos_ge [of 0 x] by simp

lemma round_pos_exact:
  assumes "x = of_int m * 2 powi e" and "0 < m" and "m \<le> 2 ^ 53" and "- 1074 \<le> e"
  shows "round_pos x = x"
proof -
  have x: "0 < x" using assms(1,2) by simp
  have "\<exists>j :: int. x = of_int j * 2 powi (ulp_exp x)"
  proof (cases "ulp_exp x \<le> e")
    case True
    have "x = of_int m * (of_int (2 ^ nat (e - ulp_exp x)) * 2 powi (ulp_exp x))"
      using assms(1) unfolding powi_multiple [OF True, symmetric] .
    then have "x = of_int (m * 2 ^ nat (e - ulp_exp x)) * 2 powi (ulp_exp x)"
      by (simp only: of_int_mult mult.assoc)
    then show ?thesis by blast
  next
    case False
    then have u: "ulp_exp x = ilog2 x - 52" and lt: "e + 53 \<le> ilog2 x"
      using assms(4) by (auto simp: ulp_exp_def split: if_splits)
    have "(of_int m :: rat) \<le> of_int (2 ^ 53)" using assms(3) by (simp only: of_int_le_iff)
    then have "x \<le> of_int (2 ^ 53) * 2 powi e"
      unfolding assms(1) by (rule mult_right_mono) simp
    also have "\<dots> = 2 powi (e + 53)" by (simp add: power_int_add)
    finally have "x \<le> 2 powi (e + 53)" .
    moreover have "(2 :: rat) powi (e + 53) \<le> 2 powi (ilog2 x)"
      using lt by (intro power_int_increasing) auto
    ultimately have "x = 2 powi (ilog2 x)"
      using ilog2_bounds(1) [OF x] by linarith
    then show ?thesis using powi_multiple [of "ulp_exp x" "ilog2 x"] u by (metis add.commute diff_le_eq le_add_same_cancel1 zero_le_numeral)
  qed
  then obtain j :: int where "x = of_int j * 2 powi (ulp_exp x)" by blast
  then have "x / 2 powi (ulp_exp x) = of_int j" by (simp add: field_simps)
  then have "round_pos x = of_int j * 2 powi (ulp_exp x)"
    by (simp only: round_pos_def round_half_even_int)
  with \<open>x = of_int j * 2 powi (ulp_exp x)\<close> show ?thesis by simp
qed

lemma round_pos_form:
  assumes "0 < x"
  shows "\<exists>m. round_pos x = of_int m * 2 powi (ulp_exp x) \<and> 0 \<le> m \<and> m \<le> 2 ^ 53"
proof -
  let ?m = "round_half_even (x / 2 powi (ulp_exp x))"
  have "x < 2 powi (ilog2 x + 1)" using assms by (rule ilog2_bounds)
  also have "\<dots> \<le> 2 powi (53 + ulp_exp x)"
    by (intro power_int_increasing) (auto simp: ulp_exp_def)
  also have "\<dots> = of_int (2 ^ 53) * 2 powi (ulp_exp x)" by (simp add: power_int_add)
  finally have "x / 2 powi (ulp_exp x) \<le> of_int (2 ^ 53)" by (simp add: divide_le_eq)
  then have "?m \<le> 2 ^ 53" by (rule round_half_even_le)
  moreover have "0 \<le> ?m"
    using assms by (intro round_half_even_ge) simp
  ultimately show ?thesis by (auto simp: round_pos_def)
qed

lemma round_pos_idem:
  assumes "0 < x" and "0 < round_pos x"
  shows "round_pos (round_pos x) = round_pos x"
proof -
  obtain m where m: "round_pos x = of_int m * 2 powi (ulp_exp x)" "0 \<le> m" "m \<le> 2 ^ 53"
    using round_pos_form [OF assms(1)] by blast
  moreover have "0 < m" using m(1,2) assms(2) by (cases "m = 0") auto
  moreover have "- 1074 \<le> ulp_exp x" by (simp add: ulp_exp_def)
  ultimately show ?thesis by (intro round_pos_exact)
qed

section \<open>The contract of rounding, and its interpretation\<close>

locale rounding =
  fixes rnd :: "rat \<Rightarrow> rat"
  assumes mono: "x \<le> y \<Longrightarrow> rnd x \<le> rnd y"
    and idem: "rnd (rnd x) = rnd x"
    and odd: "rnd (- x) = - rnd x"
    and zero: "rnd 0 = 0"
    and one: "rnd 1 = 1"
begin

lemma nonneg: "0 \<le> x \<Longrightarrow> 0 \<le> rnd x"
  using mono [of 0 x] zero by simp

lemma le_rep: "x \<le> y \<Longrightarrow> rnd y = y \<Longrightarrow> rnd x \<le> y"
  using mono [of x y] by simp

lemma rep_le: "x \<le> y \<Longrightarrow> rnd x = x \<Longrightarrow> x \<le> rnd y"
  using mono [of x y] by simp

text \<open>The smoothing factor \<open>dt / (dt + tau)\<close> of a non-negative time constant is in \<open>[0, 1]\<close>.\<close>

lemma factor_range:
  assumes "0 < dt" and "rnd dt = dt" and "0 \<le> tau"
  shows "0 \<le> rnd (dt / rnd (dt + tau)) \<and> rnd (dt / rnd (dt + tau)) \<le> 1"
proof -
  have "dt \<le> rnd (dt + tau)" using rep_le [of dt "dt + tau"] assms by simp
  with assms(1) have "0 \<le> dt / rnd (dt + tau)" "dt / rnd (dt + tau) \<le> 1"
    by (simp_all add: divide_le_eq)
  then show ?thesis using nonneg le_rep [OF _ one] by simp
qed

text \<open>One step of the exponentially weighted average, with every operation rounded.\<close>

lemma ewma_nonneg:
  assumes "0 \<le> alpha" and "alpha \<le> 1" and "0 \<le> inst" and "0 \<le> r" and "rnd r = r"
  shows "0 \<le> rnd (r + rnd (alpha * rnd (inst - r)))"
proof -
  have rep: "rnd (- r) = - r" using assms(5) odd by simp
  have d: "- r \<le> rnd (inst - r)" using rep_le [OF _ rep] assms(3) by simp
  have "- r \<le> alpha * rnd (inst - r)"
  proof (cases "0 \<le> rnd (inst - r)")
    case True
    then have "0 \<le> alpha * rnd (inst - r)" using assms(1) by simp
    with assms(4) show ?thesis by linarith
  next
    case False
    then have "rnd (inst - r) \<le> alpha * rnd (inst - r)"
      using assms(2) by (simp add: mult_le_cancel_right1)
    with d show ?thesis by linarith
  qed
  then have "- r \<le> rnd (alpha * rnd (inst - r))" using rep_le [OF _ rep] by simp
  then show ?thesis by (intro nonneg) linarith
qed

lemma ewma_falls:
  assumes "0 \<le> alpha" and "inst \<le> r" and "rnd r = r"
  shows "rnd (r + rnd (alpha * rnd (inst - r))) \<le> r"
proof -
  have "rnd (inst - r) \<le> 0" using le_rep [OF _ zero] assms(2) by simp
  then have "alpha * rnd (inst - r) \<le> 0" using assms(1) by (simp add: mult_nonneg_nonpos)
  then have "rnd (alpha * rnd (inst - r)) \<le> 0" using le_rep [OF _ zero] by simp
  then show ?thesis using le_rep [OF _ assms(3)] by simp
qed

lemma ewma_bounded:
  assumes "0 \<le> alpha" and "alpha \<le> 1" and "0 \<le> r" and "inst \<le> b" and "r \<le> 2 * b"
    and "rnd r = r" and "rnd b = b" and "rnd (2 * b) = 2 * b"
  shows "rnd (r + rnd (alpha * rnd (inst - r))) \<le> 2 * b"
proof (cases "inst \<le> r")
  case True
  then show ?thesis using ewma_falls [OF assms(1) True assms(6)] assms(5) by linarith
next
  case False
  then have b: "r \<le> b" "0 \<le> b" using assms(3,4) by auto
  have "rnd (inst - r) \<le> b" using le_rep [OF _ assms(7)] assms(3,4) by simp
  moreover have "alpha * b \<le> b" using assms(2) b(2) by (simp add: mult_left_le_one_le assms(1))
  ultimately have "alpha * rnd (inst - r) \<le> b"
    using assms(1) mult_left_mono order_trans by blast
  then have "rnd (alpha * rnd (inst - r)) \<le> b" using le_rep [OF _ assms(7)] by simp
  then show ?thesis using le_rep [OF _ assms(8)] b(1) by simp
qed

end

lemma f64_round_mono: "x \<le> y \<Longrightarrow> f64_round x \<le> f64_round y"
  using round_pos_mono [of x y] round_pos_mono [of "- y" "- x"] round_pos_nonneg [of y] round_pos_nonneg [of "- x"]
  by (auto simp: f64_round_def)

lemma f64_round_idem: "f64_round (f64_round x) = f64_round x"
  using round_pos_idem [of x] round_pos_idem [of "- x"] round_pos_nonneg [of x] round_pos_nonneg [of "- x"]
  by (auto simp: f64_round_def)

lemma f64_round_exact:
  assumes "\<bar>m\<bar> \<le> 2 ^ 53" and "- 1074 \<le> e"
  shows "f64_round (of_int m * 2 powi e) = of_int m * 2 powi e"
proof (cases m "0 :: int" rule: linorder_cases)
  case less
  then have "round_pos (of_int (- m) * 2 powi e) = of_int (- m) * 2 powi e"
    using assms by (intro round_pos_exact [OF refl]) auto
  moreover have "(of_int m :: rat) * 2 powi e < 0" using less by (simp add: mult_neg_pos)
  ultimately show ?thesis by (simp add: f64_round_def)
next
  case greater
  then have "round_pos (of_int m * 2 powi e) = of_int m * 2 powi e"
    using assms by (intro round_pos_exact [OF refl]) auto
  with greater show ?thesis by (simp add: f64_round_def)
qed (simp add: f64_round_def)

lemma f64_round_int: "\<bar>m\<bar> \<le> 2 ^ 53 \<Longrightarrow> f64_round (of_int m) = of_int m"
  using f64_round_exact [of m 0] by simp

interpretation rnd: rounding f64_round
proof
  show "f64_round (- x) = - f64_round x" for x
    by (auto simp: f64_round_def)
  show "f64_round 1 = 1"
    using f64_round_int [of 1] by simp
qed (auto simp: f64_round_mono f64_round_idem f64_round_def [of 0])

section \<open>Representable values and finite results\<close>

definition f64_rep :: "f64 \<Rightarrow> bool" where
  "f64_rep x = (case x of Fin q \<Rightarrow> f64_round q = q \<and> \<bar>q\<bar> < 2 ^ 1024 | _ \<Rightarrow> True)"

text \<open>The overflow test, evaluated only on numbers it could concern.\<close>

lemma to_f64_code [code]:
  "to_f64 x =
     (let y = f64_round x
      in if y < 1267650600228229401496703205376 \<and> - 1267650600228229401496703205376 < y then Fin y
         else if 2 ^ 1024 \<le> y then PInf else if y \<le> - (2 ^ 1024) then NInf else Fin y)"
  by (simp add: to_f64_def Let_def)

lemma f64_rep_to_f64 [simp]: "f64_rep (to_f64 x)"
  by (auto simp: to_f64_def f64_rep_def Let_def f64_round_idem abs_less_iff not_le)

lemma f64_rep_div [simp]: "f64_rep (f_div x y)"
proof -
  have "f64_rep (inf_sign b)" for b by (simp add: inf_sign_def f64_rep_def)
  moreover have "f64_rep NaN" "f64_rep (Fin 0)" by (simp_all add: f64_rep_def rnd.zero)
  ultimately show ?thesis by (cases "(x, y)" rule: f_div.cases) auto
qed

lemma f64_rep_mul [simp]: "f64_rep (f_mul x y)"
proof -
  have "f64_rep (inf_sign b)" for b by (simp add: inf_sign_def f64_rep_def)
  moreover have "f64_rep NaN" "f64_rep PInf" "f64_rep NInf" by (simp_all add: f64_rep_def)
  ultimately show ?thesis by (cases "(x, y)" rule: f_mul.cases) auto
qed

lemma to_f64_rep: "f64_rep (Fin q) \<Longrightarrow> to_f64 q = Fin q"
  by (auto simp: f64_rep_def to_f64_def Let_def)

lemma f_add_zero [simp]: "f64_rep x \<Longrightarrow> f_add (Fin 0) x = x"
  by (cases x) (auto simp: to_f64_rep)

lemma f_sub_zero [simp]: "f64_rep x \<Longrightarrow> f_sub x (Fin 0) = x"
  by (cases x) (auto simp: f_sub_def to_f64_rep)

lemma f64_round_power: "n \<le> 1024 \<Longrightarrow> f64_round (2 ^ n) = 2 ^ n"
  using f64_round_exact [of 1 "int n"] by (simp add: power_int_def)

lemma to_f64_range:
  assumes "\<bar>x\<bar> \<le> 2 ^ n" and "n \<le> 1023"
  shows "to_f64 x = Fin (f64_round x)" and "\<bar>f64_round x\<bar> \<le> 2 ^ n" and "f64_rep (Fin (f64_round x))"
proof -
  have p: "f64_round (2 ^ n) = 2 ^ n" using assms(2) by (intro f64_round_power) simp
  have m: "f64_round (- (2 ^ n)) = - (2 ^ n)" using p by (simp only: rnd.odd)
  have u: "f64_round x \<le> 2 ^ n" using assms(1) by (intro rnd.le_rep [OF _ p]) simp
  have l: "- (2 ^ n) \<le> f64_round x" using assms(1) by (intro rnd.rep_le [OF _ m]) simp
  show r: "\<bar>f64_round x\<bar> \<le> 2 ^ n" using u l by (simp add: abs_le_iff)
  have "(2 :: rat) ^ n < 2 ^ 1024" using assms(2) by (intro power_strict_increasing) auto
  with r have b: "\<bar>f64_round x\<bar> < 2 ^ 1024" by linarith
  then show "to_f64 x = Fin (f64_round x)" by (auto simp: to_f64_def Let_def abs_less_iff)
  show "f64_rep (Fin (f64_round x))" using b by (simp add: f64_rep_def f64_round_idem)
qed

text \<open>Exact results on small numbers, for evaluating concrete runs by simplification.\<close>

lemma to_f64_small [simp]:
  "to_f64 0 = Fin 0" "to_f64 1 = Fin 1"
  "(numeral n :: int) \<le> 2 ^ 53 \<Longrightarrow> to_f64 (numeral n) = Fin (numeral n)"
  "(numeral n :: int) \<le> 2 ^ 53 \<Longrightarrow> to_f64 (- numeral n) = Fin (- numeral n)"
  "to_f64 (1 / 2) = Fin (1 / 2)"
proof -
  have int: "to_f64 (of_int m) = Fin (of_int m)" if "\<bar>m\<bar> \<le> 2 ^ 53" for m
  proof -
    have "\<bar>of_int m :: rat\<bar> = of_int \<bar>m\<bar>" by simp
    also have "\<dots> \<le> of_int (2 ^ 53)" using that by (simp only: of_int_le_iff)
    also have "\<dots> = 2 ^ 53" by simp
    finally have "\<bar>of_int m :: rat\<bar> \<le> 2 ^ 53" .
    from to_f64_range(1) [OF this] f64_round_int [OF that] show ?thesis by simp
  qed
  show "to_f64 0 = Fin 0" "to_f64 1 = Fin 1" using int [of 0] int [of 1] by simp_all
  show "to_f64 (numeral n) = Fin (numeral n)" if "(numeral n :: int) \<le> 2 ^ 53"
    using int [of "numeral n"] that by simp
  show "to_f64 (- numeral n) = Fin (- numeral n)" if "(numeral n :: int) \<le> 2 ^ 53"
    using int [of "- numeral n"] that by simp
  have "f64_round (1 / 2) = 1 / 2"
    using f64_round_exact [of 1 "- 1"] by (simp add: power_int_def inverse_eq_divide)
  with to_f64_range(1) [of "1 / 2" 0] show "to_f64 (1 / 2) = Fin (1 / 2)" by simp
qed

text \<open>The smoothing factor of \<open>observe\<close> is a finite number in \<open>[0, 1]\<close>.\<close>

lemma f_factor:
  assumes "0 < d" and "f64_rep (Fin d)" and "0 \<le> t"
  shows "\<exists>a. f_div (Fin d) (f_add (Fin d) (Fin t)) = Fin a \<and> 0 \<le> a \<and> a \<le> 1"
proof -
  have d: "f64_round d = d" using assms(2) by (simp add: f64_rep_def)
  have s: "d \<le> f64_round (d + t)" using assms(3) by (intro rnd.rep_le [OF _ d]) simp
  show ?thesis
  proof (cases "f_add (Fin d) (Fin t)")
    case (Fin s')
    then have s': "s' = f64_round (d + t)" by (auto simp: to_f64_def Let_def split: if_splits)
    have "0 \<le> d / s'" "d / s' \<le> 1" using assms(1) s s' by (simp_all add: divide_le_eq)
    then have "to_f64 (d / s') = Fin (f64_round (d / s'))"
      by (intro to_f64_range [of _ 0]) auto
    moreover have "s' \<noteq> 0" using assms(1) s s' by simp
    ultimately show ?thesis using Fin rnd.factor_range [OF assms(1) d assms(3)] s' by simp
  next
    case NInf
    moreover have "\<not> f64_round (d + t) \<le> - (2 ^ 1024)" using s assms(1) by (simp add: not_le)
    ultimately show ?thesis by (auto simp: to_f64_def Let_def split: if_splits)
  qed (auto simp: to_f64_def Let_def split: if_splits)
qed

end
