(* ===== verification/Hysteresis.thy ===== *)
theory Hysteresis
  imports Cohort_Prelude
begin

text \<open>
  The confirmation counter: the contract behind every "act only after \<open>n\<close> consecutive
  observations" rule of the daemon. Three components provide it: the balancer's imbalance
  streak, the over-threshold ticks of a wake edge, and the split streak of a cohort. Each
  interprets the locale on its own step function; the theorem that an action is always
  preceded by enough consecutive observations is proved once, here.

  An input may also leave the counter alone (\<open>observes i\<close> is false): a balancer tick on a
  single-LLC machine, or an edge whose processes are not mapped to a cohort.
\<close>

fun run_steps :: "('i \<Rightarrow> 's \<Rightarrow> 's \<times> bool) \<Rightarrow> 'i list \<Rightarrow> 's \<Rightarrow> 's" where
  "run_steps step [] s = s"
| "run_steps step (i # is) s = run_steps step is (fst (step i s))"

lemma run_steps_append [simp]:
  "run_steps step (xs @ ys) s = run_steps step ys (run_steps step xs s)"
  by (induction xs arbitrary: s) auto

text \<open>The length of the run of inputs satisfying \<open>P\<close> at the end of a list.\<close>

definition trailing :: "('i \<Rightarrow> bool) \<Rightarrow> 'i list \<Rightarrow> nat" where
  "trailing P xs = length (takeWhile P (rev xs))"

lemma trailing_Nil [simp]: "trailing P [] = 0"
  by (simp add: trailing_def)

lemma trailing_snoc [simp]: "trailing P (xs @ [x]) = (if P x then Suc (trailing P xs) else 0)"
  by (simp add: trailing_def)

lemma trailing_suffix:
  assumes "n \<le> trailing P xs"
  shows "n \<le> length xs \<and> (\<forall>x \<in> set (drop (length xs - n) xs). P x)"
proof -
  have len: "n \<le> length (takeWhile P (rev xs))"
    using assms by (simp add: trailing_def)
  then have n: "n \<le> length xs"
    using length_takeWhile_le [of P "rev xs"] by simp
  have "take n (rev xs) = take n (takeWhile P (rev xs))"
    using len by (metis takeWhile_eq_take take_take min.absorb1)
  then have "set (take n (rev xs)) \<subseteq> set (takeWhile P (rev xs))"
    by (metis set_take_subset)
  moreover have "set (take n (rev xs)) = set (drop (length xs - n) xs)"
    by (metis rev_rev_ident set_rev take_rev length_rev rev_take drop_rev)
  ultimately show ?thesis
    using n by (auto dest: set_takeWhileD)
qed

locale confirm_counter =
  fixes step :: "'i \<Rightarrow> 's \<Rightarrow> 's \<times> bool"
    and inv :: "'s \<Rightarrow> bool"
    and observes :: "'i \<Rightarrow> bool"
    and over :: "'i \<Rightarrow> bool"
    and count :: "'s \<Rightarrow> nat"
    and needed :: nat
  assumes inv_step: "inv s \<Longrightarrow> inv (fst (step i s))"
    and blind_keeps: "inv s \<Longrightarrow> \<not> observes i \<Longrightarrow> count (fst (step i s)) \<le> count s"
    and calm_resets: "inv s \<Longrightarrow> observes i \<Longrightarrow> \<not> over i \<Longrightarrow> count (fst (step i s)) = 0"
    and over_bounded: "inv s \<Longrightarrow> observes i \<Longrightarrow> over i \<Longrightarrow> count (fst (step i s)) \<le> Suc (count s)"
    and acts_confirmed: "inv s \<Longrightarrow> snd (step i s) \<Longrightarrow> observes i \<and> over i \<and> needed \<le> Suc (count s)"
begin

lemma inv_run: "inv s \<Longrightarrow> inv (run_steps step is s)"
  by (induction "is" arbitrary: s) (auto simp: inv_step)

lemma count_le_trailing:
  assumes "inv s" and "count s = 0"
  shows "count (run_steps step is s) \<le> trailing over (filter observes is)"
proof (induction "is" rule: rev_induct)
  case Nil
  then show ?case using assms by simp
next
  case (snoc i xs)
  have inv: "inv (run_steps step xs s)"
    using assms(1) by (rule inv_run)
  show ?case
  proof (cases "observes i")
    case False
    with snoc blind_keeps [OF inv] show ?thesis
      by (auto intro: order_trans)
  next
    case True
    with snoc calm_resets [OF inv] over_bounded [OF inv, of i] show ?thesis
      by auto
  qed
qed

text \<open>An action at the end of a run was preceded by \<open>needed\<close> consecutive observations.\<close>

lemma confirmed_run:
  assumes "inv s" and "count s = 0"
    and "snd (step i (run_steps step is s))"
  shows "needed \<le> trailing over (filter observes (is @ [i]))"
proof -
  have "inv (run_steps step is s)"
    using assms(1) by (rule inv_run)
  from acts_confirmed [OF this assms(3)] have
    "observes i" "over i" "needed \<le> Suc (count (run_steps step is s))" by auto
  with count_le_trailing [OF assms(1,2), of "is"] show ?thesis by simp
qed

end

end
