(* ===== verification/Wake_Graph.thy ===== *)
theory Wake_Graph
  imports Union_Find_Forest Float64 Hysteresis
begin

text \<open>
  The wake graph, \<open>scx_cohort/src/wake_graph.rs\<close>: edge rates smoothed over ticks (\<open>observe\<close>),
  merges of cohorts whose cross-cohort traffic stays high (\<open>merges\<close>), and splits of cohorts whose
  internal graph stays disconnected (\<open>splits\<close>). Rates are binary64 numbers (\<open>Float64\<close>), counters
  and tick streaks are machine words.
\<close>

section \<open>Data\<close>

definition ekey :: "u32 \<Rightarrow> u32 \<Rightarrow> u32 \<times> u32" where
  "ekey a b = (if a < b then (a, b) else (b, a))"

record WakeGraphCfg =
  merge_wakes_per_sec :: f64
  merge_confirm_ticks :: u32
  split_min_wakes_per_sec :: f64
  split_confirm_ticks :: u32
  split_min_tasks :: u64
  rate_tau_s :: f64

definition WakeGraphCfg_default :: WakeGraphCfg where
  "WakeGraphCfg_default =
     \<lparr> merge_wakes_per_sec = Fin 300, merge_confirm_ticks = 3,
       split_min_wakes_per_sec = Fin 10, split_confirm_ticks = 25,
       split_min_tasks = 2, rate_tau_s = Fin 1 \<rparr>"

record MergePlan =
  m_into :: u64
  m_from :: u64

record SplitPlan =
  s_cohort :: u64
  off_tgids :: "u32 list"

record EdgeState =
  e_rate :: f64
  e_inst :: f64
  over_ticks :: u32

record WakeGraph =
  wg_cfg :: WakeGraphCfg
  edges :: "(u32 \<times> u32, EdgeState) hashmap"
  split_streak :: "(u64, u32) hashmap"

definition WakeGraph_new :: "WakeGraphCfg \<Rightarrow> WakeGraph" where
  "WakeGraph_new cfg = \<lparr> wg_cfg = cfg, edges = [], split_streak = [] \<rparr>"

section \<open>Observation\<close>

text \<open>The traffic of a tick per undirected edge; the counters wrap at 64 bits.\<close>

definition fresh_counts :: "u64 \<Rightarrow> (u32 \<times> u32 \<times> u64) list \<Rightarrow> (u32 \<times> u32, u64) hashmap" where
  "fresh_counts sample_mult deltas =
     fold (\<lambda>(a, b, count). hm_entry (ekey a b) 0 (\<lambda>c. c + count * sample_mult)) deltas []"

text \<open>One known edge: \<open>st.rate += alpha * (inst - st.rate)\<close>.\<close>

definition decay_edge :: "f64 \<Rightarrow> f64 \<Rightarrow> u64 \<Rightarrow> EdgeState \<Rightarrow> EdgeState" where
  "decay_edge alpha dt_s count st =
     (let inst = f_div (u64_to_f64 count) dt_s
      in st\<lparr> e_inst := inst, e_rate := f_add (e_rate st) (f_mul alpha (f_sub inst (e_rate st))) \<rparr>)"

definition new_edge :: "f64 \<Rightarrow> f64 \<Rightarrow> u64 \<Rightarrow> EdgeState" where
  "new_edge alpha dt_s count =
     (let inst = f_div (u64_to_f64 count) dt_s
      in \<lparr> e_rate = f_mul alpha inst, e_inst = inst, over_ticks = 0 \<rparr>)"

definition observe :: "(u32 \<times> u32 \<times> u64) list \<Rightarrow> f64 \<Rightarrow> u64 \<Rightarrow> WakeGraph \<Rightarrow> WakeGraph" where
  "observe deltas dt_s sample_mult g =
     (if f_le dt_s (Fin 0) then g
      else
        let alpha = f_div dt_s (f_add dt_s (rate_tau_s (wg_cfg g)));
            fresh = fresh_counts sample_mult deltas;
            decayed = map (\<lambda>(key, st).
                        (key, decay_edge alpha dt_s (case hm_get fresh key of Some c \<Rightarrow> c | None \<Rightarrow> 0) st)) (edges g);
            blended = fold (\<lambda>(key, count) es.
                        if hm_contains es key then es else hm_insert key (new_edge alpha dt_s count) es) fresh decayed
        in g\<lparr> edges := hm_retain (\<lambda>_ st. f_le (f_div (split_min_wakes_per_sec (wg_cfg g)) (Fin 10)) (e_rate st)) blended \<rparr>)"

text \<open>The two edge loops of \<open>observe\<close> as recursions, for evaluation.\<close>

fun decay_edges :: "f64 \<Rightarrow> f64 \<Rightarrow> (u32 \<times> u32, u64) hashmap \<Rightarrow> (u32 \<times> u32, EdgeState) hashmap \<Rightarrow>
    (u32 \<times> u32, EdgeState) hashmap" where
  "decay_edges alpha dt_s fresh [] = []"
| "decay_edges alpha dt_s fresh ((key, st) # es) =
     (key, decay_edge alpha dt_s (case hm_get fresh key of Some c \<Rightarrow> c | None \<Rightarrow> 0) st) # decay_edges alpha dt_s fresh es"

fun add_vacant :: "f64 \<Rightarrow> f64 \<Rightarrow> (u32 \<times> u32, u64) hashmap \<Rightarrow> (u32 \<times> u32, EdgeState) hashmap \<Rightarrow>
    (u32 \<times> u32, EdgeState) hashmap" where
  "add_vacant alpha dt_s [] es = es"
| "add_vacant alpha dt_s ((key, count) # fresh) es =
     add_vacant alpha dt_s fresh (if hm_contains es key then es else hm_insert key (new_edge alpha dt_s count) es)"

lemma decay_edges_map:
  "map (\<lambda>(key, st). (key, decay_edge alpha dt_s (case hm_get fresh key of Some c \<Rightarrow> c | None \<Rightarrow> 0) st)) es =
     decay_edges alpha dt_s fresh es"
  by (induction es) auto

lemma add_vacant_fold:
  "fold (\<lambda>(key, count) es. if hm_contains es key then es else hm_insert key (new_edge alpha dt_s count) es) fresh es =
     add_vacant alpha dt_s fresh es"
  by (induction fresh arbitrary: es) auto

lemma observe_code [code]:
  "observe deltas dt_s sample_mult g =
     (if f_le dt_s (Fin 0) then g
      else
        let alpha = f_div dt_s (f_add dt_s (rate_tau_s (wg_cfg g)));
            fresh = fresh_counts sample_mult deltas
        in g\<lparr> edges := hm_retain (\<lambda>_ st. f_le (f_div (split_min_wakes_per_sec (wg_cfg g)) (Fin 10)) (e_rate st))
             (add_vacant alpha dt_s fresh (decay_edges alpha dt_s fresh (edges g))) \<rparr>)"
  unfolding observe_def Let_def decay_edges_map add_vacant_fold ..

section \<open>Merges\<close>

text \<open>
  The body of the edge loop of \<open>merges\<close>: the edge's new state, the cohorts already taken, and the
  plan it yields, if any. Each \<open>continue\<close> of the source is a branch.
\<close>

definition merge_edge :: "WakeGraphCfg \<Rightarrow> (u32, u64) hashmap \<Rightarrow> (u64, u64) hashmap \<Rightarrow>
    u32 \<times> u32 \<Rightarrow> EdgeState \<Rightarrow> u64 set \<Rightarrow> EdgeState \<times> u64 set \<times> MergePlan list" where
  "merge_edge cfg tgid_cohort cohort_sizes key st merged =
     (case (hm_get tgid_cohort (fst key), hm_get tgid_cohort (snd key)) of
        (Some ca, Some cb) \<Rightarrow>
          if ca = cb then (st\<lparr> over_ticks := 0 \<rparr>, merged, [])
          else if f_lt (e_rate st) (merge_wakes_per_sec cfg) \<or> f_lt (e_inst st) (merge_wakes_per_sec cfg)
          then (st\<lparr> over_ticks := 0 \<rparr>, merged, [])
          else
            let st = st\<lparr> over_ticks := over_ticks st + 1 \<rparr>
            in if over_ticks st < merge_confirm_ticks cfg then (st, merged, [])
               else if ca \<in> merged \<or> cb \<in> merged then (st, merged, [])
               else
                 let sa = (case hm_get cohort_sizes ca of Some n \<Rightarrow> n | None \<Rightarrow> 0);
                     sb = (case hm_get cohort_sizes cb of Some n \<Rightarrow> n | None \<Rightarrow> 0);
                     (into, from') = (if sb \<le> sa then (ca, cb) else (cb, ca))
                 in (st\<lparr> over_ticks := 0 \<rparr>, insert cb (insert ca merged),
                     [\<lparr> m_into = into, m_from = from' \<rparr>])
      | _ \<Rightarrow> (st, merged, []))"

fun merges_loop :: "WakeGraphCfg \<Rightarrow> (u32, u64) hashmap \<Rightarrow> (u64, u64) hashmap \<Rightarrow>
    (u32 \<times> u32, EdgeState) hashmap \<Rightarrow> u64 set \<Rightarrow> (u32 \<times> u32, EdgeState) hashmap \<times> MergePlan list" where
  "merges_loop cfg tgid_cohort cohort_sizes [] merged = ([], [])"
| "merges_loop cfg tgid_cohort cohort_sizes ((key, st) # es) merged =
     (let (st', merged', plans) = merge_edge cfg tgid_cohort cohort_sizes key st merged;
          (es', out) = merges_loop cfg tgid_cohort cohort_sizes es merged'
      in ((key, st') # es', plans @ out))"

definition merges :: "(u32, u64) hashmap \<Rightarrow> (u64, u64) hashmap \<Rightarrow> WakeGraph \<Rightarrow> WakeGraph \<times> MergePlan list" where
  "merges tgid_cohort cohort_sizes g =
     (let (es, out) = merges_loop (wg_cfg g) tgid_cohort cohort_sizes (edges g) {}
      in (g\<lparr> edges := es \<rparr>, out))"

section \<open>Splits\<close>

text \<open>The edge loop: union the endpoints of every live edge inside the cohort.\<close>

definition union_edges :: "WakeGraphCfg \<Rightarrow> (u32 \<times> u32, EdgeState) hashmap \<Rightarrow> (u32, u32) hashmap \<Rightarrow>
    panic + (u32, u32) hashmap" where
  "union_edges cfg es parent =
     try_fold (\<lambda>((a, b), st) parent.
       if f_lt (e_rate st) (split_min_wakes_per_sec cfg) then Inr parent
       else if hm_contains parent a \<and> hm_contains parent b then join uf_find hm_insert a b parent
       else Inr parent) es parent"

text \<open>The member loop: \<open>components.entry(root).or_default().push((t, n))\<close>.\<close>

definition group_members :: "(u32 \<times> u64) list \<Rightarrow> (u32, u32) hashmap \<Rightarrow>
    panic + ((u32, u32) hashmap \<times> (u32, (u32 \<times> u64) list) hashmap)" where
  "group_members members parent =
     try_fold (\<lambda>(t, n) (parent, components).
       case uf_find parent t of
         Inl e \<Rightarrow> Inl e
       | Inr (rt, parent') \<Rightarrow> Inr (parent', hm_entry rt [] (\<lambda>c. c @ [(t, n)]) components))
     members (parent, [])"

definition cohort_components :: "WakeGraphCfg \<Rightarrow> (u32 \<times> u32, EdgeState) hashmap \<Rightarrow> (u32 \<times> u64) list \<Rightarrow>
    panic + (u32, (u32 \<times> u64) list) hashmap" where
  "cohort_components cfg es members =
     (case union_edges cfg es (hm_collect (map (\<lambda>(t, _). (t, t)) members)) of
        Inl e \<Rightarrow> Inl e
      | Inr parent \<Rightarrow>
          (case group_members members parent of
             Inl e \<Rightarrow> Inl e
           | Inr (_, components) \<Rightarrow> Inr components))"

text \<open>The wrapping sum of a component's task counts.\<close>

definition comp_tasks :: "(u32 \<times> u64) list \<Rightarrow> u64" where
  "comp_tasks c = fold (\<lambda>(_, n) acc. acc + n) c 0"

text \<open>\<open>sort_by_key\<close> with \<open>Reverse\<close>: a stable sort, most tasks first.\<close>

definition off_components :: "u64 \<Rightarrow> (u32 \<times> u64) list list \<Rightarrow> (u32 \<times> u64) list list" where
  "off_components min_tasks comps =
     filter (\<lambda>comp. \<not> comp_tasks comp < min_tasks) (drop 1 (sort_key (\<lambda>c. - uint (comp_tasks c)) comps))"

text \<open>
  The body of the cohort loop. \<open>pri\<close> is the order in which \<open>into_values\<close> yields the components,
  which decides between components of the same size.
\<close>

definition split_cohort :: "(u32 \<Rightarrow> nat) \<Rightarrow> WakeGraphCfg \<Rightarrow> (u32 \<times> u32, EdgeState) hashmap \<Rightarrow>
    u64 \<times> (u32 \<times> u64) list \<Rightarrow> (u64, u32) hashmap \<times> SplitPlan list \<Rightarrow>
    panic + ((u64, u32) hashmap \<times> SplitPlan list)" where
  "split_cohort pri cfg es = (\<lambda>(cohort, members) (streaks, out).
     if length members < 2 then Inr (hm_remove cohort streaks, out)
     else case cohort_components cfg es members of
       Inl e \<Rightarrow> Inl e
     | Inr components \<Rightarrow>
         if length components < 2 then Inr (hm_remove cohort streaks, out)
         else
           let streaks = hm_entry cohort 0 (\<lambda>s. s + 1) streaks
           in if the (hm_get streaks cohort) < split_confirm_ticks cfg then Inr (streaks, out)
              else Inr (hm_remove cohort streaks,
                        out @ map (\<lambda>comp. \<lparr> s_cohort = cohort, off_tgids = map fst comp \<rparr>)
                               (off_components (split_min_tasks cfg) (map snd (hm_iter pri components)))))"

definition splits :: "(u32 \<Rightarrow> nat) \<Rightarrow> (u64, (u32 \<times> u64) list) hashmap \<Rightarrow> WakeGraph \<Rightarrow>
    panic + (WakeGraph \<times> SplitPlan list)" where
  "splits pri cohort_tgids g =
     (case try_fold (split_cohort pri (wg_cfg g) (edges g)) cohort_tgids
             (hm_retain (\<lambda>cohort _. hm_contains cohort_tgids cohort) (split_streak g), []) of
        Inl e \<Rightarrow> Inl e
      | Inr (streaks, out) \<Rightarrow> Inr (g\<lparr> split_streak := streaks \<rparr>, out))"

section \<open>Observation, specified\<close>

text \<open>The traffic an edge saw in a tick: every report of the edge, in either direction.\<close>

definition edge_traffic :: "u64 \<Rightarrow> (u32 \<times> u32 \<times> u64) list \<Rightarrow> u32 \<times> u32 \<Rightarrow> u64" where
  "edge_traffic sample_mult deltas key =
     sum_list (map (\<lambda>(a, b, n). if ekey a b = key then n * sample_mult else 0) deltas)"

definition edge_reported :: "(u32 \<times> u32 \<times> u64) list \<Rightarrow> u32 \<times> u32 \<Rightarrow> bool" where
  "edge_reported deltas key \<longleftrightarrow> (\<exists>(a, b, n) \<in> set deltas. ekey a b = key)"

definition idle_edge :: EdgeState where
  "idle_edge = \<lparr> e_rate = Fin 0, e_inst = Fin 0, over_ticks = 0 \<rparr>"

lemma edge_reported_simps [simp]:
  "edge_reported [] key = False"
  "edge_reported ((a, b, n) # ds) key = (ekey a b = key \<or> edge_reported ds key)"
  by (auto simp: edge_reported_def)

lemma edge_traffic_simps [simp]:
  "edge_traffic m [] key = 0"
  "edge_traffic m ((a, b, n) # ds) key = (if ekey a b = key then n * m else 0) + edge_traffic m ds key"
  by (auto simp: edge_traffic_def)

lemma edge_traffic_unreported: "\<not> edge_reported ds key \<Longrightarrow> edge_traffic m ds key = 0"
  by (induction ds) (auto split: prod.splits)

lemma fresh_counts_fold:
  "hm_get (fold (\<lambda>(a, b, n). hm_entry (ekey a b) 0 (\<lambda>c. c + n * m)) ds acc) key =
     (if edge_reported ds key
      then Some ((case hm_get acc key of Some c \<Rightarrow> c | None \<Rightarrow> 0) + edge_traffic m ds key)
      else hm_get acc key)"
proof (induction ds arbitrary: acc)
  case (Cons d ds)
  obtain a b n where "d = (a, b, n)" by (cases d) auto
  then show ?case by (auto simp: Cons.IH hm_simps edge_traffic_unreported split: option.split)
qed simp

lemma fresh_counts_get:
  "hm_get (fresh_counts m ds) key = (if edge_reported ds key then Some (edge_traffic m ds key) else None)"
  by (simp add: fresh_counts_def fresh_counts_fold)

lemma fresh_counts_wf: "hm_wf (fresh_counts m ds)"
proof -
  have "hm_wf acc \<Longrightarrow> hm_wf (fold (\<lambda>(a, b, n). hm_entry (ekey a b) 0 (\<lambda>c. c + n * m)) ds acc)" for acc
    by (induction ds arbitrary: acc) auto
  then show ?thesis by (simp add: fresh_counts_def)
qed

lemma vacant_fold:
  assumes "hm_wf fresh"
  shows "hm_get (fold (\<lambda>(key, n) es. if hm_contains es key then es else hm_insert key (f n) es) fresh es) k =
    (case hm_get es k of Some st \<Rightarrow> Some st | None \<Rightarrow> map_option f (hm_get fresh k))"
  using assms
proof (induction fresh arbitrary: es)
  case (Cons e fresh)
  obtain key n where e: "e = (key, n)" by (cases e)
  have "hm_wf fresh" "hm_get fresh key = None"
    using Cons.prems by (auto simp: e hm_wf_def map_of_eq_None_iff)
  moreover have "hm_contains es key = (hm_get es key \<noteq> None)" by (simp add: hm_contains_iff)
  ultimately show ?case
    by (cases "hm_get es key") (simp_all add: e Cons.IH hm_get_insert split: option.split)
qed (simp split: option.split)

lemma vacant_fold_wf:
  "hm_wf es \<Longrightarrow> hm_wf (fold (\<lambda>(key, n) es. if hm_contains es key then es else hm_insert key (f n) es) fresh es)"
  by (induction fresh arbitrary: es) auto

lemma decay_idle: "decay_edge alpha dt n idle_edge = new_edge alpha dt n"
  by (simp add: decay_edge_def new_edge_def idle_edge_def Let_def)

lemma hm_wf_map_values: "hm_wf (map (\<lambda>(k, v). (k, f k v)) m) = hm_wf m"
  by (simp add: hm_wf_def comp_def case_prod_unfold)

lemma hm_get_map_values: "hm_get (map (\<lambda>(k, v). (k, f k v)) m) k = map_option (f k) (hm_get m k)"
  by (induction m) auto

lemma observe_wf [simp]: "hm_wf (edges g) \<Longrightarrow> hm_wf (edges (observe ds dt m g))"
  by (simp add: observe_def Let_def vacant_fold_wf hm_wf_map_values)

lemma observe_frame [simp]:
  "wg_cfg (observe ds dt m g) = wg_cfg g" "split_streak (observe ds dt m g) = split_streak g"
  by (simp_all add: observe_def Let_def)

text \<open>The smoothing of an edge in a tick, known or not: a new edge starts from an idle one.\<close>

definition smoothed :: "WakeGraph \<Rightarrow> (u32 \<times> u32 \<times> u64) list \<Rightarrow> f64 \<Rightarrow> u64 \<Rightarrow> u32 \<times> u32 \<Rightarrow> EdgeState" where
  "smoothed g deltas dt_s sample_mult key =
     decay_edge (f_div dt_s (f_add dt_s (rate_tau_s (wg_cfg g)))) dt_s (edge_traffic sample_mult deltas key)
       (case hm_get (edges g) key of Some st \<Rightarrow> st | None \<Rightarrow> idle_edge)"

lemma observe_get:
  assumes "hm_wf (edges g)" and "\<not> f_le dt (Fin 0)"
  shows "hm_get (edges (observe ds dt m g)) key =
    (if (hm_contains (edges g) key \<or> edge_reported ds key) \<and>
        f_le (f_div (split_min_wakes_per_sec (wg_cfg g)) (Fin 10)) (e_rate (smoothed g ds dt m key))
     then Some (smoothed g ds dt m key) else None)"
proof -
  let ?alpha = "f_div dt (f_add dt (rate_tau_s (wg_cfg g)))"
  let ?dec = "map (\<lambda>(key, st). (key, decay_edge ?alpha dt (edge_traffic m ds key) st)) (edges g)"
  let ?bl = "fold (\<lambda>(key, n) es. if hm_contains es key then es else hm_insert key (new_edge ?alpha dt n) es)
    (fresh_counts m ds) ?dec"
  have tr: "(case hm_get (fresh_counts m ds) key of Some c \<Rightarrow> c | None \<Rightarrow> 0) = edge_traffic m ds key" for key
    by (simp add: fresh_counts_get edge_traffic_unreported)
  have obs: "edges (observe ds dt m g) =
      hm_retain (\<lambda>_ st. f_le (f_div (split_min_wakes_per_sec (wg_cfg g)) (Fin 10)) (e_rate st)) ?bl"
    unfolding observe_def by (simp add: assms(2) Let_def tr)
  have wf: "hm_wf ?bl" by (intro vacant_fold_wf) (simp add: hm_wf_map_values assms(1))
  have "hm_get ?bl key = (if hm_contains (edges g) key \<or> edge_reported ds key
      then Some (smoothed g ds dt m key) else None)"
    unfolding vacant_fold [OF fresh_counts_wf] hm_get_map_values
    by (simp add: fresh_counts_get hm_contains_iff smoothed_def decay_idle split: option.split)
  then show ?thesis unfolding obs hm_get_retain [OF wf] by simp
qed

section \<open>Bounds on the rates\<close>

text \<open>A finite float in a range.\<close>

definition fin_range :: "rat \<Rightarrow> rat \<Rightarrow> f64 \<Rightarrow> bool" where
  "fin_range lo hi x = (case x of Fin q \<Rightarrow> lo \<le> q \<and> q \<le> hi \<and> f64_round q = q | _ \<Rightarrow> False)"

lemma fin_rangeE: "fin_range lo hi x \<Longrightarrow> (\<And>q. x = Fin q \<Longrightarrow> lo \<le> q \<Longrightarrow> q \<le> hi \<Longrightarrow> f64_round q = q \<Longrightarrow> P) \<Longrightarrow> P"
  by (cases x) (auto simp: fin_range_def)

text \<open>Every edge has a finite, non-negative rate, bounded by what 64-bit counters can report.\<close>

definition rates_ok :: "WakeGraph \<Rightarrow> bool" where
  "rates_ok g = list_all (\<lambda>(_, st). fin_range 0 (2 ^ 75) (e_rate st) \<and> fin_range 0 (2 ^ 74) (e_inst st)) (edges g)"

lemma to_f64_fin_range:
  assumes "0 \<le> x" and "x \<le> 2 ^ n" and "n \<le> 1023"
  shows "fin_range 0 (2 ^ n) (to_f64 x)"
proof -
  have "\<bar>x\<bar> \<le> 2 ^ n" using assms by simp
  from to_f64_range [OF this assms(3)] rnd.nonneg [OF assms(1)] show ?thesis
    by (simp add: fin_range_def f64_round_idem)
qed

lemma inst_range:
  assumes "1 / 1000 \<le> d"
  shows "fin_range 0 (2 ^ 74) (f_div (u64_to_f64 n) (Fin d))"
proof -
  have "unat n < 2 ^ 64" using unsigned_less [of n] by simp
  then have "(of_nat (unat n) :: rat) \<le> of_nat (2 ^ 64)" by (intro of_nat_mono) simp
  then have "(of_nat (unat n) :: rat) \<le> 2 ^ 64" by simp
  then have "fin_range 0 (2 ^ 64) (u64_to_f64 n)"
    unfolding u64_to_f64_def by (rule to_f64_fin_range [OF of_nat_0_le_iff]) simp
  then obtain v where v: "u64_to_f64 n = Fin v" "0 \<le> v" "v \<le> 2 ^ 64" by (rule fin_rangeE)
  have "v / d \<le> 2 ^ 64 / (1 / 1000)" using v assms by (intro frac_le) auto
  also have "\<dots> \<le> 2 ^ 74" by simp
  finally have "fin_range 0 (2 ^ 74) (to_f64 (v / d))"
    using v assms by (intro to_f64_fin_range) auto
  then show ?thesis using v(1) assms by auto
qed

lemma ewma_range:
  assumes "0 \<le> a" and "a \<le> 1" and "fin_range 0 (2 ^ 75) x" and "fin_range 0 (2 ^ 74) i"
  shows "fin_range 0 (2 ^ 75) (f_add x (f_mul (Fin a) (f_sub i x)))"
proof -
  obtain r where r: "x = Fin r" "0 \<le> r" "r \<le> 2 ^ 75" "f64_round r = r" using assms(3) by (rule fin_rangeE)
  obtain v where v: "i = Fin v" "0 \<le> v" "v \<le> 2 ^ 74" "f64_round v = v" using assms(4) by (rule fin_rangeE)
  define s where "s = f64_round (v - r)"
  have "\<bar>v - r\<bar> \<le> 2 ^ 75" using r v by simp
  from to_f64_range [OF this] have s: "f_sub i x = Fin s" "\<bar>s\<bar> \<le> 2 ^ 75"
    by (simp_all add: f_sub_def r v s_def)
  have "\<bar>a * s\<bar> \<le> 1 * 2 ^ 75" unfolding abs_mult using assms(1,2) s(2) by (intro mult_mono) auto
  then have "\<bar>a * s\<bar> \<le> 2 ^ 75" by (simp only: mult_1)
  from to_f64_range [OF this] have p: "f_mul (Fin a) (Fin s) = Fin (f64_round (a * s))" "\<bar>f64_round (a * s)\<bar> \<le> 2 ^ 75"
    by simp_all
  have "\<bar>r + f64_round (a * s)\<bar> \<le> 2 ^ 76" using r(2,3) p(2) by simp
  from to_f64_range [OF this] have t: "f_add x (f_mul (Fin a) (f_sub i x)) = Fin (f64_round (r + f64_round (a * s)))"
    using r(1) s(1) p(1) by simp
  have "0 \<le> f64_round (r + f64_round (a * s))"
    unfolding s_def by (rule rnd.ewma_nonneg) (use assms r v in auto)
  moreover have "f64_round (r + f64_round (a * s)) \<le> 2 * 2 ^ 74"
    unfolding s_def
    by (rule rnd.ewma_bounded) (use assms r v f64_round_power [of 74] f64_round_power [of 75] in auto)
  ultimately show ?thesis unfolding t by (simp add: fin_range_def f64_round_idem)
qed

lemma smoothed_range:
  assumes "rates_ok g" and "rate_tau_s (wg_cfg g) = Fin t" and "0 \<le> t"
    and "1 / 1000 \<le> d" and "f64_rep (Fin d)"
  shows "fin_range 0 (2 ^ 75) (e_rate (smoothed g ds (Fin d) m key)) \<and>
    fin_range 0 (2 ^ 74) (e_inst (smoothed g ds (Fin d) m key))"
proof -
  let ?st = "case hm_get (edges g) key of Some st \<Rightarrow> st | None \<Rightarrow> idle_edge"
  have "fin_range 0 (2 ^ 75) (e_rate idle_edge)" by (simp add: idle_edge_def fin_range_def rnd.zero)
  then have r: "fin_range 0 (2 ^ 75) (e_rate ?st)"
    using assms(1) by (auto simp: rates_ok_def list_all_iff dest: map_of_SomeD split: option.split)
  obtain a where a: "f_div (Fin d) (f_add (Fin d) (Fin t)) = Fin a" "0 \<le> a" "a \<le> 1"
    using f_factor [OF _ assms(5,3)] assms(4) by (auto simp del: f_add.simps f_div.simps)
  show ?thesis
    using ewma_range [OF a(2,3) r inst_range [OF assms(4)]] inst_range [OF assms(4)]
    unfolding smoothed_def decay_edge_def assms(2) a(1) Let_def by simp
qed

section \<open>Merges, specified\<close>

text \<open>An edge whose traffic calls for a merge in this tick, with the cohorts it joins.\<close>

definition merge_ready :: "WakeGraphCfg \<Rightarrow> (u32, u64) hashmap \<Rightarrow> u32 \<times> u32 \<Rightarrow> EdgeState \<Rightarrow> (u64 \<times> u64) option" where
  "merge_ready cfg tgid_cohort key st =
     (case (hm_get tgid_cohort (fst key), hm_get tgid_cohort (snd key)) of
        (Some ca, Some cb) \<Rightarrow>
          if ca \<noteq> cb \<and> \<not> f_lt (e_rate st) (merge_wakes_per_sec cfg) \<and> \<not> f_lt (e_inst st) (merge_wakes_per_sec cfg)
             \<and> merge_confirm_ticks cfg \<le> over_ticks st + 1
          then Some (ca, cb) else None
      | _ \<Rightarrow> None)"

definition cohort_size :: "(u64, u64) hashmap \<Rightarrow> u64 \<Rightarrow> u64" where
  "cohort_size cohort_sizes c = (case hm_get cohort_sizes c of Some n \<Rightarrow> n | None \<Rightarrow> 0)"

definition plan_cohorts :: "MergePlan list \<Rightarrow> u64 list" where
  "plan_cohorts plans = concat (map (\<lambda>p. [m_into p, m_from p]) plans)"

lemma plan_cohorts_simps [simp]:
  "plan_cohorts [] = []" "plan_cohorts (p # ps) = m_into p # m_from p # plan_cohorts ps"
  "plan_cohorts (ps @ qs) = plan_cohorts ps @ plan_cohorts qs"
  by (simp_all add: plan_cohorts_def)

text \<open>The plan for an edge: the cohort with more tasks absorbs the other.\<close>

definition merge_plan :: "(u64, u64) hashmap \<Rightarrow> u64 \<times> u64 \<Rightarrow> MergePlan" where
  "merge_plan cohort_sizes = (\<lambda>(ca, cb).
     if cohort_size cohort_sizes cb \<le> cohort_size cohort_sizes ca
     then \<lparr> m_into = ca, m_from = cb \<rparr> else \<lparr> m_into = cb, m_from = ca \<rparr>)"

lemma merge_edge_snd:
  "snd (merge_edge cfg tc sizes key st merged) =
     (case merge_ready cfg tc key st of
        None \<Rightarrow> (merged, [])
      | Some (ca, cb) \<Rightarrow>
          if ca \<in> merged \<or> cb \<in> merged then (merged, [])
          else (insert cb (insert ca merged), [merge_plan sizes (ca, cb)]))"
  by (auto simp: merge_edge_def merge_ready_def merge_plan_def cohort_size_def Let_def not_less
      split: option.splits)

lemma merge_plan_cohorts: "set (plan_cohorts [merge_plan sizes (ca, cb)]) = {ca, cb}"
  by (auto simp: merge_plan_def)

lemma merge_ready_distinct: "merge_ready cfg tc key st = Some (ca, cb) \<Longrightarrow> ca \<noteq> cb"
  by (auto simp: merge_ready_def split: option.splits if_splits)

lemma merges_loop_keys: "map fst (fst (merges_loop cfg tc sizes es merged)) = map fst es"
  by (induction es arbitrary: merged) (auto simp: case_prod_unfold Let_def)

lemma merges_loop_Cons:
  "snd (merges_loop cfg tc sizes ((key, st) # es) merged) =
     snd (snd (merge_edge cfg tc sizes key st merged)) @
     snd (merges_loop cfg tc sizes es (fst (snd (merge_edge cfg tc sizes key st merged))))"
  by (simp add: case_prod_unfold Let_def)

lemma merges_loop_sound:
  "p \<in> set (snd (merges_loop cfg tc sizes es merged)) \<Longrightarrow>
     \<exists>(key, st) \<in> set es. \<exists>cs. merge_ready cfg tc key st = Some cs \<and> p = merge_plan sizes cs"
proof (induction es arbitrary: merged)
  case (Cons e es)
  obtain key st where e: "e = (key, st)" by (cases e)
  from Cons.prems Cons.IH show ?case
    unfolding e merges_loop_Cons merge_edge_snd
    by (auto split: option.splits if_splits)
qed simp

lemma merges_loop_disjoint:
  "distinct (plan_cohorts (snd (merges_loop cfg tc sizes es merged))) \<and>
   set (plan_cohorts (snd (merges_loop cfg tc sizes es merged))) \<inter> merged = {}"
proof (induction es arbitrary: merged)
  case (Cons e es)
  obtain key st where e: "e = (key, st)" by (cases e)
  show ?case
  proof (cases "merge_ready cfg tc key st")
    case None
    then show ?thesis using Cons.IH unfolding e merges_loop_Cons merge_edge_snd by simp
  next
    case (Some cs)
    obtain ca cb where cs: "cs = (ca, cb)" by (cases cs)
    have "ca \<noteq> cb" using Some cs merge_ready_distinct by auto
    then show ?thesis
      using Cons.IH [of merged] Cons.IH [of "insert cb (insert ca merged)"] Some
      unfolding e cs merges_loop_Cons merge_edge_snd
      by (auto simp: merge_plan_def split: if_splits)
  qed
qed simp

lemma merges_loop_complete:
  assumes "(key, st) \<in> set es" and "merge_ready cfg tc key st = Some (ca, cb)"
  shows "{ca, cb} \<inter> (merged \<union> set (plan_cohorts (snd (merges_loop cfg tc sizes es merged)))) \<noteq> {}"
  using assms
proof (induction es arbitrary: merged)
  case (Cons e es)
  obtain key' st' where e: "e = (key', st')" by (cases e)
  let ?merged' = "fst (snd (merge_edge cfg tc sizes key' st' merged))"
  have grow: "?merged' = merged \<union> set (plan_cohorts (snd (snd (merge_edge cfg tc sizes key' st' merged))))"
    by (auto simp: merge_edge_snd merge_plan_def split: option.splits)
  show ?case
  proof (cases "(key, st) = e")
    case True
    then have "{ca, cb} \<inter> ?merged' \<noteq> {}"
      using Cons.prems(2) by (auto simp: e merge_edge_snd)
    then show ?thesis unfolding e merges_loop_Cons grow plan_cohorts_simps set_append by blast
  next
    case False
    then have "(key, st) \<in> set es" using Cons.prems(1) by simp
    from Cons.IH [OF this Cons.prems(2), of ?merged'] show ?thesis
      unfolding e merges_loop_Cons plan_cohorts_simps set_append
      using grow by auto
  qed
qed simp

section \<open>Confirmation over ticks\<close>

text \<open>One tick's input to the graph; \<open>w_pri\<close> is the order in which the edge map is walked.\<close>

record WakeInput =
  w_deltas :: "(u32 \<times> u32 \<times> u64) list"
  w_dt :: f64
  w_mult :: u64
  w_cohort :: "(u32, u64) hashmap"
  w_sizes :: "(u64, u64) hashmap"
  w_pri :: "u32 \<times> u32 \<Rightarrow> nat"

definition observed :: "WakeInput \<Rightarrow> WakeGraph \<Rightarrow> WakeGraph" where
  "observed i g = (let g' = observe (w_deltas i) (w_dt i) (w_mult i) g in g'\<lparr> edges := hm_iter (w_pri i) (edges g') \<rparr>)"

definition merge_tick :: "WakeInput \<Rightarrow> WakeGraph \<Rightarrow> WakeGraph \<times> MergePlan list" where
  "merge_tick i g = merges (w_cohort i) (w_sizes i) (observed i g)"

text \<open>The counter of one edge, and whether the edge calls for a merge.\<close>

definition edge_count :: "u32 \<times> u32 \<Rightarrow> WakeGraph \<Rightarrow> nat" where
  "edge_count key g = (case hm_get (edges g) key of Some st \<Rightarrow> unat (over_ticks st) | None \<Rightarrow> 0)"

definition edge_fires :: "u32 \<times> u32 \<Rightarrow> WakeInput \<Rightarrow> WakeGraph \<Rightarrow> bool" where
  "edge_fires key i g =
     (case hm_get (edges (observed i g)) key of
        Some st \<Rightarrow> merge_ready (wg_cfg g) (w_cohort i) key st \<noteq> None
      | None \<Rightarrow> False)"

definition endpoints_mapped :: "u32 \<times> u32 \<Rightarrow> WakeInput \<Rightarrow> bool" where
  "endpoints_mapped key i \<longleftrightarrow> hm_contains (w_cohort i) (fst key) \<and> hm_contains (w_cohort i) (snd key)"

text \<open>The edge crosses cohorts and this tick's own traffic on it reaches the threshold.\<close>

definition crossing_traffic :: "f64 \<Rightarrow> u32 \<times> u32 \<Rightarrow> WakeInput \<Rightarrow> bool" where
  "crossing_traffic threshold key i \<longleftrightarrow>
     hm_get (w_cohort i) (fst key) \<noteq> hm_get (w_cohort i) (snd key) \<and>
     (f_le (w_dt i) (Fin 0) \<or>
      \<not> f_lt (f_div (u64_to_f64 (edge_traffic (w_mult i) (w_deltas i) key)) (w_dt i)) threshold)"

lemma merges_loop_get:
  "\<exists>merged'. hm_get (fst (merges_loop cfg tc sizes es merged)) key =
     map_option (\<lambda>st. fst (merge_edge cfg tc sizes key st merged')) (hm_get es key)"
proof (induction es arbitrary: merged)
  case (Cons e es)
  obtain key' st where e: "e = (key', st)" by (cases e)
  show ?case
    by (cases "key' = key") (use Cons.IH in \<open>auto simp: e case_prod_unfold Let_def\<close>)
qed simp

lemma over_ticks_merge_edge:
  "unat (over_ticks (fst (merge_edge cfg tc sizes key st merged))) \<le> Suc (unat (over_ticks st))"
  "hm_get tc (fst key) = None \<or> hm_get tc (snd key) = None \<Longrightarrow> fst (merge_edge cfg tc sizes key st merged) = st"
  "hm_get tc (fst key) \<noteq> None \<Longrightarrow> hm_get tc (snd key) \<noteq> None \<Longrightarrow>
   hm_get tc (fst key) = hm_get tc (snd key) \<or> f_lt (e_inst st) (merge_wakes_per_sec cfg) \<Longrightarrow>
     over_ticks (fst (merge_edge cfg tc sizes key st merged)) = 0"
  by (auto simp: merge_edge_def Let_def unat_plus_one_le le_SucI split: option.splits)

lemma observed_simps [simp]:
  "wg_cfg (observed i g) = wg_cfg g" "split_streak (observed i g) = split_streak g"
  "hm_wf (edges g) \<Longrightarrow> hm_wf (edges (observed i g))"
  "hm_wf (edges g) \<Longrightarrow> hm_get (edges (observed i g)) = hm_get (edges (observe (w_deltas i) (w_dt i) (w_mult i) g))"
  by (simp_all add: observed_def Let_def)

text \<open>Observing never adds to a counter, and records this tick's own traffic.\<close>

lemma observed_get:
  assumes "hm_wf (edges g)" and "hm_get (edges (observed i g)) key = Some st"
  shows "unat (over_ticks st) = edge_count key g"
    and "f_le (w_dt i) (Fin 0) \<or> e_inst st = f_div (u64_to_f64 (edge_traffic (w_mult i) (w_deltas i) key)) (w_dt i)"
proof -
  have get: "hm_get (edges (observe (w_deltas i) (w_dt i) (w_mult i) g)) key = Some st" using assms by simp
  show "unat (over_ticks st) = edge_count key g"
    using get observe_get [OF assms(1)]
    by (cases "f_le (w_dt i) (Fin 0)")
      (auto simp: edge_count_def observe_def smoothed_def decay_edge_def idle_edge_def Let_def
        split: if_splits option.splits)
  show "f_le (w_dt i) (Fin 0) \<or> e_inst st = f_div (u64_to_f64 (edge_traffic (w_mult i) (w_deltas i) key)) (w_dt i)"
    using get observe_get [OF assms(1), of "w_dt i" "w_deltas i" "w_mult i" key]
    by (cases "f_le (w_dt i) (Fin 0)") (auto simp: smoothed_def decay_edge_def Let_def split: if_splits)
qed

lemma merge_tick_frame [simp]:
  "wg_cfg (fst (merge_tick i g)) = wg_cfg g" "split_streak (fst (merge_tick i g)) = split_streak g"
  "hm_wf (edges g) \<Longrightarrow> hm_wf (edges (fst (merge_tick i g)))"
  using merges_loop_keys observed_simps(3)
  by (auto simp: merge_tick_def merges_def hm_wf_def case_prod_unfold Let_def)

lemma merge_tick_count:
  assumes "hm_wf (edges g)"
  obtains "edge_count key (fst (merge_tick i g)) = 0" | st merged where
    "hm_get (edges (observed i g)) key = Some st"
    "edge_count key (fst (merge_tick i g)) =
       unat (over_ticks (fst (merge_edge (wg_cfg g) (w_cohort i) (w_sizes i) key st merged)))"
proof -
  obtain merged where "hm_get (edges (fst (merge_tick i g))) key =
    map_option (\<lambda>st. fst (merge_edge (wg_cfg g) (w_cohort i) (w_sizes i) key st merged)) (hm_get (edges (observed i g)) key)"
    using merges_loop_get [of "wg_cfg g" "w_cohort i" "w_sizes i" "edges (observed i g)" "{}" key]
    by (auto simp: merge_tick_def merges_def case_prod_unfold Let_def)
  with that show thesis
    by (cases "hm_get (edges (observed i g)) key") (auto simp: edge_count_def)
qed

interpretation edge: confirm_counter
  "\<lambda>i g. (fst (merge_tick i g), edge_fires key i g)"
  "\<lambda>g. hm_wf (edges g) \<and> wg_cfg g = cfg"
  "endpoints_mapped key"
  "crossing_traffic (merge_wakes_per_sec cfg) key"
  "edge_count key"
  "unat (merge_confirm_ticks cfg)"
  for cfg :: WakeGraphCfg and key
proof (unfold_locales, goal_cases)
  case (1 g i)
  then show ?case by simp
next
  case (2 g i)
  then have wf: "hm_wf (edges g)" by simp
  show ?case
    using merge_tick_count [OF wf, of key i]
  proof cases
    case (2 st merged)
    with \<open>\<not> endpoints_mapped key i\<close> over_ticks_merge_edge(2) [of "w_cohort i" key] observed_get(1) [OF wf 2(1)]
    show ?thesis by (auto simp: endpoints_mapped_def hm_contains_iff)
  qed simp
next
  case (3 g i)
  then have wf: "hm_wf (edges g)" and cfg: "wg_cfg g = cfg" by auto
  show ?case
    using merge_tick_count [OF wf, of key i]
  proof cases
    case (2 st merged)
    have "over_ticks (fst (merge_edge (wg_cfg g) (w_cohort i) (w_sizes i) key st merged)) = 0"
      using 3 observed_get(2) [OF wf 2(1)] cfg
      by (intro over_ticks_merge_edge(3)) (auto simp: endpoints_mapped_def crossing_traffic_def hm_contains_iff)
    with 2(2) show ?thesis by simp
  qed simp
next
  case (4 g i)
  then have wf: "hm_wf (edges g)" by auto
  show ?case
    using merge_tick_count [OF wf, of key i]
  proof cases
    case (2 st merged)
    with over_ticks_merge_edge(1) [of "wg_cfg g" "w_cohort i" "w_sizes i" key st merged] observed_get(1) [OF wf 2(1)]
    show ?thesis by simp
  qed simp
next
  case (5 g i)
  then have wf: "hm_wf (edges g)" and cfg: "wg_cfg g = cfg" and "edge_fires key i g" by auto
  then obtain st cs where st: "hm_get (edges (observed i g)) key = Some st"
    and cs: "merge_ready cfg (w_cohort i) key st = Some cs"
    by (auto simp: edge_fires_def split: option.splits)
  have "unat (merge_confirm_ticks cfg) \<le> unat (over_ticks st + 1)"
    using cs by (auto simp: merge_ready_def word_le_nat_alt split: option.splits if_splits)
  also have "\<dots> \<le> Suc (edge_count key g)" using unat_plus_one_le observed_get(1) [OF wf st] by metis
  finally show ?case
    using cs observed_get(2) [OF wf st]
    by (auto simp: merge_ready_def endpoints_mapped_def crossing_traffic_def hm_contains_iff
        split: option.splits if_splits)
qed

text \<open>A plan of a tick comes from an edge that calls for it.\<close>

lemma merge_tick_fires:
  assumes "hm_wf (edges g)" and "p \<in> set (snd (merge_tick i g))"
  obtains key ca cb where "edge_fires key i g"
    "hm_get (w_cohort i) (fst key) = Some ca" "hm_get (w_cohort i) (snd key) = Some cb"
    "{m_into p, m_from p} = {ca, cb}"
proof -
  have "p \<in> set (snd (merges_loop (wg_cfg g) (w_cohort i) (w_sizes i) (edges (observed i g)) {}))"
    using assms(2) by (simp add: merge_tick_def merges_def case_prod_unfold Let_def)
  from merges_loop_sound [OF this] obtain key st cs where
    st: "(key, st) \<in> set (edges (observed i g))" and
    cs: "merge_ready (wg_cfg g) (w_cohort i) key st = Some cs" "p = merge_plan (w_sizes i) cs" by auto
  have "hm_get (edges (observed i g)) key = Some st"
    using st hm_get_in [OF observed_simps(3) [OF assms(1)]] by simp
  then have "edge_fires key i g" using cs(1) by (simp add: edge_fires_def)
  moreover obtain ca cb where c: "cs = (ca, cb)" by (cases cs)
  moreover have "hm_get (w_cohort i) (fst key) = Some ca" "hm_get (w_cohort i) (snd key) = Some cb"
    using cs(1) by (auto simp: c merge_ready_def split: option.splits if_splits)
  moreover have "{m_into p, m_from p} = {ca, cb}" using cs(2) merge_plan_cohorts [of "w_sizes i" ca cb] c by simp
  ultimately show thesis using that by blast
qed

section \<open>Properties\<close>

text \<open>An ordered key stands for the unordered pair of its processes, whichever way a report names them.\<close>

lemma ekey_iff: "x \<le> y \<Longrightarrow> ekey a b = (x, y) \<longleftrightarrow> {a, b} = {x, y}"
  by (auto simp: ekey_def doubleton_eq_iff not_less split: if_splits)

lemma ekey_ordered: "ekey a b = (x, y) \<Longrightarrow> x \<le> y"
  by (auto simp: ekey_def not_less split: if_splits)

lemma edge_traffic_undirected:
  "x \<le> y \<Longrightarrow> edge_traffic m ds (x, y) = sum_list (map (\<lambda>(a, b, n). if {a, b} = {x, y} then n * m else 0) ds)"
  by (simp only: edge_traffic_def ekey_iff)

lemma edge_reported_undirected:
  "x \<le> y \<Longrightarrow> edge_reported ds (x, y) \<longleftrightarrow> (\<exists>(a, b, n) \<in> set ds. {a, b} = {x, y})"
  by (simp only: edge_reported_def ekey_iff)

lemma observe_ordered:
  assumes "hm_wf (edges g)" and "\<forall>(a, b) \<in> fst ` set (edges g). a \<le> b"
  shows "\<forall>(a, b) \<in> fst ` set (edges (observe ds dt m g)). a \<le> b"
proof (cases "f_le dt (Fin 0)")
  case True
  then show ?thesis using assms(2) by (simp add: observe_def)
next
  case False
  have "a \<le> b" if "(a, b) \<in> fst ` set (edges (observe ds dt m g))" for a b
  proof -
    have "(a, b) \<in> dom (hm_get (edges (observe ds dt m g)))" using that by (simp only: dom_map_of_conv_image_fst)
    then have "hm_contains (edges g) (a, b) \<or> edge_reported ds (a, b)"
      unfolding dom_def mem_Collect_eq observe_get [OF assms(1) False] by (metis (full_types))
    then show ?thesis
      using assms(2) by (fastforce simp: edge_reported_def hm_contains_iff dest: ekey_ordered map_of_SomeD)
  qed
  then show ?thesis by blast
qed

text \<open>
  C23. \<open>observe\<close> smooths every undirected edge: after a tick of positive length the edge of two
  processes \<open>x \<le> y\<close> is present exactly when it was known or some report names the pair in either
  direction, and its new rate is not noise (a tenth of the split threshold). Its instantaneous rate is
  this tick's traffic (the counts of all reports of the pair, in either direction, times the sampling
  factor) over the tick's length, its rate is the exponential average \<open>old + \<alpha> (inst - old)\<close> with
  \<open>\<alpha> = dt / (dt + \<tau>)\<close> in binary64 arithmetic, where a new edge starts at rate zero, and its merge
  counter is kept. Edge keys stay ordered pairs, configuration and split streaks are untouched, and a
  tick of no length changes nothing.
\<close>

theorem observe_refines:
  assumes "hm_wf (edges g)" and "\<forall>(a, b) \<in> fst ` set (edges g). a \<le> b" and "x \<le> y"
  shows "let g' = observe deltas dt_s sample_mult g;
      traffic = (\<Sum>(a, b, n) \<leftarrow> deltas. if {a, b} = {x, y} then n * sample_mult else 0);
      known = hm_get (edges g) (x, y);
      old = (case known of Some st \<Rightarrow> e_rate st | None \<Rightarrow> Fin 0);
      inst = f_div (u64_to_f64 traffic) dt_s;
      alpha = f_div dt_s (f_add dt_s (rate_tau_s (wg_cfg g)));
      rate = f_add old (f_mul alpha (f_sub inst old))
    in hm_wf (edges g') \<and> (\<forall>(a, b) \<in> fst ` set (edges g'). a \<le> b) \<and>
      wg_cfg g' = wg_cfg g \<and> split_streak g' = split_streak g \<and>
      (if f_le dt_s (Fin 0) then g' = g
       else hm_get (edges g') (x, y) =
        (if (known \<noteq> None \<or> (\<exists>(a, b, n) \<in> set deltas. {a, b} = {x, y})) \<and>
            f_le (f_div (split_min_wakes_per_sec (wg_cfg g)) (Fin 10)) rate
         then Some \<lparr> e_rate = rate, e_inst = inst, over_ticks = (case known of Some st \<Rightarrow> over_ticks st | None \<Rightarrow> 0) \<rparr>
         else None))"
proof (cases "f_le dt_s (Fin 0)")
  case True
  then show ?thesis using assms by (simp add: observe_def)
next
  case False
  then show ?thesis
    using observe_get [OF assms(1) False, of deltas sample_mult "(x, y)"] observe_ordered [OF assms(1,2)] assms(1)
    unfolding smoothed_def edge_traffic_undirected [OF assms(3)] edge_reported_undirected [OF assms(3)]
    by (auto simp: Let_def decay_edge_def idle_edge_def hm_contains_iff split: option.splits)
qed

text \<open>
  C34. Rates stay meaningful: for a non-negative time constant and ticks of at least a millisecond,
  \<open>observe\<close> keeps every rate a finite, representable, non-negative number of at most \<open>2 ^ 75\<close>
  wakes per second, whatever the kernel's counters report; no rate becomes infinite or \<open>NaN\<close>.
\<close>

theorem observe_rates_bounded:
  assumes "hm_wf (edges g)" and "rates_ok g"
    and "rate_tau_s (wg_cfg g) = Fin t" and "0 \<le> t" and "1 / 1000 \<le> d" and "f64_rep (Fin d)"
  shows "rates_ok (observe deltas (Fin d) sample_mult g)"
proof -
  have wf: "hm_wf (edges (observe deltas (Fin d) sample_mult g))" using assms(1) by simp
  have "\<not> f_le (Fin d) (Fin 0)" using assms(5) by (simp add: f_le_def)
  from observe_get [OF assms(1) this] have
    "hm_get (edges (observe deltas (Fin d) sample_mult g)) key = Some st \<Longrightarrow> st = smoothed g deltas (Fin d) sample_mult key"
    for key st by (auto split: if_splits)
  then have "(key, st) \<in> set (edges (observe deltas (Fin d) sample_mult g)) \<Longrightarrow>
      st = smoothed g deltas (Fin d) sample_mult key" for key st
    using hm_get_in [OF wf] by blast
  with smoothed_range [OF assms(2-6)] show ?thesis
    unfolding rates_ok_def list_all_iff by blast
qed

text \<open>
  C10. Every merge is justified and merges never overlap: each plan of \<open>merges\<close> joins the two
  different cohorts of an edge whose smoothed and instantaneous rates are not below the threshold
  and whose counter reaches the confirmation length in this tick, the cohort with more tasks
  absorbs the other, and no cohort takes part in two plans of a call.
\<close>

theorem merges_sound:
  assumes "merges tgid_cohort cohort_sizes g = (g', plans)" and "p \<in> set plans"
  shows "distinct (plan_cohorts plans) \<and> (\<exists>(key, st) \<in> set (edges g). \<exists>ca cb.
      hm_get tgid_cohort (fst key) = Some ca \<and> hm_get tgid_cohort (snd key) = Some cb \<and> ca \<noteq> cb \<and>
      \<not> f_lt (e_rate st) (merge_wakes_per_sec (wg_cfg g)) \<and> \<not> f_lt (e_inst st) (merge_wakes_per_sec (wg_cfg g)) \<and>
      merge_confirm_ticks (wg_cfg g) \<le> over_ticks st + 1 \<and>
      {m_into p, m_from p} = {ca, cb} \<and> cohort_size cohort_sizes (m_from p) \<le> cohort_size cohort_sizes (m_into p))"
    (is "?D \<and> ?E")
proof
  have plans: "plans = snd (merges_loop (wg_cfg g) tgid_cohort cohort_sizes (edges g) {})"
    using assms by (auto simp: merges_def case_prod_unfold Let_def)
  show ?D unfolding plans using merges_loop_disjoint by blast
  from merges_loop_sound [OF assms(2) [unfolded plans]] obtain key st cs where
    "(key, st) \<in> set (edges g)" "merge_ready (wg_cfg g) tgid_cohort key st = Some cs" "p = merge_plan cohort_sizes cs"
    by auto
  then show ?E
    by (intro bexI [of _ "(key, st)"]) (auto simp: merge_ready_def merge_plan_def split: option.splits if_splits)
qed

text \<open>
  No confirmed edge is passed over: if an edge between two different cohorts is over the
  threshold and reaches its confirmation length, the plans of that call merge one of its two
  cohorts (with each other, or with a third cohort that came first).
\<close>

lemma merges_complete:
  assumes "merges tgid_cohort cohort_sizes g = (g', plans)" and "(key, st) \<in> set (edges g)"
    and "hm_get tgid_cohort (fst key) = Some ca" and "hm_get tgid_cohort (snd key) = Some cb" and "ca \<noteq> cb"
    and "\<not> f_lt (e_rate st) (merge_wakes_per_sec (wg_cfg g))"
    and "\<not> f_lt (e_inst st) (merge_wakes_per_sec (wg_cfg g))"
    and "merge_confirm_ticks (wg_cfg g) \<le> over_ticks st + 1"
  shows "ca \<in> set (plan_cohorts plans) \<or> cb \<in> set (plan_cohorts plans)"
proof -
  have plans: "plans = snd (merges_loop (wg_cfg g) tgid_cohort cohort_sizes (edges g) {})"
    using assms(1) by (auto simp: merges_def case_prod_unfold Let_def)
  have "merge_ready (wg_cfg g) tgid_cohort key st = Some (ca, cb)"
    using assms(3-) by (simp add: merge_ready_def)
  from merges_loop_complete [OF assms(2) this, of "{}" cohort_sizes] show ?thesis
    unfolding plans by auto
qed

text \<open>
  A burst cannot join strangers: over any history of ticks of positive length from a new
  graph, a merge in the last tick is due to an edge between the two cohorts whose own traffic in
  each of the last \<open>merge_confirm_ticks\<close> ticks (of those in which both its processes had a cohort)
  was at the threshold or above while its processes were in different cohorts.
\<close>

lemma merge_confirmed:
  assumes "\<forall>j \<in> set (is @ [i]). \<not> f_le (w_dt j) (Fin 0)"
    and "p \<in> set (snd (merge_tick i (fold (\<lambda>j g. fst (merge_tick j g)) is (WakeGraph_new cfg))))"
  shows "\<exists>key ca cb. hm_get (w_cohort i) (fst key) = Some ca \<and> hm_get (w_cohort i) (snd key) = Some cb \<and>
    {m_into p, m_from p} = {ca, cb} \<and>
    (let seen = filter (endpoints_mapped key) (is @ [i]); n = unat (merge_confirm_ticks cfg) in
     n \<le> length seen \<and>
     (\<forall>j \<in> set (drop (length seen - n) seen).
        hm_get (w_cohort j) (fst key) \<noteq> hm_get (w_cohort j) (snd key) \<and>
        \<not> f_lt (f_div (u64_to_f64 (edge_traffic (w_mult j) (w_deltas j) key)) (w_dt j)) (merge_wakes_per_sec cfg)))"
proof -
  have run: "run_steps (\<lambda>i g. (fst (merge_tick i g), edge_fires key i g)) is g = fold (\<lambda>j g. fst (merge_tick j g)) is g"
    for key g by (induction "is" arbitrary: g) auto
  have wf: "hm_wf (edges (WakeGraph_new cfg)) \<and> wg_cfg (WakeGraph_new cfg) = cfg" by (simp add: WakeGraph_new_def)
  have "hm_wf (edges (fold (\<lambda>j g. fst (merge_tick j g)) is (WakeGraph_new cfg)))"
    using edge.inv_run [OF wf, of _ "is"] unfolding run by blast
  from merge_tick_fires [OF this assms(2)] obtain key ca cb where
    fires: "edge_fires key i (fold (\<lambda>j g. fst (merge_tick j g)) is (WakeGraph_new cfg))" and
    c: "hm_get (w_cohort i) (fst key) = Some ca" "hm_get (w_cohort i) (snd key) = Some cb" "{m_into p, m_from p} = {ca, cb}" .
  have "edge_count key (WakeGraph_new cfg) = 0" by (simp add: edge_count_def WakeGraph_new_def)
  from edge.confirmed_run [OF wf this, of i "is"] fires
  have "unat (merge_confirm_ticks cfg) \<le>
      trailing (crossing_traffic (merge_wakes_per_sec cfg) key) (filter (endpoints_mapped key) (is @ [i]))"
    by (simp add: run)
  note suffix = trailing_suffix [OF this]
  have pos: "\<not> f_le (w_dt j) (Fin 0)" if "j \<in> set (drop n (filter (endpoints_mapped key) (is @ [i])))" for j n
    using in_set_dropD [OF that] assms(1) by (auto split: if_splits)
  show ?thesis
    unfolding Let_def using c suffix pos unfolding crossing_traffic_def by blast
qed

section \<open>Witnesses\<close>

text \<open>
  A pipeline of two processes in two cohorts that exchanges 1000 wakes in every tick of a second,
  seen in both directions, and the graph after two such ticks.
\<close>

definition demo_input :: WakeInput where
  "demo_input = \<lparr> w_deltas = [(7, 9, 600), (9, 7, 400)], w_dt = Fin 1, w_mult = 1,
     w_cohort = [(7, 1), (9, 2)], w_sizes = [(1, 4), (2, 6)], w_pri = (\<lambda>_. 0) \<rparr>"

definition demo_graph :: WakeGraph where
  "demo_graph = \<lparr> wg_cfg = WakeGraphCfg_default,
     edges = [((7, 9), \<lparr> e_rate = Fin 750, e_inst = Fin 1000, over_ticks = 2 \<rparr>)], split_streak = [] \<rparr>"

lemma demo_graph_wf: "hm_wf (edges demo_graph)"
  by (simp add: demo_graph_def hm_wf_def)
lemmas wg_eval = observed_def merge_tick_def merges_def observe_code fresh_counts_def ekey_def hm_entry_def
  demo_input_def demo_graph_def WakeGraphCfg_default_def WakeGraph_new_def decay_edge_def new_edge_def Let_def
  f_le_def f_sub_def u64_to_f64_def hm_retain_def hm_contains_def hm_iter_def merge_edge_def

lemma demo_run: "fold (\<lambda>j g. fst (merge_tick j g)) [demo_input, demo_input] (WakeGraph_new WakeGraphCfg_default) = demo_graph"
  by (simp add: wg_eval)

lemma demo_merge: "snd (merge_tick demo_input demo_graph) = [\<lparr> m_into = 2, m_from = 1 \<rparr>]"
  by (simp add: wg_eval)

text \<open>Witness of C23: a known edge reported in both directions, and an edge first seen in this tick.\<close>

theorem observe_refines_witness:
  "hm_get (edges (observe [(7, 9, 600), (9, 7, 400), (5, 3, 80)] (Fin 1) 1 demo_graph)) (7, 9) =
     Some \<lparr> e_rate = Fin 875, e_inst = Fin 1000, over_ticks = 2 \<rparr> \<and>
   hm_get (edges (observe [(7, 9, 600), (9, 7, 400), (5, 3, 80)] (Fin 1) 1 demo_graph)) (3, 5) =
     Some \<lparr> e_rate = Fin 40, e_inst = Fin 80, over_ticks = 0 \<rparr>"
proof -
  have ord: "\<forall>(a, b) \<in> fst ` set (edges demo_graph). a \<le> b" by (simp add: demo_graph_def)
  have le: "(7 :: u32) \<le> 9" "(3 :: u32) \<le> 5" by simp_all
  show ?thesis
    using observe_refines [OF demo_graph_wf ord le(1), of "[(7, 9, 600), (9, 7, 400), (5, 3, 80)]" "Fin 1" 1]
      observe_refines [OF demo_graph_wf ord le(2), of "[(7, 9, 600), (9, 7, 400), (5, 3, 80)]" "Fin 1" 1]
    by (simp add: Let_def f_le_def doubleton_eq_iff demo_graph_def WakeGraphCfg_default_def u64_to_f64_def f_sub_def)
qed

text \<open>Witness of C34.\<close>

theorem observe_rates_bounded_witness:
  "rates_ok demo_graph \<and> rates_ok (observe [(7, 9, 600), (9, 7, 400)] (Fin 1) 1 demo_graph)"
proof -
  have "f64_round 750 = 750" "f64_round 1000 = 1000" using f64_round_int [of 750] f64_round_int [of 1000] by simp_all
  then have "rates_ok demo_graph" by (simp add: rates_ok_def demo_graph_def fin_range_def)
  moreover have "f64_rep (Fin 1)" by (simp add: f64_rep_def rnd.one)
  ultimately show ?thesis
    using observe_rates_bounded [OF demo_graph_wf, of 1 1 "[(7, 9, 600), (9, 7, 400)]" 1]
    by (simp add: demo_graph_def WakeGraphCfg_default_def)
qed

text \<open>Witness of C10.\<close>

theorem merges_sound_witness:
  "distinct (plan_cohorts [\<lparr> m_into = 2, m_from = 1 \<rparr>]) \<and>
   snd (merges [(7, 1), (9, 2)] [(1, 4), (2, 6)] demo_graph) = [\<lparr> m_into = 2, m_from = 1 \<rparr>]"
proof -
  have eq: "snd (merges [(7, 1), (9, 2)] [(1, 4), (2, 6)] demo_graph) = [\<lparr> m_into = 2, m_from = 1 \<rparr>]"
    by (simp add: wg_eval)
  then have "merges [(7, 1), (9, 2)] [(1, 4), (2, 6)] demo_graph =
      (fst (merges [(7, 1), (9, 2)] [(1, 4), (2, 6)] demo_graph), [\<lparr> m_into = 2, m_from = 1 \<rparr>])"
    by (metis prod.collapse)
  from merges_sound [OF this, of "\<lparr> m_into = 2, m_from = 1 \<rparr>"] eq show ?thesis by simp
qed

text \<open>An instance.\<close>

lemma merges_complete_witness:
  "1 \<in> set (plan_cohorts (snd (merges [(7, 1), (9, 2)] [(1, 4), (2, 6)] demo_graph))) \<or>
   2 \<in> set (plan_cohorts (snd (merges [(7, 1), (9, 2)] [(1, 4), (2, 6)] demo_graph)))"
  (is "?A \<or> ?B")
proof -
  let ?r = "merges [(7, 1), (9, 2)] [(1, 4), (2, 6)] demo_graph"
  have e: "((7, 9), \<lparr> e_rate = Fin 750, e_inst = Fin 1000, over_ticks = 2 \<rparr>) \<in> set (edges demo_graph)"
    by (simp add: demo_graph_def)
  have c: "wg_cfg demo_graph = WakeGraphCfg_default" by (simp add: demo_graph_def)
  show ?thesis
    using merges_complete [OF prod.collapse [symmetric, of ?r] e, of 1 2]
    unfolding c by (simp add: WakeGraphCfg_default_def)
qed

text \<open>An instance.\<close>

lemma merge_confirmed_witness:
  "\<exists>key. 3 \<le> length (filter (endpoints_mapped key) [demo_input, demo_input, demo_input])"
proof -
  have pos: "\<forall>j \<in> set ([demo_input, demo_input] @ [demo_input]). \<not> f_le (w_dt j) (Fin 0)"
    by (simp add: f_le_def demo_input_def)
  have "\<lparr> m_into = 2, m_from = 1 \<rparr> \<in> set (snd (merge_tick demo_input
      (fold (\<lambda>j g. fst (merge_tick j g)) [demo_input, demo_input] (WakeGraph_new WakeGraphCfg_default))))"
    unfolding demo_run demo_merge by simp
  from merge_confirmed [OF pos this] obtain key where
    "unat (merge_confirm_ticks WakeGraphCfg_default) \<le>
      length (filter (endpoints_mapped key) ([demo_input, demo_input] @ [demo_input]))"
    unfolding Let_def by blast
  moreover have "unat (merge_confirm_ticks WakeGraphCfg_default) = 3" by (simp add: WakeGraphCfg_default_def)
  ultimately show ?thesis by (intro exI [of _ key]) (simp only: append.simps)
qed

end
