(* ===== verification/Wake_Split.thy ===== *)
theory Wake_Split
  imports Wake_Graph
begin

text \<open>
  Correctness of \<open>WakeGraph::splits\<close>: the union-find loop computes the connected components of a
  cohort's live wake graph, and the plans are all components but a largest one. The components
  are specified as reachability over the live edges; the theorems hold for every order in which
  the hash maps are walked.
\<close>

section \<open>Components as reachability\<close>

text \<open>The edges that still connect two members of a cohort.\<close>

definition live_edges :: "WakeGraphCfg \<Rightarrow> (u32 \<times> u32, EdgeState) hashmap \<Rightarrow> u32 set \<Rightarrow> (u32 \<times> u32) list" where
  "live_edges cfg es ts =
     map fst (filter (\<lambda>((a, b), st). \<not> f_lt (e_rate st) (split_min_wakes_per_sec cfg) \<and> a \<in> ts \<and> b \<in> ts) es)"

definition linked :: "WakeGraphCfg \<Rightarrow> (u32 \<times> u32, EdgeState) hashmap \<Rightarrow> (u32 \<times> u64) list \<Rightarrow> (u32 \<times> u32) set" where
  "linked cfg es members = (sym_edges (live_edges cfg es (fst ` set members)))\<^sup>*"

definition component_of :: "WakeGraphCfg \<Rightarrow> (u32 \<times> u32, EdgeState) hashmap \<Rightarrow> (u32 \<times> u64) list \<Rightarrow> u32 \<Rightarrow>
    (u32 \<times> u64) list" where
  "component_of cfg es members t0 = filter (\<lambda>m. (t0, fst m) \<in> linked cfg es members) members"

definition components_of :: "WakeGraphCfg \<Rightarrow> (u32 \<times> u32, EdgeState) hashmap \<Rightarrow> (u32 \<times> u64) list \<Rightarrow>
    (u32 \<times> u64) list set" where
  "components_of cfg es members = component_of cfg es members ` fst ` set members"

definition disconnected :: "WakeGraphCfg \<Rightarrow> (u32 \<times> u32, EdgeState) hashmap \<Rightarrow> (u32 \<times> u64) list \<Rightarrow> bool" where
  "disconnected cfg es members \<longleftrightarrow>
     (\<exists>x \<in> fst ` set members. \<exists>y \<in> fst ` set members. (x, y) \<notin> linked cfg es members)"

lemma linked_refl [simp]: "(x, x) \<in> linked cfg es members"
  by (simp add: linked_def)

lemma linked_sym: "(x, y) \<in> linked cfg es members \<longleftrightarrow> (y, x) \<in> linked cfg es members"
  unfolding linked_def by (rule rtrancl_sym_iff [OF sym_sym_edges])

lemma linked_trans:
  "(x, y) \<in> linked cfg es members \<Longrightarrow> (y, z) \<in> linked cfg es members \<Longrightarrow> (x, z) \<in> linked cfg es members"
  unfolding linked_def by (rule rtrancl_trans)

lemma component_eq_iff:
  assumes "x \<in> fst ` set members"
  shows "component_of cfg es members x = component_of cfg es members y \<longleftrightarrow> (x, y) \<in> linked cfg es members"
proof
  assume eq: "component_of cfg es members x = component_of cfg es members y"
  from assms obtain n where "(x, n) \<in> set members" by auto
  then have "(x, n) \<in> set (component_of cfg es members x)" by (simp add: component_of_def)
  then show "(x, y) \<in> linked cfg es members" unfolding eq by (simp add: component_of_def linked_sym)
next
  assume "(x, y) \<in> linked cfg es members"
  then show "component_of cfg es members x = component_of cfg es members y"
    unfolding component_of_def by (intro filter_cong refl) (metis linked_sym linked_trans)
qed

section \<open>The loops of one cohort\<close>

lemma union_edges_joins:
  assumes "forest parent"
  shows "union_edges cfg es parent =
    try_fold (\<lambda>(a, b). join uf_find hm_insert a b) (live_edges cfg es (dom (hm_get parent))) parent"
  using assms
proof (induction es arbitrary: parent)
  case (Cons e es)
  obtain a b st where e: "e = ((a, b), st)" by (metis surj_pair)
  show ?case
  proof (cases "\<not> f_lt (e_rate st) (split_min_wakes_per_sec cfg) \<and> a \<in> dom (hm_get parent) \<and> b \<in> dom (hm_get parent)")
    case True
    then obtain parent' where "join uf_find hm_insert a b parent = Inr parent'" "forest parent'"
      "dom (hm_get parent') = dom (hm_get parent)"
      using uf.join_rep [OF Cons.prems, of a b] by blast
    with True Cons.IH [of parent'] show ?thesis
      by (auto simp: e union_edges_def live_edges_def hm_contains_iff)
  next
    case False
    with Cons.IH [OF Cons.prems] show ?thesis
      by (auto simp: e union_edges_def live_edges_def hm_contains_iff)
  qed
qed (simp add: union_edges_def live_edges_def)

lemma union_edges_classes:
  fixes members :: "(u32 \<times> u64) list"
  defines "start \<equiv> hm_collect (map (\<lambda>(t, _). (t, t)) members)"
  shows "\<exists>parent. union_edges cfg es start = Inr parent \<and> forest parent \<and>
    dom (hm_get parent) = fst ` set members \<and>
    (\<forall>x \<in> fst ` set members. \<forall>y \<in> fst ` set members.
       forest_root parent x = forest_root parent y \<longleftrightarrow> (x, y) \<in> linked cfg es members)"
proof -
  have start: "start = hm_collect (map (\<lambda>t. (t, t)) (map fst members))"
    by (simp add: start_def comp_def case_prod_unfold)
  have f: "forest start" and d: "dom (hm_get start) = fst ` set members"
    using forest_singletons [of "map fst members"] dom_singletons [of "map fst members"] unfolding start
    by (simp_all only: set_map)
  have r: "\<forall>x \<in> dom (hm_get start). \<forall>y \<in> dom (hm_get start).
      forest_root start x = forest_root start y \<longleftrightarrow> (x, y) \<in> (sym_edges [])\<^sup>*"
    using forest_root_singletons [of _ "map fst members", folded start] unfolding d by auto
  have l: "\<forall>(a, b) \<in> set (live_edges cfg es (dom (hm_get start))). a \<in> dom (hm_get start) \<and> b \<in> dom (hm_get start)"
    by (auto simp: live_edges_def)
  from uf.join_all_components [OF f r l] show ?thesis
    unfolding union_edges_joins [OF f] d append_Nil2 linked_def by simp
qed

text \<open>
  C22. The recursive \<open>find\<close> returns the root and compresses the path. Whatever live edges have been
  joined, the parent map of a cohort has no cycle: from every member, and with no more nested calls than
  the cohort has members, the recursion ends in an element that is its own parent and that is reached
  from the member along parent pointers. The map it leaves has every element on that path point to the
  root and is otherwise what it was. So it neither overflows its stack nor loops, and a deeper stack
  changes nothing.
\<close>

theorem find_terminates:
  fixes members :: "(u32 \<times> u64) list"
  shows "\<exists>parent. union_edges cfg es (hm_collect (map (\<lambda>(t, _). (t, t)) members)) = Inr parent \<and>
     (\<forall>t \<in> fst ` set members. \<exists>rt. hm_get parent rt = Some rt \<and>
        (t, rt) \<in> {(x, p). hm_get parent x = Some p}\<^sup>* \<and>
        (\<forall>depth \<ge> length members. \<exists>parent'. find_fuel depth parent t = Inr (rt, parent') \<and>
           (\<forall>x. hm_get parent' x =
              (if (t, x) \<in> {(x, p). hm_get parent x = Some p}\<^sup>* then Some rt else hm_get parent x))))"
proof -
  obtain parent where p: "union_edges cfg es (hm_collect (map (\<lambda>(t, _). (t, t)) members)) = Inr parent" "forest parent"
    "dom (hm_get parent) = fst ` set members" using union_edges_classes [of cfg es members] by blast
  have wf: "hm_wf parent" using p(2) by (simp add: forest_def)
  then have "length parent = card (fst ` set parent)" using distinct_card [of "map fst parent"] by (simp add: hm_wf_def)
  then have len: "length parent \<le> length members"
    using p(3) card_image_le [of "set members" fst] card_length [of members] by (simp add: dom_map_of_conv_image_fst)
  have "\<exists>rt n. rootn parent n t rt \<and> n < length members" if t: "t \<in> fst ` set members" for t
  proof -
    have "t \<in> dom (hm_get parent)" using t p(3) by simp
    then obtain n where n: "rootn parent n t (forest_root parent t)" using forest_rootn [OF p(2)] by blast
    then show ?thesis using rootn_bound [OF n] len by (meson less_le_trans)
  qed
  then show ?thesis
    using p(1) rootn_root rootn_steps find_fuel_compress by (meson less_le_trans)
qed

definition chain_edges :: "(u32 \<times> u32, EdgeState) hashmap" where
  "chain_edges = [((1, 2), \<lparr> e_rate = Fin 100, e_inst = Fin 100, over_ticks = 0 \<rparr>),
                  ((2, 3), \<lparr> e_rate = Fin 100, e_inst = Fin 100, over_ticks = 0 \<rparr>)]"

definition chain_members :: "(u32 \<times> u64) list" where
  "chain_members = [(1, 1), (2, 1), (3, 1)]"

lemma chain_parent:
  "union_edges WakeGraphCfg_default chain_edges (hm_collect (map (\<lambda>(t, _). (t, t)) chain_members)) =
     Inr [(1, 2), (2, 3), (3, 3)]"
  by (simp add: chain_edges_def chain_members_def union_edges_def join_def uf_find_def WakeGraphCfg_default_def
      hm_collect_def hm_contains_def)

text \<open>
  Witness of C22: the edges of a chain of three processes hang 1 under 2 and 2 under 3; \<open>find\<close> from 1
  returns 3 and leaves both 1 and 2 under it.
\<close>

theorem find_terminates_witness:
  "\<exists>parent parent'. union_edges WakeGraphCfg_default chain_edges (hm_collect (map (\<lambda>(t, _). (t, t)) chain_members)) = Inr parent \<and>
     find_fuel 3 parent 1 = Inr (3, parent') \<and> hm_get parent 1 = Some 2 \<and> hm_get parent' 1 = Some 3 \<and> hm_get parent' 2 = Some 3"
proof -
  let ?parent = "[(1, 2), (2, 3), (3, 3)] :: (u32, u32) hashmap" and ?R = "{(x, p). hm_get [(1, 2), (2, 3), (3, 3 :: u32)] (x :: u32) = Some p}"
  have "(1, 2) \<in> ?R" "(2, 3) \<in> ?R" by simp_all
  then have path: "(1, 1) \<in> ?R\<^sup>*" "(1, 2) \<in> ?R\<^sup>*" "(1, 3) \<in> ?R\<^sup>*"
    by (blast intro: rtrancl_into_rtrancl)+
  have "1 \<in> fst ` set chain_members" "length chain_members \<le> 3" by (simp_all add: chain_members_def)
  then obtain rt parent' where "find_fuel 3 ?parent 1 = Inr (rt, parent')"
    "\<forall>x. hm_get parent' x = (if (1, x) \<in> ?R\<^sup>* then Some rt else hm_get ?parent x)"
    using find_terminates [of WakeGraphCfg_default chain_edges chain_members] unfolding chain_parent by blast
  moreover from this(1) have "rt = 3" by (simp add: numeral_3_eq_3)
  ultimately show ?thesis unfolding chain_parent using path by auto
qed

lemma group_members_classes:
  assumes "forest parent" and "fst ` set members \<subseteq> dom (hm_get parent)"
  shows "\<exists>parent' comps. group_members members parent = Inr (parent', comps) \<and> forest parent' \<and>
    dom (hm_get parent') = dom (hm_get parent) \<and>
    (\<forall>y \<in> dom (hm_get parent). forest_root parent' y = forest_root parent y) \<and> hm_wf comps \<and>
    (\<forall>r. hm_get comps r =
       (let c = filter (\<lambda>m. forest_root parent (fst m) = r) members in if c = [] then None else Some c))"
  using assms(2)
proof (induction members rule: rev_induct)
  case Nil
  then show ?case using assms(1) by (simp add: group_members_def)
next
  case (snoc m members)
  obtain t n where m: "m = (t, n)" by (cases m)
  from snoc obtain parent1 comps where
    g: "group_members members parent = Inr (parent1, comps)" and f1: "forest parent1" and
    d1: "dom (hm_get parent1) = dom (hm_get parent)" and
    r1: "\<forall>y \<in> dom (hm_get parent). forest_root parent1 y = forest_root parent y" and wf: "hm_wf comps" and
    c: "\<forall>r. hm_get comps r =
       (let c = filter (\<lambda>m. forest_root parent (fst m) = r) members in if c = [] then None else Some c)"
    by auto
  have t: "t \<in> dom (hm_get parent)" using snoc.prems m by auto
  from uf_find_root [OF f1, of t] t d1 r1 obtain parent2 where
    p2: "uf_find parent1 t = Inr (forest_root parent t, parent2)" "forest parent2"
      "dom (hm_get parent2) = dom (hm_get parent)"
      "\<forall>y \<in> dom (hm_get parent). forest_root parent2 y = forest_root parent y" by auto
  let ?comps = "hm_entry (forest_root parent t) [] (\<lambda>c. c @ [(t, n)]) comps"
  have "group_members (members @ [m]) parent = Inr (parent2, ?comps)"
    using g p2(1) by (simp add: group_members_def m)
  moreover have "\<forall>r. hm_get ?comps r =
     (let c = filter (\<lambda>m. forest_root parent (fst m) = r) (members @ [m]) in if c = [] then None else Some c)"
    using c by (auto simp: hm_get_entry m Let_def)
  ultimately show ?case using p2 wf by auto
qed

lemma cohort_components_exact:
  "\<exists>comps. cohort_components cfg es members = Inr comps \<and> hm_wf comps \<and>
     distinct (map snd comps) \<and> snd ` set comps = components_of cfg es members"
proof -
  obtain parent where p: "union_edges cfg es (hm_collect (map (\<lambda>(t, _). (t, t)) members)) = Inr parent"
    "forest parent" "dom (hm_get parent) = fst ` set members"
    and cls': "\<forall>x \<in> fst ` set members. \<forall>y \<in> fst ` set members.
       forest_root parent x = forest_root parent y \<longleftrightarrow> (x, y) \<in> linked cfg es members"
    using union_edges_classes [of cfg es members] by (elim exE conjE)
  have cls: "x \<in> fst ` set members \<Longrightarrow> y \<in> fst ` set members \<Longrightarrow>
       forest_root parent x = forest_root parent y \<longleftrightarrow> (x, y) \<in> linked cfg es members" for x y
    using cls' by blast
  obtain parent' comps where g: "group_members members parent = Inr (parent', comps)" and wf: "hm_wf comps"
    and get: "\<And>r. hm_get comps r =
       (let c = filter (\<lambda>m. forest_root parent (fst m) = r) members in if c = [] then None else Some c)"
    using group_members_classes [OF p(2), of members] p(3) by blast
  have mem: "(r, c) \<in> set comps \<longleftrightarrow> c = filter (\<lambda>m. forest_root parent (fst m) = r) members \<and> c \<noteq> []" for r c
    unfolding hm_get_in [OF wf, symmetric] get Let_def by auto
  have comp: "component_of cfg es members t = filter (\<lambda>m. forest_root parent (fst m) = forest_root parent t) members"
    if "t \<in> fst ` set members" for t
    unfolding component_of_def by (intro filter_cong refl) (metis cls image_eqI linked_sym that)
  have "r = r'" if "(r, c) \<in> set comps" "(r', c) \<in> set comps" for r r' c
  proof -
    from that(1) have "c \<noteq> []" unfolding mem by blast
    then obtain m where m: "m \<in> set c" by (cases c) auto
    have "set c = {m \<in> set members. forest_root parent (fst m) = r}"
      using that(1) unfolding mem by (metis set_filter)
    moreover have "set c = {m \<in> set members. forest_root parent (fst m) = r'}"
      using that(2) unfolding mem by (metis set_filter)
    ultimately show ?thesis using m by auto
  qed
  then have "inj_on snd (set comps)" by (intro inj_onI) auto
  then have "distinct (map snd comps)" using wf by (simp add: hm_wf_def distinct_map)
  moreover have "snd ` set comps = components_of cfg es members"
  proof (intro set_eqI iffI)
    fix c assume "c \<in> snd ` set comps"
    then obtain r where r: "c = filter (\<lambda>m. forest_root parent (fst m) = r) members" "c \<noteq> []" by (auto simp: mem)
    then obtain m where m: "m \<in> set members" "forest_root parent (fst m) = r" by (auto simp: filter_empty_conv)
    then have "c = component_of cfg es members (fst m)" using comp [of "fst m"] r(1) by simp
    then show "c \<in> components_of cfg es members" using m(1) by (auto simp: components_of_def)
  next
    fix c assume "c \<in> components_of cfg es members"
    then obtain m where m: "m \<in> set members" "c = component_of cfg es members (fst m)" by (auto simp: components_of_def)
    then have "(forest_root parent (fst m), c) \<in> set comps"
      using comp [of "fst m"] by (auto simp: mem filter_empty_conv)
    then show "c \<in> snd ` set comps" by force
  qed
  moreover have "cohort_components cfg es members = Inr comps" by (simp add: cohort_components_def p(1) g)
  ultimately show ?thesis using wf by blast
qed

lemma cohort_components_length:
  assumes "cohort_components cfg es members = Inr comps"
  shows "2 \<le> length comps \<longleftrightarrow> disconnected cfg es members"
proof -
  from cohort_components_exact [of cfg es members] assms have
    d: "distinct (map snd comps)" and s: "snd ` set comps = components_of cfg es members" by auto
  have len: "length comps = card (components_of cfg es members)"
    using distinct_card [OF d] s by simp
  have "finite (components_of cfg es members)" by (simp add: components_of_def)
  then have "2 \<le> length comps \<longleftrightarrow> (\<exists>x \<in> components_of cfg es members. \<exists>y \<in> components_of cfg es members. x \<noteq> y)"
    unfolding len by (metis card_le_Suc0_iff_eq not_less_eq_eq numeral_2_eq_2)
  also have "\<dots> \<longleftrightarrow> disconnected cfg es members"
    unfolding components_of_def disconnected_def by (auto simp: component_eq_iff)
  finally show ?thesis .
qed

lemma disconnected_length: "disconnected cfg es members \<Longrightarrow> 2 \<le> length members"
  by (cases members rule: list.exhaust; cases "tl members") (auto simp: disconnected_def)

text \<open>A stable sort by decreasing size puts a largest component first; the rest are kept.\<close>

lemma off_components_set:
  assumes "distinct comps" and "comps \<noteq> []"
  shows "\<exists>big \<in> set comps. (\<forall>c \<in> set comps. comp_tasks c \<le> comp_tasks big) \<and>
    set (off_components min_tasks comps) = {c \<in> set comps. c \<noteq> big \<and> min_tasks \<le> comp_tasks c}"
proof -
  let ?key = "\<lambda>c. - uint (comp_tasks c)"
  have "length (sort_key ?key comps) = length comps" by (rule length_sort)
  with assms(2) obtain big rest where s: "sort_key ?key comps = big # rest"
    by (cases "sort_key ?key comps") auto
  have d: "distinct (big # rest)" using assms(1) distinct_sort [of ?key comps] unfolding s by simp
  have set: "set comps = insert big (set rest)" by (metis s set_sort list.simps(15))
  have "sorted (map ?key (big # rest))" using sorted_sort_key [of ?key comps] by (simp only: s)
  then have "\<forall>c \<in> set comps. comp_tasks c \<le> comp_tasks big" by (auto simp: set word_le_def)
  moreover have "set (off_components min_tasks comps) = {c \<in> set comps. c \<noteq> big \<and> min_tasks \<le> comp_tasks c}"
    using d by (auto simp: off_components_def s set not_less)
  ultimately show ?thesis using set by blast
qed

section \<open>The verdict on a cohort\<close>

text \<open>
  What \<open>splits\<close> decides for one cohort: the streak it leaves behind, and the plans. While the
  cohort is disconnected its streak counts up to the confirmation length; then every component
  but a largest one that is not too small is split off and the streak is forgotten.
\<close>

definition split_verdict :: "WakeGraphCfg \<Rightarrow> (u32 \<times> u32, EdgeState) hashmap \<Rightarrow> u64 \<Rightarrow> (u32 \<times> u64) list \<Rightarrow>
    u32 option \<Rightarrow> u32 option \<Rightarrow> SplitPlan list \<Rightarrow> bool" where
  "split_verdict cfg es cohort members old new plans \<longleftrightarrow>
     (let ticks = (case old of Some s \<Rightarrow> s | None \<Rightarrow> 0) + 1
      in if disconnected cfg es members
         then if ticks < split_confirm_ticks cfg then new = Some ticks \<and> plans = []
              else new = None \<and>
                   (\<exists>big \<in> components_of cfg es members.
                      (\<forall>c \<in> components_of cfg es members. comp_tasks c \<le> comp_tasks big) \<and>
                      set plans = (\<lambda>c. \<lparr> s_cohort = cohort, off_tgids = map fst c \<rparr>) `
                        {c \<in> components_of cfg es members. c \<noteq> big \<and> split_min_tasks cfg \<le> comp_tasks c})
         else new = None \<and> plans = [])"

lemma split_cohort_verdict:
  "\<exists>streaks' plans. split_cohort pri cfg es (cohort, members) (streaks, out) = Inr (streaks', out @ plans) \<and>
     (\<forall>c. c \<noteq> cohort \<longrightarrow> hm_get streaks' c = hm_get streaks c) \<and>
     (\<forall>p \<in> set plans. s_cohort p = cohort) \<and>
     split_verdict cfg es cohort members (hm_get streaks cohort) (hm_get streaks' cohort) plans"
proof (cases "disconnected cfg es members")
  case False
  obtain comps where comps: "cohort_components cfg es members = Inr comps"
    using cohort_components_exact by blast
  then have "length comps < 2" using cohort_components_length False by (simp add: not_le [symmetric])
  then have "split_cohort pri cfg es (cohort, members) (streaks, out) = Inr (hm_remove cohort streaks, out)"
    using comps by (simp add: split_cohort_def)
  then show ?thesis
    using False by (intro exI [of _ "hm_remove cohort streaks"] exI [of _ "[]"]) (simp add: hm_get_remove split_verdict_def Let_def)
next
  case True
  obtain comps where comps: "cohort_components cfg es members = Inr comps" "hm_wf comps" "distinct (map snd comps)"
    "snd ` set comps = components_of cfg es members" using cohort_components_exact by blast
  then have len: "2 \<le> length comps" using cohort_components_length True by blast
  let ?ticks = "(case hm_get streaks cohort of Some s \<Rightarrow> s | None \<Rightarrow> 0) + 1"
  let ?streaks = "hm_entry cohort 0 (\<lambda>s. s + 1) streaks"
  let ?plan = "\<lambda>c. \<lparr> s_cohort = cohort, off_tgids = map fst c \<rparr>"
  let ?off = "off_components (split_min_tasks cfg) (map snd (hm_iter pri comps))"
  have get: "the (hm_get ?streaks cohort) = ?ticks" by (simp add: hm_get_entry split: option.split)
  have step: "split_cohort pri cfg es (cohort, members) (streaks, out) =
      (if ?ticks < split_confirm_ticks cfg then Inr (?streaks, out)
       else Inr (hm_remove cohort ?streaks, out @ map ?plan ?off))"
    using len disconnected_length [OF True] comps(1) by (simp add: split_cohort_def Let_def get)
  show ?thesis
  proof (cases "?ticks < split_confirm_ticks cfg")
    case less: True
    then show ?thesis unfolding step
      using True by (intro exI [of _ ?streaks] exI [of _ "[]"]) (simp add: hm_get_entry split_verdict_def Let_def split: option.split)
  next
    case False
    have d: "distinct (map snd (hm_iter pri comps))" using comps(3) by (simp add: hm_iter_def distinct_map)
    have "comps \<noteq> []" using len by auto
    then have ne: "map snd (hm_iter pri comps) \<noteq> []" by (metis map_is_Nil_conv set_empty set_hm_iter)
    have s: "set (map snd (hm_iter pri comps)) = components_of cfg es members" using comps(4) by simp
    from off_components_set [OF d ne, of "split_min_tasks cfg"] obtain big where "big \<in> components_of cfg es members"
      "\<forall>c \<in> components_of cfg es members. comp_tasks c \<le> comp_tasks big"
      "set ?off = {c \<in> components_of cfg es members. c \<noteq> big \<and> split_min_tasks cfg \<le> comp_tasks c}"
      unfolding s by blast
    then have "split_verdict cfg es cohort members (hm_get streaks cohort) None (map ?plan ?off)"
      unfolding split_verdict_def Let_def using True False by auto
    then show ?thesis unfolding step
      using False by (intro exI [of _ "hm_remove cohort ?streaks"] exI [of _ "map ?plan ?off"])
        (simp add: hm_get_entry hm_get_remove)
  qed
qed

section \<open>The loop over cohorts\<close>

lemma split_loop:
  assumes "hm_wf ct"
  shows "\<exists>streaks' plans. try_fold (split_cohort pri cfg es) ct (streaks, out) = Inr (streaks', out @ plans) \<and>
     (\<forall>c. c \<notin> fst ` set ct \<longrightarrow> hm_get streaks' c = hm_get streaks c) \<and>
     (\<forall>p \<in> set plans. s_cohort p \<in> fst ` set ct) \<and>
     (\<forall>(c, members) \<in> set ct.
        split_verdict cfg es c members (hm_get streaks c) (hm_get streaks' c) (filter (\<lambda>p. s_cohort p = c) plans))"
  using assms
proof (induction ct arbitrary: streaks out)
  case (Cons e ct)
  obtain c0 members0 where e: "e = (c0, members0)" by (cases e)
  have c0: "c0 \<notin> fst ` set ct" and wf: "hm_wf ct" using Cons.prems by (auto simp: e hm_wf_def)
  obtain streaks1 plans1 where
    s1: "split_cohort pri cfg es (c0, members0) (streaks, out) = Inr (streaks1, out @ plans1)"
    and keep1: "\<forall>c. c \<noteq> c0 \<longrightarrow> hm_get streaks1 c = hm_get streaks c"
    and own1: "\<forall>p \<in> set plans1. s_cohort p = c0"
    and v1: "split_verdict cfg es c0 members0 (hm_get streaks c0) (hm_get streaks1 c0) plans1"
    using split_cohort_verdict [of pri cfg es c0 members0 streaks out] by auto
  obtain streaks2 plans2 where
    s2: "try_fold (split_cohort pri cfg es) ct (streaks1, out @ plans1) = Inr (streaks2, (out @ plans1) @ plans2)"
    and keep2: "\<forall>c. c \<notin> fst ` set ct \<longrightarrow> hm_get streaks2 c = hm_get streaks1 c"
    and own2: "\<forall>p \<in> set plans2. s_cohort p \<in> fst ` set ct"
    and v2: "\<forall>(c, members) \<in> set ct.
        split_verdict cfg es c members (hm_get streaks1 c) (hm_get streaks2 c) (filter (\<lambda>p. s_cohort p = c) plans2)"
    using Cons.IH [OF wf, of streaks1 "out @ plans1"] by auto
  have f0: "filter (\<lambda>p. s_cohort p = c0) (plans1 @ plans2) = plans1"
    using own1 own2 c0 by (auto simp: filter_empty_conv filter_id_conv)
  have fc: "filter (\<lambda>p. s_cohort p = c) (plans1 @ plans2) = filter (\<lambda>p. s_cohort p = c) plans2" if "c \<noteq> c0" for c
    using own1 that by (auto simp: filter_empty_conv)
  have "split_verdict cfg es c members (hm_get streaks c) (hm_get streaks2 c) (filter (\<lambda>p. s_cohort p = c) (plans1 @ plans2))"
    if "(c, members) \<in> set (e # ct)" for c members
  proof (cases "c = c0")
    case True
    then have "members = members0" using that c0 e by force
    with True v1 keep2 c0 f0 show ?thesis by simp
  next
    case False
    then have "(c, members) \<in> set ct" using that e by simp
    with False v2 keep1 fc show ?thesis by fastforce
  qed
  moreover have "try_fold (split_cohort pri cfg es) (e # ct) (streaks, out) = Inr (streaks2, out @ plans1 @ plans2)"
    using s1 s2 by (simp add: e)
  moreover have "\<forall>c. c \<notin> fst ` set (e # ct) \<longrightarrow> hm_get streaks2 c = hm_get streaks c"
    using keep1 keep2 e by auto
  moreover have "\<forall>p \<in> set (plans1 @ plans2). s_cohort p \<in> fst ` set (e # ct)"
    using own1 own2 e by auto
  ultimately show ?case by (intro exI [of _ streaks2] exI [of _ "plans1 @ plans2"]) blast
qed auto

lemma splits_verdicts:
  assumes "hm_wf cohort_tgids" and "hm_wf (split_streak g)"
  obtains streaks plans where "splits pri cohort_tgids g = Inr (g\<lparr> split_streak := streaks \<rparr>, plans)"
    "\<forall>c. c \<notin> fst ` set cohort_tgids \<longrightarrow> hm_get streaks c = None"
    "\<forall>p \<in> set plans. s_cohort p \<in> fst ` set cohort_tgids"
    "\<forall>(c, members) \<in> set cohort_tgids. split_verdict (wg_cfg g) (edges g) c members
       (hm_get (split_streak g) c) (hm_get streaks c) (filter (\<lambda>p. s_cohort p = c) plans)"
proof -
  let ?kept = "hm_retain (\<lambda>cohort _. hm_contains cohort_tgids cohort) (split_streak g)"
  have kept: "hm_get ?kept c = (if c \<in> fst ` set cohort_tgids then hm_get (split_streak g) c else None)" for c
    by (simp add: hm_get_retain [OF assms(2)] hm_contains_dom split: option.split)
  obtain streaks plans where
    s: "try_fold (split_cohort pri (wg_cfg g) (edges g)) cohort_tgids (?kept, []) = Inr (streaks, [] @ plans)"
    and out: "\<forall>c. c \<notin> fst ` set cohort_tgids \<longrightarrow> hm_get streaks c = hm_get ?kept c"
    and own: "\<forall>p \<in> set plans. s_cohort p \<in> fst ` set cohort_tgids"
    and v: "\<forall>(c, members) \<in> set cohort_tgids. split_verdict (wg_cfg g) (edges g) c members
       (hm_get ?kept c) (hm_get streaks c) (filter (\<lambda>p. s_cohort p = c) plans)"
    using split_loop [OF assms(1)] by blast
  have "\<forall>(c, members) \<in> set cohort_tgids. split_verdict (wg_cfg g) (edges g) c members
       (hm_get (split_streak g) c) (hm_get streaks c) (filter (\<lambda>p. s_cohort p = c) plans)"
  proof clarify
    fix c members assume m: "(c, members) \<in> set cohort_tgids"
    then have "c \<in> fst ` set cohort_tgids" by force
    with bspec [OF v m] show "split_verdict (wg_cfg g) (edges g) c members
        (hm_get (split_streak g) c) (hm_get streaks c) (filter (\<lambda>p. s_cohort p = c) plans)"
      by (simp add: kept)
  qed
  moreover have "\<forall>c. c \<notin> fst ` set cohort_tgids \<longrightarrow> hm_get streaks c = None" using out by (simp add: kept)
  moreover have "splits pri cohort_tgids g = Inr (g\<lparr> split_streak := streaks \<rparr>, plans)" using s by (simp add: splits_def)
  ultimately show thesis using that own by blast
qed

text \<open>A plan of a call, seen on its own.\<close>

lemma splits_plan:
  assumes "hm_wf cohort_tgids" and "hm_wf (split_streak g)"
    and "splits pri cohort_tgids g = Inr (g', plans)" and "p \<in> set plans"
  obtains members big where "(s_cohort p, members) \<in> set cohort_tgids" "disconnected (wg_cfg g) (edges g) members"
    "split_confirm_ticks (wg_cfg g) \<le> (case hm_get (split_streak g) (s_cohort p) of Some s \<Rightarrow> s | None \<Rightarrow> 0) + 1"
    "big \<in> components_of (wg_cfg g) (edges g) members"
    "\<forall>q \<in> set plans. s_cohort q = s_cohort p \<longrightarrow>
       (\<exists>c \<in> components_of (wg_cfg g) (edges g) members. c \<noteq> big \<and> comp_tasks c \<le> comp_tasks big \<and>
          split_min_tasks (wg_cfg g) \<le> comp_tasks c \<and> off_tgids q = map fst c)"
proof -
  obtain streaks plans' where s: "splits pri cohort_tgids g = Inr (g\<lparr> split_streak := streaks \<rparr>, plans')"
    and own: "\<forall>p \<in> set plans'. s_cohort p \<in> fst ` set cohort_tgids"
    and v: "\<forall>(c, members) \<in> set cohort_tgids. split_verdict (wg_cfg g) (edges g) c members
       (hm_get (split_streak g) c) (hm_get streaks c) (filter (\<lambda>p. s_cohort p = c) plans')"
    by (rule splits_verdicts [OF assms(1,2)])
  have pl: "plans' = plans" using s assms(3) by simp
  from own assms(4) pl obtain members where m: "(s_cohort p, members) \<in> set cohort_tgids" by auto
  let ?own = "filter (\<lambda>q. s_cohort q = s_cohort p) plans"
  have "?own \<noteq> []" using assms(4) by (auto simp: filter_empty_conv)
  with bspec [OF v m] pl obtain big where
    d: "disconnected (wg_cfg g) (edges g) members"
    and n: "split_confirm_ticks (wg_cfg g) \<le> (case hm_get (split_streak g) (s_cohort p) of Some s \<Rightarrow> s | None \<Rightarrow> 0) + 1"
    and b: "big \<in> components_of (wg_cfg g) (edges g) members"
      "\<forall>c \<in> components_of (wg_cfg g) (edges g) members. comp_tasks c \<le> comp_tasks big"
    and set: "set ?own = (\<lambda>c. \<lparr> s_cohort = s_cohort p, off_tgids = map fst c \<rparr>) `
       {c \<in> components_of (wg_cfg g) (edges g) members. c \<noteq> big \<and> split_min_tasks (wg_cfg g) \<le> comp_tasks c}"
    by (auto simp: split_verdict_def Let_def not_less split: if_splits)
  have "\<forall>q \<in> set plans. s_cohort q = s_cohort p \<longrightarrow>
       (\<exists>c \<in> components_of (wg_cfg g) (edges g) members. c \<noteq> big \<and> comp_tasks c \<le> comp_tasks big \<and>
          split_min_tasks (wg_cfg g) \<le> comp_tasks c \<and> off_tgids q = map fst c)"
  proof (intro ballI impI)
    fix q assume "q \<in> set plans" "s_cohort q = s_cohort p"
    then have "q \<in> set ?own" by simp
    then show "\<exists>c \<in> components_of (wg_cfg g) (edges g) members. c \<noteq> big \<and> comp_tasks c \<le> comp_tasks big \<and>
          split_min_tasks (wg_cfg g) \<le> comp_tasks c \<and> off_tgids q = map fst c"
      unfolding set using b(2) by auto
  qed
  with m d n b(1) show thesis by (rule that)
qed

text \<open>Live edges do not leave a component, and components do not overlap.\<close>

lemma component_closed:
  assumes "c \<in> components_of cfg es members" and "((a, b), st) \<in> set es"
    and "\<not> f_lt (e_rate st) (split_min_wakes_per_sec cfg)"
    and "a \<in> fst ` set members" and "b \<in> fst ` set members"
  shows "a \<in> fst ` set c \<longleftrightarrow> b \<in> fst ` set c"
proof -
  have "(a, b) \<in> set (live_edges cfg es (fst ` set members))"
    using assms(2-5) by (force simp: live_edges_def)
  then have ab: "(a, b) \<in> linked cfg es members" by (auto simp: linked_def sym_edges_def)
  obtain t where c: "c = component_of cfg es members t" using assms(1) by (auto simp: components_of_def)
  have "x \<in> fst ` set c \<longleftrightarrow> (t, x) \<in> linked cfg es members" if "x \<in> fst ` set members" for x
    using that by (auto simp: c component_of_def image_iff)
  with ab assms(4,5) show ?thesis by (metis linked_sym linked_trans)
qed

lemma components_disjoint:
  assumes "c \<in> components_of cfg es members" and "c' \<in> components_of cfg es members" and "c \<noteq> c'"
  shows "fst ` set c \<inter> fst ` set c' = {}"
proof -
  obtain t t' where t: "c = component_of cfg es members t" "c' = component_of cfg es members t'" "t \<in> fst ` set members"
    using assms(1,2) by (auto simp: components_of_def)
  with assms(3) have "(t, t') \<notin> linked cfg es members" by (simp add: component_eq_iff)
  then show ?thesis by (auto simp: t component_of_def) (metis linked_sym linked_trans)
qed

lemma component_nonempty: "c \<in> components_of cfg es members \<Longrightarrow> fst ` set c \<noteq> {} \<and> set c \<subseteq> set members"
  unfolding components_of_def component_of_def by force

lemma splits_streak_wf:
  assumes "hm_wf (split_streak g)" and "splits pri cohort_tgids g = Inr (g', plans)"
  shows "hm_wf (split_streak g')"
proof -
  obtain s where f: "try_fold (split_cohort pri (wg_cfg g) (edges g)) cohort_tgids
      (hm_retain (\<lambda>cohort _. hm_contains cohort_tgids cohort) (split_streak g), []) = Inr s"
    and g': "g' = g\<lparr> split_streak := fst s \<rparr>"
    using assms(2) by (auto simp: splits_def split: sum.splits)
  have "hm_wf (fst s)"
    by (rule try_fold_invariant [OF f, where I = "\<lambda>s. hm_wf (fst s)"])
      (use assms(1) in \<open>auto simp: split_cohort_def Let_def split: if_splits sum.splits\<close>)
  then show ?thesis by (simp add: g')
qed

section \<open>Confirmation over ticks\<close>

record SplitInput =
  x_edges :: "(u32 \<times> u32, EdgeState) hashmap"
  x_cohorts :: "(u64, (u32 \<times> u64) list) hashmap"
  x_pri :: "u32 \<Rightarrow> nat"

definition split_tick :: "WakeGraphCfg \<Rightarrow> SplitInput \<Rightarrow> (u64, u32) hashmap \<Rightarrow> panic + (WakeGraph \<times> SplitPlan list)" where
  "split_tick cfg i streaks = splits (x_pri i) (x_cohorts i) \<lparr> wg_cfg = cfg, edges = x_edges i, split_streak = streaks \<rparr>"

text \<open>The streaks after a tick, and whether it split cohort \<open>c\<close>; only lists of distinct keys are maps.\<close>

definition streak_step :: "WakeGraphCfg \<Rightarrow> u64 \<Rightarrow> SplitInput \<Rightarrow> (u64, u32) hashmap \<Rightarrow> (u64, u32) hashmap \<times> bool" where
  "streak_step cfg c i streaks =
     (if hm_wf (x_cohorts i)
      then case split_tick cfg i streaks of
             Inl _ \<Rightarrow> (streaks, False)
           | Inr (g, plans) \<Rightarrow> (split_streak g, c \<in> s_cohort ` set plans)
      else (streaks, False))"

definition cohort_disconnected :: "WakeGraphCfg \<Rightarrow> u64 \<Rightarrow> SplitInput \<Rightarrow> bool" where
  "cohort_disconnected cfg c i \<longleftrightarrow>
     (case hm_get (x_cohorts i) c of None \<Rightarrow> False | Some members \<Rightarrow> disconnected cfg (x_edges i) members)"

definition streak_count :: "u64 \<Rightarrow> (u64, u32) hashmap \<Rightarrow> nat" where
  "streak_count c streaks = (case hm_get streaks c of Some s \<Rightarrow> unat s | None \<Rightarrow> 0)"

lemma streak_stepE:
  assumes "hm_wf streaks" and "hm_wf (x_cohorts i)"
  obtains g plans where "split_tick cfg i streaks = Inr (g, plans)"
    "streak_step cfg c i streaks = (split_streak g, c \<in> s_cohort ` set plans)" "hm_wf (split_streak g)"
    "hm_get (x_cohorts i) c = None \<Longrightarrow> hm_get (split_streak g) c = None"
    "\<And>members. hm_get (x_cohorts i) c = Some members \<Longrightarrow> split_verdict cfg (x_edges i) c members
       (hm_get streaks c) (hm_get (split_streak g) c) (filter (\<lambda>p. s_cohort p = c) plans)"
    "c \<in> s_cohort ` set plans \<Longrightarrow> \<exists>members. hm_get (x_cohorts i) c = Some members"
proof -
  let ?g = "\<lparr> wg_cfg = cfg, edges = x_edges i, split_streak = streaks \<rparr>"
  obtain streaks' plans where s: "splits (x_pri i) (x_cohorts i) ?g = Inr (?g\<lparr> split_streak := streaks' \<rparr>, plans)"
    "\<forall>c. c \<notin> fst ` set (x_cohorts i) \<longrightarrow> hm_get streaks' c = None"
    "\<forall>p \<in> set plans. s_cohort p \<in> fst ` set (x_cohorts i)"
    "\<forall>(c, members) \<in> set (x_cohorts i). split_verdict (wg_cfg ?g) (edges ?g) c members
       (hm_get (split_streak ?g) c) (hm_get streaks' c) (filter (\<lambda>p. s_cohort p = c) plans)"
    by (rule splits_verdicts [OF assms(2), of ?g]) (use assms(1) in auto)
  have k: "hm_get (x_cohorts i) c = None \<longleftrightarrow> c \<notin> fst ` set (x_cohorts i)" by (simp add: map_of_eq_None_iff)
  have "hm_wf (split_streak (?g\<lparr> split_streak := streaks' \<rparr>))"
    using splits_streak_wf [OF _ s(1)] assms(1) by simp
  moreover have "c \<in> s_cohort ` set plans \<Longrightarrow> \<exists>members. hm_get (x_cohorts i) c = Some members"
    using s(3) k by (metis imageE not_Some_eq)
  ultimately show thesis
    using s k assms(2) by (intro that [of "?g\<lparr> split_streak := streaks' \<rparr>" plans])
      (auto simp: split_tick_def streak_step_def dest!: map_of_SomeD)
qed

interpretation split: confirm_counter
  "streak_step cfg c" hm_wf "\<lambda>i. hm_wf (x_cohorts i)" "cohort_disconnected cfg c" "streak_count c"
  "unat (split_confirm_ticks cfg)"
  for cfg :: WakeGraphCfg and c
proof (unfold_locales, goal_cases)
  case (1 s i)
  then show ?case
    by (cases "hm_wf (x_cohorts i)") (auto simp: streak_step_def elim: streak_stepE [OF 1, of i cfg c])
next
  case (2 s i)
  then show ?case by (simp add: streak_step_def)
next
  case (3 s i)
  show ?case
    by (rule streak_stepE [OF 3(1,2), of cfg c], cases "hm_get (x_cohorts i) c")
      (use 3(3) in \<open>auto simp: cohort_disconnected_def streak_count_def split_verdict_def\<close>)
next
  case (4 s i)
  then obtain members where m: "hm_get (x_cohorts i) c = Some members" "disconnected cfg (x_edges i) members"
    by (auto simp: cohort_disconnected_def split: option.splits)
  show ?case
  proof (rule streak_stepE [OF 4(1,2), of cfg c])
    fix g plans
    assume st: "streak_step cfg c i s = (split_streak g, c \<in> s_cohort ` set plans)"
      and v: "\<And>members. hm_get (x_cohorts i) c = Some members \<Longrightarrow> split_verdict cfg (x_edges i) c members
       (hm_get s c) (hm_get (split_streak g) c) (filter (\<lambda>p. s_cohort p = c) plans)"
    from v [OF m(1)] m(2) show ?case
      by (auto simp: st streak_count_def split_verdict_def Let_def unat_plus_one_le split: if_splits option.splits)
  qed
next
  case (5 s i)
  then have wf: "hm_wf (x_cohorts i)" by (auto simp: streak_step_def split: if_splits)
  show ?case
  proof (rule streak_stepE [OF 5(1) wf, of cfg c])
    fix g plans
    assume st: "streak_step cfg c i s = (split_streak g, c \<in> s_cohort ` set plans)"
      and v: "\<And>members. hm_get (x_cohorts i) c = Some members \<Longrightarrow> split_verdict cfg (x_edges i) c members
       (hm_get s c) (hm_get (split_streak g) c) (filter (\<lambda>p. s_cohort p = c) plans)"
      and ex: "c \<in> s_cohort ` set plans \<Longrightarrow> \<exists>members. hm_get (x_cohorts i) c = Some members"
    from st 5(2) have c: "c \<in> s_cohort ` set plans" by simp
    with ex obtain members where m: "hm_get (x_cohorts i) c = Some members" by blast
    have "filter (\<lambda>p. s_cohort p = c) plans \<noteq> []" using c by (auto simp: filter_empty_conv)
    with v [OF m] have "disconnected cfg (x_edges i) members"
      "split_confirm_ticks cfg \<le> (case hm_get s c of Some s \<Rightarrow> s | None \<Rightarrow> 0) + 1"
      by (auto simp: split_verdict_def Let_def not_less split: if_splits)
    moreover from this(2) have "unat (split_confirm_ticks cfg) \<le> Suc (streak_count c s)"
      unfolding word_le_nat_alt streak_count_def
      by (rule order_trans) (auto simp: unat_plus_one_le split: option.split)
    ultimately show ?case using wf m by (simp add: cohort_disconnected_def)
  qed
qed

section \<open>Properties\<close>

text \<open>
  C3. \<open>splits\<close> always returns (the recursive \<open>find\<close> never overflows the stack or misses a key)
  and decides exactly by connectivity: for every cohort, while its members are not all linked by
  live edges its streak counts up; when the streak reaches the confirmation length, the plans are
  exactly the connected components other than one with the most tasks that have enough tasks, and
  the streak is dropped; a connected cohort has no plan and no streak; streaks of vanished cohorts
  are dropped. This holds for every order in which the hash maps are walked.
\<close>

theorem splits_refines:
  assumes "hm_wf cohort_tgids" and "hm_wf (split_streak g)"
  shows "\<exists>g' plans. splits pri cohort_tgids g = Inr (g', plans) \<and> wg_cfg g' = wg_cfg g \<and> edges g' = edges g \<and>
    (\<forall>c. c \<notin> fst ` set cohort_tgids \<longrightarrow> hm_get (split_streak g') c = None) \<and>
    (\<forall>p \<in> set plans. s_cohort p \<in> fst ` set cohort_tgids) \<and>
    (\<forall>(c, members) \<in> set cohort_tgids. split_verdict (wg_cfg g) (edges g) c members
       (hm_get (split_streak g) c) (hm_get (split_streak g') c) (filter (\<lambda>p. s_cohort p = c) plans))"
  by (rule splits_verdicts [OF assms, of pri]) (auto intro!: exI)

text \<open>
  A split never cuts a live edge and never takes a whole cohort: the members a plan moves off
  are a non-empty proper part of the cohort, every edge of the cohort at or above the live rate
  has both or neither of its ends in the plan, and two plans of the same cohort share no member.
\<close>

lemma splits_safe:
  assumes "hm_wf cohort_tgids" and "hm_wf (split_streak g)"
    and "splits pri cohort_tgids g = Inr (g', plans)" and "p \<in> set plans"
  shows "\<exists>members. (s_cohort p, members) \<in> set cohort_tgids \<and> off_tgids p \<noteq> [] \<and>
    set (off_tgids p) \<subset> fst ` set members \<and>
    (\<forall>((a, b), st) \<in> set (edges g).
       \<not> f_lt (e_rate st) (split_min_wakes_per_sec (wg_cfg g)) \<and> a \<in> fst ` set members \<and> b \<in> fst ` set members \<longrightarrow>
       (a \<in> set (off_tgids p) \<longleftrightarrow> b \<in> set (off_tgids p))) \<and>
    (\<forall>q \<in> set plans. s_cohort q = s_cohort p \<and> q \<noteq> p \<longrightarrow> set (off_tgids q) \<inter> set (off_tgids p) = {})"
proof -
  obtain members big where m: "(s_cohort p, members) \<in> set cohort_tgids"
    and big: "big \<in> components_of (wg_cfg g) (edges g) members"
    and all: "\<forall>q \<in> set plans. s_cohort q = s_cohort p \<longrightarrow>
       (\<exists>c \<in> components_of (wg_cfg g) (edges g) members. c \<noteq> big \<and> comp_tasks c \<le> comp_tasks big \<and>
          split_min_tasks (wg_cfg g) \<le> comp_tasks c \<and> off_tgids q = map fst c)"
    by (rule splits_plan [OF assms])
  obtain c where c: "c \<in> components_of (wg_cfg g) (edges g) members" "c \<noteq> big" "off_tgids p = map fst c"
    using bspec [OF all assms(4)] by blast
  have "set (off_tgids p) \<subset> fst ` set members"
  proof -
    have "fst ` set c \<subseteq> fst ` set members" "fst ` set big \<subseteq> fst ` set members" "fst ` set big \<noteq> {}"
      using component_nonempty [OF c(1)] component_nonempty [OF big] by (auto intro: image_mono)
    with components_disjoint [OF c(1) big c(2)] have "fst ` set c \<noteq> fst ` set members" by (metis inf.absorb2)
    with \<open>fst ` set c \<subseteq> fst ` set members\<close> show ?thesis unfolding c(3) set_map by (metis psubset_eq)
  qed
  moreover have "set (off_tgids q) \<inter> set (off_tgids p) = {}"
    if q: "q \<in> set plans" "s_cohort q = s_cohort p" "q \<noteq> p" for q
  proof -
    obtain c' where c': "c' \<in> components_of (wg_cfg g) (edges g) members" "off_tgids q = map fst c'"
      using all [rule_format, OF q(1,2)] by (elim bexE conjE)
    with c(3) q have "c' \<noteq> c" by auto
    with components_disjoint [OF c'(1) c(1)] c(3) c'(2) show ?thesis by simp
  qed
  moreover have "a \<in> set (off_tgids p) \<longleftrightarrow> b \<in> set (off_tgids p)"
    if "((a, b), st) \<in> set (edges g)" "\<not> f_lt (e_rate st) (split_min_wakes_per_sec (wg_cfg g))"
      "a \<in> fst ` set members" "b \<in> fst ` set members" for a b st
    using component_closed [OF c(1) that] unfolding c(3) set_map .
  moreover have "off_tgids p \<noteq> []" using component_nonempty [OF c(1)] c(3) by simp
  ultimately show ?thesis using m by (intro exI [of _ members] conjI) (simp_all, blast+)
qed

text \<open>
  A lull cannot shatter a cohort: over any history of ticks from a new graph, a cohort that is
  split in a tick was disconnected in each of the last \<open>split_confirm_ticks\<close> ticks, this one
  included.
\<close>

lemma split_confirmed:
  assumes "\<forall>j \<in> set (is @ [i]). hm_wf (x_cohorts j)"
    and "split_tick cfg i (run_steps (streak_step cfg c) is []) = Inr (g, plans)"
    and "p \<in> set plans" and "s_cohort p = c"
  shows "unat (split_confirm_ticks cfg) \<le> length (is @ [i]) \<and>
    (\<forall>j \<in> set (drop (length (is @ [i]) - unat (split_confirm_ticks cfg)) (is @ [i])). cohort_disconnected cfg c j)"
proof -
  have f: "filter (\<lambda>i. hm_wf (x_cohorts i)) (is @ [i]) = is @ [i]" using assms(1) by (auto simp: filter_id_conv)
  have "snd (streak_step cfg c i (run_steps (streak_step cfg c) is []))"
    using assms by (auto simp: streak_step_def)
  from split.confirmed_run [OF _ _ this] have
    "unat (split_confirm_ticks cfg) \<le> trailing (cohort_disconnected cfg c) (is @ [i])"
    unfolding f by (simp add: streak_count_def)
  from trailing_suffix [OF this] show ?thesis .
qed

section \<open>Witnesses\<close>

text \<open>A cohort of four processes whose halves have stopped talking, one tick before its split.\<close>

definition demo_edges :: "(u32 \<times> u32, EdgeState) hashmap" where
  "demo_edges =
     [((1, 2), \<lparr> e_rate = Fin 50, e_inst = Fin 60, over_ticks = 0 \<rparr>),
      ((2, 3), \<lparr> e_rate = Fin 3, e_inst = Fin 0, over_ticks = 0 \<rparr>),
      ((3, 4), \<lparr> e_rate = Fin 20, e_inst = Fin 20, over_ticks = 0 \<rparr>)]"

definition demo_cohorts :: "(u64, (u32 \<times> u64) list) hashmap" where
  "demo_cohorts = [(5, [(1, 3), (2, 4), (3, 2), (4, 2)])]"

definition demo_split :: WakeGraph where
  "demo_split = \<lparr> wg_cfg = WakeGraphCfg_default, edges = demo_edges, split_streak = [(5, 24), (9, 3)] \<rparr>"

lemma demo_split_wf: "hm_wf demo_cohorts" "hm_wf (split_streak demo_split)"
  by (simp_all add: hm_wf_def demo_cohorts_def demo_split_def)

lemma demo_split_eval:
  "splits (\<lambda>_. 0) demo_cohorts demo_split =
     Inr (demo_split\<lparr> split_streak := [] \<rparr>, [\<lparr> s_cohort = 5, off_tgids = [3, 4] \<rparr>])"
  by code_simp

text \<open>Witness of C3.\<close>

theorem splits_refines_witness:
  "\<exists>g' plans. splits (\<lambda>_. 0) demo_cohorts demo_split = Inr (g', plans) \<and> hm_get (split_streak g') 9 = None"
  using splits_refines [OF demo_split_wf, of "\<lambda>_. 0"] by (fastforce simp: demo_cohorts_def)

text \<open>An instance.\<close>

lemma splits_safe_witness:
  "\<exists>members. (5, members) \<in> set demo_cohorts \<and> {3, 4} \<subset> fst ` set members"
proof -
  have "\<lparr> s_cohort = 5, off_tgids = [3, 4] \<rparr> \<in> set [\<lparr> s_cohort = 5, off_tgids = [3, 4] \<rparr>]" by simp
  from splits_safe [OF demo_split_wf demo_split_eval this] obtain members where
    "(5, members) \<in> set demo_cohorts" "set [3, 4] \<subset> fst ` set members" by auto
  then show ?thesis by (metis list.set(1) list.set(2))
qed

text \<open>An instance.\<close>

definition demo_split_input :: SplitInput where
  "demo_split_input = \<lparr> x_edges = demo_edges, x_cohorts = demo_cohorts, x_pri = (\<lambda>_. 0) \<rparr>"

lemma demo_split_tick:
  "split_tick (WakeGraphCfg_default\<lparr> split_confirm_ticks := 2 \<rparr>) demo_split_input [(5, 1)] =
     Inr (\<lparr> wg_cfg = WakeGraphCfg_default\<lparr> split_confirm_ticks := 2 \<rparr>, edges = demo_edges, split_streak = [] \<rparr>,
          [\<lparr> s_cohort = 5, off_tgids = [3, 4] \<rparr>])"
  by code_simp

lemma demo_streak_step: "fst (streak_step (WakeGraphCfg_default\<lparr> split_confirm_ticks := 2 \<rparr>) 5 demo_split_input []) = [(5, 1)]"
  by code_simp

lemma split_confirmed_witness:
  "2 \<le> length [demo_split_input, demo_split_input] \<and>
   cohort_disconnected (WakeGraphCfg_default\<lparr> split_confirm_ticks := 2 \<rparr>) 5 demo_split_input"
proof -
  have wf: "\<forall>j \<in> set ([demo_split_input] @ [demo_split_input]). hm_wf (x_cohorts j)"
    by (simp add: demo_split_input_def demo_split_wf)
  have run: "split_tick (WakeGraphCfg_default\<lparr> split_confirm_ticks := 2 \<rparr>) demo_split_input
      (run_steps (streak_step (WakeGraphCfg_default\<lparr> split_confirm_ticks := 2 \<rparr>) 5) [demo_split_input] []) =
     Inr (\<lparr> wg_cfg = WakeGraphCfg_default\<lparr> split_confirm_ticks := 2 \<rparr>, edges = demo_edges, split_streak = [] \<rparr>,
          [\<lparr> s_cohort = 5, off_tgids = [3, 4] \<rparr>])"
    by (simp add: demo_streak_step demo_split_tick)
  show ?thesis
    using split_confirmed [OF wf run, of "\<lparr> s_cohort = 5, off_tgids = [3, 4] \<rparr>"] by simp
qed

end
