(* ===== verification/Shared_Layout.thy ===== *)
theory Shared_Layout
  imports Cohort_Prelude
begin

text \<open>
  The structs and constants that cross the boundary between the BPF scheduler and the daemon,
  \<open>scx_cohort_common/src/lib.rs\<close>, with their byte layout: \<open>#[repr(C)]\<close> fields in declaration
  order, explicit padding, little-endian integers (the scheduler targets x86-64). Reading a value
  (\<open>read_from_bytes\<close>) fails exactly on a wrong size; writing one (\<open>as_bytes\<close>) is the inverse.
  Both come from the \<open>zerocopy\<close> derives, which reinterpret the memory of the struct: what is rendered here is
  the memory that \<open>repr(C)\<close> fixes from the declarations of \<open>lib.rs\<close>.
  The contract is the locale \<open>codec\<close>, interpreted on every struct and on the integer keys.
\<close>

type_synonym bytes = "u8 list"

section \<open>Constants\<close>

definition MAX_CPUS :: u32 where "MAX_CPUS = 512"
definition MAX_LLCS :: u32 where "MAX_LLCS = 8"
definition MAX_COHORTS :: u32 where "MAX_COHORTS = 1024"
definition WAKE_EDGE_SLOTS :: u32 where "WAKE_EDGE_SLOTS = 8192"
definition COHORT_INVALID :: u64 where "COHORT_INVALID = 0"
definition COHORT_PINNED :: u32 where "COHORT_PINNED = 1"
definition STAT_SYNC_LOCAL :: nat where "STAT_SYNC_LOCAL = 0"
definition STAT_PREV_IDLE :: nat where "STAT_PREV_IDLE = 1"
definition STAT_IDLE_CORE :: nat where "STAT_IDLE_CORE = 2"
definition STAT_IDLE_SMT :: nat where "STAT_IDLE_SMT = 3"
definition STAT_HOME_MISS_CLAMP :: nat where "STAT_HOME_MISS_CLAMP = 4"
definition STAT_ENQ_HOME :: nat where "STAT_ENQ_HOME = 5"
definition STAT_ENQ_SPILL :: nat where "STAT_ENQ_SPILL = 6"
definition STAT_STEAL :: nat where "STAT_STEAL = 7"
definition STAT_TCTX_ERR :: nat where "STAT_TCTX_ERR = 8"
definition NR_STATS :: nat where "NR_STATS = 9"

section \<open>Structs\<close>

record TaskCtx =
  tc_cohort_id :: u64
  tc_vtime :: u64
  tc_last_run_at :: u64
  tc_avg_runtime_ns :: u64
  tc_wake_freq :: u64
  tc_last_wake_at :: u64
  tc_is_spilled :: u32
  tc_spill_llc :: u32
  tc_home_llc :: u32
  tc_pad :: u32

record CohortPolicy =
  p_home_llc :: u32
  p_flags :: u32

definition CohortPolicy_default :: CohortPolicy where
  "CohortPolicy_default = \<lparr> p_home_llc = 0, p_flags = 0 \<rparr>"

record CohortCounters =
  k_nr_tasks :: u64
  k_load_sum :: u64

definition CohortCounters_default :: CohortCounters where
  "CohortCounters_default = \<lparr> k_nr_tasks = 0, k_load_sum = 0 \<rparr>"

record WakeEdgeKey =
  waker_tgid :: u32
  wakee_tgid :: u32

record TaskStat =
  ts_tgid :: u32
  ts_pad :: u32
  ts_cohort_id :: u64
  ts_runtime_sum :: u64
  ts_runtime_home_sum :: u64
  ts_comm :: bytes

record Tunables =
  steal_min :: u64
  steal_delay_ns :: u64
  credit_max_ns :: u64
  credit_wake_freq_min :: u64
  credit_runtime_max_ns :: u64
  sample_shift :: u32
  tn_pad :: u32

definition Tunables_default :: Tunables where
  "Tunables_default =
     \<lparr> steal_min = 2, steal_delay_ns = 500000, credit_max_ns = 4000000, credit_wake_freq_min = 50,
       credit_runtime_max_ns = 2000000, sample_shift = 3, tn_pad = 0 \<rparr>"

section \<open>Little-endian integers\<close>

fun le_enc :: "nat \<Rightarrow> 'a::len word \<Rightarrow> bytes" where
  "le_enc 0 w = []"
| "le_enc (Suc n) w = ucast w # le_enc n (drop_bit 8 w)"

fun le_dec :: "bytes \<Rightarrow> 'a::len word" where
  "le_dec [] = 0"
| "le_dec (b # bs) = or (ucast b) (push_bit 8 (le_dec bs))"

definition u32_bytes :: "u32 \<Rightarrow> bytes" where "u32_bytes w = le_enc 4 w"
definition u64_bytes :: "u64 \<Rightarrow> bytes" where "u64_bytes w = le_enc 8 w"

text \<open>\<open>try_into().map(from_ne_bytes)\<close>: an error unless the slice has the right length.\<close>

definition u32_read :: "bytes \<Rightarrow> u32 option" where
  "u32_read b = (if length b = 4 then Some (le_dec b) else None)"

definition u64_read :: "bytes \<Rightarrow> u64 option" where
  "u64_read b = (if length b = 8 then Some (le_dec b) else None)"

section \<open>Layouts\<close>

definition slice :: "bytes \<Rightarrow> nat \<Rightarrow> nat \<Rightarrow> bytes" where
  "slice b off len = take len (drop off b)"

definition CohortPolicy_bytes :: "CohortPolicy \<Rightarrow> bytes" where
  "CohortPolicy_bytes p = u32_bytes (p_home_llc p) @ u32_bytes (p_flags p)"

definition CohortPolicy_read :: "bytes \<Rightarrow> CohortPolicy option" where
  "CohortPolicy_read b =
     (if length b = 8
      then Some \<lparr> p_home_llc = le_dec (slice b 0 4), p_flags = le_dec (slice b 4 4) \<rparr> else None)"

definition CohortCounters_bytes :: "CohortCounters \<Rightarrow> bytes" where
  "CohortCounters_bytes c = u64_bytes (k_nr_tasks c) @ u64_bytes (k_load_sum c)"

definition CohortCounters_read :: "bytes \<Rightarrow> CohortCounters option" where
  "CohortCounters_read b =
     (if length b = 16
      then Some \<lparr> k_nr_tasks = le_dec (slice b 0 8), k_load_sum = le_dec (slice b 8 8) \<rparr> else None)"

definition WakeEdgeKey_bytes :: "WakeEdgeKey \<Rightarrow> bytes" where
  "WakeEdgeKey_bytes k = u32_bytes (waker_tgid k) @ u32_bytes (wakee_tgid k)"

definition WakeEdgeKey_read :: "bytes \<Rightarrow> WakeEdgeKey option" where
  "WakeEdgeKey_read b =
     (if length b = 8
      then Some \<lparr> waker_tgid = le_dec (slice b 0 4), wakee_tgid = le_dec (slice b 4 4) \<rparr> else None)"

definition TaskStat_bytes :: "TaskStat \<Rightarrow> bytes" where
  "TaskStat_bytes t = u32_bytes (ts_tgid t) @ u32_bytes (ts_pad t) @ u64_bytes (ts_cohort_id t) @
     u64_bytes (ts_runtime_sum t) @ u64_bytes (ts_runtime_home_sum t) @ ts_comm t"

definition TaskStat_read :: "bytes \<Rightarrow> TaskStat option" where
  "TaskStat_read b =
     (if length b = 48
      then Some \<lparr> ts_tgid = le_dec (slice b 0 4), ts_pad = le_dec (slice b 4 4),
                  ts_cohort_id = le_dec (slice b 8 8), ts_runtime_sum = le_dec (slice b 16 8),
                  ts_runtime_home_sum = le_dec (slice b 24 8), ts_comm = slice b 32 16 \<rparr>
      else None)"

definition Tunables_bytes :: "Tunables \<Rightarrow> bytes" where
  "Tunables_bytes t = u64_bytes (steal_min t) @ u64_bytes (steal_delay_ns t) @ u64_bytes (credit_max_ns t) @
     u64_bytes (credit_wake_freq_min t) @ u64_bytes (credit_runtime_max_ns t) @
     u32_bytes (sample_shift t) @ u32_bytes (tn_pad t)"

definition Tunables_read :: "bytes \<Rightarrow> Tunables option" where
  "Tunables_read b =
     (if length b = 48
      then Some \<lparr> steal_min = le_dec (slice b 0 8), steal_delay_ns = le_dec (slice b 8 8),
                  credit_max_ns = le_dec (slice b 16 8), credit_wake_freq_min = le_dec (slice b 24 8),
                  credit_runtime_max_ns = le_dec (slice b 32 8), sample_shift = le_dec (slice b 40 4),
                  tn_pad = le_dec (slice b 44 4) \<rparr>
      else None)"

definition TaskCtx_bytes :: "TaskCtx \<Rightarrow> bytes" where
  "TaskCtx_bytes t = u64_bytes (tc_cohort_id t) @ u64_bytes (tc_vtime t) @ u64_bytes (tc_last_run_at t) @
     u64_bytes (tc_avg_runtime_ns t) @ u64_bytes (tc_wake_freq t) @ u64_bytes (tc_last_wake_at t) @
     u32_bytes (tc_is_spilled t) @ u32_bytes (tc_spill_llc t) @ u32_bytes (tc_home_llc t) @ u32_bytes (tc_pad t)"

definition TaskCtx_read :: "bytes \<Rightarrow> TaskCtx option" where
  "TaskCtx_read b =
     (if length b = 64
      then Some \<lparr> tc_cohort_id = le_dec (slice b 0 8), tc_vtime = le_dec (slice b 8 8),
                  tc_last_run_at = le_dec (slice b 16 8), tc_avg_runtime_ns = le_dec (slice b 24 8),
                  tc_wake_freq = le_dec (slice b 32 8), tc_last_wake_at = le_dec (slice b 40 8),
                  tc_is_spilled = le_dec (slice b 48 4), tc_spill_llc = le_dec (slice b 52 4),
                  tc_home_llc = le_dec (slice b 56 4), tc_pad = le_dec (slice b 60 4) \<rparr>
      else None)"

section \<open>Integers round-trip\<close>

lemma length_le_enc [simp]: "length (le_enc n w) = n"
  by (induction n arbitrary: w) auto

lemma le_dec_enc: "8 * n \<ge> LENGTH('a) \<Longrightarrow> le_dec (le_enc n w) = w" for w :: "'a::len word"
proof -
  have "bit (le_dec (le_enc n w) :: 'a word) k \<longleftrightarrow> bit w k \<and> k < 8 * n" for k
  proof (induction n arbitrary: w k)
    case (Suc n)
    have "bit w k \<Longrightarrow> k < LENGTH('a)" by (rule bit_imp_le_length)
    then show ?case by (auto simp: bit_simps Suc.IH)
  qed simp
  then show "LENGTH('a) \<le> 8 * n \<Longrightarrow> ?thesis"
    by (intro bit_eqI) (auto dest: bit_imp_le_length)
qed

lemma bit_le_dec: "bit (le_dec b :: 'a::len word) k \<Longrightarrow> k < 8 * length b"
  by (induction b arbitrary: k) (fastforce simp: bit_simps dest: bit_imp_le_length)+

lemma le_enc_dec: "length b = n \<Longrightarrow> 8 * n \<le> LENGTH('a) \<Longrightarrow> le_enc n (le_dec b :: 'a::len word) = b"
proof (induction b arbitrary: n)
  case (Cons x b)
  then obtain m where m: "n = Suc m" "length b = m" by (cases n) auto
  have "ucast (or (ucast x) (push_bit 8 (le_dec b)) :: 'a word) = x"
    using Cons.prems m by (intro bit_eqI) (auto simp: bit_simps)
  moreover have "drop_bit 8 (or (ucast x) (push_bit 8 (le_dec b)) :: 'a word) = le_dec b"
    using Cons.prems m bit_le_dec [of b, where 'a = 'a]
    by (intro bit_eqI) (fastforce simp: bit_simps dest: bit_imp_le_length)
  ultimately show ?case using Cons m by simp
qed simp

section \<open>The contract of a layout\<close>

locale codec =
  fixes enc :: "'a \<Rightarrow> bytes"
    and dec :: "bytes \<Rightarrow> 'a option"
    and valid :: "'a \<Rightarrow> bool"
    and size :: nat
  assumes enc_size: "valid x \<Longrightarrow> length (enc x) = size"
    and dec_enc: "valid x \<Longrightarrow> dec (enc x) = Some x"
    and dec_any: "length b = size \<Longrightarrow> \<exists>x. dec b = Some x \<and> valid x \<and> enc x = b"
    and dec_wrong: "length b \<noteq> size \<Longrightarrow> dec b = None"
begin

text \<open>Reading inverts writing, and nothing else reads.\<close>

lemma dec_iff: "dec b = Some x \<longleftrightarrow> valid x \<and> enc x = b"
proof
  assume d: "dec b = Some x"
  then have "length b = size" using dec_wrong by force
  from dec_any [OF this] d show "valid x \<and> enc x = b" by auto
qed (auto simp: dec_enc)

lemma dec_None_iff: "dec b = None \<longleftrightarrow> length b \<noteq> size"
  using dec_any dec_wrong by (metis option.distinct(1))

lemma enc_inj: "valid x \<Longrightarrow> valid y \<Longrightarrow> enc x = enc y \<Longrightarrow> x = y"
  by (metis dec_enc option.inject)

end

named_theorems layout_simps \<open>byte layouts and their slices\<close>

lemma le_dec_u32 [layout_simps]: "le_dec (u32_bytes w) = w" "length (u32_bytes w) = 4"
  by (simp_all add: u32_bytes_def le_dec_enc)

lemma le_dec_u64 [layout_simps]: "le_dec (u64_bytes w) = w" "length (u64_bytes w) = 8"
  by (simp_all add: u64_bytes_def le_dec_enc)

lemma u32_bytes_le_dec [layout_simps]: "length b = 4 \<Longrightarrow> u32_bytes (le_dec b) = b"
  by (simp add: u32_bytes_def le_enc_dec)

lemma u64_bytes_le_dec [layout_simps]: "length b = 8 \<Longrightarrow> u64_bytes (le_dec b) = b"
  by (simp add: u64_bytes_def le_enc_dec)

lemma length_slice [layout_simps]: "off + len \<le> length b \<Longrightarrow> length (slice b off len) = len"
  by (simp add: slice_def)

lemma slice_append [layout_simps]:
  "length a = off \<Longrightarrow> length b = len \<Longrightarrow> slice (a @ b @ c) off len = b"
  "length b = len \<Longrightarrow> slice (b @ c) 0 len = b"
  "length a = off \<Longrightarrow> length b = len \<Longrightarrow> slice (a @ b) off len = b"
  "length b = len \<Longrightarrow> slice b 0 len = b"
  "length a \<le> off \<Longrightarrow> slice (a @ b) off len = slice b (off - length a) len"
  by (simp_all add: slice_def)

text \<open>Consecutive slices that cover a buffer are the buffer.\<close>

lemma slice_join:
  "off' = off + len \<Longrightarrow> slice b off len @ slice b off' len' = slice b off (len + len')"
  "off' = off + len \<Longrightarrow> slice b off len @ slice b off' len' @ r = slice b off (len + len') @ r"
  by (simp_all add: slice_def take_add add.commute)

lemma slice_all: "length b = n \<Longrightarrow> slice b 0 n = b"
  by (simp add: slice_def)

interpretation u32: codec u32_bytes u32_read "\<lambda>_. True" 4
  by unfold_locales (auto simp: u32_read_def layout_simps)

interpretation u64: codec u64_bytes u64_read "\<lambda>_. True" 8
  by unfold_locales (auto simp: u64_read_def layout_simps)

interpretation policy: codec CohortPolicy_bytes CohortPolicy_read "\<lambda>_. True" 8
  by unfold_locales
    (auto simp: CohortPolicy_read_def CohortPolicy_bytes_def layout_simps slice_join slice_all)

interpretation counters: codec CohortCounters_bytes CohortCounters_read "\<lambda>_. True" 16
  by unfold_locales
    (auto simp: CohortCounters_read_def CohortCounters_bytes_def layout_simps slice_join slice_all)

interpretation edge_key: codec WakeEdgeKey_bytes WakeEdgeKey_read "\<lambda>_. True" 8
  by unfold_locales
    (auto simp: WakeEdgeKey_read_def WakeEdgeKey_bytes_def layout_simps slice_join slice_all)

interpretation task_stat: codec TaskStat_bytes TaskStat_read "\<lambda>t. length (ts_comm t) = 16" 48
proof (unfold_locales, goal_cases)
  case (3 b)
  have "slice b 0 4 @ slice b 4 4 @ slice b 8 8 @ slice b 16 8 @ slice b 24 8 @ slice b 32 16 = b"
    using 3 by (simp add: slice_join slice_all)
  with 3 show ?case by (simp add: TaskStat_read_def TaskStat_bytes_def layout_simps)
qed (auto simp: TaskStat_read_def TaskStat_bytes_def layout_simps)

interpretation tunables: codec Tunables_bytes Tunables_read "\<lambda>_. True" 48
proof (unfold_locales, goal_cases)
  case (3 b)
  have "slice b 0 8 @ slice b 8 8 @ slice b 16 8 @ slice b 24 8 @ slice b 32 8 @ slice b 40 4 @ slice b 44 4 = b"
    using 3 by (simp add: slice_join slice_all)
  with 3 show ?case by (simp add: Tunables_read_def Tunables_bytes_def layout_simps)
qed (auto simp: Tunables_read_def Tunables_bytes_def layout_simps)

interpretation task_ctx: codec TaskCtx_bytes TaskCtx_read "\<lambda>_. True" 64
proof (unfold_locales, goal_cases)
  case (3 b)
  have "slice b 0 8 @ slice b 8 8 @ slice b 16 8 @ slice b 24 8 @ slice b 32 8 @ slice b 40 8 @
      slice b 48 4 @ slice b 52 4 @ slice b 56 4 @ slice b 60 4 = b"
    using 3 by (simp add: slice_join slice_all)
  with 3 show ?case by (simp add: TaskCtx_read_def TaskCtx_bytes_def layout_simps)
qed (auto simp: TaskCtx_read_def TaskCtx_bytes_def layout_simps)

section \<open>The layouts as a whole\<close>

text \<open>
  What the clients of the layouts use: every struct has the size the C side sees (64, 8, 16, 8, 48 and 48
  bytes), a buffer reads as a value exactly when it is that value's bytes, and reading fails exactly on
  a buffer of another size. The encoders and decoders stand for what \<open>repr(C)\<close>, with the field order and
  the widths of \<open>lib.rs\<close>, makes of a value's memory and for how the \<open>zerocopy\<close> derives reinterpret it, so
  this is a check of the rendering and not a claim about the program.
\<close>

lemma shared_layouts:
  "(\<forall>b x. TaskCtx_read b = Some x \<longleftrightarrow> TaskCtx_bytes x = b) \<and> (\<forall>b. TaskCtx_read b = None \<longleftrightarrow> length b \<noteq> 64) \<and>
   (\<forall>b x. CohortPolicy_read b = Some x \<longleftrightarrow> CohortPolicy_bytes x = b) \<and> (\<forall>b. CohortPolicy_read b = None \<longleftrightarrow> length b \<noteq> 8) \<and>
   (\<forall>b x. CohortCounters_read b = Some x \<longleftrightarrow> CohortCounters_bytes x = b) \<and> (\<forall>b. CohortCounters_read b = None \<longleftrightarrow> length b \<noteq> 16) \<and>
   (\<forall>b x. WakeEdgeKey_read b = Some x \<longleftrightarrow> WakeEdgeKey_bytes x = b) \<and> (\<forall>b. WakeEdgeKey_read b = None \<longleftrightarrow> length b \<noteq> 8) \<and>
   (\<forall>b x. TaskStat_read b = Some x \<longleftrightarrow> length (ts_comm x) = 16 \<and> TaskStat_bytes x = b) \<and>
   (\<forall>b. TaskStat_read b = None \<longleftrightarrow> length b \<noteq> 48) \<and>
   (\<forall>b x. Tunables_read b = Some x \<longleftrightarrow> Tunables_bytes x = b) \<and> (\<forall>b. Tunables_read b = None \<longleftrightarrow> length b \<noteq> 48)"
  by (simp only: task_ctx.dec_iff task_ctx.dec_None_iff policy.dec_iff policy.dec_None_iff counters.dec_iff
      counters.dec_None_iff edge_key.dec_iff edge_key.dec_None_iff task_stat.dec_iff task_stat.dec_None_iff
      tunables.dec_iff tunables.dec_None_iff simp_thms all_simps)

end
