(* ===== verification/Kernel_Maps.thy ===== *)
theory Kernel_Maps
  imports Shared_Layout
begin

text \<open>
  The BPF maps as the daemon sees them through \<open>libbpf-rs\<close>. The library and the kernel are not
  code of the repository: the operations are a record of functions on an abstract kernel state,
  and the locale \<open>bpf_maps\<close> states their documented behaviour for a kernel side that is quiescent
  during the daemon's calls. A reference kernel of association lists interprets it.
\<close>

datatype map_id = cohort_counters | cohort_policy | tgid_cohort_map | wake_edges | task_stats | spill_tasks | llc_load | stats_map

datatype map_flags = F_ANY | F_NO_EXIST | F_EXIST

text \<open>The ways a daemon operation fails: a failing map operation, a key or value of the wrong size
  (\<open>try_into\<close>), or a panic of the planner.\<close>

datatype daemon_error = MapError | BadSize | Panicked panic

record 'k kernel_ops =
  k_lookup :: "map_id \<Rightarrow> bytes \<Rightarrow> 'k \<Rightarrow> daemon_error + bytes option"
  k_update :: "map_id \<Rightarrow> bytes \<Rightarrow> bytes \<Rightarrow> map_flags \<Rightarrow> 'k \<Rightarrow> daemon_error + 'k"
  k_delete :: "map_id \<Rightarrow> bytes \<Rightarrow> 'k \<Rightarrow> daemon_error + 'k"
  k_lookup_batch :: "map_id \<Rightarrow> 'k \<Rightarrow> daemon_error + (bytes \<times> bytes) list"
  k_lookup_and_delete_batch :: "map_id \<Rightarrow> 'k \<Rightarrow> daemon_error + ((bytes \<times> bytes) list \<times> 'k)"
  k_lookup_percpu :: "map_id \<Rightarrow> bytes \<Rightarrow> 'k \<Rightarrow> daemon_error + bytes list option"

text \<open>\<open>let _ = map.delete(..)\<close> and \<open>let _ = map.update(..)\<close>: the error is dropped.\<close>

definition k_try_delete :: "'k kernel_ops \<Rightarrow> map_id \<Rightarrow> bytes \<Rightarrow> 'k \<Rightarrow> 'k" where
  "k_try_delete ko m key k = (case k_delete ko m key k of Inl _ \<Rightarrow> k | Inr k' \<Rightarrow> k')"

definition k_try_update :: "'k kernel_ops \<Rightarrow> map_id \<Rightarrow> bytes \<Rightarrow> bytes \<Rightarrow> map_flags \<Rightarrow> 'k \<Rightarrow> 'k" where
  "k_try_update ko m key v fl k = (case k_update ko m key v fl k of Inl _ \<Rightarrow> k | Inr k' \<Rightarrow> k')"

text \<open>The key and value sizes the maps are declared with in \<open>bpf/main.bpf.c\<close>.\<close>

fun key_size :: "map_id \<Rightarrow> nat" where
  "key_size cohort_counters = 8" | "key_size cohort_policy = 8" | "key_size tgid_cohort_map = 4"
| "key_size wake_edges = 8" | "key_size task_stats = 4" | "key_size spill_tasks = 4"
| "key_size llc_load = 4" | "key_size stats_map = 4"

fun val_size :: "map_id \<Rightarrow> nat" where
  "val_size cohort_counters = 16" | "val_size cohort_policy = 8" | "val_size tgid_cohort_map = 8"
| "val_size wake_edges = 8" | "val_size task_stats = 48" | "val_size spill_tasks = 4"
| "val_size llc_load = 8" | "val_size stats_map = 8"

text \<open>Maps the daemon writes: plain hash maps (arrays cannot be deleted from, and an LRU map may evict).\<close>

definition plain_hash :: "map_id \<Rightarrow> bool" where
  "plain_hash m \<longleftrightarrow> m \<in> {cohort_counters, cohort_policy, tgid_cohort_map, task_stats, spill_tasks}"

fun flags_allow :: "map_flags \<Rightarrow> 'v option \<Rightarrow> bool" where
  "flags_allow F_ANY v = True"
| "flags_allow F_NO_EXIST v = (v = None)"
| "flags_allow F_EXIST v = (v \<noteq> None)"

locale bpf_maps =
  fixes ko :: "'k kernel_ops"
    and contents :: "map_id \<Rightarrow> 'k \<Rightarrow> bytes \<Rightarrow> bytes option"
    and kinv :: "'k \<Rightarrow> bool"
  assumes sizes: "kinv k \<Longrightarrow> contents m k key = Some v \<Longrightarrow> length key = key_size m \<and> length v = val_size m"
    and lookup: "kinv k \<Longrightarrow> k_lookup ko m key k = Inr (contents m k key)"
    and update_effect: "kinv k \<Longrightarrow> plain_hash m \<Longrightarrow> k_update ko m key v fl k = Inr k' \<Longrightarrow>
      kinv k' \<and> flags_allow fl (contents m k key) \<and>
      contents m' k' = (if m' = m then (contents m k)(key \<mapsto> v) else contents m' k)"
    and update_error: "k_update ko m key v fl k = Inl e \<Longrightarrow> e = MapError"
    and update_present: "kinv k \<Longrightarrow> plain_hash m \<Longrightarrow> contents m k key \<noteq> None \<Longrightarrow> length v = val_size m \<Longrightarrow>
      fl \<noteq> F_NO_EXIST \<Longrightarrow> \<exists>k'. k_update ko m key v fl k = Inr k'"
    and delete_effect: "kinv k \<Longrightarrow> plain_hash m \<Longrightarrow> k_delete ko m key k = Inr k' \<Longrightarrow>
      kinv k' \<and> contents m' k' = (if m' = m then (contents m k)(key := None) else contents m' k)"
    and delete_present: "kinv k \<Longrightarrow> plain_hash m \<Longrightarrow> contents m k key \<noteq> None \<Longrightarrow> \<exists>k'. k_delete ko m key k = Inr k'"
    and batch: "kinv k \<Longrightarrow> plain_hash m \<Longrightarrow>
      \<exists>kvs. k_lookup_batch ko m k = Inr kvs \<and> distinct (map fst kvs) \<and> map_of kvs = contents m k"
    and drain: "kinv k \<Longrightarrow> \<exists>kvs k'. k_lookup_and_delete_batch ko wake_edges k = Inr (kvs, k') \<and> kinv k' \<and>
      distinct (map fst kvs) \<and> map_of kvs = contents wake_edges k \<and>
      (\<forall>m. contents m k' = (if m = wake_edges then Map.empty else contents m k))"
begin

lemma try_delete:
  assumes "kinv k" and "plain_hash m"
  shows "kinv (k_try_delete ko m key k)"
    and "contents m' (k_try_delete ko m key k) = (if m' = m then (contents m k)(key := None) else contents m' k)"
proof -
  show "kinv (k_try_delete ko m key k)"
    using assms delete_effect by (auto simp: k_try_delete_def split: sum.split)
  show "contents m' (k_try_delete ko m key k) = (if m' = m then (contents m k)(key := None) else contents m' k)"
  proof (cases "k_delete ko m key k")
    case (Inl e)
    then have "contents m k key = None" using delete_present [OF assms, of key] by (metis Inl_Inr_False)
    with Inl show ?thesis by (auto simp: k_try_delete_def)
  next
    case (Inr k')
    then show ?thesis using delete_effect [OF assms Inr] by (simp add: k_try_delete_def)
  qed
qed

lemma try_update_exist:
  assumes "kinv k" and "plain_hash m" and "length v = val_size m"
  shows "kinv (k_try_update ko m key v F_EXIST k)"
    and "contents m' (k_try_update ko m key v F_EXIST k) =
      (if m' = m \<and> contents m k key \<noteq> None then (contents m k)(key \<mapsto> v) else contents m' k)"
proof -
  show "kinv (k_try_update ko m key v F_EXIST k)"
    using assms update_effect by (auto simp: k_try_update_def split: sum.split)
  show "contents m' (k_try_update ko m key v F_EXIST k) =
      (if m' = m \<and> contents m k key \<noteq> None then (contents m k)(key \<mapsto> v) else contents m' k)"
  proof (cases "k_update ko m key v F_EXIST k")
    case (Inl e)
    then have "contents m k key = None" using update_present [OF assms(1,2) _ assms(3), of key F_EXIST]
      by (metis Inl_Inr_False map_flags.distinct(5))
    with Inl show ?thesis by (simp add: k_try_update_def)
  next
    case (Inr k')
    then show ?thesis using update_effect [OF assms(1,2) Inr] by (simp add: k_try_update_def)
  qed
qed

end

section \<open>A reference kernel\<close>

type_synonym ref_kernel = "map_id \<Rightarrow> (bytes \<times> bytes) list"

definition ref_contents :: "map_id \<Rightarrow> ref_kernel \<Rightarrow> bytes \<Rightarrow> bytes option" where
  "ref_contents m k = map_of (k m)"

definition map_sized :: "map_id \<Rightarrow> (bytes \<times> bytes) list \<Rightarrow> bool" where
  "map_sized m kvs \<longleftrightarrow> hm_wf kvs \<and> list_all (\<lambda>(key, v). length key = key_size m \<and> length v = val_size m) kvs"

definition ref_inv :: "ref_kernel \<Rightarrow> bool" where
  "ref_inv k \<longleftrightarrow> (\<forall>m. map_sized m (k m))"

definition ref_ops :: "ref_kernel kernel_ops" where
  "ref_ops = \<lparr>
     k_lookup = (\<lambda>m key k. Inr (hm_get (k m) key)),
     k_update = (\<lambda>m key v fl k.
       if length key = key_size m \<and> length v = val_size m \<and> flags_allow fl (hm_get (k m) key)
       then Inr (k(m := hm_insert key v (k m))) else Inl MapError),
     k_delete = (\<lambda>m key k. if hm_contains (k m) key then Inr (k(m := hm_remove key (k m))) else Inl MapError),
     k_lookup_batch = (\<lambda>m k. Inr (k m)),
     k_lookup_and_delete_batch = (\<lambda>m k. Inr (k m, k(m := []))),
     k_lookup_percpu = (\<lambda>m key k. Inr (map_option (\<lambda>v. [v]) (hm_get (k m) key))) \<rparr>"

lemma map_sized_insert:
  "map_sized m kvs \<Longrightarrow> length key = key_size m \<Longrightarrow> length v = val_size m \<Longrightarrow> map_sized m (hm_insert key v kvs)"
proof -
  have "set (hm_insert key v kvs) \<subseteq> insert (key, v) (set kvs)" by (induction kvs) auto
  then show "map_sized m kvs \<Longrightarrow> length key = key_size m \<Longrightarrow> length v = val_size m \<Longrightarrow> ?thesis"
    by (auto simp: map_sized_def list_all_iff)
qed

lemma map_sized_remove: "map_sized m kvs \<Longrightarrow> map_sized m (hm_remove key kvs)"
proof -
  have "set (hm_remove key kvs) \<subseteq> set kvs" by (induction kvs) auto
  then show "map_sized m kvs \<Longrightarrow> ?thesis" by (auto simp: map_sized_def list_all_iff)
qed

lemma map_sized_get: "map_sized m kvs \<Longrightarrow> hm_get kvs key = Some v \<Longrightarrow> length key = key_size m \<and> length v = val_size m"
  by (auto simp: map_sized_def list_all_iff dest!: map_of_SomeD)

lemma ref_inv_upd: "ref_inv k \<Longrightarrow> map_sized m kvs \<Longrightarrow> ref_inv (k(m := kvs))"
  by (simp add: ref_inv_def)

interpretation ref: bpf_maps ref_ops ref_contents ref_inv
proof (unfold_locales, goal_cases)
  case (1 k m key v)
  then have "map_sized m (k m)" "hm_get (k m) key = Some v" by (simp_all add: ref_inv_def ref_contents_def)
  then show ?case by (rule map_sized_get)
next
  case (3 k m key v fl k' m')
  then have "map_sized m (k m)" by (simp add: ref_inv_def)
  with 3 show ?case
    using map_sized_insert [of m "k m" key v] ref_inv_upd [of k m "hm_insert key v (k m)"]
    by (auto simp: ref_ops_def ref_contents_def hm_get_insert split: if_splits)
next
  case (4 m key v fl k e)
  then show ?case by (auto simp: ref_ops_def split: if_splits)
next
  case (5 k m key v fl)
  then obtain u where u: "hm_get (k m) key = Some u" by (auto simp: ref_contents_def)
  have "map_sized m (k m)" using 5 by (simp add: ref_inv_def)
  from map_sized_get [OF this u] have "length key = key_size m" by simp
  with 5 u show ?case by (cases fl) (auto simp: ref_ops_def ref_contents_def)
next
  case (6 k m key k' m')
  then have "map_sized m (k m)" by (simp add: ref_inv_def)
  with 6 show ?case
    using map_sized_remove [of m "k m" key] ref_inv_upd [of k m "hm_remove key (k m)"]
    by (auto simp: ref_ops_def ref_contents_def hm_get_remove split: if_splits)
next
  case (8 k m)
  then show ?case by (simp add: ref_ops_def ref_contents_def ref_inv_def map_sized_def hm_wf_def)
next
  case (9 k)
  then have "map_sized wake_edges (k wake_edges)" by (simp add: ref_inv_def)
  with 9 show ?case
    using ref_inv_upd [of k wake_edges "[]"]
    by (auto simp: ref_ops_def ref_contents_def map_sized_def hm_wf_def)
qed (auto simp: ref_ops_def ref_contents_def hm_contains_iff)

end
