(* ===== verification/Rust_String.thy ===== *)
theory Rust_String
  imports Cohort_Prelude
begin

text \<open>
  What the sources use of Rust's strings. A \<open>String\<close> is its UTF-8 bytes, one \<open>char\<close> per byte.
  \<open>String::from_utf8_lossy\<close> replaces each maximal ill-formed prefix by U+FFFD (three bytes);
  slicing a \<open>str\<close> panics off a character boundary; \<open>lines\<close>, \<open>strip_prefix\<close> and
  \<open>trim_start_matches\<close> are the ones the cgroup lookup uses.
\<close>

section \<open>UTF-8\<close>

definition utf8_char_width :: "u8 \<Rightarrow> nat" where
  "utf8_char_width b =
     (if b < 0x80 then 1
      else if 0xC2 \<le> b \<and> b \<le> 0xDF then 2
      else if 0xE0 \<le> b \<and> b \<le> 0xEF then 3
      else if 0xF0 \<le> b \<and> b \<le> 0xF4 then 4 else 0)"

text \<open>Past the end the decoder reads 0, which continues no character.\<close>

definition byte_at :: "u8 list \<Rightarrow> nat \<Rightarrow> u8" where
  "byte_at bs i = (if i < length bs then bs ! i else 0)"

definition is_cont :: "u8 \<Rightarrow> bool" where
  "is_cont b \<longleftrightarrow> 0x80 \<le> b \<and> b \<le> 0xBF"

definition second_of_3 :: "u8 \<Rightarrow> u8 \<Rightarrow> bool" where
  "second_of_3 a b \<longleftrightarrow>
     (if a = 0xE0 then 0xA0 \<le> b \<and> b \<le> 0xBF else if a = 0xED then 0x80 \<le> b \<and> b \<le> 0x9F else is_cont b)"

definition second_of_4 :: "u8 \<Rightarrow> u8 \<Rightarrow> bool" where
  "second_of_4 a b \<longleftrightarrow>
     (if a = 0xF0 then 0x90 \<le> b \<and> b \<le> 0xBF else if a = 0xF4 then 0x80 \<le> b \<and> b \<le> 0x8F else is_cont b)"

text \<open>The next chunk of a non-empty buffer: whether it is a character, and how many bytes it has.\<close>

definition utf8_step :: "u8 \<Rightarrow> u8 \<Rightarrow> u8 \<Rightarrow> u8 \<Rightarrow> bool \<times> nat" where
  "utf8_step a b c d =
     (if utf8_char_width a = 1 then (True, 1)
      else if utf8_char_width a = 2 then if is_cont b then (True, 2) else (False, 1)
      else if utf8_char_width a = 3
      then if \<not> second_of_3 a b then (False, 1) else if is_cont c then (True, 3) else (False, 2)
      else if utf8_char_width a = 4
      then if \<not> second_of_4 a b then (False, 1) else if \<not> is_cont c then (False, 2)
           else if is_cont d then (True, 4) else (False, 3)
      else (False, 1))"

definition utf8_next :: "u8 list \<Rightarrow> bool \<times> nat" where
  "utf8_next bs = utf8_step (byte_at bs 0) (byte_at bs 1) (byte_at bs 2) (byte_at bs 3)"

definition REPLACEMENT :: "u8 list" where
  "REPLACEMENT = [0xEF, 0xBF, 0xBD]"

lemma utf8_next_pos: "0 < snd (utf8_next bs)"
  by (simp add: utf8_next_def utf8_step_def)

function from_utf8_lossy :: "u8 list \<Rightarrow> u8 list" where
  "from_utf8_lossy bs =
     (if bs = [] then []
      else (if fst (utf8_next bs) then take (snd (utf8_next bs)) bs else REPLACEMENT) @
           from_utf8_lossy (drop (snd (utf8_next bs)) bs))"
  by auto
termination
  by (relation "measure length") (use utf8_next_pos in auto)

function utf8_valid :: "u8 list \<Rightarrow> bool" where
  "utf8_valid bs =
     (if bs = [] then True else fst (utf8_next bs) \<and> utf8_valid (drop (snd (utf8_next bs)) bs))"
  by auto
termination
  by (relation "measure length") (use utf8_next_pos in auto)

declare from_utf8_lossy.simps [simp del] utf8_valid.simps [simp del]

lemma from_utf8_lossy_Nil [simp]: "from_utf8_lossy [] = []"
  by (subst from_utf8_lossy.simps) simp

lemma utf8_valid_Nil [simp]: "utf8_valid []"
  by (subst utf8_valid.simps) simp

text \<open>A decoded character is within the buffer and depends only on its own bytes.\<close>

lemma continues_in_range:
  "is_cont (byte_at bs i) \<Longrightarrow> i < length bs" "second_of_3 a (byte_at bs i) \<Longrightarrow> i < length bs"
  "second_of_4 a (byte_at bs i) \<Longrightarrow> i < length bs"
  by (auto simp: byte_at_def is_cont_def second_of_3_def second_of_4_def split: if_splits)

lemma utf8_next_fits: "bs \<noteq> [] \<Longrightarrow> fst (utf8_next bs) \<Longrightarrow> snd (utf8_next bs) \<le> length bs"
  by (auto simp: utf8_next_def utf8_step_def Suc_le_eq dest!: continues_in_range split: if_splits)

lemma utf8_step_prefix:
  assumes "fst (utf8_step a b c d)" and "2 \<le> snd (utf8_step a b c d) \<Longrightarrow> b' = b"
    and "3 \<le> snd (utf8_step a b c d) \<Longrightarrow> c' = c" and "4 \<le> snd (utf8_step a b c d) \<Longrightarrow> d' = d"
  shows "utf8_step a b' c' d' = utf8_step a b c d"
  using assms by (simp add: utf8_step_def split: if_splits)

lemma byte_at_append: "i < length xs \<Longrightarrow> byte_at (xs @ ys) i = byte_at xs i"
  by (simp add: byte_at_def nth_append)

lemma byte_at_take: "i < n \<Longrightarrow> byte_at (take n xs) i = byte_at xs i"
  by (simp add: byte_at_def)

lemma utf8_next_prefix:
  assumes "bs \<noteq> []" and "fst (utf8_next bs)"
  shows "utf8_next (take (snd (utf8_next bs)) bs @ ys) = utf8_next bs"
proof -
  let ?n = "snd (utf8_next bs)"
  have len: "length (take ?n bs) = ?n" using utf8_next_fits [OF assms] by simp
  have at: "i < ?n \<Longrightarrow> byte_at (take ?n bs @ ys) i = byte_at bs i" for i
    using byte_at_append [of i "take ?n bs" ys] byte_at_take [of i ?n bs] len by simp
  show ?thesis
    unfolding utf8_next_def [of "take ?n bs @ ys"] at [OF utf8_next_pos] utf8_next_def [of bs, symmetric]
    unfolding utf8_next_def [of bs]
    by (rule utf8_step_prefix) (use assms(2) at in \<open>simp_all add: utf8_next_def\<close>)
qed

lemma utf8_valid_append_char:
  assumes "bs \<noteq> []" and "fst (utf8_next bs)" and "utf8_valid ys"
  shows "utf8_valid (take (snd (utf8_next bs)) bs @ ys)"
proof -
  let ?n = "snd (utf8_next bs)"
  have "length (take ?n bs) = ?n" using utf8_next_fits [OF assms(1,2)] by simp
  then have "drop ?n (take ?n bs @ ys) = ys" by simp
  moreover have "take ?n bs @ ys \<noteq> []" using utf8_next_pos assms(1) by simp
  ultimately show ?thesis
    using assms(2,3) by (subst utf8_valid.simps) (simp add: utf8_next_prefix [OF assms(1,2)])
qed

lemma utf8_next_replacement: "utf8_next REPLACEMENT = (True, 3)"
  by (simp add: utf8_next_def utf8_step_def REPLACEMENT_def byte_at_def utf8_char_width_def second_of_3_def is_cont_def)

text \<open>Lossy decoding always yields valid UTF-8, and is the identity on valid UTF-8.\<close>

lemma from_utf8_lossy_valid: "utf8_valid (from_utf8_lossy bs)"
proof (induction bs rule: from_utf8_lossy.induct)
  case (1 bs)
  show ?case
  proof (cases "bs = []")
    case False
    note IH = 1 [OF False]
    have "utf8_valid (take 3 REPLACEMENT @ from_utf8_lossy (drop (snd (utf8_next bs)) bs))"
      using utf8_valid_append_char [of REPLACEMENT, OF _ _ IH] unfolding utf8_next_replacement
      by (simp add: REPLACEMENT_def)
    then have "utf8_valid (REPLACEMENT @ from_utf8_lossy (drop (snd (utf8_next bs)) bs))"
      by (simp add: REPLACEMENT_def)
    then show ?thesis
      using utf8_valid_append_char [OF False _ IH] False by (subst from_utf8_lossy.simps) simp
  qed simp
qed

lemma from_utf8_lossy_id: "utf8_valid bs \<Longrightarrow> from_utf8_lossy bs = bs"
proof (induction bs rule: from_utf8_lossy.induct)
  case (1 bs)
  then show ?case
    by (cases "bs = []") (auto simp: from_utf8_lossy.simps [of bs] utf8_valid.simps [of bs])
qed

section \<open>Strings\<close>

definition str_of_bytes :: "u8 list \<Rightarrow> string" where
  "str_of_bytes bs = map (\<lambda>b. char_of (unat b)) bs"

text \<open>\<open>str::is_char_boundary\<close>, and \<open>&s[..n]\<close>.\<close>

definition is_char_boundary :: "string \<Rightarrow> nat \<Rightarrow> bool" where
  "is_char_boundary s i \<longleftrightarrow>
     i = 0 \<or> i = length s \<or> i < length s \<and> (of_char (s ! i) < (0x80 :: nat) \<or> 0xC0 \<le> (of_char (s ! i) :: nat))"

definition str_prefix :: "string \<Rightarrow> nat \<Rightarrow> panic + string" where
  "str_prefix s n =
     (if length s < n then Inl OutOfRange
      else if is_char_boundary s n then Inr (take n s) else Inl NotCharBoundary)"

text \<open>\<open>str::lines\<close>: split at line feeds, drop a trailing carriage return, no empty last line.\<close>

fun split_lines :: "string \<Rightarrow> string \<Rightarrow> string list" where
  "split_lines cur [] = (if cur = [] then [] else [cur])"
| "split_lines cur (c # cs) = (if c = CHR 0x0A then cur # split_lines [] cs else split_lines (cur @ [c]) cs)"

definition strip_cr :: "string \<Rightarrow> string" where
  "strip_cr l = (if l \<noteq> [] \<and> last l = CHR 0x0D then butlast l else l)"

definition str_lines :: "string \<Rightarrow> string list" where
  "str_lines s = map strip_cr (split_lines [] s)"

fun strip_prefix :: "string \<Rightarrow> string \<Rightarrow> string option" where
  "strip_prefix [] s = Some s"
| "strip_prefix (p # ps) [] = None"
| "strip_prefix (p # ps) (c # cs) = (if p = c then strip_prefix ps cs else None)"

definition trim_start_slash :: "string \<Rightarrow> string" where
  "trim_start_slash s = dropWhile (\<lambda>c. c = CHR 0x2F) s"

fun find_map :: "('a \<Rightarrow> 'b option) \<Rightarrow> 'a list \<Rightarrow> 'b option" where
  "find_map f [] = None"
| "find_map f (x # xs) = (case f x of Some y \<Rightarrow> Some y | None \<Rightarrow> find_map f xs)"

end
