(* ===== verification/Rules_Config.thy ===== *)
theory Rules_Config
  imports Rust_String Float64
begin

text \<open>
  The optional TOML rules, \<open>scx_cohort/src/config.rs\<close>. The TOML reader (\<open>toml::from_str\<close> with the
  serde-derived \<open>ConfigFile\<close>) and the glob compiler (\<open>globset\<close>) are parameters: a function from
  the text to the parsed tables or failure, and one from a pattern to its matcher or failure.
\<close>

record OptionsTable =
  o_slice_us :: "u64 option"
  o_interval_ms :: "u64 option"
  o_steal_min :: "u64 option"
  o_steal_delay_us :: "u64 option"
  o_imbalance_pct :: "u64 option"
  o_residency_ms :: "u64 option"
  o_merge_wakes_per_sec :: "f64 option"
  o_rt_priority :: "int option"
  o_drop_privs :: "bool option"

definition OptionsTable_default :: OptionsTable where
  "OptionsTable_default =
     \<lparr> o_slice_us = None, o_interval_ms = None, o_steal_min = None, o_steal_delay_us = None,
       o_imbalance_pct = None, o_residency_ms = None, o_merge_wakes_per_sec = None,
       o_rt_priority = None, o_drop_privs = None \<rparr>"

record RuleFile =
  match_comm :: "string list option"
  match_cgroup :: "string option"
  join_cohort_of :: "string option"
  rf_pin_ccd :: "u32 option"
  rf_min_ccd_residency_ms :: "u64 option"

record ConfigFile =
  cf_options :: OptionsTable
  cf_rules :: "RuleFile list"

record Rule =
  comms :: "string list option"
  cgroup :: "(string \<Rightarrow> bool) option"
  pin_ccd :: "u32 option"
  min_ccd_residency_ms :: "u64 option"

record Config =
  options :: OptionsTable
  rules :: "Rule list"

definition Config_default :: Config where
  "Config_default = \<lparr> options = OptionsTable_default, rules = [] \<rparr>"

datatype config_error =
    ParseFailed
  | JoinUnsupported nat      \<comment> \<open>rule number, counted from 1\<close>
  | NeedsMatcher nat
  | BadGlob nat string
  | ReadFailed

section \<open>Parsing\<close>

text \<open>The body of the rule loop; \<open>i\<close> is the position from \<open>enumerate\<close>.\<close>

definition compile_rule :: "(string \<Rightarrow> (string \<Rightarrow> bool) option) \<Rightarrow> nat \<Rightarrow> RuleFile \<Rightarrow> config_error + Rule" where
  "compile_rule glob i r =
     (if (case join_cohort_of r of None \<Rightarrow> False | Some j \<Rightarrow> j \<noteq> ''parent'') then Inl (JoinUnsupported (i + 1))
      else if match_comm r = None \<and> match_cgroup r = None then Inl (NeedsMatcher (i + 1))
      else case match_cgroup r of
             None \<Rightarrow> Inr \<lparr> comms = match_comm r, cgroup = None, pin_ccd = rf_pin_ccd r,
                           min_ccd_residency_ms = rf_min_ccd_residency_ms r \<rparr>
           | Some g \<Rightarrow>
               (case glob g of
                  None \<Rightarrow> Inl (BadGlob (i + 1) g)
                | Some mat \<Rightarrow> Inr \<lparr> comms = match_comm r, cgroup = Some mat, pin_ccd = rf_pin_ccd r,
                                    min_ccd_residency_ms = rf_min_ccd_residency_ms r \<rparr>))"

fun compile_rules :: "(string \<Rightarrow> (string \<Rightarrow> bool) option) \<Rightarrow> nat \<Rightarrow> RuleFile list \<Rightarrow> config_error + Rule list" where
  "compile_rules glob i [] = Inr []"
| "compile_rules glob i (r # rs) =
     (case compile_rule glob i r of
        Inl e \<Rightarrow> Inl e
      | Inr rule \<Rightarrow> (case compile_rules glob (i + 1) rs of Inl e \<Rightarrow> Inl e | Inr out \<Rightarrow> Inr (rule # out)))"

definition Config_parse :: "(string \<Rightarrow> ConfigFile option) \<Rightarrow> (string \<Rightarrow> (string \<Rightarrow> bool) option) \<Rightarrow> string \<Rightarrow>
    config_error + Config" where
  "Config_parse toml glob text =
     (case toml text of
        None \<Rightarrow> Inl ParseFailed
      | Some file \<Rightarrow>
          (case compile_rules glob 0 (cf_rules file) of
             Inl e \<Rightarrow> Inl e
           | Inr rs \<Rightarrow> Inr \<lparr> options = cf_options file, rules = rs \<rparr>))"

text \<open>\<open>read\<close> is the file system: the text of the file, or a read error.\<close>

definition Config_load :: "(string \<Rightarrow> ConfigFile option) \<Rightarrow> (string \<Rightarrow> (string \<Rightarrow> bool) option) \<Rightarrow>
    (string \<Rightarrow> string option) \<Rightarrow> string \<Rightarrow> config_error + Config" where
  "Config_load toml glob read path =
     (case read path of None \<Rightarrow> Inl ReadFailed | Some text \<Rightarrow> Config_parse toml glob text)"

section \<open>Matching\<close>

definition rule_matches :: "string \<Rightarrow> string \<Rightarrow> Rule \<Rightarrow> bool" where
  "rule_matches comm cg r =
     ((case comms r of None \<Rightarrow> True | Some cs \<Rightarrow> list_ex (\<lambda>c. c = comm) cs) \<and>
      (case cgroup r of None \<Rightarrow> True | Some g \<Rightarrow> g cg))"

definition match_task :: "Config \<Rightarrow> string \<Rightarrow> string \<Rightarrow> Rule option" where
  "match_task cfg comm cg = find (rule_matches comm cg) (rules cfg)"

section \<open>Specification\<close>

text \<open>A rule of the file that the parser accepts.\<close>

definition rule_ok :: "(string \<Rightarrow> (string \<Rightarrow> bool) option) \<Rightarrow> RuleFile \<Rightarrow> bool" where
  "rule_ok glob r \<longleftrightarrow>
     join_cohort_of r \<in> {None, Some ''parent''} \<and> (match_comm r \<noteq> None \<or> match_cgroup r \<noteq> None) \<and>
     (case match_cgroup r of None \<Rightarrow> True | Some g \<Rightarrow> glob g \<noteq> None)"

text \<open>A rule of the file matches a task when each criterion it states does.\<close>

definition file_rule_matches :: "(string \<Rightarrow> (string \<Rightarrow> bool) option) \<Rightarrow> string \<Rightarrow> string \<Rightarrow> RuleFile \<Rightarrow> bool" where
  "file_rule_matches glob comm cg r \<longleftrightarrow>
     (\<forall>cs. match_comm r = Some cs \<longrightarrow> comm \<in> set cs) \<and>
     (\<forall>g. match_cgroup r = Some g \<longrightarrow> (\<exists>mat. glob g = Some mat \<and> mat cg))"

text \<open>The rule number an error names.\<close>

fun error_rule :: "config_error \<Rightarrow> nat option" where
  "error_rule (JoinUnsupported n) = Some n"
| "error_rule (NeedsMatcher n) = Some n"
| "error_rule (BadGlob n g) = Some n"
| "error_rule _ = None"

lemma compile_rule_ok:
  "compile_rule glob i r = Inr rule \<Longrightarrow> rule_ok glob r \<and>
     pin_ccd rule = rf_pin_ccd r \<and> min_ccd_residency_ms rule = rf_min_ccd_residency_ms r \<and>
     (\<forall>comm cg. rule_matches comm cg rule = file_rule_matches glob comm cg r)"
  by (auto simp: compile_rule_def rule_ok_def rule_matches_def file_rule_matches_def list_ex_iff
      split: if_splits option.splits)

lemma compile_rule_bad:
  "compile_rule glob i r = Inl e \<Longrightarrow> \<not> rule_ok glob r \<and> error_rule e = Some (Suc i)"
  by (auto simp: compile_rule_def rule_ok_def split: if_splits option.splits)

lemma compile_rules_ok:
  "compile_rules glob i rs = Inr out \<Longrightarrow>
     list_all2 (\<lambda>r rule. rule_ok glob r \<and> pin_ccd rule = rf_pin_ccd r \<and>
        min_ccd_residency_ms rule = rf_min_ccd_residency_ms r \<and>
        (\<forall>comm cg. rule_matches comm cg rule = file_rule_matches glob comm cg r)) rs out"
  by (induction rs arbitrary: i out) (auto split: sum.splits dest: compile_rule_ok)

lemma compile_rules_bad:
  "compile_rules glob i rs = Inl e \<Longrightarrow>
     \<exists>n < length rs. error_rule e = Some (i + n + 1) \<and> \<not> rule_ok glob (rs ! n) \<and> (\<forall>m < n. rule_ok glob (rs ! m))"
proof (induction rs arbitrary: i)
  case (Cons r rs)
  show ?case
  proof (cases "compile_rule glob i r")
    case (Inl e')
    then show ?thesis using Cons.prems compile_rule_bad [OF Inl] by (intro exI [of _ 0]) simp
  next
    case (Inr rule)
    then have "compile_rules glob (i + 1) rs = Inl e" using Cons.prems by (auto split: sum.splits)
    from Cons.IH [OF this] obtain n where n: "n < length rs" "error_rule e = Some (i + 1 + n + 1)"
      "\<not> rule_ok glob (rs ! n)" "\<forall>m < n. rule_ok glob (rs ! m)" by blast
    then show ?thesis
      using compile_rule_ok [OF Inr] by (intro exI [of _ "Suc n"]) (auto simp: less_Suc_eq_0_disj)
  qed
qed simp

section \<open>Properties\<close>

text \<open>
  The parser accepts exactly the well-formed files: parsing succeeds iff the text is TOML of
  the expected shape and every rule has a matcher, a compilable glob and no \<open>join_cohort_of\<close> other
  than \<open>parent\<close>; otherwise it fails, and an error that names a rule names the first bad one.
\<close>

lemma config_parse_accepts:
  "((\<exists>cfg. Config_parse toml glob text = Inr cfg) \<longleftrightarrow>
      (\<exists>file. toml text = Some file \<and> (\<forall>r \<in> set (cf_rules file). rule_ok glob r))) \<and>
   (\<forall>file e. toml text = Some file \<and> Config_parse toml glob text = Inl e \<longrightarrow>
      (\<exists>n < length (cf_rules file). error_rule e = Some (n + 1) \<and> \<not> rule_ok glob (cf_rules file ! n) \<and>
         (\<forall>m < n. rule_ok glob (cf_rules file ! m))))"
proof (cases "toml text")
  case None
  then show ?thesis by (simp add: Config_parse_def)
next
  case (Some cf)
  show ?thesis
  proof (cases "compile_rules glob 0 (cf_rules cf)")
    case (Inl e)
    then show ?thesis using compile_rules_bad [OF Inl] Some by (fastforce simp: Config_parse_def)
  next
    case (Inr out)
    then show ?thesis
      using compile_rules_ok [OF Inr] Some by (auto simp: Config_parse_def list_all2_conv_all_nth in_set_conv_nth)
  qed
qed

text \<open>
  C36. The first match wins and all criteria count: for a file the parser accepts, the rule applied
  to a task is the first one in file order whose stated \<open>match_comm\<close> list contains the comm and
  whose stated glob matches the cgroup, with exactly that rule's pin and residency; no rule is
  applied iff none matches.
\<close>

theorem config_first_match:
  assumes "Config_parse toml glob text = Inr cfg" and "toml text = Some file"
  shows "case match_task cfg comm cg of
      None \<Rightarrow> \<forall>r \<in> set (cf_rules file). \<not> file_rule_matches glob comm cg r
    | Some rule \<Rightarrow> \<exists>n < length (cf_rules file). file_rule_matches glob comm cg (cf_rules file ! n) \<and>
        (\<forall>m < n. \<not> file_rule_matches glob comm cg (cf_rules file ! m)) \<and>
        pin_ccd rule = rf_pin_ccd (cf_rules file ! n) \<and>
        min_ccd_residency_ms rule = rf_min_ccd_residency_ms (cf_rules file ! n)"
proof -
  obtain out where out: "compile_rules glob 0 (cf_rules file) = Inr out" "rules cfg = out"
    using assms by (auto simp: Config_parse_def split: sum.splits)
  from compile_rules_ok [OF out(1)] have len: "length out = length (cf_rules file)"
    and nth: "\<And>n. n < length out \<Longrightarrow> pin_ccd (out ! n) = rf_pin_ccd (cf_rules file ! n) \<and>
        min_ccd_residency_ms (out ! n) = rf_min_ccd_residency_ms (cf_rules file ! n) \<and>
        rule_matches comm cg (out ! n) = file_rule_matches glob comm cg (cf_rules file ! n)"
    by (auto simp: list_all2_conv_all_nth)
  show ?thesis
  proof (cases "match_task cfg comm cg")
    case None
    then have "\<forall>n < length out. \<not> rule_matches comm cg (out ! n)"
      by (auto simp: match_task_def find_None_iff out(2))
    then show ?thesis using nth by (auto simp: None in_set_conv_nth len)
  next
    case (Some rule)
    then obtain n where "n < length out" "rule_matches comm cg (out ! n)" "rule = out ! n"
      "\<forall>m < n. \<not> rule_matches comm cg (out ! m)" by (auto simp: match_task_def find_Some_iff out(2))
    with nth len show ?thesis unfolding Some by (auto intro!: exI [of _ n])
  qed
qed

text \<open>An instance.\<close>

definition demo_file :: ConfigFile where
  "demo_file = \<lparr> cf_options = OptionsTable_default,
     cf_rules = [\<lparr> match_comm = Some [''wineserver''], match_cgroup = None, join_cohort_of = Some ''parent'',
                   rf_pin_ccd = Some 1, rf_min_ccd_residency_ms = None \<rparr>,
                 \<lparr> match_comm = None, match_cgroup = Some ''app'', join_cohort_of = Some ''sibling'',
                   rf_pin_ccd = None, rf_min_ccd_residency_ms = Some 5000 \<rparr>] \<rparr>"

definition demo_glob :: "string \<Rightarrow> (string \<Rightarrow> bool) option" where
  "demo_glob g = Some (\<lambda>s. s = g)"

lemma config_parse_accepts_witness:
  "Config_parse (\<lambda>_. Some demo_file) demo_glob [] = Inl (JoinUnsupported 2) \<and>
   (\<exists>n < 2. error_rule (JoinUnsupported 2) = Some (n + 1))"
proof -
  have e: "Config_parse (\<lambda>_. Some demo_file) demo_glob [] = Inl (JoinUnsupported 2)"
    by (simp add: Config_parse_def demo_file_def compile_rule_def)
  moreover have "length (cf_rules demo_file) = 2" by (simp add: demo_file_def)
  ultimately show ?thesis
    using config_parse_accepts [of "\<lambda>_. Some demo_file" demo_glob "[]"] by metis
qed

text \<open>Witness of C36.\<close>

definition demo_good_file :: ConfigFile where
  "demo_good_file = demo_file\<lparr> cf_rules := take 1 (cf_rules demo_file) \<rparr>"

theorem config_first_match_witness:
  "\<exists>cfg. Config_parse (\<lambda>_. Some demo_good_file) demo_glob [] = Inr cfg \<and>
     (\<exists>rule. match_task cfg ''wineserver'' [] = Some rule \<and> pin_ccd rule = Some 1)"
proof -
  obtain cfg where cfg: "Config_parse (\<lambda>_. Some demo_good_file) demo_glob [] = Inr cfg"
    by (simp add: Config_parse_def demo_good_file_def demo_file_def compile_rule_def)
  have r: "cf_rules demo_good_file = [\<lparr> match_comm = Some [''wineserver''], match_cgroup = None,
      join_cohort_of = Some ''parent'', rf_pin_ccd = Some 1, rf_min_ccd_residency_ms = None \<rparr>]"
    by (simp add: demo_good_file_def demo_file_def)
  from config_first_match [OF cfg refl, of "''wineserver''" "[]"] show ?thesis
    unfolding r by (intro exI [of _ cfg] conjI cfg) (auto simp: file_rule_matches_def split: option.splits)
qed

end
