(* ===== verification/Policy_Domain.thy ===== *)
theory Policy_Domain
  imports Cohort_Prelude
begin

text \<open>
  The value types the policy planners operate on (\<open>scx_cohort/src/domain.rs\<close>). Field names
  carry a short prefix where two structs of the source share a name: \<open>l_\<close> for
  \<open>LlcLoad\<close>, \<open>c_\<close> for \<open>CohortSnapshot\<close>, \<open>t_\<close> for \<open>TaskSnapshot\<close>.
\<close>

record LlcLoad =
  l_llc :: u32
  l_load_ns :: u64
  l_capacity_ns :: u64

record CohortSnapshot =
  c_id :: u64
  c_home_llc :: u32
  c_pinned :: bool
  c_nr_tasks :: u64
  c_load_ns :: u64
  c_residency_ms :: "u64 option"

record TaskSnapshot =
  t_pid :: u32
  t_tgid :: u32
  t_cohort_id :: u64
  t_duty_ns :: u64
  t_home_ns :: u64
  t_comm :: string

datatype Decision = MoveCohort u64 u32

primrec decision_id :: "Decision \<Rightarrow> u64" where
  "decision_id (MoveCohort i _) = i"

primrec decision_to :: "Decision \<Rightarrow> u32" where
  "decision_to (MoveCohort _ l) = l"

text \<open>Well-formed snapshots: LLC ids, cohort ids and pids are keys.\<close>

definition llcs_wf :: "LlcLoad list \<Rightarrow> bool" where
  "llcs_wf ls \<longleftrightarrow> distinct (map l_llc ls)"

definition cohorts_wf :: "CohortSnapshot list \<Rightarrow> bool" where
  "cohorts_wf cs \<longleftrightarrow> distinct (map c_id cs)"

definition tasks_wf :: "TaskSnapshot list \<Rightarrow> bool" where
  "tasks_wf ts \<longleftrightarrow> distinct (map t_pid ts)"

lemma llcs_wf_eq: "llcs_wf ls \<Longrightarrow> a \<in> set ls \<Longrightarrow> b \<in> set ls \<Longrightarrow> l_llc a = l_llc b \<Longrightarrow> a = b"
  by (auto simp: llcs_wf_def distinct_map inj_on_def)

lemma cohorts_wf_eq: "cohorts_wf cs \<Longrightarrow> a \<in> set cs \<Longrightarrow> b \<in> set cs \<Longrightarrow> c_id a = c_id b \<Longrightarrow> a = b"
  by (auto simp: cohorts_wf_def distinct_map inj_on_def)

lemma tasks_wf_eq: "tasks_wf ts \<Longrightarrow> a \<in> set ts \<Longrightarrow> b \<in> set ts \<Longrightarrow> t_pid a = t_pid b \<Longrightarrow> a = b"
  by (auto simp: tasks_wf_def distinct_map inj_on_def)

end
