(* ===== verification/Balancer.thy ===== *)
theory Balancer
  imports Policy_Domain Hysteresis
begin

text \<open>
  The load balancer (\<open>scx_cohort/src/balancer.rs\<close>, \<open>Balancer\<close>): which whole cohort, if
  any, changes its home LLC this tick. \<open>plan\<close> follows the source statement by statement;
  \<open>unwrap\<close> on an empty selection would be \<open>Inl UnwrapNone\<close>, and \<open>plan_total\<close> shows that
  it never happens.
\<close>

section \<open>State and operations\<close>

record BalancerCfg =
  imbalance_pct :: u64
  confirm_ticks :: u32
  cfg_residency_ms :: u64

definition BalancerCfg_default :: BalancerCfg where
  "BalancerCfg_default =
     \<lparr> imbalance_pct = 20, confirm_ticks = 2, cfg_residency_ms = 2000 \<rparr>"

record Balancer =
  b_cfg :: BalancerCfg
  last_move_at :: "(u64, u64) hashmap"
  streak :: u32

definition Balancer_new :: "BalancerCfg \<Rightarrow> Balancer" where
  "Balancer_new cfg = \<lparr> b_cfg = cfg, last_move_at = [], streak = 0 \<rparr>"

definition retain_cohorts :: "(u64 \<Rightarrow> bool) \<Rightarrow> Balancer \<Rightarrow> Balancer" where
  "retain_cohorts live b = b\<lparr> last_move_at := hm_retain (\<lambda>i _. live i) (last_move_at b) \<rparr>"

text \<open>The residency test of the candidate filter: \<open>is_none_or\<close> over the last move.\<close>

definition residency_passed :: "Balancer \<Rightarrow> u64 \<Rightarrow> CohortSnapshot \<Rightarrow> bool" where
  "residency_passed b now_ms c =
     (case hm_get (last_move_at b) (c_id c) of
        None \<Rightarrow> True
      | Some at \<Rightarrow>
          (case c_residency_ms c of None \<Rightarrow> cfg_residency_ms (b_cfg b) | Some r \<Rightarrow> r)
            \<le> saturating_sub now_ms at)"

definition movable :: "Balancer \<Rightarrow> u64 \<Rightarrow> LlcLoad \<Rightarrow> LlcLoad \<Rightarrow> CohortSnapshot \<Rightarrow> bool" where
  "movable b now_ms mx mn c \<longleftrightarrow>
     c_home_llc c = l_llc mx \<and> \<not> c_pinned c \<and> 0 < c_nr_tasks c \<and> 0 < c_load_ns c \<and>
     c_load_ns c \<le> l_capacity_ns mn \<and> residency_passed b now_ms c"

text \<open>\<open>(gap as i64 - 2 * c.load_ns as i64).unsigned_abs()\<close>, on 64-bit patterns.\<close>

definition repaired_gap :: "u64 \<Rightarrow> CohortSnapshot \<Rightarrow> u64" where
  "repaired_gap gap c = unsigned_abs (gap - 2 * c_load_ns c)"

definition plan :: "u64 \<Rightarrow> LlcLoad list \<Rightarrow> CohortSnapshot list \<Rightarrow> Balancer
    \<Rightarrow> panic + (Balancer \<times> Decision list)" where
  "plan now_ms llcs cohorts b =
     (if length llcs < 2 then Inr (b, [])
      else case max_by_key l_load_ns llcs of None \<Rightarrow> Inl UnwrapNone | Some mx \<Rightarrow>
           case min_by_key l_load_ns llcs of None \<Rightarrow> Inl UnwrapNone | Some mn \<Rightarrow>
        let gap = l_load_ns mx - l_load_ns mn;
            threshold = l_capacity_ns mn * imbalance_pct (b_cfg b) div 100
        in if gap \<le> threshold then Inr (b\<lparr> streak := 0 \<rparr>, [])
        else let b1 = b\<lparr> streak := streak b + 1 \<rparr> in
          if streak b1 < confirm_ticks (b_cfg b1) then Inr (b1, [])
          else case min_by_key (\<lambda>c. (repaired_gap gap c, c_load_ns c))
                 (filter (\<lambda>c. repaired_gap gap c < gap)
                   (filter (movable b1 now_ms mx mn) cohorts)) of
              Some c \<Rightarrow>
                Inr (b1\<lparr> last_move_at := hm_insert (c_id c) now_ms (last_move_at b1),
                         streak := 0 \<rparr>,
                     [MoveCohort (c_id c) (l_llc mn)])
            | None \<Rightarrow> Inr (b1, []))"

section \<open>Vocabulary of the properties\<close>

text \<open>The most and least loaded LLC as \<open>plan\<close> picks them, and the imbalance test.\<close>

definition loaded_llc :: "LlcLoad list \<Rightarrow> LlcLoad" where
  "loaded_llc llcs = the (max_by_key l_load_ns llcs)"

definition idle_llc :: "LlcLoad list \<Rightarrow> LlcLoad" where
  "idle_llc llcs = the (min_by_key l_load_ns llcs)"

definition load_gap :: "LlcLoad list \<Rightarrow> u64" where
  "load_gap llcs = l_load_ns (loaded_llc llcs) - l_load_ns (idle_llc llcs)"

definition over_threshold :: "BalancerCfg \<Rightarrow> LlcLoad list \<Rightarrow> bool" where
  "over_threshold cfg llcs \<longleftrightarrow>
     l_capacity_ns (idle_llc llcs) * imbalance_pct cfg div 100 < load_gap llcs"

definition candidates :: "Balancer \<Rightarrow> u64 \<Rightarrow> LlcLoad list \<Rightarrow> CohortSnapshot list \<Rightarrow> CohortSnapshot list" where
  "candidates b now_ms llcs cohorts =
     filter (\<lambda>c. repaired_gap (load_gap llcs) c < load_gap llcs)
       (filter (movable b now_ms (loaded_llc llcs) (idle_llc llcs)) cohorts)"

lemma movable_streak [simp]: "movable (b\<lparr>streak := n\<rparr>) = movable b"
  by (auto simp: fun_eq_iff movable_def residency_passed_def split: option.split)

lemma candidates_streak [simp]: "candidates (b\<lparr>streak := n\<rparr>) = candidates b"
  by (simp add: fun_eq_iff candidates_def)

lemma llcs_nonempty: "2 \<le> length llcs \<Longrightarrow> llcs \<noteq> []"
  by auto

lemma loaded_llc_Some: "llcs \<noteq> [] \<Longrightarrow> max_by_key l_load_ns llcs = Some (loaded_llc llcs)"
  using max_by_key_ex [of llcs l_load_ns] by (auto simp: loaded_llc_def)

lemma idle_llc_Some: "llcs \<noteq> [] \<Longrightarrow> min_by_key l_load_ns llcs = Some (idle_llc llcs)"
  using min_by_key_ex [of llcs l_load_ns] by (auto simp: idle_llc_def)

lemma loaded_llc_in: "llcs \<noteq> [] \<Longrightarrow> loaded_llc llcs \<in> set llcs"
  by (rule max_by_key_in [OF loaded_llc_Some])

lemma idle_llc_in: "llcs \<noteq> [] \<Longrightarrow> idle_llc llcs \<in> set llcs"
  by (rule min_by_key_in [OF idle_llc_Some])

lemma load_bounds:
  assumes "l \<in> set llcs"
  shows "l_load_ns (idle_llc llcs) \<le> l_load_ns l \<and> l_load_ns l \<le> l_load_ns (loaded_llc llcs)"
proof -
  have "llcs \<noteq> []" using assms by auto
  then show ?thesis
    using max_by_key_ge [OF loaded_llc_Some assms] min_by_key_le [OF idle_llc_Some assms] by simp
qed

text \<open>The branches of \<open>plan\<close>, once each.\<close>

lemma plan_cases:
  "plan now_ms llcs cohorts b =
     Inr (if length llcs < 2 then (b, [])
          else if \<not> over_threshold (b_cfg b) llcs then (b\<lparr>streak := 0\<rparr>, [])
          else if streak b + 1 < confirm_ticks (b_cfg b) then (b\<lparr>streak := streak b + 1\<rparr>, [])
          else case min_by_key (\<lambda>c. (repaired_gap (load_gap llcs) c, c_load_ns c))
                     (candidates b now_ms llcs cohorts) of
                 None \<Rightarrow> (b\<lparr>streak := streak b + 1\<rparr>, [])
               | Some c \<Rightarrow> (b\<lparr>last_move_at := hm_insert (c_id c) now_ms (last_move_at b),
                              streak := 0\<rparr>,
                            [MoveCohort (c_id c) (l_llc (idle_llc llcs))]))"
proof (cases "length llcs < 2")
  case False
  then have "llcs \<noteq> []" by auto
  then show ?thesis
    unfolding plan_def loaded_llc_Some [OF \<open>llcs \<noteq> []\<close>] idle_llc_Some [OF \<open>llcs \<noteq> []\<close>]
    by (auto simp: Let_def over_threshold_def load_gap_def candidates_def not_less
        split: option.splits)
qed (simp add: plan_def)

section \<open>Arithmetic of the repaired gap\<close>

lemma uint_unsigned_abs_of_int:
  assumes "- (2 ^ 63) \<le> k" and "k < 2 ^ 63"
  shows "uint (unsigned_abs (word_of_int k :: 64 word)) = \<bar>k\<bar>"
proof -
  have s: "sint (word_of_int k :: 64 word) = k"
    using assms by (simp add: sint_sbintrunc' signed_take_bit_int_eq_self)
  show ?thesis
  proof (cases "k < 0")
    case True
    then have "unsigned_abs (word_of_int k :: 64 word) = word_of_int (- k)"
      by (simp add: unsigned_abs_def s)
    then show ?thesis using assms True by (simp only: uint_word_of_int) simp
  next
    case False
    then have "unsigned_abs (word_of_int k :: 64 word) = word_of_int k"
      by (simp add: unsigned_abs_def s)
    then show ?thesis using assms False by (simp only: uint_word_of_int) simp
  qed
qed

text \<open>Below \<open>2\<^sup>6\<^sup>2\<close> nanoseconds (146 years) the signed arithmetic does not wrap.\<close>

lemma int_repaired_gap:
  assumes "unat gap < 2 ^ 63" and "unat (c_load_ns c) < 2 ^ 62"
  shows "int (unat (repaired_gap gap c)) = \<bar>int (unat gap) - 2 * int (unat (c_load_ns c))\<bar>"
proof -
  let ?k = "uint gap - 2 * uint (c_load_ns c)"
  have w: "gap - 2 * c_load_ns c = word_of_int ?k"
    by simp
  have two: "(2 :: int) ^ 63 = 2 * 2 ^ 62"
    by simp
  have "uint gap < 2 ^ 63"
    using assms(1) by (rule uint_less_power)
  moreover have "uint (c_load_ns c) < 2 ^ 62"
    using assms(2) by (rule uint_less_power)
  ultimately have "- (2 ^ 63) \<le> ?k \<and> ?k < 2 ^ 63"
    using uint_ge_0 [of gap] uint_ge_0 [of "c_load_ns c"] two by linarith
  then have "uint (repaired_gap gap c) = \<bar>?k\<bar>"
    unfolding repaired_gap_def w by (intro uint_unsigned_abs_of_int) simp_all
  then show ?thesis by (simp only: uint_nat)
qed

lemma unat_load_gap:
  assumes "llcs \<noteq> []"
  shows "unat (load_gap llcs) =
    unat (l_load_ns (loaded_llc llcs)) - unat (l_load_ns (idle_llc llcs))"
  using load_bounds [OF loaded_llc_in [OF assms]] by (simp add: load_gap_def unat_sub)

lemma over_threshold_gap: "over_threshold cfg llcs \<Longrightarrow> load_gap llcs \<noteq> 0"
  by (auto simp: over_threshold_def)

lemma over_threshold_distinct:
  assumes "llcs \<noteq> []" and "llcs_wf llcs" and "over_threshold cfg llcs"
  shows "l_llc (idle_llc llcs) \<noteq> l_llc (loaded_llc llcs)"
proof
  assume "l_llc (idle_llc llcs) = l_llc (loaded_llc llcs)"
  then have "idle_llc llcs = loaded_llc llcs"
    using assms(1,2) idle_llc_in loaded_llc_in llcs_wf_eq by metis
  with over_threshold_gap [OF assms(3)] show False
    by (simp add: load_gap_def)
qed

section \<open>What a move is\<close>

lemma candidates_iff:
  "c \<in> set (candidates b now_ms llcs cohorts) \<longleftrightarrow>
     c \<in> set cohorts \<and> movable b now_ms (loaded_llc llcs) (idle_llc llcs) c \<and>
     repaired_gap (load_gap llcs) c < load_gap llcs"
  by (auto simp: candidates_def)

lemma plan_moveE:
  assumes "plan now_ms llcs cohorts b = Inr (b', ds)" and "ds \<noteq> []"
  obtains c where "2 \<le> length llcs" and "over_threshold (b_cfg b) llcs"
    and "confirm_ticks (b_cfg b) \<le> streak b + 1"
    and "min_by_key (\<lambda>c. (repaired_gap (load_gap llcs) c, c_load_ns c))
           (candidates b now_ms llcs cohorts) = Some c"
    and "b' = b\<lparr>last_move_at := hm_insert (c_id c) now_ms (last_move_at b), streak := 0\<rparr>"
    and "ds = [MoveCohort (c_id c) (l_llc (idle_llc llcs))]"
  using assms unfolding plan_cases by (auto simp: not_less split: if_splits option.splits)

lemma plan_stay:
  assumes "plan now_ms llcs cohorts b = Inr (b', [])"
  shows "b' = b \<or> b' = b\<lparr>streak := 0\<rparr> \<or> b' = b\<lparr>streak := streak b + 1\<rparr>"
  using assms unfolding plan_cases by (auto split: if_splits option.splits)

lemma plan_frame:
  assumes "plan now_ms llcs cohorts b = Inr (b', ds)"
  shows "b_cfg b' = b_cfg b"
    and "hm_get (last_move_at b') i =
      (if \<exists>l. MoveCohort i l \<in> set ds then Some now_ms else hm_get (last_move_at b) i)"
  using assms unfolding plan_cases
  by (auto simp: hm_simps split: if_splits option.splits)

text \<open>
  C1. A planned move is safe: it is the only decision, it takes a whole cohort that lives on
  the most loaded LLC to the least loaded one, never a pinned, empty or idle cohort, never one
  bigger than the capacity of the receiving LLC, never one still inside its residency window,
  and never back to the LLC it already lives on.
\<close>

theorem plan_move_safe:
  assumes "llcs_wf llcs"
    and "plan now_ms llcs cohorts b = Inr (b', d # ds)"
  shows "ds = [] \<and> (\<exists>c \<in> set cohorts. d = MoveCohort (c_id c) (l_llc (idle_llc llcs)) \<and>
     c_home_llc c = l_llc (loaded_llc llcs) \<and> l_llc (idle_llc llcs) \<noteq> c_home_llc c \<and>
     \<not> c_pinned c \<and> 0 < c_nr_tasks c \<and> 0 < c_load_ns c \<and>
     c_load_ns c \<le> l_capacity_ns (idle_llc llcs) \<and> residency_passed b now_ms c)"
proof -
  from assms(2) obtain c where len: "2 \<le> length llcs"
    and over: "over_threshold (b_cfg b) llcs"
    and c: "min_by_key (\<lambda>c. (repaired_gap (load_gap llcs) c, c_load_ns c))
              (candidates b now_ms llcs cohorts) = Some c"
    and ds: "d # ds = [MoveCohort (c_id c) (l_llc (idle_llc llcs))]"
    by (rule plan_moveE) auto
  have "c \<in> set cohorts" "movable b now_ms (loaded_llc llcs) (idle_llc llcs) c"
    using min_by_key_in [OF c] by (simp_all add: candidates_iff)
  moreover have "l_llc (idle_llc llcs) \<noteq> l_llc (loaded_llc llcs)"
    using over_threshold_distinct [OF llcs_nonempty [OF len] assms(1) over] .
  ultimately show ?thesis
    using ds by (auto simp: movable_def)
qed

text \<open>
  C32. A planned move is the best one available: with loads below \<open>2\<^sup>6\<^sup>2\<close> ns, moving the chosen
  cohort leaves a strictly smaller inter-LLC gap (\<open>\<bar>gap - 2\<cdot>load\<bar>\<close>, a true difference, not a
  wrapped one), no other movable cohort that also shrinks the gap would leave a smaller one, and
  among those leaving the same gap none is lighter.
\<close>

theorem plan_move_best:
  assumes "\<forall>l \<in> set llcs. unat (l_load_ns l) < 2 ^ 63"
    and "\<forall>c \<in> set cohorts. unat (c_load_ns c) < 2 ^ 62"
    and "plan now_ms llcs cohorts b = Inr (b', [d])"
  shows "\<exists>c \<in> set cohorts. decision_id d = c_id c \<and>
    (let gap = int (unat (l_load_ns (loaded_llc llcs))) - int (unat (l_load_ns (idle_llc llcs)));
         left = (\<lambda>c. \<bar>gap - 2 * int (unat (c_load_ns c))\<bar>)
     in left c < gap \<and>
        (\<forall>c' \<in> set cohorts. movable b now_ms (loaded_llc llcs) (idle_llc llcs) c' \<and> left c' < gap
           \<longrightarrow> left c < left c' \<or> left c = left c' \<and> c_load_ns c \<le> c_load_ns c'))"
proof -
  from assms(3) obtain c where len: "2 \<le> length llcs"
    and c: "min_by_key (\<lambda>c. (repaired_gap (load_gap llcs) c, c_load_ns c))
              (candidates b now_ms llcs cohorts) = Some c"
    and d: "[d] = [MoveCohort (c_id c) (l_llc (idle_llc llcs))]"
    by (rule plan_moveE) auto
  have ne: "llcs \<noteq> []" using len by auto
  let ?gap = "int (unat (l_load_ns (loaded_llc llcs))) - int (unat (l_load_ns (idle_llc llcs)))"
  let ?left = "\<lambda>c. \<bar>?gap - 2 * int (unat (c_load_ns c))\<bar>"
  have gap: "int (unat (load_gap llcs)) = ?gap"
    using load_bounds [OF loaded_llc_in [OF ne]] unat_load_gap [OF ne]
    by (simp add: word_le_nat_alt)
  have "unat (load_gap llcs) < 2 ^ 63"
    using bspec [OF assms(1) loaded_llc_in [OF ne]] unat_load_gap [OF ne] by linarith
  then have left: "int (unat (repaired_gap (load_gap llcs) c')) = ?left c'" if "c' \<in> set cohorts" for c'
    using int_repaired_gap [of "load_gap llcs" c'] assms(2) that gap by simp
  have in_c: "c \<in> set cohorts" and lt: "repaired_gap (load_gap llcs) c < load_gap llcs"
    using min_by_key_in [OF c] by (simp_all add: candidates_iff)
  have less: "?left c' < ?gap \<longleftrightarrow> repaired_gap (load_gap llcs) c' < load_gap llcs" if "c' \<in> set cohorts" for c'
  proof -
    have "?left c' < ?gap \<longleftrightarrow> int (unat (repaired_gap (load_gap llcs) c')) < int (unat (load_gap llcs))"
      by (simp only: left [OF that] gap)
    then show ?thesis by (simp only: of_nat_less_iff word_less_nat_alt)
  qed
  have "?left c < ?left c' \<or> ?left c = ?left c' \<and> c_load_ns c \<le> c_load_ns c'"
    if "c' \<in> set cohorts" "movable b now_ms (loaded_llc llcs) (idle_llc llcs) c'" "?left c' < ?gap" for c'
  proof -
    have "c' \<in> set (candidates b now_ms llcs cohorts)"
      using that less by (simp add: candidates_iff)
    from min_by_key_le [OF c this]
    have "unat (repaired_gap (load_gap llcs) c) < unat (repaired_gap (load_gap llcs) c') \<or>
      unat (repaired_gap (load_gap llcs) c) = unat (repaired_gap (load_gap llcs) c') \<and>
      c_load_ns c \<le> c_load_ns c'"
      by (auto simp: less_eq_prod_def word_less_nat_alt word_le_nat_alt)
    then show ?thesis
      by (simp only: left [OF that(1), symmetric] left [OF in_c, symmetric] of_nat_less_iff of_nat_eq_iff)
  qed
  then show ?thesis
    using in_c lt less d by (auto simp: Let_def)
qed

text \<open>Without wrap-around, a cohort repairs the gap exactly when it carries something and less than the gap.\<close>

lemma repaired_gap_less_iff:
  assumes "unat gap < 2 ^ 63" and "unat (c_load_ns c) < 2 ^ 62"
  shows "repaired_gap gap c < gap \<longleftrightarrow> 0 < unat (c_load_ns c) \<and> unat (c_load_ns c) < unat gap"
proof -
  have "repaired_gap gap c < gap \<longleftrightarrow> int (unat (repaired_gap gap c)) < int (unat gap)"
    by (simp only: of_nat_less_iff word_less_nat_alt)
  then show ?thesis by (simp only: int_repaired_gap [OF assms]) linarith
qed

lemma over_threshold_nat:
  assumes "llcs \<noteq> []" and "unat (l_capacity_ns (idle_llc llcs)) * unat (imbalance_pct cfg) < 2 ^ 64"
  shows "over_threshold cfg llcs \<longleftrightarrow>
    unat (l_capacity_ns (idle_llc llcs)) * unat (imbalance_pct cfg) div 100
      < unat (l_load_ns (loaded_llc llcs)) - unat (l_load_ns (idle_llc llcs))"
proof -
  have "unat (l_capacity_ns (idle_llc llcs) * imbalance_pct cfg) = unat (l_capacity_ns (idle_llc llcs)) * unat (imbalance_pct cfg)"
    using assms(2) by (simp add: unat_word_ariths)
  then show ?thesis
    unfolding over_threshold_def word_less_nat_alt unat_load_gap [OF assms(1)] by (simp add: unat_div)
qed

lemma movable_nat:
  "movable b now_ms mx mn c \<longleftrightarrow>
     c_home_llc c = l_llc mx \<and> \<not> c_pinned c \<and> c_nr_tasks c \<noteq> 0 \<and> 0 < unat (c_load_ns c) \<and>
     unat (c_load_ns c) \<le> unat (l_capacity_ns mn) \<and>
     (\<forall>at. hm_get (last_move_at b) (c_id c) = Some at \<longrightarrow>
        unat (case c_residency_ms c of None \<Rightarrow> cfg_residency_ms (b_cfg b) | Some r \<Rightarrow> r) \<le> unat now_ms - unat at)"
  by (auto simp: movable_def residency_passed_def word_gt_0 unat_gt_0 word_le_nat_alt unat_saturating_sub split: option.splits)

lemma plan_total:
  "\<exists>b' ds. plan now_ms llcs cohorts b = Inr (b', ds) \<and> length ds \<le> 1 \<and>
     (ds \<noteq> [] \<longleftrightarrow> 2 \<le> length llcs \<and> over_threshold (b_cfg b) llcs \<and>
        confirm_ticks (b_cfg b) \<le> streak b + 1 \<and> candidates b now_ms llcs cohorts \<noteq> [])"
  unfolding plan_cases by (auto simp: not_less split: option.split)

text \<open>
  C13. The balancer always returns, with at most one decision, and it decides to move exactly when
  there are two LLCs, the true difference between the largest and the smallest LLC load exceeds the
  configured percentage of the least loaded LLC's capacity, the imbalance has lasted the configured
  number of ticks, and some cohort that lives on the most loaded LLC is unpinned, has tasks, carries
  some load but less than the gap and no more than the capacity of the least loaded LLC, and last moved
  (if it ever did) at least its residency time ago. All quantities are natural numbers: the hypotheses
  bound the loads, the threshold product and the streak so that no machine operation wraps.
\<close>

theorem plan_moves_iff:
  fixes llcs cohorts b now_ms
  defines "mx \<equiv> loaded_llc llcs" and "mn \<equiv> idle_llc llcs"
  defines "gap \<equiv> unat (l_load_ns mx) - unat (l_load_ns mn)"
  assumes "\<forall>l \<in> set llcs. unat (l_load_ns l) < 2 ^ 63"
    and "\<forall>c \<in> set cohorts. unat (c_load_ns c) < 2 ^ 62"
    and "unat (l_capacity_ns mn) * unat (imbalance_pct (b_cfg b)) < 2 ^ 64"
    and "unat (streak b) < 2 ^ 32 - 1"
  shows "\<exists>b' ds. plan now_ms llcs cohorts b = Inr (b', ds) \<and> length ds \<le> 1 \<and>
     (ds \<noteq> [] \<longleftrightarrow> 2 \<le> length llcs \<and>
        unat (l_capacity_ns mn) * unat (imbalance_pct (b_cfg b)) div 100 < gap \<and>
        unat (confirm_ticks (b_cfg b)) \<le> unat (streak b) + 1 \<and>
        (\<exists>c \<in> set cohorts. c_home_llc c = l_llc mx \<and> \<not> c_pinned c \<and> c_nr_tasks c \<noteq> 0 \<and>
           0 < unat (c_load_ns c) \<and> unat (c_load_ns c) < gap \<and>
           unat (c_load_ns c) \<le> unat (l_capacity_ns mn) \<and>
           (\<forall>at. hm_get (last_move_at b) (c_id c) = Some at \<longrightarrow>
              unat (case c_residency_ms c of None \<Rightarrow> cfg_residency_ms (b_cfg b) | Some r \<Rightarrow> r)
                \<le> unat now_ms - unat at)))"
proof (cases "2 \<le> length llcs")
  case False
  then show ?thesis using plan_total [of now_ms llcs cohorts b] by auto
next
  case True
  then have ne: "llcs \<noteq> []" by auto
  have gap: "unat (load_gap llcs) = gap" by (simp add: gap_def mx_def mn_def unat_load_gap [OF ne])
  have "unat (load_gap llcs) < 2 ^ 63"
    using bspec [OF assms(4) loaded_llc_in [OF ne]] unat_load_gap [OF ne] by linarith
  then have rep: "repaired_gap (load_gap llcs) c < load_gap llcs \<longleftrightarrow> 0 < unat (c_load_ns c) \<and> unat (c_load_ns c) < gap"
    if "c \<in> set cohorts" for c
    using repaired_gap_less_iff [of "load_gap llcs" c] assms(5) that gap by simp
  have over: "over_threshold (b_cfg b) llcs \<longleftrightarrow> unat (l_capacity_ns mn) * unat (imbalance_pct (b_cfg b)) div 100 < gap"
    using over_threshold_nat [OF ne assms(6) [unfolded mn_def]] by (simp add: gap_def mx_def mn_def)
  have "unat (streak b + 1) = unat (streak b) + 1"
    using assms(7) by (simp add: unat_word_ariths)
  then have conf: "confirm_ticks (b_cfg b) \<le> streak b + 1 \<longleftrightarrow> unat (confirm_ticks (b_cfg b)) \<le> unat (streak b) + 1"
    by (simp add: word_le_nat_alt)
  have cand: "candidates b now_ms llcs cohorts \<noteq> [] \<longleftrightarrow>
      (\<exists>c \<in> set cohorts. movable b now_ms mx mn c \<and> 0 < unat (c_load_ns c) \<and> unat (c_load_ns c) < gap)"
    using rep by (auto simp: candidates_def filter_empty_conv mx_def mn_def)
  show ?thesis
    using plan_total [of now_ms llcs cohorts b] True unfolding over conf cand movable_nat by blast
qed

section \<open>The balancer over many ticks\<close>

text \<open>
  One tick of the balancer as \<open>Scheduler::tick\<close> runs it: forget the cohorts that are gone, then
  plan. A run is a list of such inputs.
\<close>

record BalInput =
  i_live :: "u64 \<Rightarrow> bool"
  i_now :: u64
  i_llcs :: "LlcLoad list"
  i_cohorts :: "CohortSnapshot list"

definition bal_tick :: "BalInput \<Rightarrow> Balancer \<Rightarrow> panic + (Balancer \<times> Decision list)" where
  "bal_tick i b = plan (i_now i) (i_llcs i) (i_cohorts i) (retain_cohorts (i_live i) b)"

definition bal_step :: "BalInput \<Rightarrow> Balancer \<Rightarrow> Balancer \<times> bool" where
  "bal_step i b = (case bal_tick i b of Inl _ \<Rightarrow> (b, False) | Inr (b', ds) \<Rightarrow> (b', ds \<noteq> []))"

lemma retain_cohorts_simps [simp]:
  "b_cfg (retain_cohorts live b) = b_cfg b"
  "streak (retain_cohorts live b) = streak b"
  by (simp_all add: retain_cohorts_def)

lemma bal_step_tick: "bal_tick i b = Inr (b', ds) \<Longrightarrow> bal_step i b = (b', ds \<noteq> [])"
  by (simp add: bal_step_def)

lemma bal_tick_ex: "\<exists>b' ds. bal_tick i b = Inr (b', ds)"
  unfolding bal_tick_def plan_cases by (auto split: option.split)

interpretation bal: confirm_counter bal_step "\<lambda>b. b_cfg b = cfg" "\<lambda>i. 2 \<le> length (i_llcs i)"
    "\<lambda>i. over_threshold cfg (i_llcs i)" "\<lambda>b. unat (streak b)" "unat (confirm_ticks cfg)"
  for cfg
proof
  fix b :: Balancer and i
  assume cfg: "b_cfg b = cfg"
  show "b_cfg (fst (bal_step i b)) = cfg"
    using cfg unfolding bal_step_def bal_tick_def plan_cases by (auto split: option.split)
  show "unat (streak (fst (bal_step i b))) \<le> unat (streak b)" if "\<not> 2 \<le> length (i_llcs i)"
    using that unfolding bal_step_def bal_tick_def plan_cases by auto
  show "unat (streak (fst (bal_step i b))) = 0"
    if "2 \<le> length (i_llcs i)" "\<not> over_threshold cfg (i_llcs i)"
    using that cfg unfolding bal_step_def bal_tick_def plan_cases by auto
  show "unat (streak (fst (bal_step i b))) \<le> Suc (unat (streak b))"
    using cfg unat_plus_one_le [of "streak b"]
    unfolding bal_step_def bal_tick_def plan_cases by (auto split: option.split)
  show "2 \<le> length (i_llcs i) \<and> over_threshold cfg (i_llcs i) \<and>
      unat (confirm_ticks cfg) \<le> Suc (unat (streak b))" if "snd (bal_step i b)"
  proof -
    have "2 \<le> length (i_llcs i)" "over_threshold cfg (i_llcs i)" "confirm_ticks cfg \<le> streak b + 1"
      using that cfg unfolding bal_step_def bal_tick_def plan_cases
      by (auto simp: not_less split: if_splits)
    then show ?thesis
      using unat_plus_one_le [of "streak b"] by (auto simp: word_le_nat_alt)
  qed
qed

text \<open>
  Two-tick confirmation over whole runs: starting from a fresh balancer, a move at some tick
  implies that the last \<open>confirm_ticks\<close> ticks that compared two LLCs, this one included, were
  all over the imbalance threshold. A transient spike moves nothing.
\<close>

lemma plan_move_confirmed:
  assumes "bal_tick i (run_steps bal_step is (Balancer_new cfg)) = Inr (b', d # ds)"
  shows "let seen = filter (\<lambda>i. 2 \<le> length (i_llcs i)) (is @ [i]); n = unat (confirm_ticks cfg) in
     n \<le> length seen \<and> (\<forall>j \<in> set (drop (length seen - n) seen). over_threshold cfg (i_llcs j))"
proof -
  have "b_cfg (Balancer_new cfg) = cfg" "unat (streak (Balancer_new cfg)) = 0"
    by (simp_all add: Balancer_new_def)
  moreover have "snd (bal_step i (run_steps bal_step is (Balancer_new cfg)))"
    using bal_step_tick [OF assms] by simp
  ultimately have "unat (confirm_ticks cfg) \<le>
      trailing (\<lambda>i. over_threshold cfg (i_llcs i)) (filter (\<lambda>i. 2 \<le> length (i_llcs i)) (is @ [i]))"
    by (rule bal.confirmed_run)
  from trailing_suffix [OF this] show ?thesis by (simp add: Let_def)
qed

subsection \<open>Residency\<close>

lemma bal_tick_moved:
  assumes "hm_wf (last_move_at b)" and "bal_tick i b = Inr (b', ds)"
  shows "hm_wf (last_move_at b')"
    and "hm_get (last_move_at b') c =
      (if \<exists>l. MoveCohort c l \<in> set ds then Some (i_now i)
       else if i_live i c then hm_get (last_move_at b) c else None)"
proof -
  let ?r = "retain_cohorts (i_live i) b"
  have r: "hm_get (last_move_at ?r) c = (if i_live i c then hm_get (last_move_at b) c else None)"
    using assms(1) by (simp add: retain_cohorts_def hm_get_retain split: option.split)
  show "hm_get (last_move_at b') c =
      (if \<exists>l. MoveCohort c l \<in> set ds then Some (i_now i)
       else if i_live i c then hm_get (last_move_at b) c else None)"
    using plan_frame(2) [OF assms(2) [unfolded bal_tick_def], of c] r by simp
  have "hm_wf (last_move_at ?r)"
    using assms(1) by (simp add: retain_cohorts_def)
  then show "hm_wf (last_move_at b')"
    using assms(2) unfolding bal_tick_def plan_cases by (auto split: if_splits option.splits)
qed

lemma bal_step_wf: "hm_wf (last_move_at b) \<Longrightarrow> hm_wf (last_move_at (fst (bal_step i b)))"
  using bal_tick_ex [of i b] bal_tick_moved(1) [of b i] by (auto simp: bal_step_def)

lemma bal_run_wf: "hm_wf (last_move_at b) \<Longrightarrow> hm_wf (last_move_at (run_steps bal_step is b))"
  by (induction "is" arbitrary: b) (auto intro: bal_step_wf)

text \<open>A recorded move stays recorded, or is replaced by a later one, while the cohort lives.\<close>

lemma bal_run_remembers:
  assumes "hm_wf (last_move_at b)" and "hm_get (last_move_at b) c = Some t" and "lo \<le> t"
    and "\<forall>i \<in> set mid. i_live i c \<and> lo \<le> i_now i"
  shows "\<exists>t'. hm_get (last_move_at (run_steps bal_step mid b)) c = Some t' \<and> lo \<le> t'"
  using assms
proof (induction mid arbitrary: b t)
  case (Cons i mid)
  obtain b1 ds where tick: "bal_tick i b = Inr (b1, ds)"
    using bal_tick_ex by blast
  have "\<exists>t1. hm_get (last_move_at b1) c = Some t1 \<and> lo \<le> t1"
    using bal_tick_moved(2) [OF Cons.prems(1) tick, of c] Cons.prems by auto
  then show ?case
    using Cons.IH [of b1] Cons.prems(4) bal_tick_moved(1) [OF Cons.prems(1) tick]
    by (auto simp: bal_step_tick [OF tick])
qed auto

lemma bal_move_residency:
  assumes "bal_tick i b = Inr (b', ds)" and "MoveCohort c l \<in> set ds"
    and "hm_wf (last_move_at b)" and "hm_get (last_move_at b) c = Some t" and "i_live i c"
    and "cohorts_wf (i_cohorts i)" and "s \<in> set (i_cohorts i)" and "c_id s = c"
  shows "unat (case c_residency_ms s of None \<Rightarrow> cfg_residency_ms (b_cfg b) | Some r \<Rightarrow> r)
           \<le> unat (i_now i) - unat t"
proof -
  let ?r = "retain_cohorts (i_live i) b"
  from assms(2) have "ds \<noteq> []" by auto
  with assms(1) obtain k where k: "k \<in> set (candidates ?r (i_now i) (i_llcs i) (i_cohorts i))"
    and ds: "ds = [MoveCohort (c_id k) (l_llc (idle_llc (i_llcs i)))]"
    unfolding bal_tick_def by (elim plan_moveE) (auto dest: min_by_key_in)
  then have "k = s"
    using assms(2,6,7,8) by (auto simp: candidates_iff intro: cohorts_wf_eq)
  with k have "residency_passed ?r (i_now i) s"
    by (simp add: candidates_iff movable_def)
  moreover have "hm_get (last_move_at ?r) c = Some t"
    using assms(3,4,5) by (simp add: retain_cohorts_def hm_get_retain)
  ultimately show ?thesis
    using assms(8) by (auto simp: residency_passed_def word_le_nat_alt split: option.splits)
qed

text \<open>
  C14. Post-move immunity over whole runs: when a cohort moves at one tick, stays live, and moves
  again at a later tick (any number of ticks and of other moves in between), the two moves are
  at least the cohort's residency time apart: the override of its snapshot if a rule set one, the
  configured default otherwise. The clock is the daemon's monotonic one.
\<close>

theorem plan_residency:
  assumes "bal_tick i1 (run_steps bal_step pre (Balancer_new cfg)) = Inr (b1, ds1)"
    and "MoveCohort c l1 \<in> set ds1"
    and "bal_tick i2 (run_steps bal_step mid b1) = Inr (b2, ds2)"
    and "MoveCohort c l2 \<in> set ds2"
    and "\<forall>i \<in> set mid. i_live i c \<and> i_now i1 \<le> i_now i" and "i_live i2 c"
    and "cohorts_wf (i_cohorts i2)" and "s \<in> set (i_cohorts i2)" and "c_id s = c"
  shows "unat (case c_residency_ms s of None \<Rightarrow> cfg_residency_ms cfg | Some r \<Rightarrow> r)
           \<le> unat (i_now i2) - unat (i_now i1)"
proof -
  let ?b0 = "run_steps bal_step pre (Balancer_new cfg)"
  let ?bm = "run_steps bal_step mid b1"
  have cfg: "b_cfg (Balancer_new cfg) = cfg" and wf0: "hm_wf (last_move_at (Balancer_new cfg))"
    by (simp_all add: Balancer_new_def)
  have b1: "b1 = fst (bal_step i1 ?b0)"
    using bal_step_tick [OF assms(1)] by simp
  have "b_cfg ?b0 = cfg" using cfg by (rule bal.inv_run)
  then have "b_cfg b1 = cfg" unfolding b1 by (rule bal.inv_step)
  then have cfgm: "b_cfg ?bm = cfg" by (rule bal.inv_run)
  have wf: "hm_wf (last_move_at ?b0)" using wf0 by (rule bal_run_wf)
  note wf1 = bal_tick_moved(1) [OF wf assms(1)]
  have "hm_get (last_move_at b1) c = Some (i_now i1)"
    using bal_tick_moved(2) [OF wf assms(1), of c] assms(2) by auto
  from bal_run_remembers [OF wf1 this _ assms(5)] obtain t
    where t: "hm_get (last_move_at ?bm) c = Some t" and le: "i_now i1 \<le> t"
    by auto
  have "unat (case c_residency_ms s of None \<Rightarrow> cfg_residency_ms cfg | Some r \<Rightarrow> r)
      \<le> unat (i_now i2) - unat t"
    using bal_move_residency [OF assms(3,4) bal_run_wf [OF wf1] t assms(6-9)] unfolding cfgm .
  also have "\<dots> \<le> unat (i_now i2) - unat (i_now i1)"
    using le by (simp add: word_le_nat_alt diff_le_mono2)
  finally show ?thesis .
qed

section \<open>Concrete runs\<close>

text \<open>
  The scenario of the source's \<open>two_tick_confirmation\<close> and \<open>residency_immunity\<close> tests, in
  smaller units: LLC 0 is full, LLC 1 nearly idle, and one cohort carries a quarter of LLC 0.
\<close>

definition ex_llcs :: "LlcLoad list" where
  "ex_llcs = [\<lparr>l_llc = 0, l_load_ns = 1600, l_capacity_ns = 1600\<rparr>,
              \<lparr>l_llc = 1, l_load_ns = 160, l_capacity_ns = 1600\<rparr>]"

definition ex_cohort :: CohortSnapshot where
  "ex_cohort = \<lparr>c_id = 1, c_home_llc = 0, c_pinned = False, c_nr_tasks = 4, c_load_ns = 400,
                c_residency_ms = None\<rparr>"

definition ex_input :: "u64 \<Rightarrow> BalInput" where
  "ex_input now = \<lparr>i_live = (\<lambda>_. True), i_now = now, i_llcs = ex_llcs, i_cohorts = [ex_cohort]\<rparr>"

definition ex_balancer :: "(u64, u64) hashmap \<Rightarrow> u32 \<Rightarrow> Balancer" where
  "ex_balancer m n = \<lparr>b_cfg = BalancerCfg_default, last_move_at = m, streak = n\<rparr>"

lemmas ex_defs = ex_llcs_def ex_cohort_def ex_input_def ex_balancer_def BalancerCfg_default_def

lemma ex_llcs_simps [simp]:
  "loaded_llc ex_llcs = \<lparr>l_llc = 0, l_load_ns = 1600, l_capacity_ns = 1600\<rparr>"
  "idle_llc ex_llcs = \<lparr>l_llc = 1, l_load_ns = 160, l_capacity_ns = 1600\<rparr>"
  by (simp_all add: loaded_llc_def idle_llc_def ex_llcs_def)

lemma ex_over: "over_threshold BalancerCfg_default ex_llcs"
  by (simp add: over_threshold_def load_gap_def BalancerCfg_default_def)

lemma ex_repaired: "repaired_gap (load_gap ex_llcs) ex_cohort = 640"
  by (simp add: repaired_gap_def load_gap_def unsigned_abs_def ex_cohort_def)

lemma ex_plan_observe: "plan now ex_llcs [ex_cohort] (ex_balancer m 0) = Inr (ex_balancer m 1, [])"
  unfolding plan_cases using ex_over
  by (simp add: ex_balancer_def) (simp add: ex_llcs_def BalancerCfg_default_def)

lemma ex_plan_move:
  assumes "residency_passed (ex_balancer m 1) now ex_cohort"
  shows "plan now ex_llcs [ex_cohort] (ex_balancer m 1) =
    Inr (ex_balancer (hm_insert 1 now m) 0, [MoveCohort 1 1])"
proof -
  have "candidates (ex_balancer m 1) now ex_llcs [ex_cohort] = [ex_cohort]"
    using assms ex_repaired by (simp add: candidates_def movable_def load_gap_def) (simp add: ex_cohort_def)
  then show ?thesis
    unfolding plan_cases using ex_over
    by (simp add: ex_balancer_def) (simp add: ex_llcs_def BalancerCfg_default_def ex_cohort_def)
qed

lemma ex_plan_move_fresh:
  "plan now ex_llcs [ex_cohort] (ex_balancer [] 1) = Inr (ex_balancer [(1, now)] 0, [MoveCohort 1 1])"
  by (subst ex_plan_move) (simp_all add: residency_passed_def ex_balancer_def)

text \<open>Witness of C1.\<close>

theorem plan_move_safe_witness:
  "plan 200 ex_llcs [ex_cohort] (ex_balancer [] 1) = Inr (ex_balancer [(1, 200)] 0, [MoveCohort 1 1])
   \<and> l_llc (idle_llc ex_llcs) \<noteq> c_home_llc ex_cohort"
proof -
  have "llcs_wf ex_llcs" by (simp add: llcs_wf_def ex_llcs_def)
  from plan_move_safe [OF this ex_plan_move_fresh] show ?thesis
    using ex_plan_move_fresh by auto
qed

text \<open>Witness of C32.\<close>

theorem plan_move_best_witness:
  "\<bar>1440 - 2 * int (unat (c_load_ns ex_cohort))\<bar> < 1440"
proof -
  have "\<forall>l \<in> set ex_llcs. unat (l_load_ns l) < 2 ^ 63"
    "\<forall>c \<in> set [ex_cohort]. unat (c_load_ns c) < 2 ^ 62"
    by (simp_all add: ex_llcs_def ex_cohort_def)
  from plan_move_best [OF this ex_plan_move_fresh] show ?thesis
    by (simp add: Let_def)
qed

text \<open>Witness of C13: the imbalance is confirmed and the cohort moves; pinned, it stays.\<close>

theorem plan_moves_iff_witness:
  "(\<exists>b' d. plan 200 ex_llcs [ex_cohort] (ex_balancer [] 1) = Inr (b', [d])) \<and>
   (\<exists>b'. plan 200 ex_llcs [ex_cohort\<lparr>c_pinned := True\<rparr>] (ex_balancer [] 1) = Inr (b', []))"
proof -
  have load: "\<forall>l \<in> set ex_llcs. unat (l_load_ns l) < 2 ^ 63"
    and co: "\<forall>c \<in> set [ex_cohort]. unat (c_load_ns c) < 2 ^ 62"
      "\<forall>c \<in> set [ex_cohort\<lparr>c_pinned := True\<rparr>]. unat (c_load_ns c) < 2 ^ 62"
    and two: "2 \<le> length ex_llcs"
    by (simp_all add: ex_llcs_def ex_cohort_def)
  have cap: "unat (l_capacity_ns (idle_llc ex_llcs)) * unat (imbalance_pct (b_cfg (ex_balancer [] 1))) < 2 ^ 64"
    and str: "unat (streak (ex_balancer [] 1)) < 2 ^ 32 - 1"
    by (simp_all add: ex_balancer_def BalancerCfg_default_def)
  show ?thesis
    using plan_moves_iff [OF load co(1) cap str, of 200] plan_moves_iff [OF load co(2) cap str, of 200] two
    by (auto simp: ex_cohort_def ex_balancer_def BalancerCfg_default_def le_Suc_eq length_Suc_conv)
qed

lemma ex_retain [simp]: "retain_cohorts (\<lambda>_. True) b = b"
  by (simp add: retain_cohorts_def hm_retain_def)

lemma ex_new: "Balancer_new BalancerCfg_default = ex_balancer [] 0"
  by (simp add: Balancer_new_def ex_balancer_def)

lemma ex_tick:
  "bal_tick (ex_input now) (ex_balancer m n) = plan now ex_llcs [ex_cohort] (ex_balancer m n)"
  by (simp add: bal_tick_def ex_input_def)

lemma ex_step_observe: "fst (bal_step (ex_input now) (ex_balancer m 0)) = ex_balancer m 1"
  by (simp add: bal_step_def ex_tick ex_plan_observe)

text \<open>An instance.\<close>

lemma plan_move_confirmed_witness:
  "bal_tick (ex_input 200) (run_steps bal_step [ex_input 0] (Balancer_new BalancerCfg_default)) =
     Inr (ex_balancer [(1, 200)] 0, [MoveCohort 1 1])
   \<and> over_threshold BalancerCfg_default (i_llcs (ex_input 0))"
proof -
  have m: "bal_tick (ex_input 200) (run_steps bal_step [ex_input 0] (Balancer_new BalancerCfg_default)) =
     Inr (ex_balancer [(1, 200)] 0, [MoveCohort 1 1])"
    by (simp add: ex_new ex_step_observe ex_tick ex_plan_move_fresh)
  from plan_move_confirmed [OF m] m show ?thesis
    by (simp add: Let_def BalancerCfg_default_def ex_input_def ex_llcs_def)
qed

text \<open>Witness of C14: moves at 200 ms and, after the two-second window, at 2500 ms.\<close>

theorem plan_residency_witness:
  "bal_tick (ex_input 2500) (run_steps bal_step [ex_input 400] (ex_balancer [(1, 200)] 0)) =
     Inr (ex_balancer [(1, 2500)] 0, [MoveCohort 1 1])
   \<and> unat (cfg_residency_ms BalancerCfg_default) \<le> unat (2500 :: u64) - unat (200 :: u64)"
proof -
  have m1: "bal_tick (ex_input 200) (run_steps bal_step [ex_input 0] (Balancer_new BalancerCfg_default)) =
     Inr (ex_balancer [(1, 200)] 0, [MoveCohort 1 1])"
    by (simp add: ex_new ex_step_observe ex_tick ex_plan_move_fresh)
  have m2: "bal_tick (ex_input 2500) (run_steps bal_step [ex_input 400] (ex_balancer [(1, 200)] 0)) =
     Inr (ex_balancer [(1, 2500)] 0, [MoveCohort 1 1])"
    by (simp add: ex_step_observe ex_tick, subst ex_plan_move)
      (simp_all add: residency_passed_def ex_balancer_def ex_cohort_def BalancerCfg_default_def
        saturating_sub_def)
  have "cohorts_wf (i_cohorts (ex_input 2500))" "ex_cohort \<in> set (i_cohorts (ex_input 2500))"
    "c_id ex_cohort = 1" "i_live (ex_input 2500) 1"
    "\<forall>i \<in> set [ex_input 400]. i_live i 1 \<and> i_now (ex_input 200) \<le> i_now i"
    by (simp_all add: ex_input_def cohorts_wf_def ex_cohort_def)
  from plan_residency [OF m1 _ m2 _ this(5,4,1,2,3)] m2 show ?thesis
    by (simp add: ex_cohort_def ex_input_def)
qed

end
