(* ===== verification/Spill.thy ===== *)
theory Spill
  imports Policy_Domain
begin

text \<open>
  Spill handling for cohorts whose demand exceeds one LLC (\<open>scx_cohort/src/balancer.rs\<close>,
  \<open>SpillCfg\<close> and \<open>plan_spills\<close>). The model keeps the source's loop over the cohorts and its
  two \<open>unwrap\<close>s; \<open>spill_of\<close> is the declarative specification (what each pid is told to do), and
  \<open>plan_spills_refines\<close> shows that the loop computes it without panicking.
\<close>

section \<open>Configuration and operation\<close>

record SpillCfg =
  high_pct :: u64
  low_pct :: u64
  cold_max_pct :: u64
  tick_ns :: u64

definition SpillCfg_default :: SpillCfg where
  "SpillCfg_default =
     \<lparr> high_pct = 95, low_pct = 75, cold_max_pct = 25, tick_ns = 200000000 \<rparr>"

text \<open>\<open>for pid in &already { desired.insert(*pid, *current.get(pid).unwrap()); }\<close>\<close>

definition keep_already :: "(u32, u32) hashmap \<Rightarrow> u32 list \<Rightarrow> (u32, u32) hashmap \<Rightarrow> panic + (u32, u32) hashmap" where
  "keep_already current already desired =
     try_fold (\<lambda>pid d. case hm_get current pid of None \<Rightarrow> Inl UnwrapNone
                       | Some llc \<Rightarrow> Inr (hm_insert pid llc d)) already desired"

text \<open>The growth loop: spill the coldest members until enough demand is shed.\<close>

fun shed_members :: "u32 \<Rightarrow> u64 \<Rightarrow> u64 \<Rightarrow> TaskSnapshot list \<Rightarrow> (u32, u32) hashmap \<Rightarrow> (u32, u32) hashmap" where
  "shed_members target excess shed [] desired = desired"
| "shed_members target excess shed (t # ts) desired =
     (if excess \<le> shed then desired
      else shed_members target excess (shed + max (t_duty_ns t) 1) ts
             (hm_insert (t_pid t) target desired))"

text \<open>The body of the loop over the cohorts.\<close>

definition spill_cohort :: "SpillCfg \<Rightarrow> LlcLoad list \<Rightarrow> (u32, u64) hashmap \<Rightarrow> TaskSnapshot list
    \<Rightarrow> (u32, u32) hashmap \<Rightarrow> CohortSnapshot \<Rightarrow> (u32, u32) hashmap \<Rightarrow> panic + (u32, u32) hashmap" where
  "spill_cohort cfg llcs capacity tasks current cohort desired =
     (case hm_get capacity (c_home_llc cohort) of
        None \<Rightarrow> Inr desired
      | Some cap \<Rightarrow>
          let high = cap * high_pct cfg div 100;
              low = cap * low_pct cfg div 100;
              already = remdups (map t_pid
                (filter (\<lambda>t. t_cohort_id t = c_id cohort \<and> hm_contains current (t_pid t)) tasks))
          in if c_load_ns cohort < low then Inr desired
          else case min_by_key l_load_ns (filter (\<lambda>l. l_llc l \<noteq> c_home_llc cohort) llcs) of
                 None \<Rightarrow> Inl UnwrapNone
               | Some l \<Rightarrow>
            let target = l_llc l in
            case keep_already current already desired of
              Inl e \<Rightarrow> Inl e
            | Inr desired \<Rightarrow>
                if c_load_ns cohort < high then Inr desired
                else
                  let excess = c_load_ns cohort - high;
                      cold_ceiling = tick_ns cfg * cold_max_pct cfg div 100;
                      members = sort_key t_duty_ns
                        (filter (\<lambda>t. t_cohort_id t = c_id cohort \<and> t_pid t \<notin> set already \<and>
                                     t_duty_ns t < cold_ceiling) tasks)
                  in Inr (shed_members target excess 0 members desired))"

definition plan_spills :: "SpillCfg \<Rightarrow> LlcLoad list \<Rightarrow> CohortSnapshot list \<Rightarrow> TaskSnapshot list
    \<Rightarrow> (u32, u32) hashmap \<Rightarrow> panic + (u32, u32) hashmap" where
  "plan_spills cfg llcs cohorts tasks current =
     (if length llcs < 2 then Inr []
      else let capacity = hm_collect (map (\<lambda>l. (l_llc l, l_capacity_ns l)) llcs)
           in try_fold (spill_cohort cfg llcs capacity tasks current) cohorts [])"

section \<open>Specification\<close>

text \<open>The marks of a cohort, its spill target, and the members shed this tick.\<close>

definition home_capacity :: "LlcLoad list \<Rightarrow> CohortSnapshot \<Rightarrow> u64 option" where
  "home_capacity llcs c = map_of (map (\<lambda>l. (l_llc l, l_capacity_ns l)) llcs) (c_home_llc c)"

definition high_mark :: "SpillCfg \<Rightarrow> u64 \<Rightarrow> u64" where
  "high_mark cfg cap = cap * high_pct cfg div 100"

definition low_mark :: "SpillCfg \<Rightarrow> u64 \<Rightarrow> u64" where
  "low_mark cfg cap = cap * low_pct cfg div 100"

definition cold_ceiling :: "SpillCfg \<Rightarrow> u64" where
  "cold_ceiling cfg = tick_ns cfg * cold_max_pct cfg div 100"

definition other_llcs :: "LlcLoad list \<Rightarrow> CohortSnapshot \<Rightarrow> LlcLoad list" where
  "other_llcs llcs c = filter (\<lambda>l. l_llc l \<noteq> c_home_llc c) llcs"

definition spill_target :: "LlcLoad list \<Rightarrow> CohortSnapshot \<Rightarrow> u32" where
  "spill_target llcs c = l_llc (the (min_by_key l_load_ns (other_llcs llcs c)))"

text \<open>The cold members of a cohort that are not spilled yet, coldest first.\<close>

definition cold_members :: "SpillCfg \<Rightarrow> TaskSnapshot list \<Rightarrow> (u32, u32) hashmap \<Rightarrow> CohortSnapshot \<Rightarrow> TaskSnapshot list" where
  "cold_members cfg tasks current c =
     sort_key t_duty_ns (filter (\<lambda>t. t_cohort_id t = c_id c \<and> hm_get current (t_pid t) = None \<and>
                                     t_duty_ns t < cold_ceiling cfg) tasks)"

fun shed_prefix :: "u64 \<Rightarrow> u64 \<Rightarrow> TaskSnapshot list \<Rightarrow> TaskSnapshot list" where
  "shed_prefix excess shed [] = []"
| "shed_prefix excess shed (t # ts) =
     (if excess \<le> shed then [] else t # shed_prefix excess (shed + max (t_duty_ns t) 1) ts)"

definition newly_spilled :: "SpillCfg \<Rightarrow> LlcLoad list \<Rightarrow> TaskSnapshot list \<Rightarrow> (u32, u32) hashmap \<Rightarrow> CohortSnapshot \<Rightarrow> TaskSnapshot list" where
  "newly_spilled cfg llcs tasks current c =
     (case home_capacity llcs c of None \<Rightarrow> []
      | Some cap \<Rightarrow>
          if c_load_ns c < low_mark cfg cap \<or> c_load_ns c < high_mark cfg cap then []
          else shed_prefix (c_load_ns c - high_mark cfg cap) 0 (cold_members cfg tasks current c))"

text \<open>What one cohort's iteration tells a task of that cohort.\<close>

definition spill_of :: "SpillCfg \<Rightarrow> LlcLoad list \<Rightarrow> TaskSnapshot list \<Rightarrow> (u32, u32) hashmap
    \<Rightarrow> CohortSnapshot \<Rightarrow> TaskSnapshot \<Rightarrow> u32 option" where
  "spill_of cfg llcs tasks current c t =
     (case home_capacity llcs c of None \<Rightarrow> None
      | Some cap \<Rightarrow>
          if c_load_ns c < low_mark cfg cap then None
          else if hm_contains current (t_pid t) then hm_get current (t_pid t)
          else if t \<in> set (newly_spilled cfg llcs tasks current c) then Some (spill_target llcs c)
          else None)"

section \<open>Loop lemmas\<close>

lemma shed_members_prefix:
  "shed_members target excess shed ts desired =
     fold (\<lambda>t. hm_insert (t_pid t) target) (shed_prefix excess shed ts) desired"
  by (induction target excess shed ts desired rule: shed_members.induct) auto

lemma fold_insert_target:
  "hm_get (fold (\<lambda>t. hm_insert (t_pid t) target) ts d) pid =
     (if pid \<in> t_pid ` set ts then Some target else hm_get d pid)"
  by (induction ts arbitrary: d) (auto simp: hm_simps)

lemma keep_already_get:
  assumes "\<forall>pid \<in> set already. hm_contains current pid"
  shows "\<exists>d'. keep_already current already d = Inr d' \<and>
    (\<forall>pid. hm_get d' pid = (if pid \<in> set already then hm_get current pid else hm_get d pid))"
  using assms unfolding keep_already_def
proof (induction already arbitrary: d)
  case (Cons p ps)
  then obtain llc where llc: "hm_get current p = Some llc" by (auto simp: hm_simps)
  obtain d' where "try_fold (\<lambda>pid d. case hm_get current pid of None \<Rightarrow> Inl UnwrapNone
        | Some llc \<Rightarrow> Inr (hm_insert pid llc d)) ps (hm_insert p llc d) = Inr d'"
    and "\<forall>pid. hm_get d' pid = (if pid \<in> set ps then hm_get current pid
            else hm_get (hm_insert p llc d) pid)"
    using Cons.IH [of "hm_insert p llc d"] Cons.prems by auto
  with llc show ?case by (intro exI [of _ d']) (auto simp: hm_simps)
qed simp

lemma shed_prefix_subset: "set (shed_prefix excess shed ts) \<subseteq> set ts"
  by (induction excess shed ts rule: shed_prefix.induct) auto

lemma other_llcs_nonempty:
  assumes "llcs_wf llcs" and "2 \<le> length llcs"
  shows "other_llcs llcs c \<noteq> []"
proof
  assume "other_llcs llcs c = []"
  then have "\<forall>l \<in> set llcs. l_llc l = c_home_llc c"
    by (auto simp: other_llcs_def filter_empty_conv)
  moreover obtain a b rest where "llcs = a # b # rest"
    using assms(2) by (cases llcs; cases "tl llcs") auto
  ultimately show False
    using assms(1) by (auto simp: llcs_wf_def)
qed

lemma spill_target_props:
  assumes "llcs_wf llcs" and "2 \<le> length llcs"
  shows "\<exists>l \<in> set llcs. l_llc l = spill_target llcs c \<and> l_llc l \<noteq> c_home_llc c \<and>
    (\<forall>l' \<in> set llcs. l_llc l' \<noteq> c_home_llc c \<longrightarrow> l_load_ns l \<le> l_load_ns l')"
proof -
  obtain l where l: "min_by_key l_load_ns (other_llcs llcs c) = Some l"
    using min_by_key_ex [OF other_llcs_nonempty [OF assms]] by blast
  have "l \<in> set (other_llcs llcs c)" using l by (rule min_by_key_in)
  moreover have "\<forall>l' \<in> set (other_llcs llcs c). l_load_ns l \<le> l_load_ns l'"
    using min_by_key_le [OF l] by blast
  ultimately show ?thesis
    using l by (auto simp: spill_target_def other_llcs_def)
qed

section \<open>Refinement\<close>

text \<open>The entries one cohort's iteration writes.\<close>

definition cohort_spills :: "SpillCfg \<Rightarrow> LlcLoad list \<Rightarrow> TaskSnapshot list \<Rightarrow> (u32, u32) hashmap
    \<Rightarrow> CohortSnapshot \<Rightarrow> u32 \<rightharpoonup> u32" where
  "cohort_spills cfg llcs tasks current c pid =
     (case find (\<lambda>t. t_pid t = pid \<and> t_cohort_id t = c_id c) tasks of
        None \<Rightarrow> None | Some t \<Rightarrow> spill_of cfg llcs tasks current c t)"

lemma tasks_wf_find:
  assumes "tasks_wf tasks" and "t \<in> set tasks" and "P t"
  shows "find (\<lambda>u. t_pid u = t_pid t \<and> P u) tasks = Some t"
proof -
  obtain u where u: "find (\<lambda>u. t_pid u = t_pid t \<and> P u) tasks = Some u"
    using assms(2,3) by (metis (mono_tags, lifting) find_None_iff not_Some_eq)
  then have "u \<in> set tasks" "t_pid u = t_pid t"
    by (auto simp: find_Some_iff in_set_conv_nth)
  with assms(1,2) have "u = t" by (blast intro: tasks_wf_eq)
  with u show ?thesis by simp
qed

lemma cohort_spills_task:
  "tasks_wf tasks \<Longrightarrow> t \<in> set tasks \<Longrightarrow> t_cohort_id t = c_id c \<Longrightarrow>
     cohort_spills cfg llcs tasks current c (t_pid t) = spill_of cfg llcs tasks current c t"
  by (simp add: cohort_spills_def tasks_wf_find)

lemma cohort_spills_SomeE:
  assumes "cohort_spills cfg llcs tasks current c pid = Some l"
  obtains t where "t \<in> set tasks" and "t_pid t = pid" and "t_cohort_id t = c_id c"
  using assms by (auto simp: cohort_spills_def find_Some_iff in_set_conv_nth split: option.splits)

lemma newly_spilled_members:
  assumes "t \<in> set (newly_spilled cfg llcs tasks current c)"
  shows "t \<in> set tasks \<and> t_cohort_id t = c_id c \<and> hm_get current (t_pid t) = None \<and>
    t_duty_ns t < cold_ceiling cfg"
  using assms shed_prefix_subset
  by (fastforce simp: newly_spilled_def cold_members_def split: option.splits if_splits)

lemma cohort_spills_cases:
  assumes wf: "tasks_wf tasks" and cap: "home_capacity llcs c = Some cap"
    and load: "\<not> c_load_ns c < low_mark cfg cap"
  shows "cohort_spills cfg llcs tasks current c pid =
    (if \<exists>t \<in> set tasks. t_pid t = pid \<and> t_cohort_id t = c_id c \<and> hm_contains current pid
     then hm_get current pid
     else if pid \<in> t_pid ` set (newly_spilled cfg llcs tasks current c)
     then Some (spill_target llcs c) else None)"
proof (cases "\<exists>t \<in> set tasks. t_pid t = pid \<and> t_cohort_id t = c_id c")
  case True
  then obtain t where t: "t \<in> set tasks" "t_pid t = pid" "t_cohort_id t = c_id c" by blast
  have "t \<in> set (newly_spilled cfg llcs tasks current c) \<longleftrightarrow>
      pid \<in> t_pid ` set (newly_spilled cfg llcs tasks current c)"
  proof
    assume "pid \<in> t_pid ` set (newly_spilled cfg llcs tasks current c)"
    then obtain u where u: "u \<in> set (newly_spilled cfg llcs tasks current c)" "t_pid u = pid" by blast
    then have "u = t"
      using tasks_wf_eq [OF wf, of u t] t newly_spilled_members [OF u(1)] by simp
    with u show "t \<in> set (newly_spilled cfg llcs tasks current c)" by simp
  qed (use t in blast)
  then show ?thesis
    using cohort_spills_task [OF wf t(1,3), of cfg llcs current] t cap load
    by (auto simp: spill_of_def)
next
  case False
  then have "find (\<lambda>t. t_pid t = pid \<and> t_cohort_id t = c_id c) tasks = None"
    by (auto simp: find_None_iff)
  moreover have "pid \<notin> t_pid ` set (newly_spilled cfg llcs tasks current c)"
    using False newly_spilled_members [of _ cfg llcs tasks current c] by blast
  ultimately show ?thesis
    using False by (auto simp: cohort_spills_def)
qed

text \<open>One iteration overlays the cohort's entries on the set built so far.\<close>

lemma spill_cohort_get:
  assumes "llcs_wf llcs" and "2 \<le> length llcs" and wf: "tasks_wf tasks"
  shows "\<exists>d'. spill_cohort cfg llcs (hm_collect (map (\<lambda>l. (l_llc l, l_capacity_ns l)) llcs))
        tasks current c d = Inr d' \<and>
      hm_get d' = hm_get d ++ cohort_spills cfg llcs tasks current c"
proof (cases "home_capacity llcs c")
  case None
  then have "cohort_spills cfg llcs tasks current c = Map.empty"
    by (auto simp: cohort_spills_def spill_of_def split: option.split)
  with None assms(1) show ?thesis
    by (simp add: spill_cohort_def hm_get_collect_distinct llcs_wf_def o_def home_capacity_def)
next
  case (Some cap)
  then have cap: "hm_get (hm_collect (map (\<lambda>l. (l_llc l, l_capacity_ns l)) llcs)) (c_home_llc c) = Some cap"
    using assms(1) by (simp add: hm_get_collect_distinct llcs_wf_def o_def home_capacity_def)
  show ?thesis
  proof (cases "c_load_ns c < low_mark cfg cap")
    case True
    with Some have "cohort_spills cfg llcs tasks current c = Map.empty"
      by (auto simp: cohort_spills_def spill_of_def split: option.split)
    with cap True show ?thesis
      by (simp add: spill_cohort_def low_mark_def)
  next
    case False
    let ?already = "remdups (map t_pid
      (filter (\<lambda>t. t_cohort_id t = c_id c \<and> hm_contains current (t_pid t)) tasks))"
    obtain l where l: "min_by_key l_load_ns (other_llcs llcs c) = Some l"
      using min_by_key_ex [OF other_llcs_nonempty [OF assms(1,2)]] by blast
    obtain d1 where d1: "keep_already current ?already d = Inr d1"
      and get1: "\<And>pid. hm_get d1 pid = (if pid \<in> set ?already then hm_get current pid else hm_get d pid)"
      using keep_already_get [of ?already current d] by auto
    let ?new = "newly_spilled cfg llcs tasks current c"
    let ?d' = "fold (\<lambda>t. hm_insert (t_pid t) (spill_target llcs c)) ?new d1"
    have members: "(filter (\<lambda>t. t_cohort_id t = c_id c \<and> t_pid t \<notin> set ?already \<and> t_duty_ns t < x) tasks)
        = filter (\<lambda>t. t_cohort_id t = c_id c \<and> hm_get current (t_pid t) = None \<and> t_duty_ns t < x) tasks" for x
      by (rule filter_cong [OF refl]) (auto simp: hm_contains_def split: option.splits)
    have run: "spill_cohort cfg llcs (hm_collect (map (\<lambda>l. (l_llc l, l_capacity_ns l)) llcs))
        tasks current c d = Inr ?d'"
      using cap False l d1 Some
      unfolding spill_cohort_def Let_def members shed_members_prefix newly_spilled_def
        cold_members_def cold_ceiling_def spill_target_def high_mark_def low_mark_def other_llcs_def
      by simp
    have "hm_get ?d' pid = (hm_get d ++ cohort_spills cfg llcs tasks current c) pid" for pid
      unfolding fold_insert_target get1 map_add_def cohort_spills_cases [OF wf Some False]
      by (auto simp: hm_simps dest: newly_spilled_members split: option.split)
    with run show ?thesis by blast
  qed
qed

lemma spill_loop_overlay:
  assumes "llcs_wf llcs" and "2 \<le> length llcs" and "tasks_wf tasks"
  shows "\<exists>d. try_fold (spill_cohort cfg llcs (hm_collect (map (\<lambda>l. (l_llc l, l_capacity_ns l)) llcs))
        tasks current) cs d0 = Inr d \<and>
      hm_get d = foldl (++) (hm_get d0) (map (cohort_spills cfg llcs tasks current) cs)"
proof (induction cs arbitrary: d0)
  case (Cons c cs)
  obtain d1 where "spill_cohort cfg llcs (hm_collect (map (\<lambda>l. (l_llc l, l_capacity_ns l)) llcs))
      tasks current c d0 = Inr d1" "hm_get d1 = hm_get d0 ++ cohort_spills cfg llcs tasks current c"
    using spill_cohort_get [OF assms] by blast
  with Cons [of d1] show ?case by simp
qed simp

lemma overlay_SomeD:
  "foldl (++) m (map f cs) pid = Some l \<Longrightarrow> m pid = Some l \<or> (\<exists>c \<in> set cs. f c pid = Some l)"
proof (induction cs arbitrary: m)
  case (Cons c cs)
  then show ?case using Cons.IH [of "m ++ f c"] by (auto simp: map_add_Some_iff)
qed simp

lemma overlay_only:
  assumes "c \<in> set cs" and "\<And>c'. c' \<in> set cs \<Longrightarrow> c' \<noteq> c \<Longrightarrow> f c' pid = None" and "distinct cs"
  shows "foldl (++) m (map f cs) pid = (m ++ f c) pid"
proof -
  have skip: "foldl (++) m (map f xs) pid = m pid" if "\<forall>c' \<in> set xs. f c' pid = None" for xs m
    using that by (induction xs arbitrary: m) (auto simp: map_add_def)
  from assms(1) obtain us vs where cs: "cs = us @ c # vs" by (auto simp: in_set_conv_decomp)
  with assms(2,3) have "\<forall>c' \<in> set us. f c' pid = None" "\<forall>c' \<in> set vs. f c' pid = None"
    by auto
  then show ?thesis
    using skip [of vs] skip [of us] by (simp add: cs map_add_def split: option.split)
qed

text \<open>The plan a well-formed snapshot gets, in terms of \<open>spill_of\<close>.\<close>

lemma plan_spills_get:
  assumes "llcs_wf llcs" and "2 \<le> length llcs" and "tasks_wf tasks" and "cohorts_wf cohorts"
  obtains d where "plan_spills cfg llcs cohorts tasks current = Inr d"
    and "\<And>c t. c \<in> set cohorts \<Longrightarrow> t \<in> set tasks \<Longrightarrow> t_cohort_id t = c_id c \<Longrightarrow>
      hm_get d (t_pid t) = spill_of cfg llcs tasks current c t"
    and "\<And>pid l. hm_get d pid = Some l \<Longrightarrow>
      \<exists>c \<in> set cohorts. \<exists>t \<in> set tasks. t_pid t = pid \<and> t_cohort_id t = c_id c"
proof -
  let ?f = "cohort_spills cfg llcs tasks current"
  obtain d where d: "plan_spills cfg llcs cohorts tasks current = Inr d"
    and get: "hm_get d = foldl (++) Map.empty (map ?f cohorts)"
    using spill_loop_overlay [OF assms(1-3), of cfg current cohorts "[]"] assms(2)
    by (auto simp: plan_spills_def Let_def)
  have task: "hm_get d (t_pid t) = spill_of cfg llcs tasks current c t"
    if "c \<in> set cohorts" "t \<in> set tasks" "t_cohort_id t = c_id c" for c t
  proof -
    have "?f c' (t_pid t) = None" if "c' \<in> set cohorts" "c' \<noteq> c" for c'
    proof (rule ccontr)
      assume "?f c' (t_pid t) \<noteq> None"
      then obtain u where "u \<in> set tasks" "t_pid u = t_pid t" "t_cohort_id u = c_id c'"
        by (auto elim: cohort_spills_SomeE)
      then have "c_id c' = c_id c"
        using tasks_wf_eq [OF assms(3)] \<open>t \<in> set tasks\<close> \<open>t_cohort_id t = c_id c\<close> by metis
      then show False
        using cohorts_wf_eq [OF assms(4)] that \<open>c \<in> set cohorts\<close> by blast
    qed
    moreover have "distinct cohorts"
      using assms(4) by (auto simp: cohorts_wf_def distinct_map)
    ultimately show ?thesis
      using overlay_only [OF that(1), of ?f "t_pid t" Map.empty]
        cohort_spills_task [OF assms(3) that(2,3)] by (simp add: get)
  qed
  have only: "\<exists>c \<in> set cohorts. \<exists>t \<in> set tasks. t_pid t = pid \<and> t_cohort_id t = c_id c"
    if "hm_get d pid = Some l" for pid l
    using overlay_SomeD [of Map.empty ?f cohorts pid l] that
    by (auto simp: get elim!: cohort_spills_SomeE)
  show ?thesis by (rule that [OF d task only])
qed

text \<open>
  C2. Spill planning refines its specification: on a snapshot with at least two LLCs and unique
  LLC ids, cohort ids and pids, it never hits one of its \<open>unwrap\<close>s, every task of a listed
  cohort gets exactly what \<open>spill_of\<close> says, and no other pid is listed.
\<close>

theorem plan_spills_refines:
  assumes "llcs_wf llcs" and "2 \<le> length llcs" and "tasks_wf tasks" and "cohorts_wf cohorts"
  shows "\<exists>d. plan_spills cfg llcs cohorts tasks current = Inr d \<and>
    (\<forall>c \<in> set cohorts. \<forall>t \<in> set tasks. t_cohort_id t = c_id c \<longrightarrow>
       hm_get d (t_pid t) = spill_of cfg llcs tasks current c t) \<and>
    (\<forall>pid. hm_get d pid \<noteq> None \<longrightarrow>
       (\<exists>c \<in> set cohorts. \<exists>t \<in> set tasks. t_pid t = pid \<and> t_cohort_id t = c_id c))"
  by (rule plan_spills_get [OF assms, of cfg current]) blast

section \<open>The bands: sticky above the low mark, home below it\<close>

text \<open>
  Hysteresis and stickiness: a member of a cohort below its low mark is never spilled; at or
  above the low mark a member that is already spilled keeps its target; and below the high mark
  nobody new is spilled, so between the marks the spill set is kept exactly as it is.
\<close>

lemma plan_spills_bands:
  assumes "llcs_wf llcs" and "2 \<le> length llcs" and "tasks_wf tasks" and "cohorts_wf cohorts"
    and "plan_spills cfg llcs cohorts tasks current = Inr d"
    and "c \<in> set cohorts" and "t \<in> set tasks" and "t_cohort_id t = c_id c"
    and "home_capacity llcs c = Some cap"
  shows "(c_load_ns c < low_mark cfg cap \<longrightarrow> hm_get d (t_pid t) = None) \<and>
    (low_mark cfg cap \<le> c_load_ns c \<and> hm_get current (t_pid t) = Some l \<longrightarrow>
       hm_get d (t_pid t) = Some l) \<and>
    (low_mark cfg cap \<le> c_load_ns c \<and> c_load_ns c < high_mark cfg cap \<longrightarrow>
       hm_get d (t_pid t) = hm_get current (t_pid t))"
proof -
  have "hm_get d (t_pid t) = spill_of cfg llcs tasks current c t"
    using plan_spills_get [OF assms(1-4), of cfg current] assms(5-8)
    by (metis (no_types, lifting) sum.inject(2))
  then show ?thesis
    using assms(9) by (auto simp: spill_of_def newly_spilled_def hm_simps not_less)
qed

section \<open>The growth step: cold, coldest first, just enough\<close>

text \<open>The demand a set of members stands for: an idle member still counts as one nanosecond.\<close>

definition shed_ns :: "TaskSnapshot \<Rightarrow> nat" where
  "shed_ns t = max (unat (t_duty_ns t)) 1"

lemma unat_max_word: "unat (max a b) = max (unat a) (unat b)" for a b :: "'a::len word"
  by (auto simp: max_def word_le_nat_alt)

lemma shed_prefix_take:
  assumes "unat shed + sum_list (map shed_ns ts) < 2 ^ 64"
  shows "\<exists>k \<le> length ts. shed_prefix excess shed ts = take k ts \<and>
    (k < length ts \<longrightarrow> unat excess \<le> unat shed + sum_list (map shed_ns (take k ts))) \<and>
    (\<forall>j < k. unat shed + sum_list (map shed_ns (take j ts)) < unat excess)"
  using assms
proof (induction excess shed ts rule: shed_prefix.induct)
  case (2 excess shed t ts)
  show ?case
  proof (cases "excess \<le> shed")
    case True
    then show ?thesis by (auto simp: word_le_nat_alt intro!: exI [of _ 0])
  next
    case False
    let ?shed = "shed + max (t_duty_ns t) 1"
    have ns: "unat (max (t_duty_ns t) 1) = shed_ns t"
      by (simp add: unat_max_word shed_ns_def)
    have u: "unat ?shed = unat shed + shed_ns t"
      using "2.prems" by (simp add: unat_word_ariths ns)
    then obtain k where k: "k \<le> length ts" "shed_prefix excess ?shed ts = take k ts"
      "k < length ts \<longrightarrow> unat excess \<le> unat ?shed + sum_list (map shed_ns (take k ts))"
      "\<forall>j < k. unat ?shed + sum_list (map shed_ns (take j ts)) < unat excess"
      using "2.IH" [OF False] "2.prems" by auto
    have "\<forall>j < Suc k. unat shed + sum_list (map shed_ns (take j (t # ts))) < unat excess"
      using k(4) u False by (auto simp: less_Suc_eq_0_disj word_le_nat_alt)
    with k u False show ?thesis
      by (intro exI [of _ "Suc k"]) auto
  qed
qed simp

lemma take_sorted_before:
  assumes "sorted (map f xs)" and "k \<le> length xs" and "a \<in> set (take k xs)" and "b \<in> set (drop k xs)"
  shows "f a \<le> f b"
proof -
  from assms(3) obtain i where "i < k" "a = xs ! i"
    by (auto simp: in_set_conv_nth)
  moreover from assms(4) obtain j where "j < length xs - k" "b = xs ! (k + j)"
    by (auto simp: in_set_conv_nth)
  ultimately show ?thesis
    using sorted_nth_mono [OF assms(1), of i "k + j"] by simp
qed

lemma sum_take_Suc_last:
  "k < length xs \<Longrightarrow> sum_list (map f (take (Suc k) xs)) = sum_list (map f (take k xs)) + f (xs ! k)"
  for f :: "'a \<Rightarrow> nat"
  by (simp add: take_Suc_conv_app_nth)

text \<open>The members shed for one cohort: enough or all, coldest first, and not one too many.\<close>

lemma shed_prefix_optimal:
  fixes excess :: u64
  assumes "sum_list (map shed_ns ts) < 2 ^ 64" and "sorted (map t_duty_ns ts)" and "distinct ts"
  defines "N \<equiv> set (shed_prefix excess 0 ts)"
  shows "(unat excess \<le> (\<Sum>t\<in>N. shed_ns t) \<or> N = set ts) \<and>
    (\<forall>t \<in> N. \<forall>u \<in> set ts - N. t_duty_ns t \<le> t_duty_ns u) \<and>
    (\<forall>t \<in> N. (\<forall>u \<in> N. t_duty_ns u \<le> t_duty_ns t) \<longrightarrow> (\<Sum>u\<in>N - {t}. shed_ns u) < unat excess)"
proof -
  obtain k where k: "k \<le> length ts" "shed_prefix excess 0 ts = take k ts"
    "k < length ts \<longrightarrow> unat excess \<le> sum_list (map shed_ns (take k ts))"
    "\<forall>j < k. sum_list (map shed_ns (take j ts)) < unat excess"
    using shed_prefix_take [of 0 ts excess] assms(1) by auto
  have N: "N = set (take k ts)" using k(2) by (simp add: N_def)
  have dist: "distinct (take k ts)" using assms(3) by simp
  have sum: "(\<Sum>t\<in>N. shed_ns t) = sum_list (map shed_ns (take k ts))"
    using sum_list_distinct_conv_sum_set [OF dist, of shed_ns] N by simp
  have rest: "set ts - N \<subseteq> set (drop k ts)"
    unfolding N by (metis Un_Diff_cancel2 append_take_drop_id Diff_subset_conv set_append sup.cobounded1 sup_commute Un_commute set_eq_subset)
  have enough: "unat excess \<le> (\<Sum>t\<in>N. shed_ns t) \<or> N = set ts"
    using k(1,3) sum N by (cases "k < length ts") auto
  have least: "(\<Sum>u\<in>N - {t}. shed_ns u) < unat excess"
    if t: "t \<in> N" and max: "\<forall>u \<in> N. t_duty_ns u \<le> t_duty_ns t" for t
  proof -
    obtain j where j: "k = Suc j" using t N by (cases k) auto
    have last: "ts ! j \<in> N" using N j k(1) by (auto simp: in_set_conv_nth intro!: exI [of _ j])
    have "t_duty_ns t \<le> t_duty_ns (ts ! j)"
    proof -
      obtain i where "i \<le> j" "t = ts ! i" using t N j k(1) by (auto simp: in_set_conv_nth less_Suc_eq_le)
      then show ?thesis using sorted_nth_mono [OF assms(2), of i j] j k(1) by simp
    qed
    with max last have "shed_ns t = shed_ns (ts ! j)"
      by (metis order_antisym shed_ns_def)
    then have "(\<Sum>u\<in>N. shed_ns u) = sum_list (map shed_ns (take j ts)) + shed_ns t"
      using sum sum_take_Suc_last [of j ts shed_ns] j k(1) by simp
    then have "(\<Sum>u\<in>N - {t}. shed_ns u) = sum_list (map shed_ns (take j ts))"
      using t sum.remove [of N t shed_ns] N by simp
    then show ?thesis using k(4) j by simp
  qed
  show ?thesis
    using enough least rest take_sorted_before [OF assms(2) k(1)] N by blast
qed

text \<open>
  C31. Spills grow by the coldest and no further than needed. In a cohort at or above both marks, the
  members newly spilled this tick are cold (below the duty ceiling) and go to the least loaded LLC other than home; they shed the
  excess over the high mark or exhaust the cold members; no cold member left at home is colder
  than one that was spilled; and the set is minimal, since without its hottest member the excess
  would not be covered. Hot threads never become spilled.
\<close>

theorem plan_spills_growth:
  assumes "llcs_wf llcs" and "2 \<le> length llcs" and "tasks_wf tasks" and "cohorts_wf cohorts"
    and "plan_spills cfg llcs cohorts tasks current = Inr d"
    and "c \<in> set cohorts" and "home_capacity llcs c = Some cap"
    and "low_mark cfg cap \<le> c_load_ns c" and "high_mark cfg cap \<le> c_load_ns c"
    and "sum_list (map shed_ns tasks) < 2 ^ 64"
  defines "cold \<equiv> {t \<in> set tasks. t_cohort_id t = c_id c \<and> hm_get current (t_pid t) = None \<and>
                      t_duty_ns t < cold_ceiling cfg}"
    and "new \<equiv> {t \<in> set tasks. t_cohort_id t = c_id c \<and> hm_get current (t_pid t) = None \<and>
                     hm_get d (t_pid t) \<noteq> None}"
    and "excess \<equiv> unat (c_load_ns c) - unat (high_mark cfg cap)"
  shows "new \<subseteq> cold \<and>
    (\<forall>t \<in> new. \<exists>l \<in> set llcs. hm_get d (t_pid t) = Some (l_llc l) \<and> l_llc l \<noteq> c_home_llc c \<and>
       (\<forall>l' \<in> set llcs. l_llc l' \<noteq> c_home_llc c \<longrightarrow> l_load_ns l \<le> l_load_ns l')) \<and>
    (excess \<le> (\<Sum>t\<in>new. shed_ns t) \<or> new = cold) \<and>
    (\<forall>t \<in> new. \<forall>u \<in> cold - new. t_duty_ns t \<le> t_duty_ns u) \<and>
    (\<forall>t \<in> new. (\<forall>u \<in> new. t_duty_ns u \<le> t_duty_ns t) \<longrightarrow> (\<Sum>u\<in>new - {t}. shed_ns u) < excess)"
proof -
  let ?ts = "cold_members cfg tasks current c"
  let ?ex = "c_load_ns c - high_mark cfg cap"
  have ex: "unat ?ex = excess"
    using assms(9) by (simp add: excess_def unat_sub)
  have get: "hm_get d (t_pid t) = spill_of cfg llcs tasks current c t"
    if "t \<in> set tasks" "t_cohort_id t = c_id c" for t
    using plan_spills_get [OF assms(1-4), of cfg current] assms(5,6) that
    by (metis (no_types, lifting) sum.inject(2))
  have news: "newly_spilled cfg llcs tasks current c = shed_prefix ?ex 0 ?ts"
    using assms(7-9) by (simp add: newly_spilled_def leD)
  have set_ts: "set ?ts = cold"
    by (auto simp: cold_members_def cold_def)
  have new: "new = set (shed_prefix ?ex 0 ?ts)"
  proof -
    have "hm_get d (t_pid t) \<noteq> None \<longleftrightarrow> t \<in> set (newly_spilled cfg llcs tasks current c)"
      if "t \<in> set tasks" "t_cohort_id t = c_id c" "hm_get current (t_pid t) = None" for t
      using get [OF that(1,2)] that assms(7,8) by (simp add: spill_of_def hm_simps not_less)
    then show ?thesis
      using newly_spilled_members [of _ cfg llcs tasks current c] by (auto simp: new_def news)
  qed
  have "distinct tasks" using assms(3) by (auto simp: tasks_wf_def distinct_map)
  then have dist: "distinct ?ts" by (simp add: cold_members_def)
  have "(\<Sum>t\<in>set ?ts. shed_ns t) \<le> (\<Sum>t\<in>set tasks. shed_ns t)"
    by (rule sum_mono2) (auto simp: cold_members_def)
  then have "sum_list (map shed_ns ?ts) \<le> sum_list (map shed_ns tasks)"
    using dist \<open>distinct tasks\<close> by (simp add: sum_list_distinct_conv_sum_set)
  then have small: "sum_list (map shed_ns ?ts) < 2 ^ 64"
    using assms(10) by simp
  have "sorted (map t_duty_ns ?ts)" by (simp add: cold_members_def)
  note opt = shed_prefix_optimal [OF small this dist, of ?ex, folded new, unfolded ex set_ts]
  have tgt: "hm_get d (t_pid t) = Some (spill_target llcs c)" if "t \<in> new" for t
    using that get [of t] assms(7,8) new newly_spilled_members [of t cfg llcs tasks current c]
    by (auto simp: new_def spill_of_def hm_simps not_less news split: if_splits)
  have "\<forall>t \<in> new. \<exists>l \<in> set llcs. hm_get d (t_pid t) = Some (l_llc l) \<and> l_llc l \<noteq> c_home_llc c \<and>
       (\<forall>l' \<in> set llcs. l_llc l' \<noteq> c_home_llc c \<longrightarrow> l_load_ns l \<le> l_load_ns l')"
    using tgt spill_target_props [OF assms(1,2), of c] by metis
  moreover have "new \<subseteq> cold" using shed_prefix_subset [of ?ex 0 ?ts] new set_ts by simp
  ultimately show ?thesis
    using opt by (elim conjE) (intro conjI; assumption)
qed

section \<open>Concrete runs\<close>

text \<open>
  The scenario of the source's \<open>oversized_cohort_spills_coldest_members\<close> test in smaller units:
  a cohort slightly over the high mark of its home, with two hot and three cold members.
\<close>

definition ex_spill_cfg :: SpillCfg where
  "ex_spill_cfg = \<lparr> high_pct = 95, low_pct = 75, cold_max_pct = 25, tick_ns = 200 \<rparr>"

definition ex_spill_llcs :: "LlcLoad list" where
  "ex_spill_llcs = [\<lparr>l_llc = 0, l_load_ns = 1540, l_capacity_ns = 1600\<rparr>,
                    \<lparr>l_llc = 1, l_load_ns = 0, l_capacity_ns = 1600\<rparr>]"

definition ex_spill_cohort :: "u64 \<Rightarrow> CohortSnapshot" where
  "ex_spill_cohort load = \<lparr>c_id = 7, c_home_llc = 0, c_pinned = False, c_nr_tasks = 5,
     c_load_ns = load, c_residency_ms = None\<rparr>"

definition ex_task :: "u32 \<Rightarrow> u64 \<Rightarrow> TaskSnapshot" where
  "ex_task pid duty = \<lparr>t_pid = pid, t_tgid = pid, t_cohort_id = 7, t_duty_ns = duty,
     t_home_ns = 0, t_comm = ''t''\<rparr>"

definition ex_tasks :: "TaskSnapshot list" where
  "ex_tasks = [ex_task 1 800, ex_task 2 660, ex_task 10 32, ex_task 11 32, ex_task 12 16]"

lemmas ex_spill_defs = ex_spill_cfg_def ex_spill_llcs_def ex_spill_cohort_def ex_task_def ex_tasks_def

lemma ex_spill_wf:
  "llcs_wf ex_spill_llcs" "2 \<le> length ex_spill_llcs" "tasks_wf ex_tasks" "cohorts_wf [ex_spill_cohort load]"
  "home_capacity ex_spill_llcs (ex_spill_cohort load) = Some 1600"
  by (simp_all add: ex_spill_defs llcs_wf_def tasks_wf_def cohorts_wf_def home_capacity_def)

lemma ex_spill_grow:
  "plan_spills ex_spill_cfg ex_spill_llcs [ex_spill_cohort 1540] ex_tasks [] = Inr [(12, 1), (10, 1)]"
  by code_simp

lemma ex_spill_keep:
  "plan_spills ex_spill_cfg ex_spill_llcs [ex_spill_cohort 1360] ex_tasks [(10, 1)] = Inr [(10, 1)]"
  by code_simp

text \<open>Witness of C2.\<close>

theorem plan_spills_refines_witness:
  "hm_get [(12, 1), (10, 1)] (t_pid (ex_task 11 32)) =
     spill_of ex_spill_cfg ex_spill_llcs ex_tasks [] (ex_spill_cohort 1540) (ex_task 11 32)"
proof -
  have "ex_task 11 32 \<in> set ex_tasks" "t_cohort_id (ex_task 11 32) = c_id (ex_spill_cohort 1540)"
    by (simp_all add: ex_spill_defs)
  with plan_spills_refines [OF ex_spill_wf(1-4), of ex_spill_cfg 1540 "[]"] ex_spill_grow
  show ?thesis by fastforce
qed

text \<open>An instance.\<close>

lemma plan_spills_bands_witness:
  "hm_get [(10, 1)] (t_pid (ex_task 10 32)) = Some (1 :: u32)"
proof -
  have "ex_task 10 32 \<in> set ex_tasks" "t_cohort_id (ex_task 10 32) = c_id (ex_spill_cohort 1360)"
    by (simp_all add: ex_spill_defs)
  moreover have "ex_spill_cohort 1360 \<in> set [ex_spill_cohort 1360]" by simp
  ultimately have "low_mark ex_spill_cfg 1600 \<le> c_load_ns (ex_spill_cohort 1360) \<and>
      hm_get [(10, 1)] (t_pid (ex_task 10 32)) = Some (1 :: u32) \<longrightarrow>
      hm_get [(10, 1)] (t_pid (ex_task 10 32)) = Some (1 :: u32)"
    using plan_spills_bands [OF ex_spill_wf(1-4) ex_spill_keep _ _ _ ex_spill_wf(5)] by blast
  then show ?thesis by (simp add: low_mark_def ex_spill_defs)
qed

text \<open>Witness of C31. Of three cold members of a cohort that exceeds the high mark by 20, the two coldest are spilled.\<close>

theorem plan_spills_growth_witness:
  "plan_spills ex_spill_cfg ex_spill_llcs [ex_spill_cohort 1540] ex_tasks [] = Inr [(12, 1), (10, 1)] \<and>
   t_duty_ns (ex_task 12 16) \<le> t_duty_ns (ex_task 11 32) \<and>
   20 \<le> shed_ns (ex_task 12 16) + shed_ns (ex_task 10 32) \<and> shed_ns (ex_task 12 16) < 20"
proof -
  let ?d = "[(12, 1), (10, 1)] :: (u32, u32) hashmap"
  have "ex_spill_cohort 1540 \<in> set [ex_spill_cohort 1540]"
    "low_mark ex_spill_cfg 1600 \<le> c_load_ns (ex_spill_cohort 1540)"
    "high_mark ex_spill_cfg 1600 \<le> c_load_ns (ex_spill_cohort 1540)"
    "sum_list (map shed_ns ex_tasks) < 2 ^ 64"
    by (simp_all add: low_mark_def high_mark_def shed_ns_def ex_spill_defs)
  note growth = plan_spills_growth [OF ex_spill_wf(1-4) ex_spill_grow this(1) ex_spill_wf(5) this(2-4)]
  have cold: "{t \<in> set ex_tasks. t_cohort_id t = c_id (ex_spill_cohort 1540) \<and>
      hm_get ([] :: (u32, u32) hashmap) (t_pid t) = None \<and> t_duty_ns t < cold_ceiling ex_spill_cfg} =
      {ex_task 10 32, ex_task 11 32, ex_task 12 16}"
    by (auto simp: ex_spill_defs cold_ceiling_def)
  have new: "{t \<in> set ex_tasks. t_cohort_id t = c_id (ex_spill_cohort 1540) \<and>
      hm_get ([] :: (u32, u32) hashmap) (t_pid t) = None \<and> hm_get ?d (t_pid t) \<noteq> None} =
      {ex_task 12 16, ex_task 10 32}"
    by (auto simp: ex_spill_defs)
  have sets: "ex_task 11 32 \<notin> {ex_task 12 16, ex_task 10 32}" "ex_task 12 16 \<noteq> ex_task 10 32"
    "{ex_task 12 16, ex_task 10 32} - {ex_task 10 32} = {ex_task 12 16}"
    by (auto simp: ex_task_def)
  have "t_duty_ns u \<le> t_duty_ns (ex_task 10 32)" if "u \<in> {ex_task 12 16, ex_task 10 32}" for u
    using that by (auto simp: ex_task_def)
  then have "(\<Sum>u \<in> {ex_task 12 16}. shed_ns u) < unat (c_load_ns (ex_spill_cohort 1540)) - unat (high_mark ex_spill_cfg 1600)"
    using growth unfolding cold new sets(3) [symmetric] by blast
  then show ?thesis
    using growth sets(1,2) ex_spill_grow unfolding cold new by (auto simp: high_mark_def ex_spill_cfg_def ex_spill_cohort_def)
qed

end
