(* ===== verification/Daemon_Snapshots.thy ===== *)
theory Daemon_Snapshots
  imports Kernel_Maps Rules_Config Balancer Spill Wake_Split
begin

text \<open>
  The daemon's state and the half of its tick that reads the BPF maps
  (\<open>scx_cohort/src/main.rs\<close>, \<open>Scheduler\<close>): task, process, cohort, edge and LLC snapshots, and the
  two-tick garbage collection of dead cohorts and processes. Every operation takes the kernel's map
  operations and state explicitly; a \<open>?\<close> of the source is the branch that returns the error.
\<close>

section \<open>State\<close>

definition DAEMON_COHORT_BASE :: u64 where
  "DAEMON_COHORT_BASE = push_bit 32 1"

record Scheduler =
  interval_ms :: u64
  balancer :: Balancer
  llc_cpus :: "(u32, u64) hashmap"
  prev_load_sum :: "(u64, u64) hashmap"
  prev_llc_load :: "(u32, u64) hashmap"
  dead_cohorts :: "u64 set"
  dead_tgids :: "u32 set"
  wake_graph :: WakeGraph
  daemon_seq :: u64
  sample_mult :: u64
  config :: Config
  spill_cfg :: SpillCfg
  current_spills :: "(u32, u32) hashmap"
  prev_runtime :: "(u32, u64 \<times> u64) hashmap"
  cgroup_cache :: "(u32, string) hashmap"
  residency_overrides :: "(u64, u64) hashmap"
  nr_migrations :: u64
  nr_merges :: u64
  nr_splits :: u64
  last_tasks :: "TaskSnapshot list"

text \<open>\<open>Duration\<close> from a whole number of milliseconds: \<open>as_nanos() as u64\<close> and \<open>as_secs_f64\<close>.\<close>

definition interval_ns :: "u64 \<Rightarrow> u64" where
  "interval_ns ms = ms * 1000000"

definition interval_secs :: "u64 \<Rightarrow> f64" where
  "interval_secs ms = f_add (u64_to_f64 (ms div 1000)) (f_div (u64_to_f64 (ms mod 1000 * 1000000)) (Fin 1000000000))"

section \<open>Tasks\<close>

text \<open>The comm up to its first NUL, decoded lossily.\<close>

definition comm_string :: "bytes \<Rightarrow> string" where
  "comm_string comm = str_of_bytes (from_utf8_lossy (takeWhile (\<lambda>b. b \<noteq> 0) comm))"

definition task_row :: "(u32, u64 \<times> u64) hashmap \<Rightarrow> bytes \<times> bytes \<Rightarrow>
    TaskSnapshot list \<times> (u32, u64 \<times> u64) hashmap \<Rightarrow>
    daemon_error + (TaskSnapshot list \<times> (u32, u64 \<times> u64) hashmap)" where
  "task_row prevs = (\<lambda>(key, val) (out, seen).
     case TaskStat_read val of
       None \<Rightarrow> Inr (out, seen)
     | Some ts \<Rightarrow>
         (case u32_read key of
            None \<Rightarrow> Inl BadSize
          | Some pid \<Rightarrow>
              let (prev, prev_home) =
                    (case hm_get prevs pid of Some p \<Rightarrow> p | None \<Rightarrow> (ts_runtime_sum ts, ts_runtime_home_sum ts))
              in Inr (out @ [\<lparr> t_pid = pid, t_tgid = ts_tgid ts, t_cohort_id = ts_cohort_id ts,
                               t_duty_ns = saturating_sub (ts_runtime_sum ts) prev,
                               t_home_ns = saturating_sub (ts_runtime_home_sum ts) prev_home,
                               t_comm = comm_string (ts_comm ts) \<rparr>],
                      hm_insert pid (ts_runtime_sum ts, ts_runtime_home_sum ts) seen)))"

definition snapshot_tasks :: "'k kernel_ops \<Rightarrow> 'k \<Rightarrow> Scheduler \<Rightarrow> daemon_error + (TaskSnapshot list \<times> Scheduler)" where
  "snapshot_tasks ko k s =
     (case k_lookup_batch ko task_stats k of
        Inl e \<Rightarrow> Inl e
      | Inr kvs \<Rightarrow>
          (case try_fold (task_row (prev_runtime s)) kvs ([], []) of
             Inl e \<Rightarrow> Inl e
           | Inr (out, seen) \<Rightarrow> Inr (out, s\<lparr> prev_runtime := seen \<rparr>)))"

section \<open>Processes\<close>

definition snapshot_tgid_cohort :: "'k kernel_ops \<Rightarrow> 'k \<Rightarrow> daemon_error + (u32, u64) hashmap" where
  "snapshot_tgid_cohort ko k =
     (case k_lookup_batch ko tgid_cohort_map k of
        Inl e \<Rightarrow> Inl e
      | Inr kvs \<Rightarrow>
          try_fold (\<lambda>(key, val) out.
            case u32_read key of
              None \<Rightarrow> Inl BadSize
            | Some tgid \<Rightarrow> (case u64_read val of None \<Rightarrow> Inl BadSize | Some c \<Rightarrow> Inr (hm_insert tgid c out))) kvs [])"

definition gc_tgid :: "'k kernel_ops \<Rightarrow> u32 set \<Rightarrow> u32 set \<Rightarrow> u32 \<Rightarrow> u32 set \<times> 'k \<Rightarrow> u32 set \<times> 'k" where
  "gc_tgid ko live dead tgid = (\<lambda>(dead_now, k).
     if tgid \<in> live then (dead_now, k)
     else if tgid \<in> dead then (dead_now, k_try_delete ko tgid_cohort_map (u32_bytes tgid) k)
     else (insert tgid dead_now, k))"

definition gc_tgid_map :: "'k kernel_ops \<Rightarrow> (u32, u64) hashmap \<Rightarrow> TaskSnapshot list \<Rightarrow> 'k \<Rightarrow> Scheduler \<Rightarrow> Scheduler \<times> 'k" where
  "gc_tgid_map ko tgid_cohort tasks k s =
     (let (dead_now, k') =
        fold (gc_tgid ko (set (map t_tgid tasks)) (dead_tgids s)) (map fst tgid_cohort) ({}, k)
      in (s\<lparr> dead_tgids := dead_now \<rparr>, k'))"

section \<open>Cohorts\<close>

definition count_tasks :: "TaskSnapshot list \<Rightarrow> (u64, u64) hashmap" where
  "count_tasks tasks = fold (\<lambda>t. hm_entry (t_cohort_id t) 0 (\<lambda>n. n + 1)) tasks []"

definition read_policies :: "(bytes \<times> bytes) list \<Rightarrow> (u64, CohortPolicy) hashmap" where
  "read_policies kvs =
     fold (\<lambda>(key, val) ps.
       case (u64_read key, CohortPolicy_read val) of
         (Some i, Some p) \<Rightarrow> hm_insert i p ps
       | _ \<Rightarrow> ps) kvs []"

record CohortScan =
  sc_out :: "CohortSnapshot list"
  sc_dead :: "u64 list"
  sc_seen :: "(u64, u64) hashmap"
  sc_dead_now :: "u64 set"

text \<open>The body of the counters loop.\<close>

definition cohort_row :: "Scheduler \<Rightarrow> (u64, u64) hashmap \<Rightarrow> u64 set \<Rightarrow> bool \<Rightarrow> (u64, CohortPolicy) hashmap \<Rightarrow>
    bytes \<times> bytes \<Rightarrow> CohortScan \<Rightarrow> daemon_error + CohortScan" where
  "cohort_row s task_counts referenced gc_safe policies = (\<lambda>(key, val) sc.
     case CohortCounters_read val of
       None \<Rightarrow> Inr sc
     | Some counters \<Rightarrow>
         (case u64_read key of
            None \<Rightarrow> Inl BadSize
          | Some i \<Rightarrow>
              let nr_tasks = (case hm_get task_counts i of Some n \<Rightarrow> n | None \<Rightarrow> 0)
              in if nr_tasks = 0 \<and> i \<notin> referenced
                 then Inr (if \<not> gc_safe then sc
                           else if i \<in> dead_cohorts s then sc\<lparr> sc_dead := sc_dead sc @ [i] \<rparr>
                           else sc\<lparr> sc_dead_now := insert i (sc_dead_now sc) \<rparr>)
                 else
                   let policy = (case hm_get policies i of Some p \<Rightarrow> p | None \<Rightarrow> CohortPolicy_default);
                       prev = (case hm_get (prev_load_sum s) i of Some p \<Rightarrow> p | None \<Rightarrow> k_load_sum counters)
                   in Inr (sc\<lparr> sc_seen := hm_insert i (k_load_sum counters) (sc_seen sc),
                               sc_out := sc_out sc @
                                 [\<lparr> c_id = i, c_home_llc = p_home_llc policy,
                                    c_pinned = (p_flags policy AND COHORT_PINNED \<noteq> 0), c_nr_tasks = nr_tasks,
                                    c_load_ns = saturating_sub (k_load_sum counters) prev,
                                    c_residency_ms = hm_get (residency_overrides s) i \<rparr>] \<rparr>)))"

definition delete_cohort :: "'k kernel_ops \<Rightarrow> u64 \<Rightarrow> 'k \<Rightarrow> 'k" where
  "delete_cohort ko i k =
     k_try_delete ko cohort_policy (u64_bytes i) (k_try_delete ko cohort_counters (u64_bytes i) k)"

definition snapshot_cohorts :: "'k kernel_ops \<Rightarrow> TaskSnapshot list \<Rightarrow> (u32, u64) hashmap \<Rightarrow> 'k \<Rightarrow> Scheduler \<Rightarrow>
    daemon_error + (CohortSnapshot list \<times> Scheduler \<times> 'k)" where
  "snapshot_cohorts ko tasks tgid_cohort k s =
     (case k_lookup_batch ko cohort_policy k of
        Inl e \<Rightarrow> Inl e
      | Inr pkvs \<Rightarrow>
          (case k_lookup_batch ko cohort_counters k of
             Inl e \<Rightarrow> Inl e
           | Inr ckvs \<Rightarrow>
               (case try_fold (cohort_row s (count_tasks tasks) (set (map snd tgid_cohort)) (tasks \<noteq> []) (read_policies pkvs))
                       ckvs \<lparr> sc_out = [], sc_dead = [], sc_seen = [], sc_dead_now = {} \<rparr> of
                  Inl e \<Rightarrow> Inl e
                | Inr sc \<Rightarrow>
                    Inr (sc_out sc,
                         s\<lparr> dead_cohorts := sc_dead_now sc, prev_load_sum := sc_seen sc,
                            balancer := retain_cohorts (\<lambda>i. i \<in> set (map c_id (sc_out sc))) (balancer s) \<rparr>,
                         fold (delete_cohort ko) (sc_dead sc) k))))"

section \<open>Wake edges and LLC loads\<close>

definition snapshot_edges :: "'k kernel_ops \<Rightarrow> 'k \<Rightarrow> daemon_error + ((u32 \<times> u32 \<times> u64) list \<times> 'k)" where
  "snapshot_edges ko k =
     (case k_lookup_and_delete_batch ko wake_edges k of
        Inl e \<Rightarrow> Inl e
      | Inr (kvs, k') \<Rightarrow>
          (case try_fold (\<lambda>(key, val) deltas.
                  case WakeEdgeKey_read key of
                    None \<Rightarrow> Inr deltas
                  | Some edge \<Rightarrow>
                      (case u64_read val of
                         None \<Rightarrow> Inl BadSize
                       | Some count \<Rightarrow>
                           Inr (if 0 < count then deltas @ [(waker_tgid edge, wakee_tgid edge, count)] else deltas))) kvs [] of
             Inl e \<Rightarrow> Inl e
           | Inr deltas \<Rightarrow> Inr (deltas, k')))"

definition llc_row :: "'k kernel_ops \<Rightarrow> 'k \<Rightarrow> u64 \<Rightarrow> u32 \<times> u64 \<Rightarrow> LlcLoad list \<times> (u32, u64) hashmap \<Rightarrow>
    daemon_error + (LlcLoad list \<times> (u32, u64) hashmap)" where
  "llc_row ko k tick = (\<lambda>(llc, cpus) (out, prevs).
     case k_lookup ko llc_load (u32_bytes llc) k of
       Inl e \<Rightarrow> Inl e
     | Inr v \<Rightarrow>
         let cur = (case v of None \<Rightarrow> 0 | Some b \<Rightarrow> (case u64_read b of None \<Rightarrow> 0 | Some n \<Rightarrow> n));
             prev = (case hm_get prevs llc of Some p \<Rightarrow> p | None \<Rightarrow> cur)
         in Inr (out @ [\<lparr> l_llc = llc, l_load_ns = saturating_sub cur prev, l_capacity_ns = cpus * tick \<rparr>],
                 hm_insert llc cur prevs))"

definition llc_loads :: "'k kernel_ops \<Rightarrow> 'k \<Rightarrow> Scheduler \<Rightarrow> daemon_error + (LlcLoad list \<times> Scheduler)" where
  "llc_loads ko k s =
     (case try_fold (llc_row ko k (interval_ns (interval_ms s))) (llc_cpus s) ([], prev_llc_load s) of
        Inl e \<Rightarrow> Inl e
      | Inr (out, prevs) \<Rightarrow> Inr (out, s\<lparr> prev_llc_load := prevs \<rparr>))"

end
