(* ===== verification/Daemon_Actions.thy ===== *)
theory Daemon_Actions
  imports Daemon_Snapshots
begin

text \<open>
  The half of the daemon's tick that writes the BPF maps (\<open>scx_cohort/src/main.rs\<close>): pinning by
  rules, spill synchronisation, moves, merges and splits, and \<open>tick\<close> itself. \<open>Env\<close> holds what a
  tick reads from outside: the clock, procfs, and the orders in which hash maps are walked.
\<close>

record Env =
  e_now_ms :: u64
  e_cgroup :: "u32 \<Rightarrow> string option"
  e_pri32 :: "u32 \<Rightarrow> nat"
  e_pri64 :: "u64 \<Rightarrow> nat"
  e_pri_edge :: "u32 \<times> u32 \<Rightarrow> nat"

section \<open>Rules\<close>

definition cgroup_path :: "Env \<Rightarrow> u32 \<Rightarrow> string" where
  "cgroup_path env tgid =
     (case e_cgroup env tgid of
        None \<Rightarrow> []
      | Some content \<Rightarrow>
          (case find_map (\<lambda>l. map_option trim_start_slash (strip_prefix ''0::'' l)) (str_lines content) of
             None \<Rightarrow> []
           | Some p \<Rightarrow> p))"

definition cgroup_of :: "Env \<Rightarrow> u32 \<Rightarrow> (u32, string) hashmap \<Rightarrow> string \<times> (u32, string) hashmap" where
  "cgroup_of env tgid cache =
     (case hm_get cache tgid of
        Some path \<Rightarrow> (path, cache)
      | None \<Rightarrow> (cgroup_path env tgid, hm_insert tgid (cgroup_path env tgid) cache))"

text \<open>The task loop of \<open>apply_rules\<close>: cache, residency overrides and pins.\<close>

definition rule_task :: "Env \<Rightarrow> Config \<Rightarrow> TaskSnapshot \<Rightarrow>
    (u32, string) hashmap \<times> (u64, u64) hashmap \<times> (u64, u32) hashmap \<Rightarrow>
    (u32, string) hashmap \<times> (u64, u64) hashmap \<times> (u64, u32) hashmap" where
  "rule_task env cfg t = (\<lambda>(cache, overrides, pins).
     let (cg, cache) = cgroup_of env (t_tgid t) cache
     in case match_task cfg (t_comm t) cg of
          None \<Rightarrow> (cache, overrides, pins)
        | Some r \<Rightarrow>
            (cache,
             (case min_ccd_residency_ms r of
                Some ms \<Rightarrow> hm_entry (t_cohort_id t) ms (max ms) overrides | None \<Rightarrow> overrides),
             (case pin_ccd r of Some ccd \<Rightarrow> hm_insert (t_cohort_id t) ccd pins | None \<Rightarrow> pins)))"

definition apply_pin :: "'k kernel_ops \<Rightarrow> nat \<Rightarrow> u64 \<times> u32 \<Rightarrow> 'k \<Rightarrow> daemon_error + 'k" where
  "apply_pin ko nr_llcs = (\<lambda>(cohort, ccd) k.
     case k_lookup ko cohort_policy (u64_bytes cohort) k of
       Inl e \<Rightarrow> Inl e
     | Inr None \<Rightarrow> Inr k
     | Inr (Some val) \<Rightarrow>
         (case CohortPolicy_read val of
            None \<Rightarrow> Inr k
          | Some policy \<Rightarrow>
              let want_home = min ccd (of_nat nr_llcs - 1)
              in if p_flags policy AND COHORT_PINNED = 0 \<or> p_home_llc policy \<noteq> want_home
                 then k_update ko cohort_policy (u64_bytes cohort)
                        (CohortPolicy_bytes (policy\<lparr> p_flags := p_flags policy OR COHORT_PINNED, p_home_llc := want_home \<rparr>))
                        F_EXIST k
                 else Inr k))"

definition apply_rules :: "Env \<Rightarrow> 'k kernel_ops \<Rightarrow> TaskSnapshot list \<Rightarrow> 'k \<Rightarrow> Scheduler \<Rightarrow>
    daemon_error + (Scheduler \<times> 'k)" where
  "apply_rules env ko tasks k s =
     (if rules (config s) = [] then Inr (s, k)
      else
        let cache = hm_retain (\<lambda>tgid _. tgid \<in> set (map t_tgid tasks)) (cgroup_cache s);
            (cache, overrides, pins) = fold (rule_task env (config s)) tasks (cache, [], [])
        in case try_fold (apply_pin ko (length (llc_cpus s))) (hm_iter (e_pri64 env) pins) k of
             Inl e \<Rightarrow> Inl e
           | Inr k' \<Rightarrow> Inr (s\<lparr> cgroup_cache := cache, residency_overrides := overrides \<rparr>, k'))"

section \<open>Spills and moves\<close>

definition apply_spills :: "Env \<Rightarrow> 'k kernel_ops \<Rightarrow> (u32, u32) hashmap \<Rightarrow> 'k \<Rightarrow> Scheduler \<Rightarrow>
    daemon_error + (Scheduler \<times> 'k)" where
  "apply_spills env ko desired k s =
     (case try_fold (\<lambda>(pid, llc) k.
             if hm_get (current_spills s) pid \<noteq> Some llc
             then k_update ko spill_tasks (u32_bytes pid) (u32_bytes llc) F_ANY k else Inr k)
             (hm_iter (e_pri32 env) desired) k of
        Inl e \<Rightarrow> Inl e
      | Inr k' \<Rightarrow>
          Inr (s\<lparr> current_spills := desired \<rparr>,
               fold (\<lambda>pid k. if hm_contains desired pid then k else k_try_delete ko spill_tasks (u32_bytes pid) k)
                 (map fst (hm_iter (e_pri32 env) (current_spills s))) k'))"

definition apply_decision :: "'k kernel_ops \<Rightarrow> Decision \<Rightarrow> Scheduler \<times> 'k \<Rightarrow> daemon_error + (Scheduler \<times> 'k)" where
  "apply_decision ko decision = (\<lambda>(s, k).
     case decision of MoveCohort i to \<Rightarrow>
       (case k_lookup ko cohort_policy (u64_bytes i) k of
          Inl e \<Rightarrow> Inl e
        | Inr None \<Rightarrow> Inr (s, k)
        | Inr (Some val) \<Rightarrow>
            (case CohortPolicy_read val of
               None \<Rightarrow> Inr (s, k)
             | Some policy \<Rightarrow>
                 (case k_update ko cohort_policy (u64_bytes i) (CohortPolicy_bytes (policy\<lparr> p_home_llc := to \<rparr>)) F_EXIST k of
                    Inl e \<Rightarrow> Inl e
                  | Inr k' \<Rightarrow> Inr (s\<lparr> nr_migrations := nr_migrations s + 1 \<rparr>, k')))))"

definition apply_decisions :: "'k kernel_ops \<Rightarrow> Decision list \<Rightarrow> 'k \<Rightarrow> Scheduler \<Rightarrow> daemon_error + (Scheduler \<times> 'k)" where
  "apply_decisions ko decisions k s = try_fold (apply_decision ko) decisions (s, k)"

section \<open>Merges and splits\<close>

definition apply_merge :: "'k kernel_ops \<Rightarrow> (u32, u64) hashmap \<Rightarrow> MergePlan \<Rightarrow> Scheduler \<times> 'k \<Rightarrow>
    daemon_error + (Scheduler \<times> 'k)" where
  "apply_merge ko tgid_cohort p = (\<lambda>(s, k).
     case k_lookup ko cohort_counters (u64_bytes (m_into p)) k of
       Inl e \<Rightarrow> Inl e
     | Inr None \<Rightarrow> Inr (s, k)
     | Inr (Some _) \<Rightarrow>
         (case k_lookup ko cohort_counters (u64_bytes (m_from p)) k of
            Inl e \<Rightarrow> Inl e
          | Inr None \<Rightarrow> Inr (s, k)
          | Inr (Some _) \<Rightarrow>
              let k1 = fold (\<lambda>(tgid, cohort) k.
                         if cohort = m_from p
                         then k_try_update ko tgid_cohort_map (u32_bytes tgid) (u64_bytes (m_into p)) F_EXIST k
                         else k) tgid_cohort k
              in Inr (s\<lparr> prev_load_sum := hm_remove (m_from p) (prev_load_sum s), nr_merges := nr_merges s + 1 \<rparr>,
                      delete_cohort ko (m_from p) k1)))"

definition split_off_tgid :: "'k kernel_ops \<Rightarrow> u64 \<Rightarrow> u32 \<Rightarrow> 'k \<Rightarrow> daemon_error + 'k" where
  "split_off_tgid ko new_id tgid k =
     (case k_lookup ko tgid_cohort_map (u32_bytes tgid) k of
        Inl e \<Rightarrow> Inl e
      | Inr None \<Rightarrow> Inr k
      | Inr (Some _) \<Rightarrow> k_update ko tgid_cohort_map (u32_bytes tgid) (u64_bytes new_id) F_EXIST k)"

definition apply_split :: "'k kernel_ops \<Rightarrow> SplitPlan \<Rightarrow> Scheduler \<times> 'k \<Rightarrow> daemon_error + (Scheduler \<times> 'k)" where
  "apply_split ko p = (\<lambda>(s, k).
     case k_lookup ko cohort_policy (u64_bytes (s_cohort p)) k of
       Inl e \<Rightarrow> Inl e
     | Inr None \<Rightarrow> Inr (s, k)
     | Inr (Some old_val) \<Rightarrow>
         (case CohortPolicy_read old_val of
            None \<Rightarrow> Inr (s, k)
          | Some old_policy \<Rightarrow>
              let new_id = DAEMON_COHORT_BASE + daemon_seq s;
                  s = s\<lparr> daemon_seq := daemon_seq s + 1 \<rparr>
              in case k_update ko cohort_policy (u64_bytes new_id)
                        (CohortPolicy_bytes \<lparr> p_home_llc = p_home_llc old_policy, p_flags = 0 \<rparr>) F_NO_EXIST k of
                   Inl e \<Rightarrow> Inl e
                 | Inr k1 \<Rightarrow>
                     (case k_update ko cohort_counters (u64_bytes new_id)
                             (CohortCounters_bytes CohortCounters_default) F_NO_EXIST k1 of
                        Inl e \<Rightarrow> Inl e
                      | Inr k2 \<Rightarrow>
                          (case try_fold (split_off_tgid ko new_id) (off_tgids p) k2 of
                             Inl e \<Rightarrow> Inl e
                           | Inr k3 \<Rightarrow> Inr (s\<lparr> nr_splits := nr_splits s + 1 \<rparr>, k3)))))"

definition cohort_sizes_of :: "CohortSnapshot list \<Rightarrow> (u64, u64) hashmap" where
  "cohort_sizes_of cohorts = hm_collect (map (\<lambda>c. (c_id c, c_nr_tasks c)) cohorts)"

definition tgid_task_counts :: "TaskSnapshot list \<Rightarrow> (u32, u64) hashmap" where
  "tgid_task_counts tasks = fold (\<lambda>t. hm_entry (t_tgid t) 0 (\<lambda>n. n + 1)) tasks []"

definition cohort_members_of :: "(u64, u64) hashmap \<Rightarrow> (u32, u64) hashmap \<Rightarrow> (u32, u64) hashmap \<Rightarrow>
    (u64, (u32 \<times> u64) list) hashmap" where
  "cohort_members_of sizes tgid_tasks tgid_cohort =
     fold (\<lambda>(tgid, cohort) ct.
       if hm_contains sizes cohort
       then hm_entry cohort [] (\<lambda>ms. ms @ [(tgid, case hm_get tgid_tasks tgid of Some n \<Rightarrow> n | None \<Rightarrow> 0)]) ct
       else ct) tgid_cohort []"

definition discover_relationships :: "Env \<Rightarrow> 'k kernel_ops \<Rightarrow> CohortSnapshot list \<Rightarrow> TaskSnapshot list \<Rightarrow>
    (u32, u64) hashmap \<Rightarrow> 'k \<Rightarrow> Scheduler \<Rightarrow> daemon_error + (Scheduler \<times> 'k)" where
  "discover_relationships env ko cohorts tasks tgid_cohort k s =
     (case snapshot_edges ko k of
        Inl e \<Rightarrow> Inl e
      | Inr (deltas, k) \<Rightarrow>
          let g = observe deltas (interval_secs (interval_ms s)) (sample_mult s) (wake_graph s);
              sizes = cohort_sizes_of cohorts;
              (g, plans) = merges tgid_cohort sizes (g\<lparr> edges := hm_iter (e_pri_edge env) (edges g) \<rparr>)
          in case try_fold (apply_merge ko tgid_cohort) plans (s\<lparr> wake_graph := g \<rparr>, k) of
               Inl e \<Rightarrow> Inl e
             | Inr (s, k) \<Rightarrow>
                 let members = cohort_members_of sizes (tgid_task_counts tasks) tgid_cohort
                 in case splits (e_pri32 env) (hm_iter (e_pri64 env) members) (wake_graph s) of
                      Inl p \<Rightarrow> Inl (Panicked p)
                    | Inr (g, off) \<Rightarrow> try_fold (apply_split ko) off (s\<lparr> wake_graph := g \<rparr>, k))"

section \<open>The tick\<close>

definition tick :: "Env \<Rightarrow> 'k kernel_ops \<Rightarrow> 'k \<Rightarrow> Scheduler \<Rightarrow>
    daemon_error + ((CohortSnapshot list \<times> LlcLoad list) \<times> Scheduler \<times> 'k)" where
  "tick env ko k s =
     (case snapshot_tasks ko k s of Inl e \<Rightarrow> Inl e | Inr (tasks, s) \<Rightarrow>
      (case snapshot_tgid_cohort ko k of Inl e \<Rightarrow> Inl e | Inr tgid_cohort \<Rightarrow>
      (case apply_rules env ko tasks k s of Inl e \<Rightarrow> Inl e | Inr (s, k) \<Rightarrow>
      (case snapshot_cohorts ko tasks tgid_cohort k s of Inl e \<Rightarrow> Inl e | Inr (cohorts, s, k) \<Rightarrow>
       let (s, k) = gc_tgid_map ko tgid_cohort tasks k s in
      (case llc_loads ko k s of Inl e \<Rightarrow> Inl e | Inr (llcs, s) \<Rightarrow>
      (case plan (e_now_ms env) llcs cohorts (balancer s) of Inl p \<Rightarrow> Inl (Panicked p) | Inr (b, decisions) \<Rightarrow>
      (case apply_decisions ko decisions k (s\<lparr> balancer := b \<rparr>) of Inl e \<Rightarrow> Inl e | Inr (s, k) \<Rightarrow>
      (case plan_spills (spill_cfg s) llcs cohorts tasks (current_spills s) of Inl p \<Rightarrow> Inl (Panicked p) | Inr desired \<Rightarrow>
      (case apply_spills env ko desired k s of Inl e \<Rightarrow> Inl e | Inr (s, k) \<Rightarrow>
      (case discover_relationships env ko cohorts tasks tgid_cohort k s of Inl e \<Rightarrow> Inl e | Inr (s, k) \<Rightarrow>
       Inr ((cohorts, llcs), s\<lparr> last_tasks := tasks \<rparr>, k)))))))))))"

end
