(* ===== verification/Daemon_Proofs.thy ===== *)
theory Daemon_Proofs
  imports Daemon_Actions
begin

text \<open>
  Correctness of the daemon's map traffic, for every kernel that satisfies \<open>bpf_maps\<close>: what each
  write does to the maps and what it leaves alone, the two-tick rule of the garbage collector, and
  the agreement of the snapshots with the maps.
\<close>

named_theorems map_simps \<open>sizes and kinds of the maps\<close>

lemma plain_hash_simps [map_simps]:
  "plain_hash cohort_counters" "plain_hash cohort_policy" "plain_hash tgid_cohort_map" "plain_hash task_stats"
  "plain_hash spill_tasks"
  by (simp_all add: plain_hash_def)

lemma bytes_sizes [map_simps]:
  "length (u32_bytes a) = 4" "length (u64_bytes b) = 8" "length (CohortPolicy_bytes p) = 8"
  "length (CohortCounters_bytes c) = 16"
  using policy.enc_size counters.enc_size by (simp_all add: layout_simps)

lemma bytes_inj [map_simps]: "u32_bytes a = u32_bytes b \<longleftrightarrow> a = b" "u64_bytes c = u64_bytes d \<longleftrightarrow> c = d"
  using u32.enc_inj u64.enc_inj by auto

lemma bytes_read [map_simps]:
  "u32_read (u32_bytes a) = Some a" "u64_read (u64_bytes b) = Some b" "CohortPolicy_read (CohortPolicy_bytes p) = Some p"
  "CohortCounters_read (CohortCounters_bytes c) = Some c"
  using u32.dec_enc u64.dec_enc policy.dec_enc counters.dec_enc by auto

text \<open>What a list of merges makes of a cohort id.\<close>

definition relabel :: "MergePlan list \<Rightarrow> u64 \<Rightarrow> u64" where
  "relabel plans c = (case find (\<lambda>p. m_from p = c) plans of Some p \<Rightarrow> m_into p | None \<Rightarrow> c)"

context bpf_maps
begin

section \<open>Spills\<close>

text \<open>A loop of updates under distinct keys.\<close>

lemma update_loop:
  assumes "kinv k" and "plain_hash m" and "distinct (map fst xs)" and "inj enc"
    and "try_fold (\<lambda>(x, v) k. if C x v then k_update ko m (enc x) (val v) F_ANY k else Inr k) xs k = Inr k'"
  shows "kinv k' \<and> (\<forall>m'. m' \<noteq> m \<longrightarrow> contents m' k' = contents m' k) \<and>
    (\<forall>x. contents m k' (enc x) =
       (case map_of xs x of Some v \<Rightarrow> if C x v then Some (val v) else contents m k (enc x) | None \<Rightarrow> contents m k (enc x)))"
  using assms
proof (induction xs arbitrary: k)
  case (Cons e xs)
  obtain x v where e: "e = (x, v)" by (cases e)
  have x: "x \<notin> fst ` set xs" using Cons.prems(3) e by simp
  then have none: "map_of xs x = None" by (simp add: map_of_eq_None_iff)
  show ?case
  proof (cases "C x v")
    case False
    with Cons none show ?thesis by (auto simp: e split: option.splits)
  next
    case True
    then obtain k1 where k1: "k_update ko m (enc x) (val v) F_ANY k = Inr k1"
      and rest: "try_fold (\<lambda>(x, v) k. if C x v then k_update ko m (enc x) (val v) F_ANY k else Inr k) xs k1 = Inr k'"
      using Cons.prems(5) by (auto simp: e split: sum.splits)
    note eff = update_effect [OF Cons.prems(1,2) k1]
    then have "kinv k1" by blast
    from Cons.IH [OF this Cons.prems(2) _ Cons.prems(4) rest] Cons.prems(3) e
    have IH: "kinv k' \<and> (\<forall>m'. m' \<noteq> m \<longrightarrow> contents m' k' = contents m' k1) \<and>
      (\<forall>x. contents m k' (enc x) =
       (case map_of xs x of Some v \<Rightarrow> if C x v then Some (val v) else contents m k1 (enc x) | None \<Rightarrow> contents m k1 (enc x)))"
      by simp
    have c1: "contents m k1 = (contents m k)(enc x \<mapsto> val v)" using eff by simp
    have cm: "m' \<noteq> m \<Longrightarrow> contents m' k1 = contents m' k" for m' using update_effect [OF Cons.prems(1,2) k1, of m'] by simp
    have enc: "enc y = enc x \<longleftrightarrow> y = x" for y using Cons.prems(4) by (auto dest: injD)
    show ?thesis
      using IH cm True none by (auto simp: e c1 enc split: option.splits)
  qed
qed simp

lemma delete_loop:
  assumes "kinv k" and "plain_hash m" and "inj enc"
    and "k' = fold (\<lambda>x k. if D x then k else k_try_delete ko m (enc x) k) xs k"
  shows "kinv k' \<and> (\<forall>m'. m' \<noteq> m \<longrightarrow> contents m' k' = contents m' k) \<and>
    (\<forall>x. contents m k' (enc x) = (if x \<in> set xs \<and> \<not> D x then None else contents m k (enc x)))"
  using assms(1,4)
proof (induction xs arbitrary: k)
  case (Cons y xs)
  let ?k1 = "if D y then k else k_try_delete ko m (enc y) k"
  have inv: "kinv ?k1" using Cons.prems(1) assms(2) try_delete(1) by simp
  have enc: "enc x = enc y \<longleftrightarrow> x = y" for x using assms(3) by (auto dest: injD)
  have "k' = fold (\<lambda>x k. if D x then k else k_try_delete ko m (enc x) k) xs ?k1" using Cons.prems(2) by simp
  from Cons.IH [OF inv this] try_delete(2) [OF Cons.prems(1) assms(2), of _ "enc y"] show ?case
    by (auto simp: enc)
qed simp

lemma apply_spills_effect:
  assumes "kinv k" and "hm_wf desired"
    and "apply_spills env ko desired k s = Inr (s', k')"
  shows "kinv k' \<and> s' = s\<lparr> current_spills := desired \<rparr> \<and> (\<forall>m. m \<noteq> spill_tasks \<longrightarrow> contents m k' = contents m k) \<and>
    (\<forall>pid. contents spill_tasks k' (u32_bytes pid) =
       (case hm_get desired pid of
          Some llc \<Rightarrow> if hm_get (current_spills s) pid = Some llc then contents spill_tasks k (u32_bytes pid) else Some (u32_bytes llc)
        | None \<Rightarrow> if hm_get (current_spills s) pid = None then contents spill_tasks k (u32_bytes pid) else None))"
proof -
  have inj: "inj u32_bytes" by (simp add: inj_def map_simps)
  let ?C = "\<lambda>pid llc. hm_get (current_spills s) pid \<noteq> Some llc"
  let ?xs = "map fst (hm_iter (e_pri32 env) (current_spills s))"
  obtain k1 where k1: "try_fold (\<lambda>(pid, llc) k. if ?C pid llc
      then k_update ko spill_tasks (u32_bytes pid) (u32_bytes llc) F_ANY k else Inr k) (hm_iter (e_pri32 env) desired) k = Inr k1"
    and k': "k' = fold (\<lambda>pid k. if hm_contains desired pid then k else k_try_delete ko spill_tasks (u32_bytes pid) k) ?xs k1"
    and s': "s' = s\<lparr> current_spills := desired \<rparr>"
    using assms(3) by (auto simp: apply_spills_def split: sum.splits)
  have "distinct (map fst (hm_iter (e_pri32 env) desired))" using assms(2) by (simp flip: hm_wf_def)
  note up = update_loop [OF assms(1) plain_hash_simps(5) this inj k1]
  have inv: "kinv k1" using up by blast
  note del = delete_loop [OF inv plain_hash_simps(5) inj k']
  have keys: "pid \<in> set ?xs \<longleftrightarrow> hm_get (current_spills s) pid \<noteq> None" for pid
    by (simp add: map_of_eq_None_iff)
  have "contents spill_tasks k' (u32_bytes pid) = (case hm_get desired pid of
      Some llc \<Rightarrow> if hm_get (current_spills s) pid = Some llc then contents spill_tasks k (u32_bytes pid) else Some (u32_bytes llc)
    | None \<Rightarrow> if hm_get (current_spills s) pid = None then contents spill_tasks k (u32_bytes pid) else None)" for pid
  proof -
    have "contents spill_tasks k1 (u32_bytes pid) = (case hm_get desired pid of
        Some llc \<Rightarrow> if ?C pid llc then Some (u32_bytes llc) else contents spill_tasks k (u32_bytes pid)
      | None \<Rightarrow> contents spill_tasks k (u32_bytes pid))" using up assms(2) by simp
    moreover have "contents spill_tasks k' (u32_bytes pid) =
        (if hm_get (current_spills s) pid \<noteq> None \<and> hm_get desired pid = None then None else contents spill_tasks k1 (u32_bytes pid))"
      using del keys [of pid] by (simp add: hm_contains_def split: option.split)
    ultimately show ?thesis by (auto split: option.split)
  qed
  moreover have "m \<noteq> spill_tasks \<Longrightarrow> contents m k' = contents m k" for m
    using up del by simp
  ultimately show ?thesis using s' del by blast
qed

section \<open>Merges\<close>

lemma delete_cohort_effect:
  assumes "kinv k"
  shows "kinv (delete_cohort ko i k) \<and>
    (\<forall>m. contents m (delete_cohort ko i k) =
       (if m \<in> {cohort_counters, cohort_policy} then (contents m k)(u64_bytes i := None) else contents m k))"
proof -
  let ?k1 = "k_try_delete ko cohort_counters (u64_bytes i) k"
  have inv: "kinv ?k1" using try_delete(1) [OF assms] by (simp add: map_simps)
  then show ?thesis
    using try_delete [OF inv plain_hash_simps(2)] try_delete(2) [OF assms plain_hash_simps(1)]
    unfolding delete_cohort_def by auto
qed

text \<open>The relabelling loop: every listed process of the absorbed cohort that is still mapped moves.\<close>

lemma relabel_loop:
  assumes "kinv k" and "k' = fold (\<lambda>(tgid, cohort) k.
      if cohort = from_id then k_try_update ko tgid_cohort_map (u32_bytes tgid) (u64_bytes into_id) F_EXIST k else k) tc k"
    and "hm_wf tc"
  shows "kinv k' \<and> (\<forall>m. m \<noteq> tgid_cohort_map \<longrightarrow> contents m k' = contents m k) \<and>
    (\<forall>t. contents tgid_cohort_map k' (u32_bytes t) =
       (if hm_get tc t = Some from_id \<and> contents tgid_cohort_map k (u32_bytes t) \<noteq> None
        then Some (u64_bytes into_id) else contents tgid_cohort_map k (u32_bytes t)))"
  using assms
proof (induction tc arbitrary: k)
  case (Cons e tc)
  obtain t c where e: "e = (t, c)" by (cases e)
  let ?k1 = "if c = from_id then k_try_update ko tgid_cohort_map (u32_bytes t) (u64_bytes into_id) F_EXIST k else k"
  have t: "hm_get tc t = None" and wf: "hm_wf tc" using Cons.prems(3) by (auto simp: e hm_wf_def map_of_eq_None_iff)
  have "length (u64_bytes into_id) = val_size tgid_cohort_map" by (simp add: map_simps)
  note up = try_update_exist [OF Cons.prems(1) plain_hash_simps(3) this, where key = "u32_bytes t"]
  have inv: "kinv ?k1" using Cons.prems(1) up(1) by simp
  have k': "k' = fold (\<lambda>(tgid, cohort) k. if cohort = from_id
      then k_try_update ko tgid_cohort_map (u32_bytes tgid) (u64_bytes into_id) F_EXIST k else k) tc ?k1"
    using Cons.prems(2) by (simp add: e)
  have c1: "contents m ?k1 = (if m = tgid_cohort_map \<and> c = from_id \<and> contents tgid_cohort_map k (u32_bytes t) \<noteq> None
      then (contents m k)(u32_bytes t \<mapsto> u64_bytes into_id) else contents m k)" for m
    using up(2) by auto
  from Cons.IH [OF inv k' wf] t show ?case
    unfolding c1 by (auto simp: e map_simps)
qed simp

text \<open>One merge of two live cohorts.\<close>

lemma apply_merge_effect:
  assumes "kinv k" and "hm_wf tc"
    and "contents cohort_counters k (u64_bytes (m_into p)) \<noteq> None"
    and "contents cohort_counters k (u64_bytes (m_from p)) \<noteq> None"
  shows "\<exists>k'. apply_merge ko tc p (s, k) =
      Inr (s\<lparr> prev_load_sum := hm_remove (m_from p) (prev_load_sum s), nr_merges := nr_merges s + 1 \<rparr>, k') \<and> kinv k' \<and>
    (\<forall>m \<in> {cohort_counters, cohort_policy}. contents m k' = (contents m k)(u64_bytes (m_from p) := None)) \<and>
    (\<forall>m. m \<notin> {cohort_counters, cohort_policy, tgid_cohort_map} \<longrightarrow> contents m k' = contents m k) \<and>
    (\<forall>t. contents tgid_cohort_map k' (u32_bytes t) =
       (if hm_get tc t = Some (m_from p) \<and> contents tgid_cohort_map k (u32_bytes t) \<noteq> None
        then Some (u64_bytes (m_into p)) else contents tgid_cohort_map k (u32_bytes t)))"
proof -
  let ?k1 = "fold (\<lambda>(tgid, cohort) k. if cohort = m_from p
      then k_try_update ko tgid_cohort_map (u32_bytes tgid) (u64_bytes (m_into p)) F_EXIST k else k) tc k"
  note r = relabel_loop [OF assms(1) refl assms(2), of "m_from p" "m_into p"]
  then have inv: "kinv ?k1" by blast
  have "apply_merge ko tc p (s, k) = Inr (s\<lparr> prev_load_sum := hm_remove (m_from p) (prev_load_sum s),
      nr_merges := nr_merges s + 1 \<rparr>, delete_cohort ko (m_from p) ?k1)"
    using assms(3,4) by (auto simp: apply_merge_def lookup [OF assms(1)] Let_def)
  then show ?thesis
    using r delete_cohort_effect [OF inv, of "m_from p"] by (intro exI conjI) auto
qed

text \<open>All merges of a call: their cohorts are disjoint, so the snapshot stays good for each.\<close>

lemma merge_all_raw:
  assumes "kinv k" and "hm_wf tc" and "distinct (plan_cohorts plans)"
    and "\<forall>c \<in> set (plan_cohorts plans). contents cohort_counters k (u64_bytes c) \<noteq> None"
  shows "\<exists>s' k'. try_fold (apply_merge ko tc) plans (s, k) = Inr (s', k') \<and> kinv k' \<and>
    nr_merges s' = nr_merges s + of_nat (length plans) \<and>
    (\<forall>m \<in> {cohort_counters, cohort_policy}. \<forall>c. contents m k' (u64_bytes c) =
       (if c \<in> m_from ` set plans then None else contents m k (u64_bytes c))) \<and>
    (\<forall>m. m \<notin> {cohort_counters, cohort_policy, tgid_cohort_map} \<longrightarrow> contents m k' = contents m k) \<and>
    (\<forall>t. contents tgid_cohort_map k' (u32_bytes t) =
       (case hm_get tc t of
          Some c \<Rightarrow> if c \<in> m_from ` set plans \<and> contents tgid_cohort_map k (u32_bytes t) \<noteq> None
                    then Some (u64_bytes (relabel plans c)) else contents tgid_cohort_map k (u32_bytes t)
        | None \<Rightarrow> contents tgid_cohort_map k (u32_bytes t)))"
  using assms
proof (induction plans arbitrary: s k)
  case (Cons p ps)
  have d: "m_from p \<notin> set (plan_cohorts ps)" "m_into p \<notin> set (plan_cohorts ps)" "distinct (plan_cohorts ps)"
    using Cons.prems(3) by auto
  then have f: "m_from p \<notin> m_from ` set ps" by (auto simp: plan_cohorts_def)
  have inp: "contents cohort_counters k (u64_bytes (m_into p)) \<noteq> None" "contents cohort_counters k (u64_bytes (m_from p)) \<noteq> None"
    using Cons.prems(4) by auto
  let ?s1 = "s\<lparr> prev_load_sum := hm_remove (m_from p) (prev_load_sum s), nr_merges := nr_merges s + 1 \<rparr>"
  obtain k1 where a: "apply_merge ko tc p (s, k) = Inr (?s1, k1)" and inv: "kinv k1"
    and m1: "\<forall>m \<in> {cohort_counters, cohort_policy}. contents m k1 = (contents m k)(u64_bytes (m_from p) := None)"
    and o1: "\<forall>m. m \<notin> {cohort_counters, cohort_policy, tgid_cohort_map} \<longrightarrow> contents m k1 = contents m k"
    and t1: "\<forall>t. contents tgid_cohort_map k1 (u32_bytes t) =
       (if hm_get tc t = Some (m_from p) \<and> contents tgid_cohort_map k (u32_bytes t) \<noteq> None
        then Some (u64_bytes (m_into p)) else contents tgid_cohort_map k (u32_bytes t))"
    using apply_merge_effect [OF Cons.prems(1,2) inp, of s] by (elim exE conjE)
  have "\<forall>c \<in> set (plan_cohorts ps). contents cohort_counters k1 (u64_bytes c) \<noteq> None"
    using Cons.prems(4) m1 d(1) by (auto simp: map_simps)
  from Cons.IH [OF inv Cons.prems(2) d(3) this, of ?s1] obtain s' k' where
    r: "try_fold (apply_merge ko tc) ps (?s1, k1) = Inr (s', k')" "kinv k'" "nr_merges s' = nr_merges ?s1 + of_nat (length ps)"
    and m2: "\<forall>m \<in> {cohort_counters, cohort_policy}. \<forall>c. contents m k' (u64_bytes c) =
       (if c \<in> m_from ` set ps then None else contents m k1 (u64_bytes c))"
    and o2: "\<forall>m. m \<notin> {cohort_counters, cohort_policy, tgid_cohort_map} \<longrightarrow> contents m k' = contents m k1"
    and t2: "\<forall>t. contents tgid_cohort_map k' (u32_bytes t) =
       (case hm_get tc t of
          Some c \<Rightarrow> if c \<in> m_from ` set ps \<and> contents tgid_cohort_map k1 (u32_bytes t) \<noteq> None
                    then Some (u64_bytes (relabel ps c)) else contents tgid_cohort_map k1 (u32_bytes t)
        | None \<Rightarrow> contents tgid_cohort_map k1 (u32_bytes t))"
    by (elim exE conjE)
  have "\<forall>m \<in> {cohort_counters, cohort_policy}. \<forall>c. contents m k' (u64_bytes c) =
       (if c \<in> m_from ` set (p # ps) then None else contents m k (u64_bytes c))"
    using m1 m2 by (auto simp: map_simps)
  moreover have "\<forall>t. contents tgid_cohort_map k' (u32_bytes t) =
       (case hm_get tc t of
          Some c \<Rightarrow> if c \<in> m_from ` set (p # ps) \<and> contents tgid_cohort_map k (u32_bytes t) \<noteq> None
                    then Some (u64_bytes (relabel (p # ps) c)) else contents tgid_cohort_map k (u32_bytes t)
        | None \<Rightarrow> contents tgid_cohort_map k (u32_bytes t))"
    using t1 t2 f by (auto simp: relabel_def split: option.splits)
  moreover have "\<forall>m. m \<notin> {cohort_counters, cohort_policy, tgid_cohort_map} \<longrightarrow> contents m k' = contents m k"
    using o1 o2 by simp
  moreover have "try_fold (apply_merge ko tc) (p # ps) (s, k) = Inr (s', k')" using a r(1) by simp
  moreover have "nr_merges s' = nr_merges s + of_nat (length (p # ps))" using r(3) by simp
  ultimately show ?case using r(2) by blast
qed (auto split: option.splits)

lemma merge_all:
  assumes "kinv k" and "hm_wf tc" and "distinct (plan_cohorts plans)"
    and "\<forall>c \<in> set (plan_cohorts plans). contents cohort_counters k (u64_bytes c) \<noteq> None"
    and "\<forall>t v. contents tgid_cohort_map k (u32_bytes t) = Some v \<longrightarrow> (\<exists>c. hm_get tc t = Some c \<and> v = u64_bytes c)"
  shows "\<exists>s' k'. try_fold (apply_merge ko tc) plans (s, k) = Inr (s', k') \<and>
    (\<forall>t. contents tgid_cohort_map k' (u32_bytes t) =
       (if contents tgid_cohort_map k (u32_bytes t) = None then None
        else map_option (\<lambda>c. u64_bytes (relabel plans c)) (hm_get tc t))) \<and>
    (\<forall>m \<in> {cohort_counters, cohort_policy}. \<forall>c. contents m k' (u64_bytes c) =
       (if c \<in> m_from ` set plans then None else contents m k (u64_bytes c))) \<and>
    (\<forall>m. m \<notin> {cohort_counters, cohort_policy, tgid_cohort_map} \<longrightarrow> contents m k' = contents m k)"
proof -
  have same: "c \<notin> m_from ` set plans \<Longrightarrow> relabel plans c = c" for c
    by (auto simp: relabel_def find_None_iff split: option.split dest: find_Some_iff [THEN iffD1])
  obtain s' k' where r: "try_fold (apply_merge ko tc) plans (s, k) = Inr (s', k')"
    "\<forall>m \<in> {cohort_counters, cohort_policy}. \<forall>c. contents m k' (u64_bytes c) =
       (if c \<in> m_from ` set plans then None else contents m k (u64_bytes c))"
    "\<forall>m. m \<notin> {cohort_counters, cohort_policy, tgid_cohort_map} \<longrightarrow> contents m k' = contents m k"
    and t: "\<forall>t. contents tgid_cohort_map k' (u32_bytes t) =
       (case hm_get tc t of
          Some c \<Rightarrow> if c \<in> m_from ` set plans \<and> contents tgid_cohort_map k (u32_bytes t) \<noteq> None
                    then Some (u64_bytes (relabel plans c)) else contents tgid_cohort_map k (u32_bytes t)
        | None \<Rightarrow> contents tgid_cohort_map k (u32_bytes t))"
    using merge_all_raw [OF assms(1-4), of s] by (elim exE conjE)
  have "contents tgid_cohort_map k' (u32_bytes t) =
       (if contents tgid_cohort_map k (u32_bytes t) = None then None
        else map_option (\<lambda>c. u64_bytes (relabel plans c)) (hm_get tc t))" for t
    using spec [OF t, of t] spec [OF assms(5), of t] same by (auto split: option.splits)
  with r show ?thesis by blast
qed

section \<open>Splits\<close>

lemma split_off_loop:
  assumes "kinv k" and "try_fold (split_off_tgid ko new_id) ts k = Inr k'"
  shows "kinv k' \<and> (\<forall>m. m \<noteq> tgid_cohort_map \<longrightarrow> contents m k' = contents m k) \<and>
    (\<forall>t. contents tgid_cohort_map k' (u32_bytes t) =
       (if t \<in> set ts \<and> contents tgid_cohort_map k (u32_bytes t) \<noteq> None
        then Some (u64_bytes new_id) else contents tgid_cohort_map k (u32_bytes t)))"
  using assms
proof (induction ts arbitrary: k)
  case (Cons x ts)
  obtain k1 where k1: "split_off_tgid ko new_id x k = Inr k1" and rest: "try_fold (split_off_tgid ko new_id) ts k1 = Inr k'"
    using Cons.prems(2) by (auto split: sum.splits)
  have c1: "kinv k1 \<and> (\<forall>m. contents m k1 =
      (if m = tgid_cohort_map \<and> contents tgid_cohort_map k (u32_bytes x) \<noteq> None
       then (contents m k)(u32_bytes x \<mapsto> u64_bytes new_id) else contents m k))"
    using k1 update_effect [OF Cons.prems(1) plain_hash_simps(3)] Cons.prems(1)
    by (auto simp: split_off_tgid_def lookup [OF Cons.prems(1)] split: option.splits)
  then have "kinv k1" by blast
  from Cons.IH [OF this rest] c1 show ?case by (auto simp: map_simps)
qed simp

text \<open>A split of a cohort whose policy is readable, when the new entries fit.\<close>

lemma apply_split_effect:
  assumes "kinv k" and "contents cohort_policy k (u64_bytes (s_cohort p)) = Some (CohortPolicy_bytes old)"
    and "apply_split ko p (s, k) = Inr (s', k')"
  shows "let new_id = DAEMON_COHORT_BASE + daemon_seq s in
    s' = s\<lparr> daemon_seq := daemon_seq s + 1, nr_splits := nr_splits s + 1 \<rparr> \<and> kinv k' \<and>
    contents cohort_policy k (u64_bytes new_id) = None \<and> contents cohort_counters k (u64_bytes new_id) = None \<and>
    contents cohort_policy k' = (contents cohort_policy k)
      (u64_bytes new_id \<mapsto> CohortPolicy_bytes \<lparr> p_home_llc = p_home_llc old, p_flags = 0 \<rparr>) \<and>
    contents cohort_counters k' = (contents cohort_counters k)
      (u64_bytes new_id \<mapsto> CohortCounters_bytes CohortCounters_default) \<and>
    (\<forall>m. m \<notin> {cohort_counters, cohort_policy, tgid_cohort_map} \<longrightarrow> contents m k' = contents m k) \<and>
    (\<forall>t. contents tgid_cohort_map k' (u32_bytes t) =
       (if t \<in> set (off_tgids p) \<and> contents tgid_cohort_map k (u32_bytes t) \<noteq> None
        then Some (u64_bytes new_id) else contents tgid_cohort_map k (u32_bytes t)))"
proof -
  define new_id where "new_id = DAEMON_COHORT_BASE + daemon_seq s"
  obtain k1 k2 where
    u1: "k_update ko cohort_policy (u64_bytes new_id) (CohortPolicy_bytes \<lparr> p_home_llc = p_home_llc old, p_flags = 0 \<rparr>) F_NO_EXIST k = Inr k1"
    and u2: "k_update ko cohort_counters (u64_bytes new_id) (CohortCounters_bytes CohortCounters_default) F_NO_EXIST k1 = Inr k2"
    and l: "try_fold (split_off_tgid ko new_id) (off_tgids p) k2 = Inr k'"
    and s': "s' = s\<lparr> daemon_seq := daemon_seq s + 1, nr_splits := nr_splits s + 1 \<rparr>"
    using assms(2,3)
    by (auto simp: apply_split_def lookup [OF assms(1)] map_simps Let_def new_id_def split: sum.splits)
  note e1 = update_effect [OF assms(1) plain_hash_simps(2) u1]
  then have i1: "kinv k1" by blast
  note e2 = update_effect [OF i1 plain_hash_simps(1) u2]
  then have i2: "kinv k2" by blast
  note e3 = split_off_loop [OF i2 l]
  have c1: "contents m k1 = (if m = cohort_policy then (contents m k)
      (u64_bytes new_id \<mapsto> CohortPolicy_bytes \<lparr> p_home_llc = p_home_llc old, p_flags = 0 \<rparr>) else contents m k)" for m
    using update_effect [OF assms(1) plain_hash_simps(2) u1, of m] by simp
  have c2: "contents m k2 = (if m = cohort_counters then (contents m k1)
      (u64_bytes new_id \<mapsto> CohortCounters_bytes CohortCounters_default) else contents m k1)" for m
    using update_effect [OF i1 plain_hash_simps(1) u2, of m] by simp
  show ?thesis
    unfolding Let_def new_id_def [symmetric]
    using e1 e2 e3 s' by (simp add: c1 c2)
qed

section \<open>Garbage collection of processes\<close>

lemma gc_loop:
  assumes "kinv k" and "fold (gc_tgid ko live dead) ts (d, k) = (d', k')"
  shows "d' = d \<union> {t \<in> set ts. t \<notin> live \<and> t \<notin> dead} \<and> kinv k' \<and>
    (\<forall>m. m \<noteq> tgid_cohort_map \<longrightarrow> contents m k' = contents m k) \<and>
    (\<forall>t. contents tgid_cohort_map k' (u32_bytes t) =
       (if t \<in> set ts \<and> t \<notin> live \<and> t \<in> dead then None else contents tgid_cohort_map k (u32_bytes t)))"
  using assms
proof (induction ts arbitrary: d k)
  case (Cons x ts)
  obtain d1 k1 where g: "gc_tgid ko live dead x (d, k) = (d1, k1)" by (cases "gc_tgid ko live dead x (d, k)")
  then have "fold (gc_tgid ko live dead) ts (d1, k1) = (d', k')" using Cons.prems(2) by simp
  moreover have k1: "kinv k1 \<and> d1 = (if x \<notin> live \<and> x \<notin> dead then insert x d else d) \<and>
      (\<forall>m. contents m k1 = (if m = tgid_cohort_map \<and> x \<notin> live \<and> x \<in> dead
         then (contents m k)(u32_bytes x := None) else contents m k))"
    using g try_delete [OF Cons.prems(1) plain_hash_simps(3)] Cons.prems(1) by (auto simp: gc_tgid_def split: if_splits)
  ultimately show ?case using Cons.IH [of k1 d1] by (auto simp: map_simps)
qed simp

lemma gc_tgid_map_effect:
  assumes "kinv k" and "gc_tgid_map ko tc tasks k s = (s', k')"
  shows "s' = s\<lparr> dead_tgids := {t \<in> fst ` set tc. t \<notin> t_tgid ` set tasks \<and> t \<notin> dead_tgids s} \<rparr> \<and> kinv k' \<and>
    (\<forall>m. m \<noteq> tgid_cohort_map \<longrightarrow> contents m k' = contents m k) \<and>
    (\<forall>t. contents tgid_cohort_map k' (u32_bytes t) =
       (if t \<in> fst ` set tc \<and> t \<notin> t_tgid ` set tasks \<and> t \<in> dead_tgids s then None
        else contents tgid_cohort_map k (u32_bytes t)))"
proof -
  obtain d' where f: "fold (gc_tgid ko (set (map t_tgid tasks)) (dead_tgids s)) (map fst tc) ({}, k) = (d', k')"
    and s': "s' = s\<lparr> dead_tgids := d' \<rparr>"
    using assms(2) by (auto simp: gc_tgid_map_def split: prod.splits)
  from gc_loop [OF assms(1) f] s' show ?thesis by auto
qed

end

end
