(* ===== verification/Daemon_Cohorts.thy ===== *)
theory Daemon_Cohorts
  imports Daemon_Proofs
begin

text \<open>
  The cohort snapshot against the maps: each row reports the counters, policy and exact membership
  of a live cohort, and the garbage collector removes a cohort only after two ticks in which it had
  no live task and no process mapped to it.
\<close>

section \<open>Membership counts\<close>

definition cohort_tasks :: "TaskSnapshot list \<Rightarrow> u64 \<Rightarrow> TaskSnapshot list" where
  "cohort_tasks tasks i = filter (\<lambda>t. t_cohort_id t = i) tasks"

lemma count_tasks_fold:
  "hm_get (fold (\<lambda>t. hm_entry (t_cohort_id t) 0 (\<lambda>n. n + 1)) tasks acc) i =
     (if cohort_tasks tasks i = [] then hm_get acc i
      else Some ((case hm_get acc i of Some n \<Rightarrow> n | None \<Rightarrow> 0) + of_nat (length (cohort_tasks tasks i))))"
  by (induction tasks arbitrary: acc) (auto simp: cohort_tasks_def hm_get_entry add.assoc split: option.split)

lemma count_tasks_get:
  "(case hm_get (count_tasks tasks) i of Some n \<Rightarrow> n | None \<Rightarrow> 0) = of_nat (length (cohort_tasks tasks i))"
  by (simp add: count_tasks_def count_tasks_fold)

lemma count_zero:
  assumes "length tasks < 2 ^ 64"
  shows "(of_nat (length (cohort_tasks tasks i)) :: u64) = 0 \<longleftrightarrow> cohort_tasks tasks i = []"
proof -
  have "length (cohort_tasks tasks i) < 2 ^ 64"
    using assms by (metis cohort_tasks_def length_filter_le order_le_less_trans)
  then have "2 ^ 64 dvd length (cohort_tasks tasks i) \<longleftrightarrow> length (cohort_tasks tasks i) = 0"
    by (metis dvd_0_right gr0I nat_dvd_not_less)
  then show ?thesis by (simp add: word_of_nat_eq_0_iff)
qed

section \<open>The counters loop\<close>

text \<open>Which cohorts the loop takes for idle, and the row of the others.\<close>

definition cohort_idle :: "TaskSnapshot list \<Rightarrow> u64 set \<Rightarrow> u64 \<Rightarrow> bool" where
  "cohort_idle tasks referenced i \<longleftrightarrow> (of_nat (length (cohort_tasks tasks i)) :: u64) = 0 \<and> i \<notin> referenced"

definition snapshot_row :: "Scheduler \<Rightarrow> TaskSnapshot list \<Rightarrow> (u64, CohortPolicy) hashmap \<Rightarrow> bytes \<times> bytes \<Rightarrow> CohortSnapshot" where
  "snapshot_row s tasks policies = (\<lambda>(key, val).
     let i = le_dec key;
         counters = the (CohortCounters_read val);
         policy = (case hm_get policies i of Some p \<Rightarrow> p | None \<Rightarrow> CohortPolicy_default);
         prev = (case hm_get (prev_load_sum s) i of Some p \<Rightarrow> p | None \<Rightarrow> k_load_sum counters)
     in \<lparr> c_id = i, c_home_llc = p_home_llc policy, c_pinned = (p_flags policy AND COHORT_PINNED \<noteq> 0),
          c_nr_tasks = of_nat (length (cohort_tasks tasks i)),
          c_load_ns = saturating_sub (k_load_sum counters) prev,
          c_residency_ms = hm_get (residency_overrides s) i \<rparr>)"

lemma snapshot_row_id [simp]: "c_id (snapshot_row s tasks policies kv) = le_dec (fst kv)"
  by (simp add: snapshot_row_def Let_def split: prod.split)

lemma cohort_rows:
  assumes "\<forall>(key, val) \<in> set ckvs. length key = 8 \<and> length val = 16"
  shows "\<exists>sc'. try_fold (cohort_row s (count_tasks tasks) referenced gc_safe policies) ckvs sc = Inr sc' \<and>
    sc_out sc' = sc_out sc @ map (snapshot_row s tasks policies)
      (filter (\<lambda>kv. \<not> cohort_idle tasks referenced (le_dec (fst kv))) ckvs) \<and>
    set (sc_dead sc') = set (sc_dead sc) \<union> (if gc_safe
      then {i \<in> (le_dec \<circ> fst) ` set ckvs. cohort_idle tasks referenced i \<and> i \<in> dead_cohorts s} else {}) \<and>
    sc_dead_now sc' = sc_dead_now sc \<union> (if gc_safe
      then {i \<in> (le_dec \<circ> fst) ` set ckvs. cohort_idle tasks referenced i \<and> i \<notin> dead_cohorts s} else {})"
  using assms
proof (induction ckvs arbitrary: sc)
  case (Cons kv ckvs)
  obtain key val where kv: "kv = (key, val)" by (cases kv)
  have size: "length key = 8" "length val = 16" using Cons.prems kv by auto
  obtain counters where c: "CohortCounters_read val = Some counters"
    using size counters.dec_None_iff by (metis not_None_eq)
  let ?i = "le_dec key :: u64"
  let ?sc1 = "if cohort_idle tasks referenced ?i
    then if \<not> gc_safe then sc else if ?i \<in> dead_cohorts s then sc\<lparr> sc_dead := sc_dead sc @ [?i] \<rparr>
         else sc\<lparr> sc_dead_now := insert ?i (sc_dead_now sc) \<rparr>
    else sc\<lparr> sc_seen := hm_insert ?i (k_load_sum counters) (sc_seen sc),
             sc_out := sc_out sc @ [snapshot_row s tasks policies kv] \<rparr>"
  have "cohort_row s (count_tasks tasks) referenced gc_safe policies kv sc = Inr ?sc1"
    using size c by (simp add: cohort_row_def kv u64_read_def count_tasks_get cohort_idle_def snapshot_row_def Let_def cong: option.case_cong)
  moreover obtain sc' where
    "try_fold (cohort_row s (count_tasks tasks) referenced gc_safe policies) ckvs ?sc1 = Inr sc' \<and>
     sc_out sc' = sc_out ?sc1 @ map (snapshot_row s tasks policies)
       (filter (\<lambda>kv. \<not> cohort_idle tasks referenced (le_dec (fst kv))) ckvs) \<and>
     set (sc_dead sc') = set (sc_dead ?sc1) \<union> (if gc_safe
       then {i \<in> (le_dec \<circ> fst) ` set ckvs. cohort_idle tasks referenced i \<and> i \<in> dead_cohorts s} else {}) \<and>
     sc_dead_now sc' = sc_dead_now ?sc1 \<union> (if gc_safe
       then {i \<in> (le_dec \<circ> fst) ` set ckvs. cohort_idle tasks referenced i \<and> i \<notin> dead_cohorts s} else {})"
    using Cons.IH [of ?sc1] Cons.prems by auto
  ultimately show ?case by (intro exI [of _ sc']) (auto simp: kv)
qed simp

lemma read_policies_fold:
  assumes "\<forall>(key, val) \<in> set kvs. length key = 8 \<and> length val = 8" and "distinct (map fst kvs)"
  shows "hm_get (fold (\<lambda>(key, val) ps.
       case (u64_read key, CohortPolicy_read val) of (Some i, Some p) \<Rightarrow> hm_insert i p ps | _ \<Rightarrow> ps) kvs acc) i =
    (case map_of kvs (u64_bytes i) of Some v \<Rightarrow> CohortPolicy_read v | None \<Rightarrow> hm_get acc i)"
  using assms
proof (induction kvs arbitrary: acc)
  case (Cons kv kvs)
  obtain key val where kv: "kv = (key, val)" by (cases kv)
  have size: "length key = 8" "length val = 8" using Cons.prems kv by auto
  obtain p where p: "CohortPolicy_read val = Some p" using size policy.dec_None_iff by (metis not_None_eq)
  obtain j where j: "u64_read key = Some j" using size u64.dec_None_iff by (metis not_None_eq)
  then have key: "key = u64_bytes j" using u64.dec_iff by auto
  have "map_of kvs key = None" using Cons.prems kv by (simp add: map_of_eq_None_iff)
  then show ?case
    using Cons.IH [of "hm_insert j p acc"] Cons.prems
    by (auto simp: kv p j hm_get_insert key map_simps split: option.splits)
qed simp

context bpf_maps
begin

text \<open>The map of policies the daemon builds is the map of the kernel.\<close>

lemma read_policies_contents:
  assumes "kinv k" and "k_lookup_batch ko cohort_policy k = Inr pkvs"
  shows "hm_get (read_policies pkvs) i =
    (case contents cohort_policy k (u64_bytes i) of Some v \<Rightarrow> CohortPolicy_read v | None \<Rightarrow> None)"
proof -
  from batch [OF assms(1) plain_hash_simps(2)] assms(2) have d: "distinct (map fst pkvs)"
    and m: "map_of pkvs = contents cohort_policy k" by auto
  have "\<forall>(key, val) \<in> set pkvs. length key = 8 \<and> length val = 8"
  proof clarify
    fix key val assume "(key, val) \<in> set pkvs"
    then have "contents cohort_policy k key = Some val" using d by (simp flip: m)
    from sizes [OF assms(1) this] show "length key = 8 \<and> length val = 8" by simp
  qed
  from read_policies_fold [OF this d, of "[]" i] show ?thesis
    by (simp add: read_policies_def m split: option.split)
qed

lemma delete_cohorts_loop:
  "kinv k \<Longrightarrow> kinv (fold (delete_cohort ko) is k) \<and>
    (\<forall>m c. contents m (fold (delete_cohort ko) is k) (u64_bytes c) =
       (if m \<in> {cohort_counters, cohort_policy} \<and> c \<in> set is then None else contents m k (u64_bytes c))) \<and>
    (\<forall>m. m \<notin> {cohort_counters, cohort_policy} \<longrightarrow> contents m (fold (delete_cohort ko) is k) = contents m k)"
proof (induction "is" arbitrary: k)
  case (Cons i "is")
  note e = delete_cohort_effect [OF Cons.prems, of i]
  then have "kinv (delete_cohort ko i k)" by blast
  from Cons.IH [OF this] e show ?case by (auto simp: map_simps)
qed simp

lemma snapshot_cohorts_effect:
  assumes "kinv k" and "snapshot_cohorts ko tasks tc k s = Inr (cohorts, s', k')"
  defines "idle \<equiv> \<lambda>i. cohort_idle tasks (snd ` set tc) i"
  shows "distinct (map c_id cohorts) \<and> c_id ` set cohorts =
      {i. contents cohort_counters k (u64_bytes i) \<noteq> None \<and> \<not> idle i} \<and>
    (\<forall>c \<in> set cohorts. c_nr_tasks c = of_nat (length (cohort_tasks tasks (c_id c))) \<and>
       (let p = (case contents cohort_policy k (u64_bytes (c_id c)) of
                   Some v \<Rightarrow> (case CohortPolicy_read v of Some p \<Rightarrow> p | None \<Rightarrow> CohortPolicy_default)
                 | None \<Rightarrow> CohortPolicy_default)
        in c_home_llc c = p_home_llc p \<and> c_pinned c = (p_flags p AND COHORT_PINNED \<noteq> 0))) \<and>
    dead_cohorts s' = {i. tasks \<noteq> [] \<and> contents cohort_counters k (u64_bytes i) \<noteq> None \<and> idle i \<and> i \<notin> dead_cohorts s} \<and>
    balancer s' = retain_cohorts (\<lambda>i. i \<in> c_id ` set cohorts) (balancer s) \<and> kinv k' \<and>
    (\<forall>m i. contents m k' (u64_bytes i) =
       (if m \<in> {cohort_counters, cohort_policy} \<and> tasks \<noteq> [] \<and> contents cohort_counters k (u64_bytes i) \<noteq> None \<and>
           idle i \<and> i \<in> dead_cohorts s then None else contents m k (u64_bytes i))) \<and>
    (\<forall>m. m \<notin> {cohort_counters, cohort_policy} \<longrightarrow> contents m k' = contents m k)"
proof -
  obtain pkvs ckvs where pk: "k_lookup_batch ko cohort_policy k = Inr pkvs" and ck: "k_lookup_batch ko cohort_counters k = Inr ckvs"
    and d: "distinct (map fst ckvs)" and m: "map_of ckvs = contents cohort_counters k"
    using batch [OF assms(1)] by (metis map_simps(1,2))
  have size: "\<forall>(key, val) \<in> set ckvs. length key = 8 \<and> length val = 16"
  proof clarify
    fix key val assume "(key, val) \<in> set ckvs"
    then have "contents cohort_counters k key = Some val" using d by (simp flip: m)
    from sizes [OF assms(1) this] show "length key = 8 \<and> length val = 16" by simp
  qed
  let ?id = "\<lambda>kv. le_dec (fst kv) :: u64"
  have key: "fst kv = u64_bytes (?id kv)" if "kv \<in> set ckvs" for kv
    using size that by (auto simp: layout_simps)
  have inj: "distinct (map ?id ckvs)"
    using d key unfolding distinct_map inj_on_def by (metis (no_types, lifting))
  have ids: "?id ` set ckvs = {i. contents cohort_counters k (u64_bytes i) \<noteq> None}"
  proof (intro set_eqI iffI)
    fix i assume "i \<in> ?id ` set ckvs"
    then obtain kv where kv: "kv \<in> set ckvs" "i = ?id kv" by auto
    then show "i \<in> {i. contents cohort_counters k (u64_bytes i) \<noteq> None}"
      using key [OF kv(1)] by (simp add: map_of_eq_None_iff flip: m)
  next
    fix i assume "i \<in> {i. contents cohort_counters k (u64_bytes i) \<noteq> None}"
    then obtain v where "(u64_bytes i, v) \<in> set ckvs" by (auto simp flip: m dest: map_of_SomeD)
    then show "i \<in> ?id ` set ckvs" by (metis fst_conv image_eqI le_dec_u64(1))
  qed
  let ?sc0 = "\<lparr> sc_out = [], sc_dead = [], sc_seen = [], sc_dead_now = {} \<rparr>"
  obtain sc where sc: "try_fold (cohort_row s (count_tasks tasks) (set (map snd tc)) (tasks \<noteq> []) (read_policies pkvs)) ckvs ?sc0 = Inr sc"
    and out: "sc_out sc = map (snapshot_row s tasks (read_policies pkvs)) (filter (\<lambda>kv. \<not> idle (?id kv)) ckvs)"
    and dead: "set (sc_dead sc) = (if tasks \<noteq> [] then {i \<in> ?id ` set ckvs. idle i \<and> i \<in> dead_cohorts s} else {})"
    and now: "sc_dead_now sc = (if tasks \<noteq> [] then {i \<in> ?id ` set ckvs. idle i \<and> i \<notin> dead_cohorts s} else {})"
    using cohort_rows [OF size, of s tasks "snd ` set tc" "tasks \<noteq> []" "read_policies pkvs" ?sc0]
    by (auto simp: idle_def comp_def)
  have res: "cohorts = sc_out sc" "k' = fold (delete_cohort ko) (sc_dead sc) k"
    "s' = s\<lparr> dead_cohorts := sc_dead_now sc, prev_load_sum := sc_seen sc,
             balancer := retain_cohorts (\<lambda>i. i \<in> set (map c_id (sc_out sc))) (balancer s) \<rparr>"
    using assms(2) sc by (auto simp: snapshot_cohorts_def pk ck)
  have cid: "map c_id cohorts = map ?id (filter (\<lambda>kv. \<not> idle (?id kv)) ckvs)"
    by (simp add: res(1) out comp_def)
  then have "distinct (map c_id cohorts)" using inj by (simp add: distinct_map_filter)
  moreover have set: "c_id ` set cohorts = {i. contents cohort_counters k (u64_bytes i) \<noteq> None \<and> \<not> idle i}"
  proof -
    have "c_id ` set cohorts = {i \<in> ?id ` set ckvs. \<not> idle i}" using arg_cong [OF cid, of set] by auto
    then show ?thesis unfolding ids by auto
  qed
  moreover have "c_nr_tasks c = of_nat (length (cohort_tasks tasks (c_id c))) \<and>
       (let p = (case contents cohort_policy k (u64_bytes (c_id c)) of
                   Some v \<Rightarrow> (case CohortPolicy_read v of Some p \<Rightarrow> p | None \<Rightarrow> CohortPolicy_default)
                 | None \<Rightarrow> CohortPolicy_default)
        in c_home_llc c = p_home_llc p \<and> c_pinned c = (p_flags p AND COHORT_PINNED \<noteq> 0))"
    if "c \<in> set cohorts" for c
  proof -
    obtain kv where kv: "c = snapshot_row s tasks (read_policies pkvs) kv" using \<open>c \<in> set cohorts\<close> by (auto simp: res(1) out)
    show ?thesis
      unfolding kv by (simp add: snapshot_row_def read_policies_contents [OF assms(1) pk] Let_def split: prod.split option.split)
  qed
  moreover note delete_cohorts_loop [OF assms(1), of "sc_dead sc"]
  ultimately show ?thesis
    unfolding res(2,3) dead ids by (simp add: now ids res(1))
qed

text \<open>The snapshot itself cannot fail on a kernel that keeps its sizes.\<close>

lemma snapshot_cohorts_total:
  assumes "kinv k"
  obtains cohorts s' k' where "snapshot_cohorts ko tasks tc k s = Inr (cohorts, s', k')"
proof -
  obtain pkvs ckvs where b: "k_lookup_batch ko cohort_policy k = Inr pkvs" "k_lookup_batch ko cohort_counters k = Inr ckvs"
    and d: "distinct (map fst ckvs)" and m: "map_of ckvs = contents cohort_counters k"
    using batch [OF assms] by (metis map_simps(1,2))
  have "\<forall>(key, val) \<in> set ckvs. length key = 8 \<and> length val = 16"
  proof clarify
    fix key val assume "(key, val) \<in> set ckvs"
    then have "contents cohort_counters k key = Some val" using d by (simp flip: m)
    from sizes [OF assms this] show "length key = 8 \<and> length val = 16" by simp
  qed
  from cohort_rows [OF this, of s tasks "set (map snd tc)" "tasks \<noteq> []" "read_policies pkvs"
      "\<lparr> sc_out = [], sc_dead = [], sc_seen = [], sc_dead_now = {} \<rparr>"]
  show thesis using that b by (auto simp: snapshot_cohorts_def)
qed

end

section \<open>Two-tick rules\<close>

text \<open>A tick as the collectors see it: the tasks, the process map and the kernel state.\<close>

record 'k GcInput =
  gc_tasks :: "TaskSnapshot list"
  gc_tgids :: "(u32, u64) hashmap"
  gc_kernel :: 'k

text \<open>A cohort vanishes from the counters; a process vanishes from the process map.\<close>

definition cohort_gc_step :: "'k kernel_ops \<Rightarrow> (map_id \<Rightarrow> 'k \<Rightarrow> bytes \<Rightarrow> bytes option) \<Rightarrow> ('k \<Rightarrow> bool) \<Rightarrow> u64 \<Rightarrow>
    'k GcInput \<Rightarrow> Scheduler \<Rightarrow> Scheduler \<times> bool" where
  "cohort_gc_step ko contents kinv c i s =
     (if kinv (gc_kernel i)
      then case snapshot_cohorts ko (gc_tasks i) (gc_tgids i) (gc_kernel i) s of
             Inl e \<Rightarrow> (s, False)
           | Inr (cohorts, s', k') \<Rightarrow>
               (s', contents cohort_counters (gc_kernel i) (u64_bytes c) \<noteq> None \<and> contents cohort_counters k' (u64_bytes c) = None)
      else (s, False))"

definition process_gc_step :: "'k kernel_ops \<Rightarrow> (map_id \<Rightarrow> 'k \<Rightarrow> bytes \<Rightarrow> bytes option) \<Rightarrow> ('k \<Rightarrow> bool) \<Rightarrow> u32 \<Rightarrow>
    'k GcInput \<Rightarrow> Scheduler \<Rightarrow> Scheduler \<times> bool" where
  "process_gc_step ko contents kinv t i s =
     (if kinv (gc_kernel i)
      then let (s', k') = gc_tgid_map ko (gc_tgids i) (gc_tasks i) (gc_kernel i) s
           in (s', contents tgid_cohort_map (gc_kernel i) (u32_bytes t) \<noteq> None \<and> contents tgid_cohort_map k' (u32_bytes t) = None)
      else (s, False))"

text \<open>The observation that has to hold twice in a row.\<close>

definition cohort_unused :: "(map_id \<Rightarrow> 'k \<Rightarrow> bytes \<Rightarrow> bytes option) \<Rightarrow> u64 \<Rightarrow> 'k GcInput \<Rightarrow> bool" where
  "cohort_unused contents c i \<longleftrightarrow>
     gc_tasks i \<noteq> [] \<and> cohort_idle (gc_tasks i) (snd ` set (gc_tgids i)) c \<and>
     contents cohort_counters (gc_kernel i) (u64_bytes c) \<noteq> None"

definition process_unused :: "u32 \<Rightarrow> 'k GcInput \<Rightarrow> bool" where
  "process_unused t i \<longleftrightarrow> t \<in> fst ` set (gc_tgids i) \<and> t \<notin> t_tgid ` set (gc_tasks i)"

sublocale bpf_maps < cohort_gc: confirm_counter
  "cohort_gc_step ko contents kinv c" "\<lambda>_. True" "\<lambda>i. kinv (gc_kernel i)" "cohort_unused contents c"
  "\<lambda>s. if c \<in> dead_cohorts s then 1 else 0" 2 for c
proof -
  have eff: "\<exists>s'. cohort_gc_step ko contents kinv c i s = (s', cohort_unused contents c i \<and> c \<in> dead_cohorts s) \<and>
      (c \<in> dead_cohorts s' \<longleftrightarrow> cohort_unused contents c i \<and> c \<notin> dead_cohorts s)" if "kinv (gc_kernel i)" for i s
  proof -
    obtain cohorts s' k' where r: "snapshot_cohorts ko (gc_tasks i) (gc_tgids i) (gc_kernel i) s = Inr (cohorts, s', k')"
      by (rule snapshot_cohorts_total [OF \<open>kinv (gc_kernel i)\<close>])
    from snapshot_cohorts_effect [OF that r] show ?thesis
      by (auto simp: cohort_gc_step_def r that cohort_unused_def)
  qed
  show "confirm_counter (cohort_gc_step ko contents kinv c) (\<lambda>_. True) (\<lambda>i. kinv (gc_kernel i)) (cohort_unused contents c)
      (\<lambda>s. if c \<in> dead_cohorts s then 1 else 0) 2"
  proof (unfold_locales, goal_cases)
    case (2 s i)
    then show ?case by (simp add: cohort_gc_step_def)
  next
    case (3 s i)
    then show ?case using eff [of i s] by auto
  next
    case (4 s i)
    then show ?case using eff [of i s] by auto
  next
    case (5 s i)
    then have "kinv (gc_kernel i)" by (auto simp: cohort_gc_step_def split: if_splits)
    with 5 eff [OF this, of s] show ?case by auto
  qed simp
qed

sublocale bpf_maps < process_gc: confirm_counter
  "process_gc_step ko contents kinv t" "\<lambda>_. True" "\<lambda>i. kinv (gc_kernel i)" "process_unused t"
  "\<lambda>s. if t \<in> dead_tgids s then 1 else 0" 2 for t
proof -
  have eff: "\<exists>s' a. process_gc_step ko contents kinv t i s = (s', a) \<and> (a \<longrightarrow> process_unused t i \<and> t \<in> dead_tgids s) \<and>
      (t \<in> dead_tgids s' \<longleftrightarrow> process_unused t i \<and> t \<notin> dead_tgids s)" if "kinv (gc_kernel i)" for i s
  proof -
    obtain s' k' where r: "gc_tgid_map ko (gc_tgids i) (gc_tasks i) (gc_kernel i) s = (s', k')" by fastforce
    from gc_tgid_map_effect [OF that r] show ?thesis
      by (auto simp: process_gc_step_def r that process_unused_def)
  qed
  show "confirm_counter (process_gc_step ko contents kinv t) (\<lambda>_. True) (\<lambda>i. kinv (gc_kernel i)) (process_unused t)
      (\<lambda>s. if t \<in> dead_tgids s then 1 else 0) 2"
  proof (unfold_locales, goal_cases)
    case (2 s i)
    then show ?case by (simp add: process_gc_step_def)
  next
    case (3 s i)
    then show ?case using eff [of i s] by auto
  next
    case (4 s i)
    then show ?case using eff [of i s] by auto
  next
    case (5 s i)
    then have "kinv (gc_kernel i)" by (auto simp: process_gc_step_def split: if_splits)
    with 5 eff [OF this, of s] show ?case by auto
  qed simp
qed

end
