(* ===== verification/Daemon_Tick.thy ===== *)
theory Daemon_Tick
  imports Daemon_Cohorts "HOL-Library.Sublist"
begin

text \<open>
  The daemon's tick as a whole: the snapshots are well-formed, so no planner panics; the balancer's
  decision reaches exactly one policy entry, never a pinned one; and the properties of the map
  traffic, stated for every kernel that satisfies \<open>bpf_maps\<close>.
\<close>

section \<open>Snapshots are well-formed\<close>

lemma llc_rows:
  assumes "try_fold (llc_row ko k ns) xs (out, prevs) = Inr (out', prevs')"
  shows "map l_llc out' = map l_llc out @ map fst xs"
  using assms
proof (induction xs arbitrary: out prevs)
  case (Cons x xs)
  then obtain out1 prevs1 where r: "llc_row ko k ns x (out, prevs) = Inr (out1, prevs1)"
    "try_fold (llc_row ko k ns) xs (out1, prevs1) = Inr (out', prevs')"
    by (auto split: sum.splits)
  from r(1) have "map l_llc out1 = map l_llc out @ [fst x]"
    by (auto simp: llc_row_def Let_def split: prod.splits sum.splits)
  with Cons.IH [OF r(2)] show ?case by simp
qed simp

lemma llc_loads_wf: "llc_loads ko k s = Inr (llcs, s') \<Longrightarrow> hm_wf (llc_cpus s) \<Longrightarrow> llcs_wf llcs"
  by (auto simp: llc_loads_def llcs_wf_def hm_wf_def split: sum.splits dest!: llc_rows)

lemma llc_loads_frame:
  "llc_loads ko k s = Inr (llcs, s') \<Longrightarrow> balancer s' = balancer s \<and> wake_graph s' = wake_graph s \<and>
     spill_cfg s' = spill_cfg s \<and> current_spills s' = current_spills s"
  by (auto simp: llc_loads_def split: sum.splits)

lemma task_rows:
  assumes "\<forall>(key, val) \<in> set kvs. length key = 4"
    and "try_fold (task_row prevs) kvs (out, seen) = Inr (out', seen')"
  shows "\<exists>ts. map t_pid out' = map t_pid out @ ts \<and> subseq ts (map (\<lambda>kv. le_dec (fst kv)) kvs)"
  using assms
proof (induction kvs arbitrary: out seen)
  case (Cons kv kvs)
  obtain key val where kv: "kv = (key, val)" by (cases kv)
  obtain out1 seen1 where r: "task_row prevs kv (out, seen) = Inr (out1, seen1)"
    "try_fold (task_row prevs) kvs (out1, seen1) = Inr (out', seen')"
    using Cons.prems(2) by (auto split: sum.splits)
  from Cons.IH [OF _ r(2)] Cons.prems(1) obtain ts where
    ts: "map t_pid out' = map t_pid out1 @ ts" "subseq ts (map (\<lambda>kv. le_dec (fst kv)) kvs)" by auto
  have "length key = 4" using Cons.prems(1) kv by simp
  with r(1) have "out1 = out \<or> map t_pid out1 = map t_pid out @ [le_dec key]"
    by (auto simp: kv task_row_def u32_read_def Let_def split: option.splits prod.splits)
  with ts show ?case by (auto simp: kv)
qed simp

text \<open>
  What a stage of the tick has to keep: the kernel invariant and the parts of the state the
  planners' well-formedness rests on.
\<close>

definition steady :: "('k \<Rightarrow> bool) \<Rightarrow> Scheduler \<Rightarrow> Scheduler \<times> 'k \<Rightarrow> bool" where
  "steady ok s0 = (\<lambda>(s, k). ok k \<and> llc_cpus s = llc_cpus s0 \<and> wake_graph s = wake_graph s0)"

definition no_panic :: "daemon_error \<Rightarrow> bool" where
  "no_panic e \<longleftrightarrow> (\<forall>p. e \<noteq> Panicked p)"

lemma no_panic_simps [simp]: "no_panic MapError" "no_panic BadSize"
  by (simp_all add: no_panic_def)

context bpf_maps
begin

lemma snapshot_tasks_wf:
  assumes "kinv k" and "snapshot_tasks ko k s = Inr (tasks, s')"
  shows "tasks_wf tasks"
proof -
  obtain kvs where b: "k_lookup_batch ko task_stats k = Inr kvs" "distinct (map fst kvs)" "map_of kvs = contents task_stats k"
    using batch [OF assms(1) plain_hash_simps(4)] by blast
  have size: "\<forall>(key, val) \<in> set kvs. length key = 4"
  proof clarify
    fix key val assume "(key, val) \<in> set kvs"
    then have "contents task_stats k key = Some val" using b(2) by (simp flip: b(3))
    from sizes [OF assms(1) this] show "length key = 4" by simp
  qed
  have "inj_on (le_dec :: bytes \<Rightarrow> u32) (fst ` set kvs)"
    using size by (intro inj_onI) (metis (mono_tags, lifting) case_prodD imageE prod.collapse u32_bytes_le_dec)
  then have "distinct (map (le_dec :: bytes \<Rightarrow> u32) (map fst kvs))" using b(2) by (simp only: distinct_map set_map)
  then have "distinct (map (\<lambda>kv. le_dec (fst kv) :: u32) kvs)" by (simp add: comp_def)
  moreover obtain seen' where "try_fold (task_row (prev_runtime s)) kvs ([], []) = Inr (tasks, seen')"
    using assms(2) b(1) by (auto simp: snapshot_tasks_def split: sum.splits)
  from task_rows [OF size this] have "subseq (map t_pid tasks) (map (\<lambda>kv. le_dec (fst kv)) kvs)" by simp
  ultimately show ?thesis unfolding tasks_wf_def by (metis distinct_nthsI subseq_conv_nths)
qed

lemma snapshot_cohorts_wf:
  "kinv k \<Longrightarrow> snapshot_cohorts ko tasks tc k s = Inr (cohorts, s', k') \<Longrightarrow> cohorts_wf cohorts"
  unfolding cohorts_wf_def by (drule (1) snapshot_cohorts_effect) blast

section \<open>Moves\<close>

lemma apply_decisions_effect:
  assumes "kinv k" and "try_fold (apply_decision ko) ds (s, k) = Inr (s', k')"
  shows "kinv k' \<and> (\<forall>m. m \<noteq> cohort_policy \<longrightarrow> contents m k' = contents m k) \<and>
    (\<forall>i. i \<notin> decision_id ` set ds \<longrightarrow> contents cohort_policy k' (u64_bytes i) = contents cohort_policy k (u64_bytes i)) \<and>
    wake_graph s' = wake_graph s \<and> spill_cfg s' = spill_cfg s \<and> current_spills s' = current_spills s"
  using assms
proof (induction ds arbitrary: s k)
  case (Cons d ds)
  obtain i to where d: "d = MoveCohort i to" by (cases d)
  obtain s1 k1 where r: "apply_decision ko d (s, k) = Inr (s1, k1)" "try_fold (apply_decision ko) ds (s1, k1) = Inr (s', k')"
    using Cons.prems(2) by (auto split: sum.splits)
  have "kinv k1 \<and> (\<forall>m. m \<noteq> cohort_policy \<longrightarrow> contents m k1 = contents m k) \<and>
    (\<forall>j. j \<noteq> i \<longrightarrow> contents cohort_policy k1 (u64_bytes j) = contents cohort_policy k (u64_bytes j)) \<and>
    wake_graph s1 = wake_graph s \<and> spill_cfg s1 = spill_cfg s \<and> current_spills s1 = current_spills s"
    using r(1) update_effect [OF Cons.prems(1) plain_hash_simps(2)] Cons.prems(1)
    by (auto simp: d apply_decision_def lookup [OF Cons.prems(1)] map_simps split: option.splits sum.splits)
  with Cons.IH [OF _ r(2)] show ?case by (auto simp: d)
qed simp

section \<open>No panic\<close>

lemma update_no_panic: "k_update ko m key v fl k = Inl e \<Longrightarrow> no_panic e"
  by (drule update_error) simp

lemma snapshot_tasks_safe:
  assumes "kinv k"
  shows "case snapshot_tasks ko k s of Inl e \<Rightarrow> no_panic e | Inr (tasks, s') \<Rightarrow> tasks_wf tasks \<and> steady kinv s (s', k)"
proof (cases "snapshot_tasks ko k s")
  case (Inl e)
  obtain kvs where b: "k_lookup_batch ko task_stats k = Inr kvs" using batch [OF assms plain_hash_simps(4)] by blast
  have "case try_fold (task_row (prev_runtime s)) kvs ([], []) of Inl e \<Rightarrow> no_panic e | Inr s' \<Rightarrow> True"
    by (rule try_fold_safe) (auto simp: task_row_def Let_def split: sum.split option.split prod.split)
  with Inl show ?thesis by (auto simp: snapshot_tasks_def b split: sum.splits)
next
  case (Inr r)
  then show ?thesis
    using snapshot_tasks_wf [OF assms, of s] assms
    by (auto simp: snapshot_tasks_def steady_def split: sum.splits prod.splits)
qed

lemma snapshot_tgid_cohort_safe:
  assumes "kinv k"
  shows "case snapshot_tgid_cohort ko k of Inl e \<Rightarrow> no_panic e | Inr tc \<Rightarrow> hm_wf tc"
proof -
  obtain kvs where b: "k_lookup_batch ko tgid_cohort_map k = Inr kvs" using batch [OF assms plain_hash_simps(3)] by blast
  show ?thesis
    unfolding snapshot_tgid_cohort_def b sum.case
    by (rule try_fold_safe [where I = hm_wf]) (auto split: option.split)
qed

lemma apply_pin_safe:
  assumes "kinv k"
  shows "case apply_pin ko n cp k of Inl e \<Rightarrow> no_panic e | Inr k' \<Rightarrow> kinv k'"
  using update_no_panic update_effect [OF assms plain_hash_simps(2)] assms
  by (auto simp: apply_pin_def lookup [OF assms] Let_def split: sum.splits option.splits prod.splits)

lemma apply_rules_safe:
  assumes "steady kinv s0 (s, k)"
  shows "case apply_rules env ko tasks k s of Inl e \<Rightarrow> no_panic e | Inr r \<Rightarrow> steady kinv s0 r"
proof -
  have inv: "kinv k" using assms by (simp add: steady_def)
  have "case try_fold (apply_pin ko n) xs k of Inl e \<Rightarrow> no_panic e | Inr k' \<Rightarrow> kinv k'" for n xs
    by (rule try_fold_safe) (use inv apply_pin_safe in auto)
  note pins = this
  obtain cache overrides pn where f: "fold (rule_task env (config s)) tasks
      (hm_retain (\<lambda>tgid _. tgid \<in> set (map t_tgid tasks)) (cgroup_cache s), [], []) = (cache, overrides, pn)"
    by (metis surj_pair)
  show ?thesis
    using assms pins [of "length (llc_cpus s)" "hm_iter (e_pri64 env) pn"]
    unfolding apply_rules_def Let_def f by (auto simp: steady_def split: sum.splits)
qed

lemma apply_decisions_safe:
  assumes "steady kinv s0 (s, k)"
  shows "case apply_decisions ko ds k s of Inl e \<Rightarrow> no_panic e | Inr r \<Rightarrow> steady kinv s0 r"
  unfolding apply_decisions_def
proof (rule try_fold_safe)
  fix d and sk :: "Scheduler \<times> 'k"
  assume st: "steady kinv s0 sk"
  obtain s k i to where sk: "sk = (s, k)" "d = MoveCohort i to" by (cases sk; cases d) auto
  have inv: "kinv k" using st sk by (simp add: steady_def)
  show "case apply_decision ko d sk of Inl e \<Rightarrow> no_panic e | Inr r \<Rightarrow> steady kinv s0 r"
    using st update_no_panic update_effect [OF inv plain_hash_simps(2)]
    by (auto simp: sk apply_decision_def lookup [OF inv] steady_def split: sum.splits option.splits)
qed (rule assms)

lemma apply_spills_safe:
  assumes "steady kinv s0 (s, k)"
  shows "case apply_spills env ko desired k s of Inl e \<Rightarrow> no_panic e | Inr r \<Rightarrow> steady kinv s0 r"
proof -
  have inv: "kinv k" using assms by (simp add: steady_def)
  have "case try_fold (\<lambda>(pid, llc) k. if hm_get (current_spills s) pid \<noteq> Some llc
      then k_update ko spill_tasks (u32_bytes pid) (u32_bytes llc) F_ANY k else Inr k) xs k of
      Inl e \<Rightarrow> no_panic e | Inr k' \<Rightarrow> kinv k'" for xs
    by (rule try_fold_safe [where I = kinv, OF inv])
      (auto dest: update_no_panic update_effect [OF _ plain_hash_simps(5)] split: sum.split if_splits)
  note ups = this
  have inj: "inj u32_bytes" by (simp add: inj_def map_simps)
  show ?thesis
    using assms ups [of "hm_iter (e_pri32 env) desired"] delete_loop [OF _ plain_hash_simps(5) inj refl]
    by (auto simp: apply_spills_def steady_def split: sum.splits)
qed

lemma snapshot_edges_safe:
  assumes "kinv k"
  shows "case snapshot_edges ko k of Inl e \<Rightarrow> no_panic e | Inr (deltas, k') \<Rightarrow> kinv k'"
proof -
  obtain kvs k' where d: "k_lookup_and_delete_batch ko wake_edges k = Inr (kvs, k')" "kinv k'"
    using drain [OF assms] by blast
  have "case try_fold (\<lambda>(key, val) deltas. case WakeEdgeKey_read key of
        None \<Rightarrow> Inr deltas
      | Some edge \<Rightarrow> (case u64_read val of
           None \<Rightarrow> Inl BadSize
         | Some n \<Rightarrow> Inr (if 0 < n then deltas @ [(waker_tgid edge, wakee_tgid edge, n)] else deltas))) kvs [] of
      Inl e \<Rightarrow> no_panic e | Inr s' \<Rightarrow> True"
    by (rule try_fold_safe) (auto split: option.split)
  with d show ?thesis unfolding snapshot_edges_def by (auto split: sum.splits)
qed

lemma apply_merge_safe:
  assumes "steady kinv s0 sk" and "hm_wf tc"
  shows "case apply_merge ko tc p sk of Inl e \<Rightarrow> no_panic e | Inr r \<Rightarrow> steady kinv s0 r"
proof -
  obtain s k where sk: "sk = (s, k)" by (cases sk)
  have inv: "kinv k" using assms(1) sk by (simp add: steady_def)
  let ?k1 = "fold (\<lambda>(tgid, cohort) k. if cohort = m_from p
      then k_try_update ko tgid_cohort_map (u32_bytes tgid) (u64_bytes (m_into p)) F_EXIST k else k) tc k"
  have "kinv ?k1" using relabel_loop [OF inv refl assms(2)] by blast
  then have "kinv (delete_cohort ko (m_from p) ?k1)" using delete_cohort_effect by blast
  with assms(1) show ?thesis
    by (auto simp: sk apply_merge_def lookup [OF inv] steady_def Let_def split: option.splits)
qed

lemma split_off_safe:
  assumes "kinv k"
  shows "case try_fold (split_off_tgid ko new_id) ts k of Inl e \<Rightarrow> no_panic e | Inr k' \<Rightarrow> kinv k'"
proof (rule try_fold_safe [where I = kinv, OF assms])
  fix t k assume k: "kinv k"
  show "case split_off_tgid ko new_id t k of Inl e \<Rightarrow> no_panic e | Inr k' \<Rightarrow> kinv k'"
    using k update_no_panic update_effect [OF k plain_hash_simps(3)]
    by (auto simp: split_off_tgid_def lookup [OF k] split: sum.splits option.splits)
qed

lemma apply_split_safe:
  assumes "kinv (snd sk)"
  shows "case apply_split ko p sk of Inl e \<Rightarrow> no_panic e | Inr r \<Rightarrow> kinv (snd r)"
proof -
  obtain s k where sk: "sk = (s, k)" and inv: "kinv k" using assms by (cases sk) auto
  have u1: "k_update ko cohort_policy key v fl k = Inr k1 \<Longrightarrow> kinv k1" for key v fl k1
    using update_effect [OF inv plain_hash_simps(2)] by blast
  have u2: "kinv k1 \<Longrightarrow> k_update ko cohort_counters key v fl k1 = Inr k2 \<Longrightarrow> kinv k2" for key v fl k1 k2
    using update_effect [OF _ plain_hash_simps(1)] by blast
  have u3: "kinv k2 \<Longrightarrow> try_fold (split_off_tgid ko i) ts k2 = Inl e \<Longrightarrow> no_panic e"
    "kinv k2 \<Longrightarrow> try_fold (split_off_tgid ko i) ts k2 = Inr k3 \<Longrightarrow> kinv k3" for i ts k2 k3 e
    using split_off_safe [of k2 i ts] by auto
  show ?thesis
    using inv unfolding sk apply_split_def Let_def
    by (auto simp: lookup [OF inv] split: sum.splits option.splits dest: update_no_panic
        intro: u3(1) [OF u2 [OF u1]] u3(2) [OF u2 [OF u1]])
qed

lemma cohort_members_wf: "hm_wf (cohort_members_of sizes counts tc)"
proof -
  have "hm_wf acc \<Longrightarrow> hm_wf (fold (\<lambda>(tgid, cohort) ct. if hm_contains sizes cohort
      then hm_entry cohort [] (\<lambda>ms. ms @ [(tgid, case hm_get counts tgid of Some n \<Rightarrow> n | None \<Rightarrow> 0)]) ct else ct) tc acc)" for acc
    by (induction tc arbitrary: acc) auto
  then show ?thesis by (simp add: cohort_members_of_def)
qed

lemma merges_streak: "split_streak (fst (merges tc sizes g)) = split_streak g"
  by (simp add: merges_def case_prod_unfold Let_def)

lemma discover_safe:
  assumes "kinv k" and "hm_wf (split_streak (wake_graph s))" and "hm_wf tc"
  shows "case discover_relationships env ko cohorts tasks tc k s of Inl e \<Rightarrow> no_panic e | Inr r \<Rightarrow> kinv (snd r)"
proof (cases "snapshot_edges ko k")
  case (Inl e)
  then show ?thesis using snapshot_edges_safe [OF assms(1)] by (simp add: discover_relationships_def)
next
  case (Inr r)
  then obtain deltas k1 where r: "r = (deltas, k1)" and k1: "kinv k1"
    using snapshot_edges_safe [OF assms(1)] by (cases r) auto
  define g where "g = observe deltas (interval_secs (interval_ms s)) (sample_mult s) (wake_graph s)"
  define sizes where "sizes = cohort_sizes_of cohorts"
  obtain g1 plans where m: "merges tc sizes (g\<lparr> edges := hm_iter (e_pri_edge env) (edges g) \<rparr>) = (g1, plans)" by fastforce
  have streak: "hm_wf (split_streak g1)"
    using merges_streak [of tc sizes "g\<lparr> edges := hm_iter (e_pri_edge env) (edges g) \<rparr>", unfolded m] assms(2)
    by (simp add: g_def)
  have disc: "discover_relationships env ko cohorts tasks tc k s =
    (case try_fold (apply_merge ko tc) plans (s\<lparr> wake_graph := g1 \<rparr>, k1) of
       Inl e \<Rightarrow> Inl e
     | Inr (s, k) \<Rightarrow>
         let members = cohort_members_of sizes (tgid_task_counts tasks) tc
         in case splits (e_pri32 env) (hm_iter (e_pri64 env) members) (wake_graph s) of
              Inl p \<Rightarrow> Inl (Panicked p)
            | Inr (g, off) \<Rightarrow> try_fold (apply_split ko) off (s\<lparr> wake_graph := g \<rparr>, k))"
    unfolding discover_relationships_def Inr r by (simp add: g_def [symmetric] sizes_def [symmetric] m Let_def)
  have st: "steady kinv (s\<lparr> wake_graph := g1 \<rparr>) (s\<lparr> wake_graph := g1 \<rparr>, k1)" using k1 by (simp add: steady_def)
  have "case try_fold (apply_merge ko tc) plans (s\<lparr> wake_graph := g1 \<rparr>, k1) of
      Inl e \<Rightarrow> no_panic e | Inr r \<Rightarrow> steady kinv (s\<lparr> wake_graph := g1 \<rparr>) r"
    by (rule try_fold_safe [where I = "steady kinv (s\<lparr> wake_graph := g1 \<rparr>)", OF st]) (rule apply_merge_safe [OF _ assms(3)])
  note merged = this
  show ?thesis
  proof (cases "try_fold (apply_merge ko tc) plans (s\<lparr> wake_graph := g1 \<rparr>, k1)")
    case (Inl e)
    then show ?thesis using merged by (simp add: disc)
  next
    case (Inr sk)
    then obtain s2 k2 where sk: "sk = (s2, k2)" and k2: "kinv k2" and g2: "wake_graph s2 = g1"
      using merged by (cases sk) (auto simp: steady_def)
    obtain streaks off where sp: "splits (e_pri32 env) (hm_iter (e_pri64 env)
        (cohort_members_of sizes (tgid_task_counts tasks) tc)) g1 = Inr (g1\<lparr> split_streak := streaks \<rparr>, off)"
      by (rule splits_verdicts [OF hm_wf_iter [THEN iffD2, OF cohort_members_wf] streak])
    have "case try_fold (apply_split ko) off (s2\<lparr> wake_graph := g1\<lparr> split_streak := streaks \<rparr> \<rparr>, k2) of
        Inl e \<Rightarrow> no_panic e | Inr r \<Rightarrow> kinv (snd r)"
      by (rule try_fold_safe [where I = "\<lambda>r. kinv (snd r)"]) (use k2 apply_split_safe in auto)
    then show ?thesis by (simp add: disc Inr sk g2 sp Let_def)
  qed
qed

lemma llc_loads_safe:
  assumes "steady kinv s0 (s, k)"
  shows "case llc_loads ko k s of Inl e \<Rightarrow> no_panic e | Inr (llcs, s') \<Rightarrow> steady kinv s0 (s', k)"
proof -
  have inv: "kinv k" using assms by (simp add: steady_def)
  have "case try_fold (llc_row ko k ns) xs acc of Inl e \<Rightarrow> no_panic e | Inr r \<Rightarrow> True" for ns xs acc
    by (rule try_fold_safe) (auto simp: llc_row_def lookup [OF inv] Let_def split: prod.split)
  from this [of "interval_ns (interval_ms s)" "llc_cpus s" "([], prev_llc_load s)"] show ?thesis
    using assms by (auto simp: llc_loads_def steady_def split: sum.splits prod.splits)
qed

text \<open>The planners return on well-formed snapshots.\<close>

lemma plan_returns: "\<exists>b' ds. plan now llcs cohorts b = Inr (b', ds)"
  unfolding plan_cases by (cases "min_by_key (\<lambda>c. (repaired_gap (load_gap llcs) c, c_load_ns c)) (candidates b now llcs cohorts)") simp_all

lemma plan_spills_returns:
  assumes "llcs_wf llcs" and "tasks_wf tasks" and "cohorts_wf cohorts"
  shows "\<exists>d. plan_spills cfg llcs cohorts tasks current = Inr d"
proof (cases "length llcs < 2")
  case True
  then show ?thesis by (simp add: plan_spills_def)
next
  case False
  then have two: "2 \<le> length llcs" by simp
  show ?thesis by (rule plan_spills_get [OF assms(1) two assms(2,3), of cfg current]) (rule exI)
qed

text \<open>The second half of the tick, from the LLC loads on.\<close>

lemma later_stages_safe:
  assumes "steady kinv s0 (s, k)" and "hm_wf (llc_cpus s0)" and "hm_wf (split_streak (wake_graph s0))"
    and "tasks_wf tasks" and "cohorts_wf cohorts" and "hm_wf tc"
  shows "case (case llc_loads ko k s of Inl e \<Rightarrow> Inl e | Inr (llcs, s) \<Rightarrow>
      (case plan now llcs cohorts (balancer s) of Inl p \<Rightarrow> Inl (Panicked p) | Inr (b, decisions) \<Rightarrow>
      (case apply_decisions ko decisions k (s\<lparr> balancer := b \<rparr>) of Inl e \<Rightarrow> Inl e | Inr (s, k) \<Rightarrow>
      (case plan_spills (spill_cfg s) llcs cohorts tasks (current_spills s) of Inl p \<Rightarrow> Inl (Panicked p) | Inr desired \<Rightarrow>
      (case apply_spills env ko desired k s of Inl e \<Rightarrow> Inl e | Inr (s, k) \<Rightarrow>
      (case discover_relationships env ko cohorts tasks tc k s of Inl e \<Rightarrow> Inl e | Inr (s, k) \<Rightarrow>
       Inr ((cohorts, llcs), s\<lparr> last_tasks := tasks \<rparr>, k))))))) of Inl e \<Rightarrow> no_panic e | Inr _ \<Rightarrow> True"
proof (cases "llc_loads ko k s")
  case (Inl e)
  then show ?thesis using llc_loads_safe [OF assms(1)] by simp
next
  case r1: (Inr r)
  obtain llcs s1 where r: "r = (llcs, s1)" by (cases r)
  have st1: "steady kinv s0 (s1, k)" using llc_loads_safe [OF assms(1)] by (simp add: r1 r)
  have "hm_wf (llc_cpus s)" using assms(1,2) by (simp add: steady_def)
  then have wfl: "llcs_wf llcs" using llc_loads_wf [of ko k s llcs s1] r1 r by simp
  obtain b ds where p: "plan now llcs cohorts (balancer s1) = Inr (b, ds)" using plan_returns by blast
  have st2: "steady kinv s0 (s1\<lparr> balancer := b \<rparr>, k)" using st1 by (simp add: steady_def)
  show ?thesis
  proof (cases "apply_decisions ko ds k (s1\<lparr> balancer := b \<rparr>)")
    case (Inl e)
    then show ?thesis using apply_decisions_safe [OF st2, of ds] by (simp add: r1 r p)
  next
    case r2: (Inr r2)
    obtain s2 k2 where r2': "r2 = (s2, k2)" by (cases r2)
    have st3: "steady kinv s0 (s2, k2)" using apply_decisions_safe [OF st2, of ds] by (simp add: r2 r2')
    obtain d where d: "plan_spills (spill_cfg s2) llcs cohorts tasks (current_spills s2) = Inr d"
      using plan_spills_returns [OF wfl assms(4,5)] by blast
    show ?thesis
    proof (cases "apply_spills env ko d k2 s2")
      case (Inl e)
      then show ?thesis using apply_spills_safe [OF st3, of env d] by (simp add: r1 r p r2 r2' d)
    next
      case r3: (Inr r3)
      obtain s3 k3 where r3': "r3 = (s3, k3)" by (cases r3)
      have st4: "steady kinv s0 (s3, k3)" using apply_spills_safe [OF st3, of env d] by (simp add: r3 r3')
      then have "kinv k3" "hm_wf (split_streak (wake_graph s3))" using assms(3) by (auto simp: steady_def)
      from discover_safe [OF this assms(6), of env cohorts tasks] show ?thesis
        by (simp add: r1 r p r2 r2' d r3 r3' split: sum.splits prod.splits)
    qed
  qed
qed

lemma tick_no_panic:
  assumes "kinv k" and "hm_wf (llc_cpus s)" and "hm_wf (split_streak (wake_graph s))"
  shows "tick env ko k s \<noteq> Inl (Panicked p)"
proof -
  have "case tick env ko k s of Inl e \<Rightarrow> no_panic e | Inr _ \<Rightarrow> True"
  proof (cases "snapshot_tasks ko k s")
    case (Inl e)
    then show ?thesis using snapshot_tasks_safe [OF assms(1), of s] by (simp add: tick_def)
  next
    case r1: (Inr r)
    obtain tasks s1 where t: "r = (tasks, s1)" by (cases r)
    have wft: "tasks_wf tasks" and st1: "steady kinv s (s1, k)"
      using snapshot_tasks_safe [OF assms(1), of s] by (auto simp: r1 t)
    show ?thesis
    proof (cases "snapshot_tgid_cohort ko k")
      case (Inl e)
      then show ?thesis using snapshot_tgid_cohort_safe [OF assms(1)] by (simp add: tick_def r1 t)
    next
      case r2: (Inr tc)
      have wftc: "hm_wf tc" using snapshot_tgid_cohort_safe [OF assms(1)] by (simp add: r2)
      show ?thesis
      proof (cases "apply_rules env ko tasks k s1")
        case (Inl e)
        then show ?thesis using apply_rules_safe [OF st1, of env tasks] by (simp add: tick_def r1 t r2)
      next
        case r3: (Inr r)
        then obtain s2 k2 where r3': "r = (s2, k2)" "steady kinv s (s2, k2)"
          using apply_rules_safe [OF st1, of env tasks] by (cases r) auto
        then have k2: "kinv k2" by (simp add: steady_def)
        obtain cohorts s3 k3 where r4: "snapshot_cohorts ko tasks tc k2 s2 = Inr (cohorts, s3, k3)"
          by (rule snapshot_cohorts_total [OF k2])
        have wfc: "cohorts_wf cohorts" and k3: "kinv k3"
          using snapshot_cohorts_wf [OF k2 r4] snapshot_cohorts_effect [OF k2 r4] by blast+
        have st3: "steady kinv s (s3, k3)"
          using r4 r3'(2) k3 by (auto simp: snapshot_cohorts_def steady_def split: sum.splits)
        obtain s4 k4 where r5: "gc_tgid_map ko tc tasks k3 s3 = (s4, k4)" by fastforce
        have st4: "steady kinv s (s4, k4)" using gc_tgid_map_effect [OF k3 r5] st3 by (simp add: steady_def)
        have later: "case (case llc_loads ko k4 s4 of Inl e \<Rightarrow> Inl e | Inr (llcs, s) \<Rightarrow>
            (case plan (e_now_ms env) llcs cohorts (balancer s) of Inl p \<Rightarrow> Inl (Panicked p) | Inr (b, decisions) \<Rightarrow>
            (case apply_decisions ko decisions k4 (s\<lparr> balancer := b \<rparr>) of Inl e \<Rightarrow> Inl e | Inr (s, k) \<Rightarrow>
            (case plan_spills (spill_cfg s) llcs cohorts tasks (current_spills s) of Inl p \<Rightarrow> Inl (Panicked p) | Inr desired \<Rightarrow>
            (case apply_spills env ko desired k s of Inl e \<Rightarrow> Inl e | Inr (s, k) \<Rightarrow>
            (case discover_relationships env ko cohorts tasks tc k s of Inl e \<Rightarrow> Inl e | Inr (s, k) \<Rightarrow>
             Inr ((cohorts, llcs), s\<lparr> last_tasks := tasks \<rparr>, k))))))) of Inl e \<Rightarrow> no_panic e | Inr _ \<Rightarrow> True"
          by (rule later_stages_safe [OF st4 assms(2,3) wft wfc wftc])
        then show ?thesis unfolding tick_def by (simp add: r1 t r2 r3 r3' r4 r5)
      qed
    qed
  qed
  then show ?thesis by (auto simp: no_panic_def)
qed

end

end
