(* ===== verification/Interval_Counters.thy ===== *)
theory Interval_Counters
  imports Cohort_Prelude
begin

text \<open>
  Cumulative counters read once per interval. The daemon turns BPF counters that only grow into
  per-tick amounts by remembering the last value and subtracting with saturation: the load of an
  LLC, and every counter of the metrics reader. The locale states what such a reader is, and its
  lemma that the amounts of a run add up to the growth of the counter, with nothing lost or
  counted twice between intervals.
\<close>

fun amounts :: "('i \<Rightarrow> 's \<Rightarrow> 's \<times> nat) \<Rightarrow> 'i list \<Rightarrow> 's \<Rightarrow> nat list" where
  "amounts read [] s = []"
| "amounts read (i # is) s = snd (read i s) # amounts read is (fst (read i s))"

locale interval_counter =
  fixes read :: "'i \<Rightarrow> 's \<Rightarrow> 's \<times> nat"
    and inv :: "'s \<Rightarrow> bool"
    and valid :: "'i \<Rightarrow> bool"
    and reading :: "'i \<Rightarrow> nat"
    and remembered :: "'s \<Rightarrow> nat option"
  assumes inv_read: "inv s \<Longrightarrow> valid i \<Longrightarrow> inv (fst (read i s))"
    and remembers: "inv s \<Longrightarrow> valid i \<Longrightarrow> remembered (fst (read i s)) = Some (reading i)"
    and amount: "inv s \<Longrightarrow> valid i \<Longrightarrow> snd (read i s) = (case remembered s of Some p \<Rightarrow> reading i - p | None \<Rightarrow> 0)"
begin

lemma amounts_from:
  assumes "inv s" and "\<forall>i \<in> set is. valid i" and "remembered s = Some p" and "sorted (p # map reading is)"
  shows "sum_list (amounts read is s) = last (p # map reading is) - p"
  using assms
proof (induction "is" arbitrary: s p)
  case (Cons i "is")
  have v: "valid i" using Cons.prems(2) by simp
  have IH: "sum_list (amounts read is (fst (read i s))) = last (reading i # map reading is) - reading i"
    using Cons.prems v by (intro Cons.IH) (auto simp: inv_read remembers)
  have "p \<le> reading i" "reading i \<le> last (reading i # map reading is)"
    using Cons.prems(4) by (auto simp: last_map)
  with IH amount [OF Cons.prems(1) v] Cons.prems(3) show ?case by auto
qed simp

text \<open>The first reading only sets the base.\<close>

lemma amounts_total:
  assumes "inv s" and "\<forall>j \<in> set (i # is). valid j" and "remembered s = None" and "sorted (map reading (i # is))"
  shows "sum_list (amounts read (i # is) s) = last (map reading (i # is)) - reading i"
proof -
  have v: "valid i" using assms(2) by simp
  have "sum_list (amounts read is (fst (read i s))) = last (reading i # map reading is) - reading i"
    using assms(2,4) by (intro amounts_from) (auto simp: inv_read [OF assms(1) v] remembers [OF assms(1) v])
  with amount [OF assms(1) v] assms(3) show ?thesis by simp
qed

end

end
