(* ===== verification/Stats_View.thy ===== *)
theory Stats_View
  imports Daemon_Snapshots Interval_Counters
begin

text \<open>
  The metrics the daemon serves (\<open>scx_cohort/src/stats.rs\<close>) and the functions of \<open>main.rs\<close> that
  fill them: cumulative counters, the per-interval difference a reader returns, the affinity
  percentage and the per-process view behind \<open>scx_cohort top\<close>. The stats server of \<open>scx_stats\<close> and
  the JSON encoding are not modelled; a reader is the state its closure captures. \<open>usize\<close> is 64 bits.
\<close>

section \<open>Metrics\<close>

record LlcMetrics =
  lm_util :: f64
  lm_nr_cohorts :: u64

record Metrics =
  mt_nr_cohorts :: u64
  mt_nr_tasks :: u64
  mt_affinity_hit_pct :: f64
  mt_nr_sync_local :: u64
  mt_nr_prev_idle :: u64
  mt_nr_idle_core :: u64
  mt_nr_idle_smt :: u64
  mt_nr_home_miss_clamp :: u64
  mt_nr_enq_home :: u64
  mt_nr_enq_spill :: u64
  mt_nr_steals :: u64
  mt_nr_tctx_errors :: u64
  mt_nr_migrations :: u64
  mt_nr_merges :: u64
  mt_nr_splits :: u64
  mt_nr_spilled :: u64
  mt_llcs :: "(u64, LlcMetrics) hashmap"

definition affinity_pct :: "u64 \<Rightarrow> u64 \<Rightarrow> u64 \<Rightarrow> u64 \<Rightarrow> f64" where
  "affinity_pct direct enq_home enq_spill steals =
     (let home = saturating_sub (direct + enq_home) steals;
          total = direct + enq_home + enq_spill
      in if 0 < total then f_div (f_mul (u64_to_f64 home) (Fin 100)) (u64_to_f64 total) else Fin 100)"

definition Metrics_delta :: "Metrics \<Rightarrow> Metrics \<Rightarrow> Metrics" where
  "Metrics_delta self rhs =
     (let d = self\<lparr>
        mt_nr_sync_local := saturating_sub (mt_nr_sync_local self) (mt_nr_sync_local rhs),
        mt_nr_prev_idle := saturating_sub (mt_nr_prev_idle self) (mt_nr_prev_idle rhs),
        mt_nr_idle_core := saturating_sub (mt_nr_idle_core self) (mt_nr_idle_core rhs),
        mt_nr_idle_smt := saturating_sub (mt_nr_idle_smt self) (mt_nr_idle_smt rhs),
        mt_nr_home_miss_clamp := saturating_sub (mt_nr_home_miss_clamp self) (mt_nr_home_miss_clamp rhs),
        mt_nr_enq_home := saturating_sub (mt_nr_enq_home self) (mt_nr_enq_home rhs),
        mt_nr_enq_spill := saturating_sub (mt_nr_enq_spill self) (mt_nr_enq_spill rhs),
        mt_nr_steals := saturating_sub (mt_nr_steals self) (mt_nr_steals rhs),
        mt_nr_tctx_errors := saturating_sub (mt_nr_tctx_errors self) (mt_nr_tctx_errors rhs),
        mt_nr_migrations := saturating_sub (mt_nr_migrations self) (mt_nr_migrations rhs),
        mt_nr_merges := saturating_sub (mt_nr_merges self) (mt_nr_merges rhs),
        mt_nr_splits := saturating_sub (mt_nr_splits self) (mt_nr_splits rhs) \<rparr>
      in d\<lparr> mt_affinity_hit_pct := affinity_pct
             (mt_nr_sync_local d + mt_nr_prev_idle d + mt_nr_idle_core d + mt_nr_idle_smt d)
             (mt_nr_enq_home d) (mt_nr_enq_spill d) (mt_nr_steals d) \<rparr>)"

section \<open>Collecting the counters\<close>

definition percpu_sum :: "bytes list \<Rightarrow> u64" where
  "percpu_sum vs = sum_list (map (\<lambda>v. case u64_read v of None \<Rightarrow> 0 | Some n \<Rightarrow> n) vs)"

definition stat_slot :: "'k kernel_ops \<Rightarrow> 'k \<Rightarrow> nat \<Rightarrow> u64 list \<Rightarrow> daemon_error + u64 list" where
  "stat_slot ko k idx out =
     (case k_lookup_percpu ko stats_map (u32_bytes (of_nat idx)) k of
        Inl e \<Rightarrow> Inl e
      | Inr None \<Rightarrow> Inr out
      | Inr (Some percpu) \<Rightarrow> Inr (out[idx := percpu_sum percpu]))"

definition read_stat_counters :: "'k kernel_ops \<Rightarrow> 'k \<Rightarrow> daemon_error + u64 list" where
  "read_stat_counters ko k = try_fold (stat_slot ko k) [0 ..< NR_STATS] (replicate NR_STATS 0)"

definition get_metrics :: "'k kernel_ops \<Rightarrow> CohortSnapshot list \<Rightarrow> LlcLoad list \<Rightarrow> 'k \<Rightarrow> Scheduler \<Rightarrow> Metrics" where
  "get_metrics ko cohorts llcs k s =
     (let c = (case read_stat_counters ko k of Inl _ \<Rightarrow> replicate NR_STATS 0 | Inr c \<Rightarrow> c)
      in \<lparr> mt_nr_cohorts = of_nat (length cohorts),
           mt_nr_tasks = sum_list (map c_nr_tasks cohorts),
           mt_affinity_hit_pct = affinity_pct
             (c ! STAT_SYNC_LOCAL + c ! STAT_PREV_IDLE + c ! STAT_IDLE_CORE + c ! STAT_IDLE_SMT)
             (c ! STAT_ENQ_HOME) (c ! STAT_ENQ_SPILL) (c ! STAT_STEAL),
           mt_nr_sync_local = c ! STAT_SYNC_LOCAL,
           mt_nr_prev_idle = c ! STAT_PREV_IDLE,
           mt_nr_idle_core = c ! STAT_IDLE_CORE,
           mt_nr_idle_smt = c ! STAT_IDLE_SMT,
           mt_nr_home_miss_clamp = c ! STAT_HOME_MISS_CLAMP,
           mt_nr_enq_home = c ! STAT_ENQ_HOME,
           mt_nr_enq_spill = c ! STAT_ENQ_SPILL,
           mt_nr_steals = c ! STAT_STEAL,
           mt_nr_tctx_errors = c ! STAT_TCTX_ERR,
           mt_nr_migrations = nr_migrations s,
           mt_nr_merges = nr_merges s,
           mt_nr_splits = nr_splits s,
           mt_nr_spilled = of_nat (length (current_spills s)),
           mt_llcs = bt_collect (map (\<lambda>l. (ucast (l_llc l),
             \<lparr> lm_util = f_div (u64_to_f64 (l_load_ns l)) (u64_to_f64 (max (l_capacity_ns l) 1)),
               lm_nr_cohorts = of_nat (length (filter (\<lambda>c. c_home_llc c = l_llc l) cohorts)) \<rparr>)) llcs) \<rparr>)"

section \<open>The process view\<close>

record ProcRow =
  pr_tgid :: u64
  pr_comm :: string
  pr_threads :: u64
  pr_spilled :: u64
  pr_util_pct :: f64
  pr_affinity_pct :: f64

record CohortRow =
  cr_home_llc :: u64
  cr_pinned :: u64
  cr_tasks :: u64
  cr_util_pct :: f64
  cr_affinity_pct :: f64
  cr_procs :: "(u64, ProcRow) hashmap"

record ProcsSnapshot =
  ps_nr_tasks :: u64
  ps_affinity_pct :: f64
  ps_llc_util_pct :: "(u64, f64) hashmap"
  ps_cohorts :: "(u64, CohortRow) hashmap"

definition pct :: "u64 \<Rightarrow> u64 \<Rightarrow> f64" where
  "pct num den = (if 0 < den then f_div (f_mul (u64_to_f64 num) (Fin 100)) (u64_to_f64 den) else Fin 100)"

text \<open>The body of the inner task loop; the affinity field accumulates nanoseconds here.\<close>

definition add_task :: "(u32, u32) hashmap \<Rightarrow> u64 \<Rightarrow> TaskSnapshot \<Rightarrow> CohortRow \<times> u64 \<times> u64 \<Rightarrow> CohortRow \<times> u64 \<times> u64" where
  "add_task spills tick t = (\<lambda>(row, cohort_duty, cohort_home).
     (row\<lparr> cr_tasks := cr_tasks row + 1,
           cr_procs := bt_entry (ucast (t_tgid t))
             \<lparr> pr_tgid = ucast (t_tgid t), pr_comm = t_comm t, pr_threads = 0, pr_spilled = 0,
               pr_util_pct = Fin 0, pr_affinity_pct = Fin 0 \<rparr>
             (\<lambda>p. p\<lparr> pr_threads := pr_threads p + 1,
                     pr_spilled := pr_spilled p + (if hm_contains spills (t_pid t) then 1 else 0),
                     pr_util_pct := f_add (pr_util_pct p)
                       (f_div (f_mul (u64_to_f64 (t_duty_ns t)) (Fin 100)) (u64_to_f64 tick)),
                     pr_affinity_pct := f_add (pr_affinity_pct p) (u64_to_f64 (t_home_ns t)) \<rparr>)
             (cr_procs row) \<rparr>,
      cohort_duty + t_duty_ns t, cohort_home + t_home_ns t))"

definition finish_proc :: "u64 \<Rightarrow> ProcRow \<Rightarrow> ProcRow" where
  "finish_proc tick p =
     (let duty_ns = f_mul (f_div (pr_util_pct p) (Fin 100)) (u64_to_f64 tick)
      in p\<lparr> pr_affinity_pct :=
              (if f_lt (Fin 0) duty_ns
               then f_min (f_mul (f_div (pr_affinity_pct p) duty_ns) (Fin 100)) (Fin 100)
               else Fin 100) \<rparr>)"

definition procs_row :: "TaskSnapshot list \<Rightarrow> (u32, u32) hashmap \<Rightarrow> u64 \<Rightarrow> CohortSnapshot \<Rightarrow> CohortRow" where
  "procs_row tasks spills tick c =
     (let (row, cohort_duty, cohort_home) = fold (add_task spills tick)
            (filter (\<lambda>t. t_cohort_id t = c_id c) tasks)
            (\<lparr> cr_home_llc = ucast (c_home_llc c), cr_pinned = (if c_pinned c then 1 else 0), cr_tasks = 0,
               cr_util_pct = Fin 0, cr_affinity_pct = Fin 0, cr_procs = [] \<rparr>, 0, 0)
      in row\<lparr> cr_procs := map (\<lambda>(tgid, p). (tgid, finish_proc tick p)) (cr_procs row),
              cr_util_pct := f_div (f_mul (u64_to_f64 cohort_duty) (Fin 100)) (u64_to_f64 tick),
              cr_affinity_pct := pct cohort_home cohort_duty \<rparr>)"

text \<open>\<open>tick\<close> is the interval in nanoseconds, a \<open>u128\<close> in the source.\<close>

definition procs_snapshot :: "CohortSnapshot list \<Rightarrow> TaskSnapshot list \<Rightarrow> LlcLoad list \<Rightarrow> (u32, u32) hashmap \<Rightarrow> nat \<Rightarrow>
    ProcsSnapshot" where
  "procs_snapshot cohorts tasks llcs spills tick =
     (let tick_ns = of_nat (max tick 1) :: u64;
          (total_duty, total_home) = fold (\<lambda>t (d, h). (d + t_duty_ns t, h + t_home_ns t)) tasks (0, 0)
      in \<lparr> ps_nr_tasks = of_nat (length tasks),
           ps_affinity_pct = pct total_home total_duty,
           ps_llc_util_pct = fold (\<lambda>l. bt_insert (ucast (l_llc l))
             (f_div (f_mul (u64_to_f64 (l_load_ns l)) (Fin 100)) (u64_to_f64 (max (l_capacity_ns l) 1)))) llcs [],
           ps_cohorts = fold (\<lambda>c. bt_insert (c_id c) (procs_row tasks spills tick_ns c)) cohorts [] \<rparr>)"

section \<open>The stats readers\<close>

datatype StatsReq = ReqMetrics | ReqProcs
datatype StatsRes = ResMetrics Metrics | ResProcs ProcsSnapshot
datatype stats_error = ChannelClosed | UnexpectedResponse

text \<open>A request over the channels; \<open>None\<close> when the send or the receive fails.\<close>

definition stats_open :: "StatsRes option \<Rightarrow> stats_error + Metrics" where
  "stats_open res =
     (case res of None \<Rightarrow> Inl ChannelClosed | Some (ResMetrics prev) \<Rightarrow> Inr prev | Some (ResProcs _) \<Rightarrow> Inl UnexpectedResponse)"

definition stats_read :: "StatsRes option \<Rightarrow> Metrics \<Rightarrow> stats_error + (Metrics \<times> Metrics)" where
  "stats_read res prev =
     (case res of
        None \<Rightarrow> Inl ChannelClosed
      | Some (ResMetrics cur) \<Rightarrow> Inr (Metrics_delta cur prev, cur)
      | Some (ResProcs _) \<Rightarrow> Inl UnexpectedResponse)"

definition procs_read :: "StatsRes option \<Rightarrow> stats_error + ProcsSnapshot" where
  "procs_read res =
     (case res of None \<Rightarrow> Inl ChannelClosed | Some (ResProcs snapshot) \<Rightarrow> Inr snapshot | Some (ResMetrics _) \<Rightarrow> Inl UnexpectedResponse)"

section \<open>Percentages\<close>

text \<open>
  A percentage of two counts below \<open>2\<^sup>53 / 100\<close>: the conversions and the product are exact, so the
  result is the exact quotient rounded once, and lies between 0 and 100.
\<close>

lemma pct_nat:
  assumes "a \<le> b" and "0 < b" and "b \<le> 90071992547409"
  shows "f_div (f_mul (to_f64 (of_nat a)) (Fin 100)) (to_f64 (of_nat b)) = to_f64 (of_nat (100 * a) / of_nat b)"
    and "\<exists>q. f_div (f_mul (to_f64 (of_nat a)) (Fin 100)) (to_f64 (of_nat b)) = Fin q \<and> 0 \<le> q \<and> q \<le> 100"
proof -
  have int: "to_f64 (of_nat n) = Fin (of_nat n)" if "n \<le> 2 ^ 53" for n
  proof -
    have "\<bar>int n\<bar> \<le> 2 ^ 53" using that by (metis abs_of_nat of_nat_le_iff of_nat_numeral of_nat_power)
    from f64_round_int [OF this] have r: "f64_round (of_nat n) = of_nat n" by simp
    have "(of_nat n :: rat) \<le> 2 ^ 53" using that by (metis of_nat_le_iff of_nat_numeral of_nat_power)
    then have "\<bar>of_nat n :: rat\<bar> \<le> 2 ^ 53" by simp
    from to_f64_range(1) [OF this] r show ?thesis by simp
  qed
  have ab: "to_f64 (of_nat a) = Fin (of_nat a)" "to_f64 (of_nat b) = Fin (of_nat b)"
    "to_f64 (of_nat (100 * a)) = Fin (of_nat (100 * a))"
    by (rule int, use assms in simp)+
  let ?q = "of_nat (100 * a) / of_nat b :: rat"
  show e: "f_div (f_mul (to_f64 (of_nat a)) (Fin 100)) (to_f64 (of_nat b)) = to_f64 ?q"
    using assms(2) ab(3) unfolding ab(1,2) by (simp add: mult.commute)
  have q: "0 \<le> ?q" "?q \<le> 100" using assms(1,2) by (simp_all add: divide_le_eq)
  then have "\<bar>?q\<bar> \<le> 2 ^ 7" by simp
  from to_f64_range(1) [OF this] have f: "to_f64 ?q = Fin (f64_round ?q)" by simp
  have "f64_round (of_int 100) = of_int 100" by (rule f64_round_int) simp
  then have "f64_round ?q \<le> 100" using q by (intro rnd.le_rep) simp_all
  moreover have "0 \<le> f64_round ?q" using q by (intro rnd.nonneg)
  ultimately show "\<exists>q. f_div (f_mul (to_f64 (of_nat a)) (Fin 100)) (to_f64 (of_nat b)) = Fin q \<and> 0 \<le> q \<and> q \<le> 100"
    unfolding e f by blast
qed

lemma pct_exact:
  assumes "unat num \<le> unat den" and "0 < den" and "unat den \<le> 90071992547409"
  shows "f_div (f_mul (u64_to_f64 num) (Fin 100)) (u64_to_f64 den) =
      to_f64 (of_nat (100 * unat num) / of_nat (unat den))"
    and "\<exists>q. f_div (f_mul (u64_to_f64 num) (Fin 100)) (u64_to_f64 den) = Fin q \<and> 0 \<le> q \<and> q \<le> 100"
  using pct_nat [of "unat num" "unat den"] assms
  by (simp_all only: u64_to_f64_def unat_gt_0 word_neq_0_conv simp_thms)

text \<open>
  The headline percentage. As long as fewer than \<open>2\<^sup>53 / 100\<close> placements were counted, the
  affinity rate is the exact percentage of placements that ended on the home CCD, a stolen task
  taken off the home side and kept in the total, rounded once to binary64; it is never below 0 nor
  above 100, and an interval without placements reads 100.
\<close>

lemma affinity_pct_correct:
  assumes "unat direct + unat enq_home + unat enq_spill \<le> 90071992547409"
  defines "n \<equiv> unat direct + unat enq_home + unat enq_spill"
  shows "affinity_pct direct enq_home enq_spill steals =
      (if n = 0 then Fin 100
       else to_f64 (of_nat (100 * (unat direct + unat enq_home - unat steals)) / of_nat n)) \<and>
    (\<exists>q. affinity_pct direct enq_home enq_spill steals = Fin q \<and> 0 \<le> q \<and> q \<le> 100)"
proof -
  have s: "unat (direct + enq_home) = unat direct + unat enq_home"
    using assms(1) by (subst unat_add_lem [THEN iffD1]) simp_all
  have t: "unat (direct + enq_home + enq_spill) = n"
    using assms(1) unfolding n_def by (subst unat_add_lem [THEN iffD1]) (simp_all add: s)
  let ?home = "saturating_sub (direct + enq_home) steals"
  show ?thesis
  proof (cases "n = 0")
    case True
    then have "direct + enq_home + enq_spill = 0" using t by (simp add: unat_eq_0)
    with True show ?thesis by (simp add: affinity_pct_def Let_def)
  next
    case False
    then have pos: "0 < direct + enq_home + enq_spill" using t by (metis unat_eq_0 word_neq_0_conv)
    have le: "unat ?home \<le> unat (direct + enq_home + enq_spill)" by (simp add: s t n_def)
    have b: "unat (direct + enq_home + enq_spill) \<le> 90071992547409" using assms(1) t n_def by simp
    from pct_exact [OF le pos b] False pos show ?thesis
      by (simp add: affinity_pct_def Let_def s t)
  qed
qed

text \<open>An instance.\<close>

lemma affinity_pct_correct_witness: "affinity_pct 6 2 2 3 = Fin 50 \<and> affinity_pct 0 0 0 0 = Fin 100"
  using affinity_pct_correct [of 6 2 2 3] affinity_pct_correct [of 0 0 0 0] by simp

section \<open>A session of the metrics reader\<close>

text \<open>The counters a reader reports per interval.\<close>

datatype metric =
    SyncLocal | PrevIdle | IdleCore | IdleSmt | HomeMissClamp | EnqHome | EnqSpill | Steals | TctxErrors
  | Migrations | Merges | Splits

fun metric_value :: "metric \<Rightarrow> Metrics \<Rightarrow> u64" where
  "metric_value SyncLocal m = mt_nr_sync_local m"
| "metric_value PrevIdle m = mt_nr_prev_idle m"
| "metric_value IdleCore m = mt_nr_idle_core m"
| "metric_value IdleSmt m = mt_nr_idle_smt m"
| "metric_value HomeMissClamp m = mt_nr_home_miss_clamp m"
| "metric_value EnqHome m = mt_nr_enq_home m"
| "metric_value EnqSpill m = mt_nr_enq_spill m"
| "metric_value Steals m = mt_nr_steals m"
| "metric_value TctxErrors m = mt_nr_tctx_errors m"
| "metric_value Migrations m = mt_nr_migrations m"
| "metric_value Merges m = mt_nr_merges m"
| "metric_value Splits m = mt_nr_splits m"

lemma metric_delta [simp]:
  "metric_value c (Metrics_delta cur prev) = saturating_sub (metric_value c cur) (metric_value c prev)"
  by (cases c) (simp_all add: Metrics_delta_def Let_def)

interpretation metric: interval_counter
  "\<lambda>cur prev. (cur, unat (metric_value c (Metrics_delta cur prev)))" "\<lambda>_. True" "\<lambda>_. True"
  "\<lambda>m. unat (metric_value c m)" "\<lambda>m. Some (unat (metric_value c m))" for c
  by unfold_locales simp_all

text \<open>Successive reads over the responses of the scheduler loop; an error ends the session.\<close>

fun stats_session :: "StatsRes option list \<Rightarrow> Metrics \<Rightarrow> stats_error + Metrics list" where
  "stats_session [] prev = Inr []"
| "stats_session (r # rs) prev =
     (case stats_read r prev of
        Inl e \<Rightarrow> Inl e
      | Inr (d, prev) \<Rightarrow> (case stats_session rs prev of Inl e \<Rightarrow> Inl e | Inr ds \<Rightarrow> Inr (d # ds)))"

lemma stats_session_deltas:
  "\<exists>ds. stats_session (map (Some \<circ> ResMetrics) ms) prev = Inr ds \<and> length ds = length ms \<and>
     (\<forall>c. map (\<lambda>d. unat (metric_value c d)) ds =
        amounts (\<lambda>cur prev. (cur, unat (metric_value c (Metrics_delta cur prev)))) ms prev) \<and>
     (\<forall>d \<in> set ds. mt_affinity_hit_pct d = affinity_pct
        (mt_nr_sync_local d + mt_nr_prev_idle d + mt_nr_idle_core d + mt_nr_idle_smt d)
        (mt_nr_enq_home d) (mt_nr_enq_spill d) (mt_nr_steals d))"
proof (induction ms arbitrary: prev)
  case (Cons m ms)
  have "mt_affinity_hit_pct (Metrics_delta m prev) = (let d = Metrics_delta m prev in affinity_pct
        (mt_nr_sync_local d + mt_nr_prev_idle d + mt_nr_idle_core d + mt_nr_idle_smt d)
        (mt_nr_enq_home d) (mt_nr_enq_spill d) (mt_nr_steals d))"
    by (simp add: Metrics_delta_def Let_def)
  with Cons.IH [of m] show ?case by (auto simp: stats_read_def Let_def)
qed simp

text \<open>
  C38. A metrics reader loses nothing between intervals. A session opened on one response and fed
  growing ones always answers, once per response; for each of the twelve counters the amounts it
  reports add up to the growth of the counter since it was opened, and every report's affinity
  percentage is that of its own interval, not of the time since attach.
\<close>

theorem stats_session_telescopes:
  assumes "stats_open (Some (ResMetrics m0)) = Inr prev"
    and "\<forall>c. sorted (map (\<lambda>m. unat (metric_value c m)) (m0 # ms))"
  shows "\<exists>ds. stats_session (map (Some \<circ> ResMetrics) ms) prev = Inr ds \<and> length ds = length ms \<and>
    (\<forall>c. (\<Sum>d \<leftarrow> ds. unat (metric_value c d)) = unat (metric_value c (last (m0 # ms))) - unat (metric_value c m0)) \<and>
    (\<forall>d \<in> set ds. mt_affinity_hit_pct d = affinity_pct
      (mt_nr_sync_local d + mt_nr_prev_idle d + mt_nr_idle_core d + mt_nr_idle_smt d)
      (mt_nr_enq_home d) (mt_nr_enq_spill d) (mt_nr_steals d))"
proof -
  have prev: "prev = m0" using assms(1) by (simp add: stats_open_def)
  have "sum_list (amounts (\<lambda>cur prev. (cur, unat (metric_value c (Metrics_delta cur prev)))) ms m0) =
      last (unat (metric_value c m0) # map (\<lambda>m. unat (metric_value c m)) ms) - unat (metric_value c m0)" for c
    using assms(2) by (intro metric.amounts_from) auto
  then have "sum_list (amounts (\<lambda>cur prev. (cur, unat (metric_value c (Metrics_delta cur prev)))) ms m0) =
      unat (metric_value c (last (m0 # ms))) - unat (metric_value c m0)" for c
    by (simp add: last_map)
  note total = this
  from stats_session_deltas [of ms m0] show ?thesis unfolding prev
    by (elim exE conjE) (intro exI conjI allI, assumption+, simp only: total, assumption)
qed

definition demo_metrics :: "u64 \<Rightarrow> u64 \<Rightarrow> Metrics" where
  "demo_metrics h st =
     \<lparr> mt_nr_cohorts = 1, mt_nr_tasks = 2, mt_affinity_hit_pct = Fin 100, mt_nr_sync_local = 0, mt_nr_prev_idle = 0,
       mt_nr_idle_core = 0, mt_nr_idle_smt = 0, mt_nr_home_miss_clamp = 0, mt_nr_enq_home = h, mt_nr_enq_spill = 0,
       mt_nr_steals = st, mt_nr_tctx_errors = 0, mt_nr_migrations = 0, mt_nr_merges = 0, mt_nr_splits = 0,
       mt_nr_spilled = 0, mt_llcs = [] \<rparr>"

text \<open>Witness of C38.\<close>

theorem stats_session_telescopes_witness:
  "\<exists>ds. stats_session (map (Some \<circ> ResMetrics) [demo_metrics 12 2, demo_metrics 20 5]) (demo_metrics 10 2) = Inr ds \<and>
     (\<Sum>d \<leftarrow> ds. unat (metric_value EnqHome d)) = 10 \<and> (\<Sum>d \<leftarrow> ds. unat (metric_value Steals d)) = 3"
proof -
  have "sorted (map (\<lambda>m. unat (metric_value c m)) [demo_metrics 10 2, demo_metrics 12 2, demo_metrics 20 5])" for c
    by (cases c) (simp_all add: demo_metrics_def)
  from stats_session_telescopes [of "demo_metrics 10 2" "demo_metrics 10 2" "[demo_metrics 12 2, demo_metrics 20 5]"] this
  obtain ds where "stats_session (map (Some \<circ> ResMetrics) [demo_metrics 12 2, demo_metrics 20 5]) (demo_metrics 10 2) = Inr ds"
    "\<forall>c. (\<Sum>d \<leftarrow> ds. unat (metric_value c d)) = unat (metric_value c (demo_metrics 20 5)) - unat (metric_value c (demo_metrics 10 2))"
    by (auto simp: stats_open_def)
  note s = this
  have "(\<Sum>d \<leftarrow> ds. unat (metric_value EnqHome d)) = 10" "(\<Sum>d \<leftarrow> ds. unat (metric_value Steals d)) = 3"
    using s(2) [rule_format, of EnqHome] s(2) [rule_format, of Steals] by (simp_all add: demo_metrics_def)
  with s(1) show ?thesis by blast
qed

section \<open>The process view\<close>

text \<open>One thread's contribution to its process row, and the row a process starts with.\<close>

definition proc_add :: "(u32, u32) hashmap \<Rightarrow> u64 \<Rightarrow> TaskSnapshot \<Rightarrow> ProcRow \<Rightarrow> ProcRow" where
  "proc_add spills tick t p = p\<lparr> pr_threads := pr_threads p + 1,
     pr_spilled := pr_spilled p + (if hm_contains spills (t_pid t) then 1 else 0),
     pr_util_pct := f_add (pr_util_pct p) (f_div (f_mul (u64_to_f64 (t_duty_ns t)) (Fin 100)) (u64_to_f64 tick)),
     pr_affinity_pct := f_add (pr_affinity_pct p) (u64_to_f64 (t_home_ns t)) \<rparr>"

definition proc_start :: "TaskSnapshot \<Rightarrow> ProcRow" where
  "proc_start t = \<lparr> pr_tgid = ucast (t_tgid t), pr_comm = t_comm t, pr_threads = 0, pr_spilled = 0,
     pr_util_pct = Fin 0, pr_affinity_pct = Fin 0 \<rparr>"

abbreviation threads_of :: "TaskSnapshot list \<Rightarrow> u32 \<Rightarrow> TaskSnapshot list" where
  "threads_of ts g \<equiv> filter (\<lambda>t. t_tgid t = g) ts"

lemma ucast_u64_inj [simp]: "(ucast (a :: u32) :: u64) = ucast b \<longleftrightarrow> a = b"
  by transfer simp

lemma add_task_row:
  "add_task spills tick t (row, d, h) =
     (row\<lparr> cr_tasks := cr_tasks row + 1,
           cr_procs := bt_entry (ucast (t_tgid t)) (proc_start t) (proc_add spills tick t) (cr_procs row) \<rparr>,
      d + t_duty_ns t, h + t_home_ns t)"
  by (simp add: add_task_def proc_add_def [abs_def] proc_start_def)

lemma add_tasks:
  assumes "bt_wf (cr_procs row)" and "fold (add_task spills tick) ts (row, d, h) = (row', d', h')"
  shows "bt_wf (cr_procs row') \<and> cr_home_llc row' = cr_home_llc row \<and> cr_pinned row' = cr_pinned row \<and>
    cr_tasks row' = cr_tasks row + of_nat (length ts) \<and>
    d' = d + sum_list (map t_duty_ns ts) \<and> h' = h + sum_list (map t_home_ns ts) \<and>
    (\<forall>g. hm_get (cr_procs row') (ucast g) =
       (case threads_of ts g of
          [] \<Rightarrow> hm_get (cr_procs row) (ucast g)
        | t # us \<Rightarrow> Some (fold (proc_add spills tick) (t # us)
            (case hm_get (cr_procs row) (ucast g) of None \<Rightarrow> proc_start t | Some p \<Rightarrow> p)))) \<and>
    fst ` set (cr_procs row') = fst ` set (cr_procs row) \<union> (\<lambda>t. ucast (t_tgid t)) ` set ts"
  using assms
proof (induction ts arbitrary: row d h)
  case (Cons t ts)
  let ?row1 = "row\<lparr> cr_tasks := cr_tasks row + 1,
     cr_procs := bt_entry (ucast (t_tgid t)) (proc_start t) (proc_add spills tick t) (cr_procs row) \<rparr>"
  have wf: "bt_wf (cr_procs ?row1)" using Cons.prems(1) by simp
  have get: "hm_get (cr_procs ?row1) = (hm_get (cr_procs row))(ucast (t_tgid t) \<mapsto>
      proc_add spills tick t (case hm_get (cr_procs row) (ucast (t_tgid t)) of None \<Rightarrow> proc_start t | Some p \<Rightarrow> p))"
    by (intro ext) (simp add: bt_get_entry [OF Cons.prems(1)])
  have keys: "fst ` set (cr_procs ?row1) = insert (ucast (t_tgid t)) (fst ` set (cr_procs row))"
    unfolding dom_map_of_conv_image_fst [symmetric] get by simp
  have "fold (add_task spills tick) ts (?row1, d + t_duty_ns t, h + t_home_ns t) = (row', d', h')"
    using Cons.prems(2) by (simp add: add_task_row)
  note IH = Cons.IH [OF wf this, unfolded keys get]
  have "hm_get (cr_procs row') (ucast g) = (case threads_of (t # ts) g of
      [] \<Rightarrow> hm_get (cr_procs row) (ucast g)
    | u # us \<Rightarrow> Some (fold (proc_add spills tick) (u # us)
        (case hm_get (cr_procs row) (ucast g) of None \<Rightarrow> proc_start u | Some p \<Rightarrow> p)))" for g
  proof (cases "t_tgid t = g")
    case True
    then show ?thesis using IH by (auto split: list.split)
  next
    case False
    then show ?thesis using IH by (cases "threads_of ts g") auto
  qed
  with IH show ?case by (auto simp: add.assoc)
qed simp

lemma fold_proc_add:
  "pr_tgid (fold (proc_add spills tick) ts p) = pr_tgid p \<and> pr_comm (fold (proc_add spills tick) ts p) = pr_comm p \<and>
   pr_threads (fold (proc_add spills tick) ts p) = pr_threads p + of_nat (length ts) \<and>
   pr_spilled (fold (proc_add spills tick) ts p) =
     pr_spilled p + of_nat (length (filter (\<lambda>t. hm_contains spills (t_pid t)) ts))"
  by (induction ts arbitrary: p) (simp_all add: proc_add_def)

text \<open>Percentages built from non-negative numbers stay between 0 and 100.\<close>

definition f_nonneg :: "f64 \<Rightarrow> bool" where
  "f_nonneg x = (case x of Fin q \<Rightarrow> 0 \<le> q | PInf \<Rightarrow> True | _ \<Rightarrow> False)"

lemma to_f64_nonneg: "0 \<le> q \<Longrightarrow> f_nonneg (to_f64 q)"
  using rnd.nonneg [of q] by (auto simp: f_nonneg_def to_f64_def Let_def)

lemma u64_f64_pos:
  assumes "w \<noteq> 0"
  obtains q where "u64_to_f64 w = Fin q" and "1 \<le> q"
proof -
  have "unat w < 2 ^ 64" using unsigned_less [of w, where ?'a = nat] by simp
  then have "(of_nat (unat w) :: rat) \<le> of_nat (2 ^ 64)" by (simp only: of_nat_le_iff)
  then have "\<bar>of_nat (unat w) :: rat\<bar> \<le> 2 ^ 64" by (simp only: abs_of_nat) simp
  from to_f64_range(1) [OF this] have f: "u64_to_f64 w = Fin (f64_round (of_nat (unat w)))"
    unfolding u64_to_f64_def by simp
  have "1 \<le> unat w" using assms by (simp add: unat_gt_0 Suc_le_eq)
  then have "(1 :: rat) \<le> of_nat (unat w)" by (metis of_nat_1 of_nat_le_iff)
  then have "1 \<le> f64_round (of_nat (unat w))" by (intro rnd.rep_le) (simp_all add: rnd.one)
  with f show thesis by (rule that)
qed

lemma f_nonneg_arith:
  "f_nonneg x \<Longrightarrow> f_nonneg y \<Longrightarrow> f_nonneg (f_add x y)"
  "f_nonneg x \<Longrightarrow> 0 < q \<Longrightarrow> f_nonneg (f_mul x (Fin q))"
  "f_nonneg x \<Longrightarrow> 0 < q \<Longrightarrow> f_nonneg (f_div x (Fin q))"
  "f_nonneg (u64_to_f64 w)"
proof -
  show "f_nonneg x \<Longrightarrow> f_nonneg y \<Longrightarrow> f_nonneg (f_add x y)"
    by (cases x; cases y) (auto simp: to_f64_nonneg f_nonneg_def [of "Fin _"] f_nonneg_def [of PInf] f_nonneg_def [of NInf] f_nonneg_def [of NaN])
  show "f_nonneg x \<Longrightarrow> 0 < q \<Longrightarrow> f_nonneg (f_mul x (Fin q))"
    by (cases x) (auto simp: to_f64_nonneg inf_sign_def f_nonneg_def [of "Fin _"] f_nonneg_def [of PInf] f_nonneg_def [of NInf] f_nonneg_def [of NaN])
  show "f_nonneg x \<Longrightarrow> 0 < q \<Longrightarrow> f_nonneg (f_div x (Fin q))"
    by (cases x) (auto simp: to_f64_nonneg inf_sign_def f_nonneg_def [of "Fin _"] f_nonneg_def [of PInf] f_nonneg_def [of NInf] f_nonneg_def [of NaN])
  show "f_nonneg (u64_to_f64 w)" unfolding u64_to_f64_def by (rule to_f64_nonneg) (rule of_nat_0_le_iff)
qed

lemma f_min_hundred: "f_nonneg x \<or> x = NaN \<Longrightarrow> \<exists>q. f_min x (Fin 100) = Fin q \<and> 0 \<le> q \<and> q \<le> 100"
  by (cases x) (auto simp: f_min_def f_nonneg_def)

lemma finish_proc_range:
  assumes "f_nonneg (pr_util_pct p)" and "f_nonneg (pr_affinity_pct p)" and "tick \<noteq> 0"
  shows "\<exists>q. pr_affinity_pct (finish_proc tick p) = Fin q \<and> 0 \<le> q \<and> q \<le> 100"
proof -
  obtain t where t: "u64_to_f64 tick = Fin t" "1 \<le> t" using assms(3) by (rule u64_f64_pos)
  let ?duty = "f_mul (f_div (pr_util_pct p) (Fin 100)) (Fin t)"
  have duty: "f_nonneg ?duty" using assms(1) t(2) by (intro f_nonneg_arith) auto
  show ?thesis
  proof (cases "f_lt (Fin 0) ?duty")
    case True
    have "f_nonneg (f_mul (f_div (pr_affinity_pct p) ?duty) (Fin 100)) \<or> f_mul (f_div (pr_affinity_pct p) ?duty) (Fin 100) = NaN"
    proof (cases ?duty)
      case (Fin d)
      then have "0 < d" using True by simp
      then show ?thesis unfolding Fin using assms(2) by (intro disjI1 f_nonneg_arith) auto
    next
      case PInf
      show ?thesis unfolding PInf by (cases "pr_affinity_pct p") (auto simp: f_nonneg_def to_f64_def Let_def rnd.zero)
    qed (use duty in \<open>auto simp: f_nonneg_def\<close>)
    from f_min_hundred [OF this] True show ?thesis by (simp add: finish_proc_def t)
  qed (simp add: finish_proc_def t)
qed

lemma fold_proc_add_nonneg:
  assumes "tick \<noteq> 0" and "f_nonneg (pr_util_pct p)" and "f_nonneg (pr_affinity_pct p)"
  shows "f_nonneg (pr_util_pct (fold (proc_add spills tick) ts p)) \<and> f_nonneg (pr_affinity_pct (fold (proc_add spills tick) ts p))"
  using assms(2,3)
proof (induction ts arbitrary: p)
  case (Cons t ts)
  obtain q where q: "u64_to_f64 tick = Fin q" "1 \<le> q" using assms(1) by (rule u64_f64_pos)
  have "f_nonneg (pr_util_pct (proc_add spills tick t p))"
    unfolding proc_add_def using Cons.prems q(2) by (auto simp: q(1) intro!: f_nonneg_arith)
  moreover have "f_nonneg (pr_affinity_pct (proc_add spills tick t p))"
    unfolding proc_add_def using Cons.prems by (auto intro!: f_nonneg_arith)
  ultimately show ?case by (simp add: Cons.IH)
qed simp

lemma fold_bt_insert:
  assumes "bt_wf acc"
  shows "(c \<in> set cs \<longrightarrow> distinct (map c_id cs) \<longrightarrow> hm_get (fold (\<lambda>c. bt_insert (c_id c) (f c)) cs acc) (c_id c) = Some (f c)) \<and>
    (i \<notin> c_id ` set cs \<longrightarrow> hm_get (fold (\<lambda>c. bt_insert (c_id c) (f c)) cs acc) i = hm_get acc i)"
  using assms
proof (induction cs arbitrary: acc c i)
  case (Cons d cs)
  have wf: "bt_wf (bt_insert (c_id d) (f d) acc)" using Cons.prems by simp
  note IH = Cons.IH [OF wf]
  show ?case
    using IH [of c i] IH [of d "c_id d"] by (auto simp: bt_get_insert [OF Cons.prems])
qed simp

lemma procs_row_spec:
  fixes c :: CohortSnapshot and tasks :: "TaskSnapshot list" and spills :: "(u32, u32) hashmap"
  assumes "tick \<noteq> 0"
  defines "ts \<equiv> filter (\<lambda>t. t_cohort_id t = c_id c) tasks" and "row \<equiv> procs_row tasks spills tick c"
  shows "cr_tasks row = of_nat (length ts) \<and> cr_home_llc row = ucast (c_home_llc c) \<and> (cr_pinned row \<noteq> 0 \<longleftrightarrow> c_pinned c) \<and>
    cr_affinity_pct row = pct (sum_list (map t_home_ns ts)) (sum_list (map t_duty_ns ts)) \<and>
    fst ` set (cr_procs row) = (\<lambda>t. ucast (t_tgid t)) ` set ts \<and>
    (\<forall>t \<in> set ts. \<exists>p. hm_get (cr_procs row) (ucast (t_tgid t)) = Some p \<and> pr_tgid p = ucast (t_tgid t) \<and>
       pr_comm p = t_comm (hd (threads_of ts (t_tgid t))) \<and>
       pr_threads p = of_nat (length (threads_of ts (t_tgid t))) \<and>
       pr_spilled p = of_nat (length (filter (\<lambda>u. hm_contains spills (t_pid u)) (threads_of ts (t_tgid t)))) \<and>
       (\<exists>q. pr_affinity_pct p = Fin q \<and> 0 \<le> q \<and> q \<le> 100))"
proof -
  let ?row0 = "\<lparr> cr_home_llc = ucast (c_home_llc c), cr_pinned = (if c_pinned c then 1 else 0), cr_tasks = 0,
    cr_util_pct = Fin 0, cr_affinity_pct = Fin 0, cr_procs = [] \<rparr>"
  obtain row1 d h where f: "fold (add_task spills tick) ts (?row0, 0, 0) = (row1, d, h)" by (metis prod_cases3)
  have "bt_wf (cr_procs ?row0)" by simp
  note a = add_tasks [OF this f]
  have row: "row = row1\<lparr> cr_procs := map (\<lambda>(g, p). (g, finish_proc tick p)) (cr_procs row1),
      cr_util_pct := f_div (f_mul (u64_to_f64 d) (Fin 100)) (u64_to_f64 tick), cr_affinity_pct := pct h d \<rparr>"
    unfolding row_def procs_row_def by (simp add: ts_def [symmetric] f)
  have get: "hm_get (cr_procs row) g = map_option (finish_proc tick) (hm_get (cr_procs row1) g)" for g
    by (simp add: row map_of_map)
  have proc: "\<exists>p. hm_get (cr_procs row) (ucast (t_tgid t)) = Some p \<and> pr_tgid p = ucast (t_tgid t) \<and>
       pr_comm p = t_comm (hd (threads_of ts (t_tgid t))) \<and>
       pr_threads p = of_nat (length (threads_of ts (t_tgid t))) \<and>
       pr_spilled p = of_nat (length (filter (\<lambda>u. hm_contains spills (t_pid u)) (threads_of ts (t_tgid t)))) \<and>
       (\<exists>q. pr_affinity_pct p = Fin q \<and> 0 \<le> q \<and> q \<le> 100)" if t: "t \<in> set ts" for t
  proof -
    obtain u us where u: "threads_of ts (t_tgid t) = u # us" using t by (cases "threads_of ts (t_tgid t)") (auto simp: filter_empty_conv)
    have ut: "t_tgid u = t_tgid t" using u by (metis (mono_tags, lifting) list.set_intros(1) mem_Collect_eq set_filter)
    let ?p = "fold (proc_add spills tick) (u # us) (proc_start u)"
    have g: "hm_get (cr_procs row) (ucast (t_tgid t)) = Some (finish_proc tick ?p)" using a u get by simp
    have "f_nonneg (pr_util_pct ?p) \<and> f_nonneg (pr_affinity_pct ?p)"
      using assms(1) by (intro fold_proc_add_nonneg) (simp_all add: proc_start_def f_nonneg_def)
    then have "\<exists>q. pr_affinity_pct (finish_proc tick ?p) = Fin q \<and> 0 \<le> q \<and> q \<le> 100"
      using assms(1) by (intro finish_proc_range) auto
    moreover have "pr_tgid (finish_proc tick p) = pr_tgid p \<and> pr_comm (finish_proc tick p) = pr_comm p \<and>
        pr_threads (finish_proc tick p) = pr_threads p \<and> pr_spilled (finish_proc tick p) = pr_spilled p" for p
      by (simp add: finish_proc_def Let_def)
    ultimately show ?thesis
      unfolding g u using fold_proc_add [of spills tick "u # us" "proc_start u"] ut by (simp add: proc_start_def)
  qed
  have "fst ` set (cr_procs row) = fst ` set (cr_procs row1)" by (force simp: row)
  with a proc show ?thesis by (simp add: row)
qed

text \<open>
  C37. The process view against its definition. For every cohort of the snapshot the view has one
  row with the cohort's home and pin state; it counts the cohort's tasks and has one process row per
  thread group among them and no other, with the number of its threads, how many of them are
  spilled, the comm of its first thread, and an affinity percentage between 0 and 100 whatever the
  floating-point sums were.
\<close>

theorem procs_snapshot_correct:
  fixes tasks :: "TaskSnapshot list"
  assumes "distinct (map c_id cohorts)" and "c \<in> set cohorts" and "tick < 2 ^ 64"
  defines "ts \<equiv> filter (\<lambda>t. t_cohort_id t = c_id c) tasks"
  shows "\<exists>row. hm_get (ps_cohorts (procs_snapshot cohorts tasks llcs spills tick)) (c_id c) = Some row \<and>
    cr_tasks row = of_nat (length ts) \<and> cr_home_llc row = ucast (c_home_llc c) \<and> (cr_pinned row \<noteq> 0 \<longleftrightarrow> c_pinned c) \<and>
    fst ` set (cr_procs row) = (\<lambda>t. ucast (t_tgid t)) ` set ts \<and>
    (\<forall>t \<in> set ts. \<exists>p. hm_get (cr_procs row) (ucast (t_tgid t)) = Some p \<and>
       pr_comm p = t_comm (hd (threads_of ts (t_tgid t))) \<and>
       pr_threads p = of_nat (length (threads_of ts (t_tgid t))) \<and>
       pr_spilled p = of_nat (length (filter (\<lambda>u. hm_contains spills (t_pid u)) (threads_of ts (t_tgid t)))) \<and>
       (\<exists>q. pr_affinity_pct p = Fin q \<and> 0 \<le> q \<and> q \<le> 100))"
proof -
  have "(of_nat (max tick 1) :: u64) \<noteq> 0"
    using assms(3) by (simp add: word_of_nat_eq_0_iff nat_dvd_not_less)
  from procs_row_spec [OF this, where c = c and tasks = tasks and spills = spills]
  show ?thesis
    using fold_bt_insert [of "[]" c cohorts "procs_row tasks spills (of_nat (max tick 1))"] assms(1,2)
    unfolding ts_def by (intro exI [of _ "procs_row tasks spills (of_nat (max tick 1)) c"])
      (auto simp: procs_snapshot_def Let_def split: prod.split)
qed

definition demo_view_tasks :: "TaskSnapshot list" where
  "demo_view_tasks =
     [\<lparr> t_pid = 101, t_tgid = 100, t_cohort_id = 7, t_duty_ns = 100, t_home_ns = 100, t_comm = ''game'' \<rparr>,
      \<lparr> t_pid = 102, t_tgid = 100, t_cohort_id = 7, t_duty_ns = 100, t_home_ns = 50, t_comm = ''game-io'' \<rparr>,
      \<lparr> t_pid = 201, t_tgid = 200, t_cohort_id = 7, t_duty_ns = 50, t_home_ns = 0, t_comm = ''helper'' \<rparr>]"

definition demo_view_cohort :: CohortSnapshot where
  "demo_view_cohort = \<lparr> c_id = 7, c_home_llc = 1, c_pinned = True, c_nr_tasks = 3, c_load_ns = 250, c_residency_ms = None \<rparr>"

text \<open>Witness of C37.\<close>

theorem procs_snapshot_correct_witness:
  "\<exists>row p. hm_get (ps_cohorts (procs_snapshot [demo_view_cohort] demo_view_tasks [] [(201, 0), (102, 0)] 200)) 7 = Some row \<and>
     cr_tasks row = 3 \<and> fst ` set (cr_procs row) = {100, 200} \<and> hm_get (cr_procs row) 100 = Some p \<and>
     pr_threads p = 2 \<and> pr_spilled p = 1 \<and> pr_comm p = ''game''"
proof -
  have "distinct (map c_id [demo_view_cohort])" "demo_view_cohort \<in> set [demo_view_cohort]" "(200 :: nat) < 2 ^ 64" by simp_all
  note v = procs_snapshot_correct [OF this, of demo_view_tasks "[]" "[(201, 0), (102, 0)]"]
  have ts: "filter (\<lambda>t. t_cohort_id t = 7) demo_view_tasks = demo_view_tasks"
    "threads_of demo_view_tasks 100 = take 2 demo_view_tasks" "c_id demo_view_cohort = 7"
    by (simp_all add: demo_view_tasks_def demo_view_cohort_def)
  have t: "demo_view_tasks ! 0 \<in> set demo_view_tasks" "t_tgid (demo_view_tasks ! 0) = 100" by (simp_all add: demo_view_tasks_def)
  show ?thesis
    using v unfolding ts(3) unfolding ts(1)
  proof (elim exE conjE)
    fix row
    assume row: "hm_get (ps_cohorts (procs_snapshot [demo_view_cohort] demo_view_tasks [] [(201, 0), (102, 0)] 200)) 7 = Some row"
      "cr_tasks row = of_nat (length demo_view_tasks)" "fst ` set (cr_procs row) = (\<lambda>t. ucast (t_tgid t)) ` set demo_view_tasks"
    assume "\<forall>t \<in> set demo_view_tasks. \<exists>p. hm_get (cr_procs row) (ucast (t_tgid t)) = Some p \<and>
       pr_comm p = t_comm (hd (threads_of demo_view_tasks (t_tgid t))) \<and>
       pr_threads p = of_nat (length (threads_of demo_view_tasks (t_tgid t))) \<and>
       pr_spilled p = of_nat (length (filter (\<lambda>u. hm_contains [(201, 0), (102, 0)] (t_pid u)) (threads_of demo_view_tasks (t_tgid t)))) \<and>
       (\<exists>q. pr_affinity_pct p = Fin q \<and> 0 \<le> q \<and> q \<le> 100)"
    from bspec [OF this t(1)] obtain p where "hm_get (cr_procs row) 100 = Some p"
      "pr_threads p = 2" "pr_spilled p = 1" "pr_comm p = ''game''"
      unfolding t(2) ts(2) by (auto simp: demo_view_tasks_def hm_contains_def)
    moreover have "cr_tasks row = 3" "fst ` set (cr_procs row) = {100, 200}"
      using row(2,3) by (simp_all add: demo_view_tasks_def)
    ultimately show ?thesis using row(1) by blast
  qed
qed

end
