(* ===== verification/Daemon_Main.thy ===== *)
theory Daemon_Main
  imports Daemon_Actions Stats_View
begin

text \<open>
  The frame around the tick, \<open>scx_cohort/src/main.rs\<close>: the command line and its merge with the
  configuration file, \<open>Scheduler::init\<close>, the event loop \<open>run\<close> and the restart loop of \<open>main\<close> with
  its privilege drop. What comes from outside is an input: the parsed flags and where they came
  from, the topology, the results of loading the BPF object, the clock, the channel of the stats
  server and the exit record of the scheduler. Instants are nanoseconds.
\<close>

section \<open>Options\<close>

text \<open>The options that reach the model: \<open>--verbose\<close> only sets the log level.\<close>

datatype Command = Top f64

record Opts =
  op_slice_us :: u64
  op_interval_ms :: u64
  op_steal_min :: u64
  op_steal_delay_us :: u64
  op_imbalance_pct :: u64
  op_residency_ms :: u64
  op_merge_wakes_per_sec :: f64
  op_config :: string
  op_stats :: "f64 option"
  op_monitor :: "f64 option"
  op_no_rt :: bool
  op_drop_privs :: bool
  op_command :: "Command option"

definition Opts_default :: Opts where
  "Opts_default =
     \<lparr> op_slice_us = 5000, op_interval_ms = 200, op_steal_min = 2, op_steal_delay_us = 500, op_imbalance_pct = 20,
       op_residency_ms = 2000, op_merge_wakes_per_sec = Fin 300, op_config = ''/etc/scx_cohort.conf'', op_stats = None,
       op_monitor = None, op_no_rt = False, op_drop_privs = False, op_command = None \<rparr>"

definition tunables :: "Opts \<Rightarrow> Tunables" where
  "tunables opts = Tunables_default\<lparr> steal_min := op_steal_min opts, steal_delay_ns := op_steal_delay_us opts * 1000 \<rparr>"

datatype main_error =
    BadConfig config_error
  | ConfigNotFound string
  | NotRoot | NoTopology | MultiNode | OpenFailed | TooManyLlcs nat | TooManyCpus u32 | LoadFailed | AttachFailed
  | CapsetFailed
  | ServerFailed
  | TickFailed daemon_error
  | SendFailed
  | ReqChannelClosed
  | ExitReport
  | EjectedWithoutPrivs
  | MainPanic panic

text \<open>The \<open>apply!\<close> macro, field by field: the file wins over a default, the command line over the file.\<close>

definition from_file :: "bool \<Rightarrow> 'a option \<Rightarrow> 'a \<Rightarrow> 'a" where
  "from_file from_cli ov v = (case ov of Some v' \<Rightarrow> if \<not> from_cli then v' else v | None \<Rightarrow> v)"

definition apply_options :: "(string \<Rightarrow> bool) \<Rightarrow> OptionsTable \<Rightarrow> Opts \<Rightarrow> Opts" where
  "apply_options from_cli t opts =
     opts\<lparr> op_slice_us := from_file (from_cli ''slice_us'') (o_slice_us t) (op_slice_us opts),
        op_interval_ms := from_file (from_cli ''interval_ms'') (o_interval_ms t) (op_interval_ms opts),
        op_steal_min := from_file (from_cli ''steal_min'') (o_steal_min t) (op_steal_min opts),
        op_steal_delay_us := from_file (from_cli ''steal_delay_us'') (o_steal_delay_us t) (op_steal_delay_us opts),
        op_imbalance_pct := from_file (from_cli ''imbalance_pct'') (o_imbalance_pct t) (op_imbalance_pct opts),
        op_residency_ms := from_file (from_cli ''residency_ms'') (o_residency_ms t) (op_residency_ms opts),
        op_merge_wakes_per_sec := from_file (from_cli ''merge_wakes_per_sec'') (o_merge_wakes_per_sec t) (op_merge_wakes_per_sec opts) \<rparr>"

text \<open>
  \<open>from_cli\<close> tells which arguments were given on the command line, \<open>files\<close> is the file system: the
  text of a path, if it exists and can be read; \<open>exists\<close> is \<open>Path::exists\<close>.
\<close>

definition load_config :: "(string \<Rightarrow> ConfigFile option) \<Rightarrow> (string \<Rightarrow> (string \<Rightarrow> bool) option) \<Rightarrow>
    (string \<Rightarrow> bool) \<Rightarrow> (string \<Rightarrow> string option) \<Rightarrow> (string \<Rightarrow> bool) \<Rightarrow> Opts \<Rightarrow> main_error + (Config \<times> Opts)" where
  "load_config toml glob exists files from_cli opts =
     (case (if exists (op_config opts)
            then (case Config_load toml glob files (op_config opts) of Inl e \<Rightarrow> Inl (BadConfig e) | Inr cfg \<Rightarrow> Inr cfg)
            else if from_cli ''config'' then Inl (ConfigNotFound (op_config opts))
            else Inr Config_default) of
        Inl e \<Rightarrow> Inl e
      | Inr cfg \<Rightarrow> Inr (cfg, apply_options from_cli (options cfg) opts))"

section \<open>Scheduler::init\<close>

text \<open>What the daemon reads of \<open>scx_utils::Topology\<close>; the maps are keyed by id.\<close>

record Cpu =
  cpu_id :: nat
  cpu_llc_id :: nat

record Llc =
  llc_id :: nat
  llc_all_cpus :: "nat list"

record Topology =
  tp_nodes :: nat
  tp_all_llcs :: "(nat, Llc) hashmap"
  tp_all_cpus :: "(nat, Cpu) hashmap"

text \<open>The read-only data of the BPF object.\<close>

record Rodata =
  ro_slice_ns :: u64
  ro_nr_llcs :: u32
  ro_nr_cpus :: u32
  ro_cpu_llc_id :: "u32 list"

record Boot =
  bo_root :: bool
  bo_topology :: "Topology option"
  bo_open :: bool
  bo_rodata :: Rodata
  bo_load :: bool
  bo_attach :: bool

text \<open>\<open>rodata.cpu_llc_id[cpu.id] = cpu.llc_id as u32\<close>, which panics out of range.\<close>

definition set_cpu_llc :: "nat \<times> Cpu \<Rightarrow> u32 list \<Rightarrow> main_error + u32 list" where
  "set_cpu_llc = (\<lambda>(_, cpu) ids.
     if cpu_id cpu < length ids then Inr (ids[cpu_id cpu := of_nat (cpu_llc_id cpu)]) else Inl (MainPanic OutOfRange))"

definition fill_rodata :: "Opts \<Rightarrow> Topology \<Rightarrow> Rodata \<Rightarrow> main_error + Rodata" where
  "fill_rodata opts topo ro =
     (let nr_cpus = of_nat (case max_by_key (\<lambda>c. c) (map fst (tp_all_cpus topo)) of None \<Rightarrow> 0 | Some c \<Rightarrow> c) + 1 :: u32
      in if MAX_CPUS < nr_cpus then Inl (TooManyCpus nr_cpus)
         else case try_fold set_cpu_llc (tp_all_cpus topo) (ro_cpu_llc_id ro) of
                Inl e \<Rightarrow> Inl e
              | Inr ids \<Rightarrow> Inr \<lparr> ro_slice_ns = op_slice_us opts * 1000, ro_nr_llcs = of_nat (length (tp_all_llcs topo)),
                                 ro_nr_cpus = nr_cpus, ro_cpu_llc_id = ids \<rparr>)"

definition new_scheduler :: "Opts \<Rightarrow> Config \<Rightarrow> Topology \<Rightarrow> Scheduler" where
  "new_scheduler opts cfg topo =
     \<lparr> interval_ms = op_interval_ms opts,
       balancer = Balancer_new \<lparr> imbalance_pct = op_imbalance_pct opts, confirm_ticks = 2, cfg_residency_ms = op_residency_ms opts \<rparr>,
       llc_cpus = bt_collect (map (\<lambda>(_, l). (of_nat (llc_id l), of_nat (length (llc_all_cpus l)))) (tp_all_llcs topo)),
       prev_load_sum = [], prev_llc_load = [], dead_cohorts = {}, dead_tgids = {},
       wake_graph = WakeGraph_new (WakeGraphCfg_default\<lparr> merge_wakes_per_sec := op_merge_wakes_per_sec opts \<rparr>),
       daemon_seq = 0,
       sample_mult = push_bit (unat (sample_shift (tunables opts))) 1,
       config = cfg,
       spill_cfg = SpillCfg_default\<lparr> tick_ns := op_interval_ms opts * 1000000 \<rparr>,
       current_spills = [], prev_runtime = [], cgroup_cache = [], residency_overrides = [],
       nr_migrations = 0, nr_merges = 0, nr_splits = 0, last_tasks = [] \<rparr>"

definition Scheduler_init :: "Opts \<Rightarrow> Config \<Rightarrow> Boot \<Rightarrow> main_error + (Rodata \<times> Tunables \<times> Scheduler)" where
  "Scheduler_init opts cfg bo =
     (if \<not> bo_root bo then Inl NotRoot
      else case bo_topology bo of
             None \<Rightarrow> Inl NoTopology
           | Some topo \<Rightarrow>
               if 1 < tp_nodes topo then Inl MultiNode
               else if \<not> bo_open bo then Inl OpenFailed
               else if unat MAX_LLCS < length (tp_all_llcs topo) then Inl (TooManyLlcs (length (tp_all_llcs topo)))
               else case fill_rodata opts topo (bo_rodata bo) of
                      Inl e \<Rightarrow> Inl e
                    | Inr ro \<Rightarrow>
                        if \<not> bo_load bo then Inl LoadFailed
                        else if \<not> bo_attach bo then Inl AttachFailed
                        else Inr (ro, tunables opts, new_scheduler opts cfg topo))"

section \<open>The event loop\<close>

datatype recv = Received StatsReq | TimedOut | Disconnected

text \<open>
  One turn of \<open>run\<close>: the two flags tested at the head, the instant at which the timeout is computed,
  what \<open>recv_timeout\<close> returns and when, what the BPF side did to the maps in the meantime, whether
  the answer can be sent, and for a tick its environment and the instant at which it ends.
\<close>

record 'k LoopInput =
  li_shutdown :: bool
  li_exited :: bool
  li_now :: nat
  li_recv :: recv
  li_woke :: nat
  li_kernel :: "'k \<Rightarrow> 'k"
  li_send :: bool
  li_env :: Env
  li_done :: nat

record 'k LoopState =
  ls_sched :: Scheduler
  ls_kernel :: 'k
  ls_view :: "CohortSnapshot list \<times> LlcLoad list"
  ls_next_tick :: nat
  ls_sent :: "StatsRes list"

definition interval :: "Scheduler \<Rightarrow> nat" where
  "interval s = unat (interval_ms s) * 1000000"

definition loop_timeout :: "'k LoopInput \<Rightarrow> 'k LoopState \<Rightarrow> nat" where
  "loop_timeout i st = ls_next_tick st - li_now i"

definition loop_body :: "'k kernel_ops \<Rightarrow> 'k LoopInput \<Rightarrow> 'k LoopState \<Rightarrow> main_error + 'k LoopState" where
  "loop_body ko i st =
     (let k = li_kernel i (ls_kernel st); s = ls_sched st; view = ls_view st
      in case li_recv i of
           Received ReqMetrics \<Rightarrow>
             if li_send i then Inr (st\<lparr> ls_kernel := k, ls_sent := ls_sent st @ [ResMetrics (get_metrics ko (fst view) (snd view) k s)] \<rparr>)
             else Inl SendFailed
         | Received ReqProcs \<Rightarrow>
             if li_send i then Inr (st\<lparr> ls_kernel := k, ls_sent := ls_sent st @
               [ResProcs (procs_snapshot (fst view) (last_tasks s) (snd view) (current_spills s) (interval s))] \<rparr>)
             else Inl SendFailed
         | TimedOut \<Rightarrow>
             (case tick (li_env i) ko k s of
                Inl (Panicked p) \<Rightarrow> Inl (MainPanic p)
              | Inl e \<Rightarrow> Inl (TickFailed e)
              | Inr (view, s, k) \<Rightarrow>
                  Inr (st\<lparr> ls_sched := s, ls_kernel := k, ls_view := view, ls_next_tick := li_done i + interval s \<rparr>))
         | Disconnected \<Rightarrow> Inl ReqChannelClosed)"

datatype 'k run_result = RunPending "'k LoopState" | RunStopped "'k LoopState" | RunFailed main_error

fun run_loop :: "'k kernel_ops \<Rightarrow> 'k LoopInput list \<Rightarrow> 'k LoopState \<Rightarrow> 'k run_result" where
  "run_loop ko [] st = RunPending st"
| "run_loop ko (i # is) st =
     (if li_shutdown i \<or> li_exited i then RunStopped st
      else case loop_body ko i st of Inl e \<Rightarrow> RunFailed e | Inr st \<Rightarrow> run_loop ko is st)"

definition run :: "'k kernel_ops \<Rightarrow> nat \<Rightarrow> 'k LoopInput list \<Rightarrow> 'k \<Rightarrow> Scheduler \<Rightarrow> 'k run_result" where
  "run ko start inputs k s =
     run_loop ko inputs \<lparr> ls_sched = s, ls_kernel = k, ls_view = ([], []), ls_next_tick = start + interval s, ls_sent = [] \<rparr>"

section \<open>The restart loop\<close>

text \<open>The effects whose order matters: capabilities are per thread, and initialising needs them.\<close>

datatype main_event = EvRealtime int | EvInit | EvDropCaps | EvServerThread | EvMonitorThread | EvRun | EvDetach

datatype main_result = MainPending | MainOk | MainErr main_error | TopView f64 | MonitorView f64

text \<open>One life of the scheduler: its start, its event loop and the exit record it leaves.\<close>

record 'k Session =
  se_boot :: Boot
  se_caps :: bool
  se_server :: bool
  se_kernel :: 'k
  se_start :: nat
  se_inputs :: "'k LoopInput list"
  se_shutdown :: bool
  se_restart :: bool
  se_report :: bool

fun main_loop :: "'k kernel_ops \<Rightarrow> Opts \<Rightarrow> Config \<Rightarrow> bool \<Rightarrow> 'k Session list \<Rightarrow> bool \<Rightarrow> main_event list \<times> main_result" where
  "main_loop ko opts cfg drop_privs [] served = ([], MainPending)"
| "main_loop ko opts cfg drop_privs (x # xs) served =
     (case Scheduler_init opts cfg (se_boot x) of
        Inl e \<Rightarrow> ([EvInit], MainErr e)
      | Inr (_, _, s) \<Rightarrow>
          let dropped = (if drop_privs \<and> \<not> served then [EvDropCaps] else [])
          in if drop_privs \<and> \<not> served \<and> \<not> se_caps x then (EvInit # dropped, MainErr CapsetFailed)
             else if \<not> served \<and> \<not> se_server x then (EvInit # dropped @ [EvServerThread], MainErr ServerFailed)
             else
               let threads = (if served then [] else EvServerThread # (if op_stats opts = None then [] else [EvMonitorThread]))
               in case run ko (se_start x) (se_inputs x) (se_kernel x) s of
                    RunPending _ \<Rightarrow> (EvInit # dropped @ threads @ [EvRun], MainPending)
                  | RunFailed e \<Rightarrow> (EvInit # dropped @ threads @ [EvRun], MainErr e)
                  | RunStopped _ \<Rightarrow>
                      if se_shutdown x \<or> \<not> se_restart x
                      then (EvInit # dropped @ threads @ [EvRun, EvDetach], if se_report x then MainOk else MainErr ExitReport)
                      else if drop_privs then (EvInit # dropped @ threads @ [EvRun, EvDetach], MainErr EjectedWithoutPrivs)
                      else let (evs, r) = main_loop ko opts cfg drop_privs xs True
                           in (EvInit # dropped @ threads @ [EvRun, EvDetach] @ evs, r))"

text \<open>\<open>Duration::from_secs_f64\<close>.\<close>

definition from_secs_f64 :: "f64 \<Rightarrow> panic + rat" where
  "from_secs_f64 x = (case x of Fin q \<Rightarrow> if 0 \<le> q \<and> q < 2 ^ 64 then Inr q else Inl BadDuration | _ \<Rightarrow> Inl BadDuration)"

definition view_mode :: "(f64 \<Rightarrow> main_result) \<Rightarrow> f64 \<Rightarrow> main_event list \<times> main_result" where
  "view_mode mode intv = (case from_secs_f64 intv of Inl p \<Rightarrow> ([], MainErr (MainPanic p)) | Inr _ \<Rightarrow> ([], mode intv))"

definition main :: "'k kernel_ops \<Rightarrow> (string \<Rightarrow> ConfigFile option) \<Rightarrow> (string \<Rightarrow> (string \<Rightarrow> bool) option) \<Rightarrow>
    (string \<Rightarrow> bool) \<Rightarrow> (string \<Rightarrow> string option) \<Rightarrow> (string \<Rightarrow> bool) \<Rightarrow> Opts \<Rightarrow> 'k Session list \<Rightarrow> main_event list \<times> main_result" where
  "main ko toml glob exists files from_cli opts sessions =
     (case op_command opts of
        Some (Top intv) \<Rightarrow> view_mode TopView intv
      | None \<Rightarrow>
          (case op_monitor opts of
             Some intv \<Rightarrow> view_mode MonitorView intv
           | None \<Rightarrow>
               (case load_config toml glob exists files from_cli opts of
                  Inl e \<Rightarrow> ([], MainErr e)
                | Inr (cfg, opts) \<Rightarrow>
                    let rt_priority = (if op_no_rt opts then 0 else case o_rt_priority (options cfg) of None \<Rightarrow> 10 | Some n \<Rightarrow> n);
                        drop_privs = (op_drop_privs opts \<or> (case o_drop_privs (options cfg) of None \<Rightarrow> False | Some b \<Rightarrow> b));
                        (evs, r) = main_loop ko opts cfg drop_privs sessions False
                    in ((if 0 < rt_priority then [EvRealtime rt_priority] else []) @ evs, r))))"

end
