(* ===== verification/Daemon_Runs.thy ===== *)
theory Daemon_Runs
  imports Daemon_Tick Daemon_Main
begin

text \<open>
  The tick seen from outside: what a successful tick keeps of the daemon's state and of the maps,
  and what therefore holds along the event loop. The invariant \<open>daemon_inv\<close> is established by
  \<open>Scheduler::init\<close> and kept by every tick and by every step of the BPF side that keeps the map
  sizes and adds nothing to the spill map.
\<close>

lemma keep_already_wf: "hm_wf d \<Longrightarrow> keep_already current ps d = Inr d' \<Longrightarrow> hm_wf d'"
  unfolding keep_already_def by (erule try_fold_invariant [where I = hm_wf]) (auto split: option.splits)

lemma shed_members_wf: "hm_wf d \<Longrightarrow> hm_wf (shed_members target excess shed ms d)"
  by (induction target excess shed ms d rule: shed_members.induct) (auto simp: Let_def)

lemma spill_cohort_wf: "hm_wf d \<Longrightarrow> spill_cohort cfg llcs cap tasks current c d = Inr d' \<Longrightarrow> hm_wf d'"
  by (auto simp: spill_cohort_def Let_def keep_already_wf shed_members_wf split: option.splits if_splits sum.splits)

lemma plan_spills_wf: "plan_spills cfg llcs cohorts tasks current = Inr d \<Longrightarrow> hm_wf d"
  unfolding plan_spills_def Let_def
  by (auto split: if_splits elim!: try_fold_invariant [where I = hm_wf] dest: spill_cohort_wf)

section \<open>The stages of a tick\<close>

lemma tickE:
  assumes "tick env ko k s = Inr ((cohorts, llcs), s', k')"
  obtains tasks s1 tc s2 k2 s3 k3 s4 k4 s5 b ds s6 k6 d s7 k7 s8 where
    "snapshot_tasks ko k s = Inr (tasks, s1)" "snapshot_tgid_cohort ko k = Inr tc"
    "apply_rules env ko tasks k s1 = Inr (s2, k2)" "snapshot_cohorts ko tasks tc k2 s2 = Inr (cohorts, s3, k3)"
    "gc_tgid_map ko tc tasks k3 s3 = (s4, k4)" "llc_loads ko k4 s4 = Inr (llcs, s5)"
    "plan (e_now_ms env) llcs cohorts (balancer s5) = Inr (b, ds)"
    "apply_decisions ko ds k4 (s5\<lparr> balancer := b \<rparr>) = Inr (s6, k6)"
    "plan_spills (spill_cfg s6) llcs cohorts tasks (current_spills s6) = Inr d"
    "apply_spills env ko d k6 s6 = Inr (s7, k7)"
    "discover_relationships env ko cohorts tasks tc k7 s7 = Inr (s8, k')" "s' = s8\<lparr> last_tasks := tasks \<rparr>"
  using assms unfolding tick_def by (simp split: sum.splits prod.splits)

text \<open>The part of the state that every stage but one leaves alone.\<close>

definition core :: "Scheduler \<Rightarrow> u64 \<times> (u32, u64) hashmap \<times> (u32, u32) hashmap" where
  "core s = (interval_ms s, llc_cpus s, current_spills s)"

lemma snapshot_tasks_frame: "snapshot_tasks ko k s = Inr (tasks, s') \<Longrightarrow> core s' = core s \<and> wake_graph s' = wake_graph s"
  by (auto simp: snapshot_tasks_def core_def split: sum.splits)

lemma apply_rules_state: "apply_rules env ko tasks k s = Inr (s', k') \<Longrightarrow> core s' = core s \<and> wake_graph s' = wake_graph s"
  by (auto simp: apply_rules_def core_def Let_def split: sum.splits if_splits prod.splits)

lemma snapshot_cohorts_frame:
  "snapshot_cohorts ko tasks tc k s = Inr (cohorts, s', k') \<Longrightarrow> core s' = core s \<and> wake_graph s' = wake_graph s"
  by (auto simp: snapshot_cohorts_def core_def split: sum.splits)

lemma llc_loads_core: "llc_loads ko k s = Inr (llcs, s') \<Longrightarrow> core s' = core s"
  by (auto simp: llc_loads_def core_def split: sum.splits)

lemma apply_decisions_state:
  assumes "apply_decisions ko ds k s = Inr (s', k')"
  shows "core s' = core s \<and> wake_graph s' = wake_graph s"
proof -
  have "core (fst (s', k')) = core s \<and> wake_graph (fst (s', k')) = wake_graph s"
    using assms unfolding apply_decisions_def
    by (rule try_fold_invariant [where I = "\<lambda>r. core (fst r) = core s \<and> wake_graph (fst r) = wake_graph s"])
      (auto simp: apply_decision_def core_def split: Decision.splits sum.splits option.splits)
  then show ?thesis by simp
qed

definition spills_within :: "(map_id \<Rightarrow> 'k \<Rightarrow> bytes \<Rightarrow> bytes option) \<Rightarrow> (u32, u32) hashmap \<Rightarrow> 'k \<Rightarrow> bool" where
  "spills_within contents spills k \<longleftrightarrow>
     (\<forall>pid v. contents spill_tasks k (u32_bytes pid) = Some v \<longrightarrow> hm_get spills pid = u32_read v \<and> u32_read v \<noteq> None)"

context bpf_maps
begin

lemma apply_rules_maps:
  assumes "kinv k" and "apply_rules env ko tasks k s = Inr (s', k')"
  shows "kinv k' \<and> contents spill_tasks k' = contents spill_tasks k"
proof -
  have pins: "kinv k1 \<and> contents spill_tasks k1 = contents spill_tasks k"
    if "try_fold (apply_pin ko n) xs k = Inr k1" for n xs k1
    using that
  proof (rule try_fold_invariant [where I = "\<lambda>k1. kinv k1 \<and> contents spill_tasks k1 = contents spill_tasks k"])
    fix x k1 k2 assume i: "kinv k1 \<and> contents spill_tasks k1 = contents spill_tasks k" and "apply_pin ko n x k1 = Inr k2"
    then show "kinv k2 \<and> contents spill_tasks k2 = contents spill_tasks k"
      using update_effect [OF _ plain_hash_simps(2), of k1]
      by (auto simp: apply_pin_def lookup Let_def split: prod.splits option.splits if_splits)
  qed (simp add: assms(1))
  show ?thesis
    using assms pins by (auto simp: apply_rules_def Let_def split: if_splits prod.splits sum.splits)
qed

lemma snapshot_edges_effect:
  assumes "kinv k" and "snapshot_edges ko k = Inr (deltas, k')"
  shows "kinv k' \<and> (\<forall>m. m \<noteq> wake_edges \<longrightarrow> contents m k' = contents m k)"
  using assms(2) drain [OF assms(1)] by (auto simp: snapshot_edges_def split: sum.splits)

lemma apply_merge_frame:
  assumes "kinv k" and "hm_wf tc" and "apply_merge ko tc p (s, k) = Inr (s', k')"
  shows "kinv k' \<and> contents spill_tasks k' = contents spill_tasks k \<and>
    core s' = core s \<and> wake_graph s' = wake_graph s"
proof -
  let ?k1 = "fold (\<lambda>(tgid, cohort) k. if cohort = m_from p
      then k_try_update ko tgid_cohort_map (u32_bytes tgid) (u64_bytes (m_into p)) F_EXIST k else k) tc k"
  have k1: "kinv ?k1" "contents spill_tasks ?k1 = contents spill_tasks k"
    using relabel_loop [OF assms(1) refl assms(2), of "m_from p" "m_into p"] by auto
  note e = delete_cohort_effect [OF k1(1), of "m_from p"]
  have "kinv (delete_cohort ko (m_from p) ?k1) \<and> contents spill_tasks (delete_cohort ko (m_from p) ?k1) = contents spill_tasks k"
    using e k1 by auto
  with assms show ?thesis
    by (auto simp: apply_merge_def lookup Let_def core_def split: option.splits)
qed

lemma apply_split_frame:
  assumes "kinv k" and "apply_split ko p (s, k) = Inr (s', k')"
  shows "kinv k' \<and> contents spill_tasks k' = contents spill_tasks k \<and>
    core s' = core s \<and> wake_graph s' = wake_graph s"
proof (cases "\<exists>old. contents cohort_policy k (u64_bytes (s_cohort p)) = Some (CohortPolicy_bytes old)")
  case True
  then obtain old where "contents cohort_policy k (u64_bytes (s_cohort p)) = Some (CohortPolicy_bytes old)" by blast
  from apply_split_effect [OF assms(1) this assms(2)] show ?thesis
    by (auto simp: Let_def core_def)
next
  case False
  have "CohortPolicy_read w = None" if "contents cohort_policy k (u64_bytes (s_cohort p)) = Some w" for w
    using False that policy.dec_iff by (metis not_None_eq)
  then show ?thesis
    using assms by (auto simp: apply_split_def lookup split: option.splits)
qed

lemma discover_frame:
  assumes "kinv k" and "hm_wf tc" and "hm_wf (split_streak (wake_graph s))"
    and "discover_relationships env ko cohorts tasks tc k s = Inr (s', k')"
  shows "kinv k' \<and> contents spill_tasks k' = contents spill_tasks k \<and>
    core s' = core s \<and> hm_wf (split_streak (wake_graph s'))"
proof -
  define I where "I = (\<lambda>g (s', k'). kinv k' \<and> contents spill_tasks k' = contents spill_tasks k \<and>
    core s' = core s \<and> wake_graph s' = g)"
  obtain deltas k1 where e: "snapshot_edges ko k = Inr (deltas, k1)" using assms(4)
    by (auto simp: discover_relationships_def split: sum.splits)
  have k1: "kinv k1" "contents spill_tasks k1 = contents spill_tasks k"
    using snapshot_edges_effect [OF assms(1) e] by auto
  define g where "g = observe deltas (interval_secs (interval_ms s)) (sample_mult s) (wake_graph s)"
  define sizes where "sizes = cohort_sizes_of cohorts"
  obtain g1 plans where m: "merges tc sizes (g\<lparr> edges := hm_iter (e_pri_edge env) (edges g) \<rparr>) = (g1, plans)" by fastforce
  have g1: "hm_wf (split_streak g1)"
    using merges_streak [of tc sizes "g\<lparr> edges := hm_iter (e_pri_edge env) (edges g) \<rparr>", unfolded m] assms(3) by (simp add: g_def)
  obtain s2 k2 g2 off where f: "try_fold (apply_merge ko tc) plans (s\<lparr> wake_graph := g1 \<rparr>, k1) = Inr (s2, k2)"
    and sp: "splits (e_pri32 env) (hm_iter (e_pri64 env) (cohort_members_of sizes (tgid_task_counts tasks) tc)) (wake_graph s2) = Inr (g2, off)"
    and f2: "try_fold (apply_split ko) off (s2\<lparr> wake_graph := g2 \<rparr>, k2) = Inr (s', k')"
    using assms(4) unfolding discover_relationships_def e
    by (auto simp: g_def [symmetric] sizes_def [symmetric] m Let_def split: sum.splits)
  have "I g1 (s\<lparr> wake_graph := g1 \<rparr>, k1)" using k1 by (simp add: I_def core_def)
  with f have i2: "I g1 (s2, k2)"
    by (rule try_fold_invariant) (auto simp: I_def dest: apply_merge_frame [OF _ assms(2)])
  then have "I g2 (s2\<lparr> wake_graph := g2 \<rparr>, k2)" by (simp add: I_def core_def)
  with f2 have "I g2 (s', k')"
    by (rule try_fold_invariant) (auto simp: I_def dest: apply_split_frame)
  moreover have "hm_wf (split_streak g2)" using splits_streak_wf [OF _ sp] i2 g1 by (simp add: I_def)
  ultimately show ?thesis by (simp add: I_def)
qed

lemma spills_synced:
  assumes "kinv k" and "hm_wf desired" and "apply_spills env ko desired k s = Inr (s', k')"
    and "spills_within contents (current_spills s) k"
  shows "spills_within contents desired k'"
proof -
  have "hm_get desired pid = u32_read v \<and> u32_read v \<noteq> None" if v: "contents spill_tasks k' (u32_bytes pid) = Some v" for pid v
  proof -
    have old: "hm_get (current_spills s) pid = u32_read v \<and> u32_read v \<noteq> None" if "contents spill_tasks k (u32_bytes pid) = Some v"
      using assms(4) that by (simp add: spills_within_def)
    have "contents spill_tasks k' (u32_bytes pid) = (case hm_get desired pid of
          Some llc \<Rightarrow> if hm_get (current_spills s) pid = Some llc then contents spill_tasks k (u32_bytes pid) else Some (u32_bytes llc)
        | None \<Rightarrow> if hm_get (current_spills s) pid = None then contents spill_tasks k (u32_bytes pid) else None)"
      using apply_spills_effect [OF assms(1-3)] by blast
    with v old show ?thesis by (auto simp: map_simps split: option.splits if_splits)
  qed
  then show ?thesis by (simp add: spills_within_def)
qed

text \<open>What a successful tick keeps.\<close>

lemma tick_keeps:
  assumes "kinv k" and "hm_wf (split_streak (wake_graph s))" and "spills_within contents (current_spills s) k"
    and "tick env ko k s = Inr (view, s', k')"
  shows "kinv k' \<and> hm_wf (split_streak (wake_graph s')) \<and> spills_within contents (current_spills s') k' \<and>
    hm_wf (current_spills s') \<and> llc_cpus s' = llc_cpus s \<and> interval_ms s' = interval_ms s"
proof -
  obtain cohorts llcs where view: "view = (cohorts, llcs)" by (cases view)
  from assms(4) [unfolded view] show ?thesis
  proof (rule tickE)
    fix tasks s1 tc s2 k2 s3 k3 s4 k4 s5 b ds s6 k6 d s7 k7 s8
    assume t1: "snapshot_tasks ko k s = Inr (tasks, s1)" and t2: "snapshot_tgid_cohort ko k = Inr tc"
      and t3: "apply_rules env ko tasks k s1 = Inr (s2, k2)" and t4: "snapshot_cohorts ko tasks tc k2 s2 = Inr (cohorts, s3, k3)"
      and t5: "gc_tgid_map ko tc tasks k3 s3 = (s4, k4)" and t6: "llc_loads ko k4 s4 = Inr (llcs, s5)"
      and t8: "apply_decisions ko ds k4 (s5\<lparr> balancer := b \<rparr>) = Inr (s6, k6)"
      and t9: "plan_spills (spill_cfg s6) llcs cohorts tasks (current_spills s6) = Inr d"
      and t10: "apply_spills env ko d k6 s6 = Inr (s7, k7)"
      and t11: "discover_relationships env ko cohorts tasks tc k7 s7 = Inr (s8, k')" and s': "s' = s8\<lparr> last_tasks := tasks \<rparr>"
    have tc: "hm_wf tc" using snapshot_tgid_cohort_safe [OF assms(1)] by (simp add: t2)
    have e2: "kinv k2 \<and> contents spill_tasks k2 = contents spill_tasks k" by (rule apply_rules_maps [OF assms(1) t3])
    then have k2: "kinv k2" by blast
    have e3: "kinv k3 \<and> contents spill_tasks k3 = contents spill_tasks k2" using snapshot_cohorts_effect [OF k2 t4] by simp
    then have k3: "kinv k3" by blast
    have e4: "kinv k4 \<and> contents spill_tasks k4 = contents spill_tasks k3" and s4: "core s4 = core s3 \<and> wake_graph s4 = wake_graph s3"
      using gc_tgid_map_effect [OF k3 t5] by (simp_all add: core_def)
    then have k4: "kinv k4" by blast
    have e6: "kinv k6 \<and> contents spill_tasks k6 = contents spill_tasks k4"
      using apply_decisions_effect [OF k4 t8 [unfolded apply_decisions_def]] by simp
    then have k6: "kinv k6" by blast
    have c6: "core s6 = core s \<and> wake_graph s6 = wake_graph s"
      using snapshot_tasks_frame [OF t1] apply_rules_state [OF t3] snapshot_cohorts_frame [OF t4] s4 llc_loads_core [OF t6]
        llc_loads_frame [OF t6] apply_decisions_state [OF t8] by (simp add: core_def)
    have d: "hm_wf d" by (rule plan_spills_wf [OF t9])
    have e7: "kinv k7 \<and> s7 = s6\<lparr> current_spills := d \<rparr>" using apply_spills_effect [OF k6 d t10] by blast
    have "spills_within contents (current_spills s6) k6"
      using assms(3) c6 e2 e3 e4 e6 by (simp add: spills_within_def core_def)
    from spills_synced [OF k6 d t10 this] have w7: "spills_within contents d k7" .
    have "hm_wf (split_streak (wake_graph s7))" using e7 c6 assms(2) by simp
    from discover_frame [OF conjunct1 [OF e7] tc this t11] show ?thesis
      using w7 e7 c6 d by (simp add: s' core_def spills_within_def)
  qed
qed

end

section \<open>Along the event loop\<close>

definition daemon_inv :: "(map_id \<Rightarrow> 'k \<Rightarrow> bytes \<Rightarrow> bytes option) \<Rightarrow> ('k \<Rightarrow> bool) \<Rightarrow> 'k LoopState \<Rightarrow> bool" where
  "daemon_inv contents kinv st \<longleftrightarrow>
     kinv (ls_kernel st) \<and> hm_wf (llc_cpus (ls_sched st)) \<and> hm_wf (split_streak (wake_graph (ls_sched st))) \<and>
     spills_within contents (current_spills (ls_sched st)) (ls_kernel st)"

text \<open>A step of the BPF side: it keeps the sizes and at most removes spill entries (a task exits).\<close>

definition kernel_step_ok :: "(map_id \<Rightarrow> 'k \<Rightarrow> bytes \<Rightarrow> bytes option) \<Rightarrow> ('k \<Rightarrow> bool) \<Rightarrow> ('k \<Rightarrow> 'k) \<Rightarrow> bool" where
  "kernel_step_ok contents kinv f \<longleftrightarrow>
     (\<forall>k. kinv k \<longrightarrow> kinv (f k) \<and> (\<forall>key. contents spill_tasks (f k) key \<in> {contents spill_tasks k key, None}))"

lemma kernel_step_spills:
  "kernel_step_ok contents kinv f \<Longrightarrow> kinv k \<Longrightarrow> spills_within contents spills k \<Longrightarrow> spills_within contents spills (f k)"
  unfolding kernel_step_ok_def spills_within_def by (metis insertE option.distinct(1) singletonD)

context bpf_maps
begin

lemma loop_body_keeps:
  assumes "daemon_inv contents kinv st" and "kernel_step_ok contents kinv (li_kernel i)"
  shows "case loop_body ko i st of Inl e \<Rightarrow> \<forall>p. e \<noteq> MainPanic p
    | Inr st' \<Rightarrow> daemon_inv contents kinv st' \<and> interval (ls_sched st') = interval (ls_sched st)"
proof -
  let ?k = "li_kernel i (ls_kernel st)" and ?s = "ls_sched st"
  have k: "kinv ?k" "spills_within contents (current_spills ?s) ?k"
    using assms kernel_step_spills [OF assms(2)] by (auto simp: daemon_inv_def kernel_step_ok_def)
  have wf: "hm_wf (llc_cpus ?s)" "hm_wf (split_streak (wake_graph ?s))" using assms(1) by (simp_all add: daemon_inv_def)
  show ?thesis
  proof (cases "li_recv i")
    case (Received req)
    then show ?thesis using k wf by (cases req) (auto simp: loop_body_def Let_def daemon_inv_def)
  next
    case TimedOut
    show ?thesis
    proof (cases "tick (li_env i) ko ?k ?s")
      case (Inl e)
      then have "\<forall>p. e \<noteq> Panicked p" using tick_no_panic [OF k(1) wf, of "li_env i"] by auto
      with Inl TimedOut show ?thesis by (cases e) (auto simp: loop_body_def Let_def)
    next
      case (Inr r)
      obtain view s' k' where r: "r = (view, s', k')" by (cases r)
      from tick_keeps [OF k(1) wf(2) k(2) Inr [unfolded r]] wf show ?thesis
        using TimedOut Inr r by (simp add: loop_body_def Let_def daemon_inv_def interval_def)
    qed
  qed (simp add: loop_body_def Let_def)
qed

lemma run_loop_keeps:
  assumes "daemon_inv contents kinv st" and "\<forall>i \<in> set inputs. kernel_step_ok contents kinv (li_kernel i)"
  shows "case run_loop ko inputs st of RunFailed e \<Rightarrow> \<forall>p. e \<noteq> MainPanic p
    | RunPending st' \<Rightarrow> daemon_inv contents kinv st' | RunStopped st' \<Rightarrow> daemon_inv contents kinv st'"
  using assms
proof (induction inputs arbitrary: st)
  case (Cons i inputs)
  then have "case loop_body ko i st of Inl e \<Rightarrow> \<forall>p. e \<noteq> MainPanic p
      | Inr st' \<Rightarrow> daemon_inv contents kinv st' \<and> interval (ls_sched st') = interval (ls_sched st)"
    by (intro loop_body_keeps) auto
  with Cons show ?case by (auto split: sum.splits)
qed simp

end

lemma new_scheduler_wf: "hm_wf (llc_cpus (new_scheduler opts cfg topo)) \<and> hm_wf (split_streak (wake_graph (new_scheduler opts cfg topo))) \<and>
    current_spills (new_scheduler opts cfg topo) = []"
  using bt_wf_hm [OF bt_wf_collect] by (simp add: new_scheduler_def WakeGraph_new_def)

lemma Scheduler_init_new: "Scheduler_init opts cfg bo = Inr (ro, tn, s) \<Longrightarrow> \<exists>topo. bo_topology bo = Some topo \<and> s = new_scheduler opts cfg topo"
  by (auto simp: Scheduler_init_def split: if_splits option.splits sum.splits)

text \<open>
  C4. The daemon never panics, from start to stop. Whatever topology it was initialised on,
  whatever the tasks, counters, wake edges and requests of the whole run were, the event loop never
  fails with a panic of one of the planners or of an index: it keeps running, stops on request or
  stops with an error value. At every moment the kernel's spill map holds only entries of the plan
  the daemon last wrote, with the same target, although tasks exit and take their entries away
  between ticks.
\<close>

theorem run_never_panics:
  assumes "bpf_maps ko contents kinv" and "Scheduler_init opts cfg bo = Inr (ro, tn, s)" and "kinv k"
    and "\<forall>key. contents spill_tasks k key = None"
    and "\<forall>i \<in> set inputs. kernel_step_ok contents kinv (li_kernel i)"
  shows "case run ko start inputs k s of
      RunFailed e \<Rightarrow> \<forall>p. e \<noteq> MainPanic p
    | RunPending st \<Rightarrow> spills_within contents (current_spills (ls_sched st)) (ls_kernel st)
    | RunStopped st \<Rightarrow> spills_within contents (current_spills (ls_sched st)) (ls_kernel st)"
proof -
  obtain topo where s: "s = new_scheduler opts cfg topo" using Scheduler_init_new [OF assms(2)] by blast
  have "daemon_inv contents kinv \<lparr> ls_sched = s, ls_kernel = k, ls_view = ([], []), ls_next_tick = start + interval s, ls_sent = [] \<rparr>"
    using assms(3,4) new_scheduler_wf by (simp add: s daemon_inv_def spills_within_def)
  from bpf_maps.run_loop_keeps [OF assms(1) this assms(5)] show ?thesis
    by (auto simp: run_def daemon_inv_def split: run_result.splits)
qed

definition demo_topology :: Topology where
  "demo_topology = \<lparr> tp_nodes = 1, tp_all_llcs = [(0, \<lparr> llc_id = 0, llc_all_cpus = [0, 1] \<rparr>), (1, \<lparr> llc_id = 1, llc_all_cpus = [2, 3] \<rparr>)],
     tp_all_cpus = map (\<lambda>c. (c, \<lparr> cpu_id = c, cpu_llc_id = c div 2 \<rparr>)) [0, 1, 2, 3] \<rparr>"

definition demo_boot :: Boot where
  "demo_boot = \<lparr> bo_root = True, bo_topology = Some demo_topology, bo_open = True,
     bo_rodata = \<lparr> ro_slice_ns = 0, ro_nr_llcs = 0, ro_nr_cpus = 0, ro_cpu_llc_id = replicate 512 0 \<rparr>, bo_load = True, bo_attach = True \<rparr>"

definition demo_env :: Env where
  "demo_env = \<lparr> e_now_ms = 200, e_cgroup = (\<lambda>_. None), e_pri32 = unat, e_pri64 = unat, e_pri_edge = (\<lambda>e. unat (fst e)) \<rparr>"

definition demo_turn :: "recv \<Rightarrow> nat \<Rightarrow> ref_kernel LoopInput" where
  "demo_turn r t = \<lparr> li_shutdown = False, li_exited = False, li_now = t, li_recv = r, li_woke = t + 200000000, li_kernel = (\<lambda>k. k),
     li_send = True, li_env = demo_env, li_done = t + 200000100 \<rparr>"

lemma demo_init:
  "\<exists>ro tn. Scheduler_init Opts_default Config_default demo_boot = Inr (ro, tn, new_scheduler Opts_default Config_default demo_topology)"
  by (simp add: Scheduler_init_def demo_boot_def demo_topology_def fill_rodata_def set_cpu_llc_def MAX_CPUS_def MAX_LLCS_def)

lemma demo_kernel: "ref_inv (\<lambda>_. [])" "ref_contents m (\<lambda>_. []) key = None"
  by (simp_all add: ref_inv_def map_sized_def ref_contents_def)

text \<open>Witness of C4.\<close>

theorem run_never_panics_witness:
  "case run ref_ops 0 [demo_turn TimedOut 0, demo_turn (Received ReqMetrics) 200000100] (\<lambda>_. [])
      (new_scheduler Opts_default Config_default demo_topology) of
      RunFailed e \<Rightarrow> \<forall>p. e \<noteq> MainPanic p
    | RunPending st \<Rightarrow> spills_within ref_contents (current_spills (ls_sched st)) (ls_kernel st)
    | RunStopped st \<Rightarrow> spills_within ref_contents (current_spills (ls_sched st)) (ls_kernel st)"
proof -
  obtain ro tn where "Scheduler_init Opts_default Config_default demo_boot = Inr (ro, tn, new_scheduler Opts_default Config_default demo_topology)"
    using demo_init by blast
  then show ?thesis
    by (rule run_never_panics [OF ref.bpf_maps_axioms])
      (auto simp: demo_kernel kernel_step_ok_def demo_turn_def)
qed

section \<open>The rhythm of the ticks\<close>

lemma apply_merge_core: "apply_merge ko tc p sk = Inr r \<Longrightarrow> core (fst r) = core (fst sk)"
  by (auto simp: apply_merge_def core_def Let_def split: prod.splits sum.splits option.splits)

lemma apply_split_core: "apply_split ko p sk = Inr r \<Longrightarrow> core (fst r) = core (fst sk)"
  by (auto simp: apply_split_def core_def Let_def split: prod.splits sum.splits option.splits)

lemma discover_core:
  assumes "discover_relationships env ko cohorts tasks tc k s = Inr (s', k')"
  shows "core s' = core s"
proof -
  have loops: "try_fold (apply_merge ko tc) ps sk = Inr r \<Longrightarrow> core (fst r) = core (fst sk)"
    "try_fold (apply_split ko) qs sk = Inr r \<Longrightarrow> core (fst r) = core (fst sk)" for ps qs sk r
    by (erule try_fold_invariant [where I = "\<lambda>r. core (fst r) = core (fst sk)"], simp_all add: apply_merge_core apply_split_core)+
  have upd: "core (s\<lparr> wake_graph := g \<rparr>) = core s" for s g by (simp add: core_def)
  show ?thesis
    using assms unfolding discover_relationships_def Let_def
    by (auto simp: upd split: sum.splits prod.splits dest!: loops)
qed

lemma tick_interval:
  assumes "tick env ko k s = Inr (view, s', k')"
  shows "interval s' = interval s"
proof -
  obtain cohorts llcs where view: "view = (cohorts, llcs)" by (cases view)
  from assms [unfolded view] show ?thesis
  proof (rule tickE)
    fix tasks s1 tc s2 k2 s3 k3 s4 k4 s5 b ds s6 k6 d s7 k7 s8
    assume t: "snapshot_tasks ko k s = Inr (tasks, s1)" "apply_rules env ko tasks k s1 = Inr (s2, k2)"
      "snapshot_cohorts ko tasks tc k2 s2 = Inr (cohorts, s3, k3)" "llc_loads ko k4 s4 = Inr (llcs, s5)"
      "apply_decisions ko ds k4 (s5\<lparr> balancer := b \<rparr>) = Inr (s6, k6)"
      and gc: "gc_tgid_map ko tc tasks k3 s3 = (s4, k4)" and sp: "apply_spills env ko d k6 s6 = Inr (s7, k7)"
      and di: "discover_relationships env ko cohorts tasks tc k7 s7 = Inr (s8, k')" and s': "s' = s8\<lparr> last_tasks := tasks \<rparr>"
    have "interval_ms s4 = interval_ms s3" "interval_ms s7 = interval_ms s6"
      using gc sp by (auto simp: gc_tgid_map_def apply_spills_def split: prod.splits sum.splits)
    with snapshot_tasks_frame [OF t(1)] apply_rules_state [OF t(2)] snapshot_cohorts_frame [OF t(3)] llc_loads_core [OF t(4)]
      apply_decisions_state [OF t(5)] discover_core [OF di]
    show ?thesis by (simp add: s' core_def interval_def)
  qed
qed

text \<open>
  The start and end of every tick of a run, and the contract of the channel: \<open>recv_timeout\<close> reports a
  timeout only once the timeout has passed, and the clock does not run backwards during a tick.
\<close>

fun tick_times :: "'k kernel_ops \<Rightarrow> 'k LoopInput list \<Rightarrow> 'k LoopState \<Rightarrow> (nat \<times> nat) list" where
  "tick_times ko [] st = []"
| "tick_times ko (i # is) st =
     (if li_shutdown i \<or> li_exited i then []
      else case loop_body ko i st of
             Inl e \<Rightarrow> []
           | Inr st' \<Rightarrow> (if li_recv i = TimedOut then [(li_woke i, li_done i)] else []) @ tick_times ko is st')"

fun timeouts_kept :: "'k kernel_ops \<Rightarrow> 'k LoopInput list \<Rightarrow> 'k LoopState \<Rightarrow> bool" where
  "timeouts_kept ko [] st = True"
| "timeouts_kept ko (i # is) st =
     ((li_recv i = TimedOut \<longrightarrow> li_now i + loop_timeout i st \<le> li_woke i \<and> li_woke i \<le> li_done i) \<and>
      (case loop_body ko i st of Inl e \<Rightarrow> True | Inr st' \<Rightarrow> timeouts_kept ko is st'))"

lemma loop_body_next:
  assumes "loop_body ko i st = Inr st'"
  shows "interval (ls_sched st') = interval (ls_sched st) \<and>
    ls_next_tick st' = (if li_recv i = TimedOut then li_done i + interval (ls_sched st) else ls_next_tick st)"
  using assms
  by (auto simp: loop_body_def Let_def tick_interval split: recv.splits StatsReq.splits sum.splits daemon_error.splits if_splits)

lemma tick_times_spaced:
  assumes "timeouts_kept ko inputs st"
  shows "(\<forall>(w, d) \<in> set (tick_times ko inputs st). ls_next_tick st \<le> w) \<and>
    sorted_wrt (\<lambda>(w, d) (w', d'). d + interval (ls_sched st) \<le> w') (tick_times ko inputs st)"
  using assms
proof (induction inputs arbitrary: st)
  case (Cons i inputs)
  show ?case
  proof (cases "loop_body ko i st")
    case (Inr st')
    note n = loop_body_next [OF Inr]
    have IH: "(\<forall>(w, d) \<in> set (tick_times ko inputs st'). ls_next_tick st' \<le> w) \<and>
        sorted_wrt (\<lambda>(w, d) (w', d'). d + interval (ls_sched st') \<le> w') (tick_times ko inputs st')"
      using Cons.prems Inr by (intro Cons.IH) simp
    show ?thesis
    proof (cases "li_recv i = TimedOut")
      case True
      then have "ls_next_tick st \<le> li_woke i" "li_woke i \<le> li_done i" using Cons.prems by (auto simp: loop_timeout_def)
      moreover have later: "\<forall>x \<in> set (tick_times ko inputs st'). li_done i + interval (ls_sched st) \<le> fst x"
        using IH n True by auto
      ultimately have "\<forall>x \<in> set (tick_times ko inputs st'). ls_next_tick st \<le> fst x" by auto
      with IH n True Inr later \<open>ls_next_tick st \<le> li_woke i\<close> show ?thesis by (auto simp: case_prod_unfold)
    next
      case False
      with IH n Inr show ?thesis by simp
    qed
  qed simp
qed simp

text \<open>
  No burst of catch-up ticks. In every run, the first tick starts no earlier than one
  interval after the loop was entered, and each tick starts no earlier than one full interval after
  the end of the tick before it, however long that tick took and however many requests were
  answered in between.
\<close>

lemma run_ticks_spaced:
  assumes "timeouts_kept ko inputs st"
    and "st = \<lparr> ls_sched = s, ls_kernel = k, ls_view = ([], []), ls_next_tick = start + interval s, ls_sent = [] \<rparr>"
  shows "(\<forall>(w, d) \<in> set (tick_times ko inputs st). start + interval s \<le> w) \<and>
    sorted_wrt (\<lambda>(w, d) (w', d'). d + interval s \<le> w') (tick_times ko inputs st)"
  using tick_times_spaced [OF assms(1)] assms(2) by simp

text \<open>A tick on a machine where nothing runs.\<close>

lemma demo_llc_cpus: "llc_cpus (new_scheduler Opts_default Config_default demo_topology) = [(0, 2), (1, 2)]"
  by (simp add: new_scheduler_def demo_topology_def bt_collect_def hm_collect_def)

definition quiet :: "ref_kernel \<Rightarrow> bool" where
  "quiet k \<longleftrightarrow> ref_inv k \<and> k task_stats = [] \<and> k tgid_cohort_map = [] \<and> k wake_edges = []"

lemma quiet_cohorts:
  assumes "quiet k"
  shows "\<exists>s'. snapshot_cohorts ref_ops [] [] k s = Inr ([], s', k)"
proof -
  have "map_sized cohort_counters (k cohort_counters)" using assms by (simp add: quiet_def ref_inv_def)
  then have "\<forall>(key, val) \<in> set (k cohort_counters). length key = 8 \<and> length val = 16"
    by (auto simp: map_sized_def list_all_iff)
  note r = cohort_rows [OF this, of s "[]" "{}" False "read_policies (k cohort_policy)"
      "\<lparr> sc_out = [], sc_dead = [], sc_seen = [], sc_dead_now = {} \<rparr>"]
  have "cohort_idle [] {} i" for i by (simp add: cohort_idle_def cohort_tasks_def)
  then obtain sc where "try_fold (cohort_row s (count_tasks []) {} False (read_policies (k cohort_policy))) (k cohort_counters)
      \<lparr> sc_out = [], sc_dead = [], sc_seen = [], sc_dead_now = {} \<rparr> = Inr sc" "sc_out sc = []" "sc_dead sc = []"
    using r by auto
  then show ?thesis by (simp add: snapshot_cohorts_def ref_ops_def)
qed

lemma quiet_tick:
  assumes "quiet k"
  shows "\<exists>r. tick demo_env ref_ops k (new_scheduler Opts_default Config_default demo_topology) = Inr r"
proof -
  define s0 where "s0 = new_scheduler Opts_default Config_default demo_topology"
  have s0: "rules (config s0) = []" "current_spills s0 = []" "edges (wake_graph s0) = []" "split_streak (wake_graph s0) = []"
    unfolding s0_def by (simp_all add: new_scheduler_def Config_default_def WakeGraph_new_def)
  have k: "k task_stats = []" "k tgid_cohort_map = []" "k wake_edges = []" "k(wake_edges := []) = k"
    using assms by (auto simp: quiet_def)
  have t1: "snapshot_tasks ref_ops k s0 = Inr ([], s0\<lparr> prev_runtime := [] \<rparr>)" by (simp add: snapshot_tasks_def ref_ops_def k)
  have t2: "snapshot_tgid_cohort ref_ops k = Inr []" by (simp add: snapshot_tgid_cohort_def ref_ops_def k)
  have t3: "apply_rules demo_env ref_ops [] k (s0\<lparr> prev_runtime := [] \<rparr>) = Inr (s0\<lparr> prev_runtime := [] \<rparr>, k)"
    by (simp add: apply_rules_def s0)
  obtain s3 where t4: "snapshot_cohorts ref_ops [] [] k (s0\<lparr> prev_runtime := [] \<rparr>) = Inr ([], s3, k)"
    using quiet_cohorts [OF assms] by blast
  have s3: "core s3 = core s0" "wake_graph s3 = wake_graph s0" using snapshot_cohorts_frame [OF t4] by (simp_all add: core_def)
  have "\<exists>r. try_fold (llc_row ref_ops k ns) xs acc = Inr r \<and> True" for ns xs acc
    by (rule try_fold_total [where I = "\<lambda>_. True"]) (auto simp: llc_row_def ref_ops_def Let_def split: prod.split)
  from this [of "interval_ns (interval_ms s3)" "llc_cpus s3" "([], prev_llc_load s3)"]
  obtain llcs prevs where "try_fold (llc_row ref_ops k (interval_ns (interval_ms s3))) (llc_cpus s3) ([], prev_llc_load s3) = Inr (llcs, prevs)"
    by auto
  then obtain s5 where t6: "llc_loads ref_ops k (s3\<lparr> dead_tgids := {} \<rparr>) = Inr (llcs, s5)" by (simp add: llc_loads_def)
  have s5: "current_spills s5 = []" "wake_graph s5 = wake_graph s0"
    using llc_loads_frame [OF t6] s3 s0 by (simp_all add: core_def)
  have "\<exists>b'. plan (e_now_ms demo_env) llcs [] (balancer s5) = Inr (b', [])"
    unfolding plan_cases by (simp add: candidates_def)
  then obtain b' where t7: "plan (e_now_ms demo_env) llcs [] (balancer s5) = Inr (b', [])" ..
  have t9: "plan_spills cfg llcs [] [] [] = Inr []" for cfg by (simp add: plan_spills_def Let_def)
  have t10: "apply_spills demo_env ref_ops [] k (s5\<lparr> balancer := b' \<rparr>) = Inr (s5\<lparr> balancer := b', current_spills := [] \<rparr>, k)"
    using s5 by (simp add: apply_spills_def hm_iter_def)
  obtain s8 k' where t11: "discover_relationships demo_env ref_ops [] [] [] k (s5\<lparr> balancer := b', current_spills := [] \<rparr>) = Inr (s8, k')"
    using s5 s0 k by (simp add: discover_relationships_def snapshot_edges_def ref_ops_def observe_def fresh_counts_def merges_def
        hm_retain_def hm_iter_def cohort_sizes_of_def hm_collect_def cohort_members_of_def splits_def Let_def)
  show ?thesis
    unfolding s0_def [symmetric] tick_def
    using s5 by (simp add: t1 t2 t3 t4 t6 t7 t9 t10 t11 gc_tgid_map_def apply_decisions_def)
qed

text \<open>An instance.\<close>

lemma run_ticks_spaced_witness:
  "let st = \<lparr> ls_sched = new_scheduler Opts_default Config_default demo_topology, ls_kernel = (\<lambda>_. []), ls_view = ([], []),
              ls_next_tick = 200000000, ls_sent = [] \<rparr>;
       ts = tick_times ref_ops [demo_turn TimedOut 0, demo_turn TimedOut 200000100] st
   in (200000000, 200000100) \<in> set ts \<and> (\<forall>(w, d) \<in> set ts. 200000000 \<le> w) \<and>
      sorted_wrt (\<lambda>(w, d) (w', d'). d + 200000000 \<le> w') ts"
proof -
  let ?s = "new_scheduler Opts_default Config_default demo_topology"
  let ?st = "\<lparr> ls_sched = ?s, ls_kernel = (\<lambda>_. []) :: ref_kernel, ls_view = ([], []), ls_next_tick = 0 + interval ?s, ls_sent = [] \<rparr>"
  let ?is = "[demo_turn TimedOut 0, demo_turn TimedOut 200000100]"
  have i: "interval ?s = 200000000" by (simp add: interval_def new_scheduler_def Opts_default_def)
  obtain st' where b: "loop_body ref_ops (demo_turn TimedOut 0) ?st = Inr st'"
    using quiet_tick [of "\<lambda>_. []"] by (auto simp: quiet_def demo_kernel loop_body_def demo_turn_def Let_def)
  have n: "ls_next_tick st' = 400000100" using loop_body_next [OF b] by (simp add: demo_turn_def i)
  have kept: "timeouts_kept ref_ops ?is ?st"
    using b n by (auto simp: loop_timeout_def demo_turn_def i split: sum.split)
  have "(200000000, 200000100) \<in> set (tick_times ref_ops ?is ?st)" using b by (simp add: demo_turn_def)
  with run_ticks_spaced [OF kept refl] show ?thesis unfolding i Let_def add_0 by (intro conjI) (elim conjE, assumption)+
qed

end
