(* ===== verification/Daemon_Properties.thy ===== *)
theory Daemon_Properties
  imports Daemon_Runs
begin

text \<open>
  The properties of the daemon's traffic with the BPF maps, stated over the operations of the model
  and every kernel side that behaves as \<open>bpf_maps\<close> says, with witnesses on the reference kernel.
\<close>

section \<open>Pinned cohorts\<close>

context bpf_maps
begin

text \<open>The balancer's decisions name only cohorts whose policy entry is not pinned.\<close>

lemma decisions_unpinned:
  assumes "kinv k" and "snapshot_cohorts ko tasks tc k s = Inr (cohorts, s', k')"
    and "plan now llcs cohorts b = Inr (b', ds)"
    and "contents cohort_policy k (u64_bytes c) = Some (CohortPolicy_bytes p)" and "p_flags p AND COHORT_PINNED \<noteq> 0"
  shows "c \<notin> decision_id ` set ds"
proof
  assume "c \<in> decision_id ` set ds"
  then have "ds \<noteq> []" by auto
  from assms(3) this obtain x where "min_by_key (\<lambda>c. (repaired_gap (load_gap llcs) c, c_load_ns c)) (candidates b now llcs cohorts) = Some x"
    and ds: "ds = [MoveCohort (c_id x) (l_llc (idle_llc llcs))]" by (rule plan_moveE)
  from min_by_key_in [OF this(1)] have x: "x \<in> set cohorts" "\<not> c_pinned x"
    by (auto simp: candidates_iff movable_def)
  have "c_id x = c" using \<open>c \<in> decision_id ` set ds\<close> ds by simp
  moreover have "\<forall>x \<in> set cohorts. c_pinned x = (let p = (case contents cohort_policy k (u64_bytes (c_id x)) of
        Some v \<Rightarrow> (case CohortPolicy_read v of Some p \<Rightarrow> p | None \<Rightarrow> CohortPolicy_default)
      | None \<Rightarrow> CohortPolicy_default) in p_flags p AND COHORT_PINNED \<noteq> 0)"
    using snapshot_cohorts_effect [OF assms(1,2)] by (simp add: Let_def)
  ultimately show False using x assms(4,5) by (auto simp: Let_def map_simps)
qed

end

text \<open>A kernel with one pinned cohort and no tasks.\<close>

definition pinned_kernel :: ref_kernel where
  "pinned_kernel = (\<lambda>_. [])
     (cohort_policy := [(u64_bytes 7, CohortPolicy_bytes \<lparr> p_home_llc = 1, p_flags = 1 \<rparr>)],
      cohort_counters := [(u64_bytes 7, CohortCounters_bytes CohortCounters_default)])"

lemma pinned_kernel_quiet: "quiet pinned_kernel"
  by (simp add: quiet_def ref_inv_def pinned_kernel_def map_sized_def map_simps hm_wf_def)

lemma pinned_stages:
  defines "s0 \<equiv> new_scheduler Opts_default Config_default demo_topology"
  shows "snapshot_tasks ref_ops pinned_kernel s0 = Inr ([], s0\<lparr> prev_runtime := [] \<rparr>)" and
    "apply_rules demo_env ref_ops [] pinned_kernel (s0\<lparr> prev_runtime := [] \<rparr>) = Inr (s0\<lparr> prev_runtime := [] \<rparr>, pinned_kernel)"
  by (simp_all add: snapshot_tasks_def ref_ops_def pinned_kernel_def apply_rules_def s0_def new_scheduler_def Config_default_def)

section \<open>Merges\<close>

text \<open>
  C18. Merges move processes and lose none. Applying the merge plans of a tick, which name no
  cohort twice, always succeeds when the cohorts exist; afterwards every process that was mapped is
  still mapped, to the absorbing cohort if its own was absorbed and to the same cohort otherwise,
  the absorbed cohorts have neither counters nor policy, and nothing else of the maps has changed.
\<close>

theorem merges_move_processes:
  assumes "bpf_maps ko contents kinv" and "kinv k" and "hm_wf tc" and "distinct (plan_cohorts plans)"
    and "\<forall>c \<in> set (plan_cohorts plans). contents cohort_counters k (u64_bytes c) \<noteq> None"
    and "\<forall>t v. contents tgid_cohort_map k (u32_bytes t) = Some v \<longrightarrow> (\<exists>c. hm_get tc t = Some c \<and> v = u64_bytes c)"
  shows "\<exists>s' k'. try_fold (apply_merge ko tc) plans (s, k) = Inr (s', k') \<and>
    (\<forall>t. contents tgid_cohort_map k' (u32_bytes t) =
       (if contents tgid_cohort_map k (u32_bytes t) = None then None
        else map_option (\<lambda>c. u64_bytes (relabel plans c)) (hm_get tc t))) \<and>
    (\<forall>m \<in> {cohort_counters, cohort_policy}. \<forall>c. contents m k' (u64_bytes c) =
       (if c \<in> m_from ` set plans then None else contents m k (u64_bytes c))) \<and>
    (\<forall>m. m \<notin> {cohort_counters, cohort_policy, tgid_cohort_map} \<longrightarrow> contents m k' = contents m k)"
  by (rule bpf_maps.merge_all [OF assms])

definition merge_kernel :: ref_kernel where
  "merge_kernel = (\<lambda>_. [])
     (cohort_counters := [(u64_bytes 1, CohortCounters_bytes CohortCounters_default), (u64_bytes 2, CohortCounters_bytes CohortCounters_default)],
      tgid_cohort_map := [(u32_bytes 10, u64_bytes 1), (u32_bytes 20, u64_bytes 2)])"

lemma merge_kernel_inv: "ref_inv merge_kernel"
  by (simp add: ref_inv_def merge_kernel_def map_sized_def map_simps hm_wf_def)

lemma merge_kernel_get:
  "ref_contents cohort_counters merge_kernel (u64_bytes c) =
     (if c = 1 \<or> c = 2 then Some (CohortCounters_bytes CohortCounters_default) else None)"
  "ref_contents tgid_cohort_map merge_kernel (u32_bytes t) =
     (if t = 10 then Some (u64_bytes 1) else if t = 20 then Some (u64_bytes 2) else None)"
  by (simp_all add: ref_contents_def merge_kernel_def map_simps)

text \<open>Witness of C18.\<close>

theorem merges_move_processes_witness:
  "\<exists>s' k'. try_fold (apply_merge ref_ops [(10, 1), (20, 2)]) [\<lparr> m_into = 1, m_from = 2 \<rparr>]
      (new_scheduler Opts_default Config_default demo_topology, merge_kernel) = Inr (s', k') \<and>
     ref_contents tgid_cohort_map k' (u32_bytes 20) = Some (u64_bytes 1) \<and>
     ref_contents cohort_counters k' (u64_bytes 2) = None"
proof -
  have h: "hm_wf [(10 :: u32, 1 :: u64), (20, 2)]" "distinct (plan_cohorts [\<lparr> m_into = 1, m_from = 2 \<rparr>])"
    "\<forall>c \<in> set (plan_cohorts [\<lparr> m_into = 1, m_from = 2 \<rparr>]). ref_contents cohort_counters merge_kernel (u64_bytes c) \<noteq> None"
    "\<forall>t v. ref_contents tgid_cohort_map merge_kernel (u32_bytes t) = Some v \<longrightarrow>
       (\<exists>c. hm_get [(10, 1), (20, 2)] t = Some c \<and> v = u64_bytes c)"
    by (auto simp: hm_wf_def plan_cohorts_def merge_kernel_get)
  from merges_move_processes [OF ref.bpf_maps_axioms, OF merge_kernel_inv h, of "new_scheduler Opts_default Config_default demo_topology"]
  obtain s' k' where r: "try_fold (apply_merge ref_ops [(10, 1), (20, 2)]) [\<lparr> m_into = 1, m_from = 2 \<rparr>]
      (new_scheduler Opts_default Config_default demo_topology, merge_kernel) = Inr (s', k')"
    and t: "\<forall>t. ref_contents tgid_cohort_map k' (u32_bytes t) = (if ref_contents tgid_cohort_map merge_kernel (u32_bytes t) = None then None
        else map_option (\<lambda>c. u64_bytes (relabel [\<lparr> m_into = 1, m_from = 2 \<rparr>] c)) (hm_get [(10, 1), (20, 2)] t))"
    and c: "\<forall>m \<in> {cohort_counters, cohort_policy}. \<forall>c. ref_contents m k' (u64_bytes c) =
       (if c \<in> m_from ` set [\<lparr> m_into = 1, m_from = 2 \<rparr>] then None else ref_contents m merge_kernel (u64_bytes c))"
    by (elim exE conjE) (rule that)
  have "ref_contents tgid_cohort_map k' (u32_bytes 20) = Some (u64_bytes 1)" using t [rule_format, of 20] by (simp add: merge_kernel_get relabel_def)
  moreover have "ref_contents cohort_counters k' (u64_bytes 2) = None" using c by simp
  ultimately show ?thesis using r by blast
qed

section \<open>Splits\<close>

text \<open>
  C19. A split creates a cohort of its own and moves exactly its processes. When the daemon
  applies a split plan whose cohort has a policy, the new cohort gets the next daemon id, which had
  no entry before, starts on the old home without a pin and with zero counters; every process of
  the plan that is still mapped is mapped to it, all other processes keep their cohort, and no
  existing policy or counters entry is rewritten.
\<close>

theorem split_moves_processes:
  assumes "bpf_maps ko contents kinv" and "kinv k"
    and "contents cohort_policy k (u64_bytes (s_cohort p)) = Some (CohortPolicy_bytes old)"
    and "apply_split ko p (s, k) = Inr (s', k')"
  shows "let new_id = DAEMON_COHORT_BASE + daemon_seq s in
    s' = s\<lparr> daemon_seq := daemon_seq s + 1, nr_splits := nr_splits s + 1 \<rparr> \<and>
    contents cohort_policy k (u64_bytes new_id) = None \<and> contents cohort_counters k (u64_bytes new_id) = None \<and>
    contents cohort_policy k' = (contents cohort_policy k)
      (u64_bytes new_id \<mapsto> CohortPolicy_bytes \<lparr> p_home_llc = p_home_llc old, p_flags = 0 \<rparr>) \<and>
    contents cohort_counters k' = (contents cohort_counters k)
      (u64_bytes new_id \<mapsto> CohortCounters_bytes CohortCounters_default) \<and>
    (\<forall>m. m \<notin> {cohort_counters, cohort_policy, tgid_cohort_map} \<longrightarrow> contents m k' = contents m k) \<and>
    (\<forall>t. contents tgid_cohort_map k' (u32_bytes t) =
       (if t \<in> set (off_tgids p) \<and> contents tgid_cohort_map k (u32_bytes t) \<noteq> None
        then Some (u64_bytes new_id) else contents tgid_cohort_map k (u32_bytes t)))"
  using bpf_maps.apply_split_effect [OF assms] by (simp add: Let_def)

definition split_kernel :: ref_kernel where
  "split_kernel = (\<lambda>_. [])
     (cohort_policy := [(u64_bytes 1, CohortPolicy_bytes \<lparr> p_home_llc = 1, p_flags = 0 \<rparr>)],
      tgid_cohort_map := [(u32_bytes 10, u64_bytes 1), (u32_bytes 20, u64_bytes 1)])"

lemma split_kernel_inv: "ref_inv split_kernel"
  by (simp add: ref_inv_def split_kernel_def map_sized_def map_simps hm_wf_def)

lemma split_kernel_runs:
  "\<exists>s' k'. apply_split ref_ops \<lparr> s_cohort = 1, off_tgids = [20, 30] \<rparr> (new_scheduler Opts_default Config_default demo_topology, split_kernel) = Inr (s', k')"
  by (simp add: apply_split_def ref_ops_def split_kernel_def map_simps split_off_tgid_def DAEMON_COHORT_BASE_def new_scheduler_def Let_def)

text \<open>Witness of C19.\<close>

theorem split_moves_processes_witness:
  "\<exists>s' k'. apply_split ref_ops \<lparr> s_cohort = 1, off_tgids = [20, 30] \<rparr>
      (new_scheduler Opts_default Config_default demo_topology, split_kernel) = Inr (s', k') \<and>
     ref_contents tgid_cohort_map k' (u32_bytes 20) = Some (u64_bytes DAEMON_COHORT_BASE) \<and>
     ref_contents tgid_cohort_map k' (u32_bytes 10) = Some (u64_bytes 1) \<and> ref_contents tgid_cohort_map k' (u32_bytes 30) = None"
proof -
  obtain s' k' where r: "apply_split ref_ops \<lparr> s_cohort = 1, off_tgids = [20, 30] \<rparr>
      (new_scheduler Opts_default Config_default demo_topology, split_kernel) = Inr (s', k')"
    using split_kernel_runs by blast
  have p: "ref_contents cohort_policy split_kernel (u64_bytes (s_cohort \<lparr> s_cohort = 1, off_tgids = [20, 30] \<rparr>)) =
      Some (CohortPolicy_bytes \<lparr> p_home_llc = 1, p_flags = 0 \<rparr>)"
    by (simp add: ref_contents_def split_kernel_def)
  have seq: "daemon_seq (new_scheduler Opts_default Config_default demo_topology) = 0" by (simp add: new_scheduler_def)
  have t: "\<forall>t. ref_contents tgid_cohort_map k' (u32_bytes t) =
       (if t \<in> {20, 30} \<and> ref_contents tgid_cohort_map split_kernel (u32_bytes t) \<noteq> None
        then Some (u64_bytes DAEMON_COHORT_BASE) else ref_contents tgid_cohort_map split_kernel (u32_bytes t))"
    using split_moves_processes [OF ref.bpf_maps_axioms, OF split_kernel_inv p r] by (simp add: Let_def seq)
  have g: "ref_contents tgid_cohort_map split_kernel (u32_bytes t) = (if t = 10 \<or> t = 20 then Some (u64_bytes 1) else None)" for t
    by (simp add: ref_contents_def split_kernel_def map_simps)
  show ?thesis using r t by (auto simp: g)
qed

section \<open>Garbage collection\<close>

context bpf_maps
begin

lemma cohort_gc_confirmed:
  assumes "c \<notin> dead_cohorts s" and "\<forall>i \<in> set (is @ [j]). kinv (gc_kernel i)"
    and "snd (cohort_gc_step ko contents kinv c j (run_steps (cohort_gc_step ko contents kinv c) is s))"
  shows "2 \<le> length (is @ [j]) \<and> (\<forall>i \<in> set (drop (length (is @ [j]) - 2) (is @ [j])). cohort_unused contents c i)"
proof -
  have all: "filter (\<lambda>i. kinv (gc_kernel i)) (is @ [j]) = is @ [j]" using assms(2) by (intro filter_True) auto
  have "2 \<le> trailing (cohort_unused contents c) (filter (\<lambda>i. kinv (gc_kernel i)) (is @ [j]))"
    using assms(1,3) by (intro cohort_gc.confirmed_run) simp_all
  from trailing_suffix [OF this] show ?thesis unfolding all .
qed

lemma process_gc_confirmed:
  assumes "t \<notin> dead_tgids s" and "\<forall>i \<in> set (is @ [j]). kinv (gc_kernel i)"
    and "snd (process_gc_step ko contents kinv t j (run_steps (process_gc_step ko contents kinv t) is s))"
  shows "2 \<le> length (is @ [j]) \<and> (\<forall>i \<in> set (drop (length (is @ [j]) - 2) (is @ [j])). process_unused t i)"
proof -
  have all: "filter (\<lambda>i. kinv (gc_kernel i)) (is @ [j]) = is @ [j]" using assms(2) by (intro filter_True) auto
  have "2 \<le> trailing (process_unused t) (filter (\<lambda>i. kinv (gc_kernel i)) (is @ [j]))"
    using assms(1,3) by (intro process_gc.confirmed_run) simp_all
  from trailing_suffix [OF this] show ?thesis unfolding all .
qed

end

text \<open>
  C27. A cohort is collected only after two dead ticks. Starting with no suspects, over any
  sequence of ticks on any states of the maps, if a tick removes a cohort then in that tick and in
  the tick before it the task scan was not empty, no task was a member of the cohort, no process was
  mapped to it and it had counters; a failed scan never counts as a death.
\<close>

theorem cohort_collected_after_two:
  assumes "bpf_maps ko contents kinv" and "c \<notin> dead_cohorts s" and "\<forall>i \<in> set (is @ [j]). kinv (gc_kernel i)"
    and "\<forall>i \<in> set (is @ [j]). length (gc_tasks i) < 2 ^ 64"
    and "snd (cohort_gc_step ko contents kinv c j (run_steps (cohort_gc_step ko contents kinv c) is s))"
  shows "2 \<le> length (is @ [j]) \<and> (\<forall>i \<in> set (drop (length (is @ [j]) - 2) (is @ [j])). gc_tasks i \<noteq> [] \<and>
    (\<forall>t \<in> set (gc_tasks i). t_cohort_id t \<noteq> c) \<and> c \<notin> snd ` set (gc_tgids i) \<and>
    contents cohort_counters (gc_kernel i) (u64_bytes c) \<noteq> None)"
proof -
  note two = bpf_maps.cohort_gc_confirmed [OF assms(1-3,5)]
  have "\<forall>t \<in> set (gc_tasks i). t_cohort_id t \<noteq> c"
    if "i \<in> set (is @ [j])" "cohort_unused contents c i" for i
  proof -
    have "length (gc_tasks i) < 2 ^ 64" using that(1) assms(4) by blast
    then have "cohort_tasks (gc_tasks i) c = []"
      using that(2) count_zero [of "gc_tasks i" c] by (simp add: cohort_unused_def cohort_idle_def)
    then show ?thesis by (simp add: cohort_tasks_def filter_empty_conv)
  qed
  note none = this
  show ?thesis
  proof (intro conjI ballI)
    show "2 \<le> length (is @ [j])" using two by blast
    fix i assume "i \<in> set (drop (length (is @ [j]) - 2) (is @ [j]))"
    then have i: "i \<in> set (is @ [j])" "cohort_unused contents c i" using two in_set_dropD by fast+
    show "t_cohort_id t \<noteq> c" if "t \<in> set (gc_tasks i)" for t using none [OF i] that by blast
    show "gc_tasks i \<noteq> []" "c \<notin> snd ` set (gc_tgids i)" "contents cohort_counters (gc_kernel i) (u64_bytes c) \<noteq> None"
      using i(2) by (simp_all add: cohort_unused_def cohort_idle_def)
  qed
qed

definition gc_task :: TaskSnapshot where
  "gc_task = \<lparr> t_pid = 9, t_tgid = 9, t_cohort_id = 3, t_duty_ns = 0, t_home_ns = 0, t_comm = ''sh'' \<rparr>"

definition gc_turn :: "ref_kernel GcInput" where
  "gc_turn = \<lparr> gc_tasks = [gc_task], gc_tgids = [(9, 3)], gc_kernel = merge_kernel \<rparr>"

definition idle_scheduler :: Scheduler where
  "idle_scheduler = new_scheduler Opts_default Config_default demo_topology"

lemma idle_scheduler_simps [simp]: "dead_cohorts idle_scheduler = {}" "dead_tgids idle_scheduler = {}"
  by (simp_all add: idle_scheduler_def new_scheduler_def)

lemma gc_turn_simps: "gc_kernel gc_turn = merge_kernel" "gc_tasks gc_turn = [gc_task]" "gc_tgids gc_turn = [(9, 3)]"
  by (simp_all add: gc_turn_def)

lemma gc_turn_effect:
  "\<exists>s'. cohort_gc_step ref_ops ref_contents ref_inv 2 gc_turn s = (s', 2 \<in> dead_cohorts s) \<and> (2 \<in> dead_cohorts s' \<longleftrightarrow> 2 \<notin> dead_cohorts s)"
proof -
  obtain cohorts s' k' where r: "snapshot_cohorts ref_ops (gc_tasks gc_turn) (gc_tgids gc_turn) (gc_kernel gc_turn) s = Inr (cohorts, s', k')"
    by (rule ref.snapshot_cohorts_total [OF merge_kernel_inv]) (simp add: gc_turn_simps)
  have k: "ref_inv (gc_kernel gc_turn)" by (simp add: gc_turn_def merge_kernel_inv)
  have idle: "cohort_idle (gc_tasks gc_turn) (snd ` set (gc_tgids gc_turn)) 2"
    by (simp add: gc_turn_def cohort_idle_def cohort_tasks_def gc_task_def)
  have "ref_contents cohort_counters (gc_kernel gc_turn) (u64_bytes 2) \<noteq> None" "gc_tasks gc_turn \<noteq> []"
    by (simp_all add: gc_turn_def merge_kernel_get)
  with ref.snapshot_cohorts_effect [OF k r] idle k show ?thesis
    by (auto simp: cohort_gc_step_def r)
qed

text \<open>Witness of C27.\<close>

theorem cohort_collected_after_two_witness:
  "snd (cohort_gc_step ref_ops ref_contents ref_inv 2 gc_turn (run_steps (cohort_gc_step ref_ops ref_contents ref_inv 2) [gc_turn] idle_scheduler)) \<and>
   gc_tasks gc_turn \<noteq> [] \<and> 2 \<notin> t_cohort_id ` set (gc_tasks gc_turn) \<and> 2 \<notin> snd ` set (gc_tgids gc_turn) \<and>
   ref_contents cohort_counters (gc_kernel gc_turn) (u64_bytes 2) \<noteq> None"
proof -
  have s: "snd (cohort_gc_step ref_ops ref_contents ref_inv 2 gc_turn (run_steps (cohort_gc_step ref_ops ref_contents ref_inv 2) [gc_turn] idle_scheduler))"
    using gc_turn_effect [of idle_scheduler] gc_turn_effect [of "fst (cohort_gc_step ref_ops ref_contents ref_inv 2 gc_turn idle_scheduler)"] by auto
  have h: "2 \<notin> dead_cohorts idle_scheduler" "\<forall>i \<in> set ([gc_turn] @ [gc_turn]). ref_inv (gc_kernel i)"
    "\<forall>i \<in> set ([gc_turn] @ [gc_turn]). length (gc_tasks i) < 2 ^ 64"
    by (simp_all add: gc_turn_simps merge_kernel_inv)
  have "gc_turn \<in> set (drop (length ([gc_turn] @ [gc_turn]) - 2) ([gc_turn] @ [gc_turn]))" by simp
  from bspec [OF conjunct2 [OF cohort_collected_after_two [OF ref.bpf_maps_axioms, OF h s]] this] s show ?thesis
    by (intro conjI; elim conjE) (assumption | rule notI, elim imageE, drule bspec, assumption, erule notE, rule sym, assumption)+
qed

text \<open>
  A process mapping is collected only after two dead ticks. Starting with no suspects, over
  any sequence of ticks, if a tick removes the mapping of a process then in that tick and in the one
  before it the process was mapped and had no live task, so a mapping that has just been inserted
  survives until its first task shows up.
\<close>

lemma process_collected_after_two:
  assumes "bpf_maps ko contents kinv" and "t \<notin> dead_tgids s" and "\<forall>i \<in> set (is @ [j]). kinv (gc_kernel i)"
    and "snd (process_gc_step ko contents kinv t j (run_steps (process_gc_step ko contents kinv t) is s))"
  shows "2 \<le> length (is @ [j]) \<and> (\<forall>i \<in> set (drop (length (is @ [j]) - 2) (is @ [j])).
    t \<in> fst ` set (gc_tgids i) \<and> t \<notin> t_tgid ` set (gc_tasks i))"
  using bpf_maps.process_gc_confirmed [OF assms] by (simp add: process_unused_def)

definition gc_tgid_turn :: "ref_kernel GcInput" where
  "gc_tgid_turn = \<lparr> gc_tasks = [gc_task], gc_tgids = [(9, 3), (20, 2)], gc_kernel = merge_kernel \<rparr>"

lemma gc_tgid_turn_effect:
  "\<exists>s'. process_gc_step ref_ops ref_contents ref_inv 20 gc_tgid_turn s = (s', 20 \<in> dead_tgids s) \<and> (20 \<in> dead_tgids s' \<longleftrightarrow> 20 \<notin> dead_tgids s)"
proof -
  have k: "ref_inv merge_kernel" by (rule merge_kernel_inv)
  obtain s' k' where r: "gc_tgid_map ref_ops [(9, 3), (20, 2)] [gc_task] merge_kernel s = (s', k')" by fastforce
  have tg: "t_tgid gc_task = 9" by (simp add: gc_task_def)
  have "ref_contents tgid_cohort_map k' (u32_bytes 20) = None \<longleftrightarrow> 20 \<in> dead_tgids s"
    "20 \<in> dead_tgids s' \<longleftrightarrow> 20 \<notin> dead_tgids s"
    using ref.gc_tgid_map_effect [OF k r] by (simp_all add: tg merge_kernel_get)
  then show ?thesis by (simp add: process_gc_step_def gc_tgid_turn_def r k merge_kernel_get)
qed

text \<open>An instance.\<close>

lemma process_collected_after_two_witness:
  "snd (process_gc_step ref_ops ref_contents ref_inv 20 gc_tgid_turn
      (run_steps (process_gc_step ref_ops ref_contents ref_inv 20) [gc_tgid_turn] idle_scheduler)) \<and>
   (\<forall>i \<in> set (drop (length ([gc_tgid_turn] @ [gc_tgid_turn]) - 2) ([gc_tgid_turn] @ [gc_tgid_turn])).
      20 \<in> fst ` set (gc_tgids i) \<and> 20 \<notin> t_tgid ` set (gc_tasks i))"
proof -
  have s: "snd (process_gc_step ref_ops ref_contents ref_inv 20 gc_tgid_turn
      (run_steps (process_gc_step ref_ops ref_contents ref_inv 20) [gc_tgid_turn] idle_scheduler))"
    using gc_tgid_turn_effect [of idle_scheduler]
      gc_tgid_turn_effect [of "fst (process_gc_step ref_ops ref_contents ref_inv 20 gc_tgid_turn idle_scheduler)"] by auto
  have h: "20 \<notin> dead_tgids idle_scheduler" "\<forall>i \<in> set ([gc_tgid_turn] @ [gc_tgid_turn]). ref_inv (gc_kernel i)"
    by (simp_all add: gc_tgid_turn_def merge_kernel_inv)
  from process_collected_after_two [OF ref.bpf_maps_axioms, OF h s] s show ?thesis by blast
qed

section \<open>Snapshots\<close>

text \<open>
  C17. The cohort snapshot is exactly the live cohorts. A successful snapshot lists, without
  repetition, the cohorts with counters that have a member task or a process mapped to them, and no
  others; each row has the exact number of member tasks of the tick's task snapshot, and the home
  and pin of the cohort's policy entry, or the defaults when it has none.
\<close>

theorem snapshot_cohorts_exact:
  assumes "bpf_maps ko contents kinv" and "kinv k" and "snapshot_cohorts ko tasks tc k s = Inr (cohorts, s', k')"
    and "length tasks < 2 ^ 64"
  shows "distinct (map c_id cohorts) \<and>
    c_id ` set cohorts = {i. contents cohort_counters k (u64_bytes i) \<noteq> None \<and> ((\<exists>t \<in> set tasks. t_cohort_id t = i) \<or> i \<in> snd ` set tc)} \<and>
    (\<forall>c \<in> set cohorts. unat (c_nr_tasks c) = length (filter (\<lambda>t. t_cohort_id t = c_id c) tasks) \<and>
       (let p = (case contents cohort_policy k (u64_bytes (c_id c)) of
                   Some v \<Rightarrow> (case CohortPolicy_read v of Some p \<Rightarrow> p | None \<Rightarrow> CohortPolicy_default)
                 | None \<Rightarrow> CohortPolicy_default)
        in c_home_llc c = p_home_llc p \<and> c_pinned c = (p_flags p AND COHORT_PINNED \<noteq> 0)))"
proof -
  note e = bpf_maps.snapshot_cohorts_effect [OF assms(1-3)]
  have idle: "cohort_idle tasks (snd ` set tc) i \<longleftrightarrow> (\<forall>t \<in> set tasks. t_cohort_id t \<noteq> i) \<and> i \<notin> snd ` set tc" for i
    using count_zero [OF assms(4), of i] by (simp add: cohort_idle_def cohort_tasks_def filter_empty_conv)
  have len: "length (cohort_tasks tasks i) < 2 ^ 64" for i
    using assms(4) by (metis cohort_tasks_def length_filter_le order_le_less_trans)
  have n: "unat (of_nat (length (cohort_tasks tasks i)) :: u64) = length (cohort_tasks tasks i)" for i
    using len [of i] by (simp add: unat_of_nat take_bit_nat_eq_self)
  from e show ?thesis
    unfolding idle by (auto simp: n cohort_tasks_def [symmetric] Let_def)
qed

text \<open>Witness of C17.\<close>

theorem snapshot_cohorts_exact_witness:
  "\<exists>cohorts s' k'. snapshot_cohorts ref_ops [gc_task\<lparr> t_cohort_id := 2 \<rparr>] [] merge_kernel idle_scheduler = Inr (cohorts, s', k') \<and>
     c_id ` set cohorts = {2} \<and> (\<forall>c \<in> set cohorts. c_nr_tasks c = 1)"
proof -
  obtain cohorts s' k' where r: "snapshot_cohorts ref_ops [gc_task\<lparr> t_cohort_id := 2 \<rparr>] [] merge_kernel idle_scheduler = Inr (cohorts, s', k')"
    by (rule ref.snapshot_cohorts_total [OF merge_kernel_inv])
  have "length [gc_task\<lparr> t_cohort_id := 2 \<rparr>] < 2 ^ 64" by simp
  note e = snapshot_cohorts_exact [OF ref.bpf_maps_axioms, OF merge_kernel_inv r this]
  have ids: "c_id ` set cohorts = {2}" using e by (auto simp: merge_kernel_get)
  have "unat (c_nr_tasks c) = 1" if "c \<in> set cohorts" for c
  proof -
    have "c_id c = 2" using ids that by auto
    with e that show ?thesis by simp
  qed
  then have "\<forall>c \<in> set cohorts. c_nr_tasks c = 1" by (metis unat_1 word_unat_eq_iff)
  with r ids show ?thesis by blast
qed

section \<open>The load of an LLC\<close>

definition llc_value :: "(map_id \<Rightarrow> 'k \<Rightarrow> bytes \<Rightarrow> bytes option) \<Rightarrow> u32 \<Rightarrow> 'k \<Rightarrow> u64" where
  "llc_value contents llc k =
     (case contents llc_load k (u32_bytes llc) of None \<Rightarrow> 0 | Some b \<Rightarrow> (case u64_read b of None \<Rightarrow> 0 | Some n \<Rightarrow> n))"

text \<open>The load a tick reports for one LLC.\<close>

definition llc_read :: "'k kernel_ops \<Rightarrow> u32 \<Rightarrow> 'k \<Rightarrow> Scheduler \<Rightarrow> Scheduler \<times> nat" where
  "llc_read ko llc k s =
     (case llc_loads ko k s of
        Inl _ \<Rightarrow> (s, 0)
      | Inr (llcs, s') \<Rightarrow> (s', case find (\<lambda>l. l_llc l = llc) llcs of None \<Rightarrow> 0 | Some l \<Rightarrow> unat (l_load_ns l)))"

lemma find_row: "distinct (map fst xs) \<Longrightarrow> (L, n) \<in> set xs \<Longrightarrow> (\<And>x. l_llc (row x) = fst x) \<Longrightarrow>
    find (\<lambda>l. l_llc l = L) (map row xs) = Some (row (L, n))"
  by (induction xs) (auto simp: rev_image_eqI)

context bpf_maps
begin

lemma llc_rows_values:
  assumes "kinv k" and "hm_wf xs"
  shows "\<exists>prevs'. try_fold (llc_row ko k ns) xs (out, prevs) =
      Inr (out @ map (\<lambda>(l, n). \<lparr> l_llc = l, l_load_ns = saturating_sub (llc_value contents l k)
        (case hm_get prevs l of Some p \<Rightarrow> p | None \<Rightarrow> llc_value contents l k), l_capacity_ns = n * ns \<rparr>) xs, prevs') \<and>
    (\<forall>l. hm_get prevs' l = (if l \<in> fst ` set xs then Some (llc_value contents l k) else hm_get prevs l))"
  using assms(2)
proof (induction xs arbitrary: out prevs)
  case (Cons x xs)
  obtain l n where x: "x = (l, n)" by (cases x)
  have l: "l \<notin> fst ` set xs" "hm_wf xs" using Cons.prems by (auto simp: x hm_wf_def)
  let ?v = "llc_value contents l k"
  let ?row = "\<lparr> l_llc = l, l_load_ns = saturating_sub ?v (case hm_get prevs l of Some p \<Rightarrow> p | None \<Rightarrow> ?v), l_capacity_ns = n * ns \<rparr>"
  have r: "llc_row ko k ns x (out, prevs) = Inr (out @ [?row], hm_insert l ?v prevs)"
    by (simp add: x llc_row_def lookup [OF assms(1)] Let_def flip: llc_value_def)
  have "map (\<lambda>(l', n). \<lparr> l_llc = l', l_load_ns = saturating_sub (llc_value contents l' k)
        (case hm_get (hm_insert l ?v prevs) l' of Some p \<Rightarrow> p | None \<Rightarrow> llc_value contents l' k), l_capacity_ns = n * ns \<rparr>) xs =
      map (\<lambda>(l', n). \<lparr> l_llc = l', l_load_ns = saturating_sub (llc_value contents l' k)
        (case hm_get prevs l' of Some p \<Rightarrow> p | None \<Rightarrow> llc_value contents l' k), l_capacity_ns = n * ns \<rparr>) xs"
    using l by (intro map_cong refl) (force simp: hm_get_insert split: prod.split)
  with Cons.IH [OF l(2), of "out @ [?row]" "hm_insert l ?v prevs"] r show ?case
    by (auto simp: x hm_get_insert)
qed simp

lemma llc_read_effect:
  assumes "kinv k" and "hm_wf (llc_cpus s)" and "(L, n) \<in> set (llc_cpus s)"
  shows "snd (llc_read ko L k s) =
      (case hm_get (prev_llc_load s) L of Some p \<Rightarrow> unat (llc_value contents L k) - unat p | None \<Rightarrow> 0) \<and>
    hm_get (prev_llc_load (fst (llc_read ko L k s))) L = Some (llc_value contents L k) \<and>
    llc_cpus (fst (llc_read ko L k s)) = llc_cpus s"
proof -
  let ?row = "\<lambda>(l, n). \<lparr> l_llc = l, l_load_ns = saturating_sub (llc_value contents l k)
        (case hm_get (prev_llc_load s) l of Some p \<Rightarrow> p | None \<Rightarrow> llc_value contents l k), l_capacity_ns = n * interval_ns (interval_ms s) \<rparr>"
  obtain prevs' where f: "try_fold (llc_row ko k (interval_ns (interval_ms s))) (llc_cpus s) ([], prev_llc_load s) = Inr ([] @ map ?row (llc_cpus s), prevs')"
    and all: "\<forall>l. hm_get prevs' l = (if l \<in> fst ` set (llc_cpus s) then Some (llc_value contents l k) else hm_get (prev_llc_load s) l)"
    using llc_rows_values [OF assms(1,2), of "interval_ns (interval_ms s)" "[]" "prev_llc_load s"] by (elim exE conjE) (rule that)
  have "L \<in> fst ` set (llc_cpus s)" using assms(3) by (rule image_eqI [rotated]) simp
  then have p: "hm_get prevs' L = Some (llc_value contents L k)" using all by simp
  have "find (\<lambda>l. l_llc l = L) (map ?row (llc_cpus s)) = Some (?row (L, n))"
    using assms(2,3) by (intro find_row) (auto simp: hm_wf_def split: prod.split)
  then show ?thesis
    using f p by (simp add: llc_read_def llc_loads_def split: option.split)
qed

end

sublocale bpf_maps < llc: interval_counter "llc_read ko L" "\<lambda>s. hm_wf (llc_cpus s) \<and> L \<in> fst ` set (llc_cpus s)" kinv
  "\<lambda>k. unat (llc_value contents L k)" "\<lambda>s. map_option unat (hm_get (prev_llc_load s) L)" for L
proof -
  have "snd (llc_read ko L k s) = (case hm_get (prev_llc_load s) L of Some p \<Rightarrow> unat (llc_value contents L k) - unat p | None \<Rightarrow> 0) \<and>
      hm_get (prev_llc_load (fst (llc_read ko L k s))) L = Some (llc_value contents L k) \<and>
      llc_cpus (fst (llc_read ko L k s)) = llc_cpus s"
    if "hm_wf (llc_cpus s)" "L \<in> fst ` set (llc_cpus s)" "kinv k" for s k
  proof -
    obtain n where "(L, n) \<in> set (llc_cpus s)" using \<open>L \<in> fst ` set (llc_cpus s)\<close> by auto
    from llc_read_effect [OF that(3,1) this] show ?thesis .
  qed
  then show "interval_counter (llc_read ko L) (\<lambda>s. hm_wf (llc_cpus s) \<and> L \<in> fst ` set (llc_cpus s)) kinv
      (\<lambda>k. unat (llc_value contents L k)) (\<lambda>s. map_option unat (hm_get (prev_llc_load s) L))"
    by unfold_locales (auto split: option.split)
qed

context bpf_maps
begin

lemma llc_loads_add_up:
  assumes "hm_wf (llc_cpus s)" and "L \<in> fst ` set (llc_cpus s)" and "hm_get (prev_llc_load s) L = None"
    and "\<forall>k \<in> set (k0 # ks). kinv k" and "sorted (map (\<lambda>k. unat (llc_value contents L k)) (k0 # ks))"
  shows "sum_list (amounts (llc_read ko L) (k0 # ks) s) = unat (llc_value contents L (last (k0 # ks))) - unat (llc_value contents L k0)"
proof -
  have "sum_list (amounts (llc_read ko L) (k0 # ks) s) =
      last (map (\<lambda>k. unat (llc_value contents L k)) (k0 # ks)) - unat (llc_value contents L k0)"
    using assms by (intro llc.amounts_total) simp_all
  then show ?thesis by (simp add: last_map)
qed

end

text \<open>
  The load of an LLC adds up. For every LLC the daemon knows, over any sequence of ticks in
  which the executed-time counter of the LLC does not shrink, the loads the daemon reports sum up to
  exactly the growth of the counter since the first tick, which only sets the base; no execution time
  is lost or counted twice between ticks.
\<close>

lemma llc_load_conserved:
  assumes "bpf_maps ko contents kinv" and "Scheduler_init opts cfg bo = Inr (ro, tn, s)" and "L \<in> fst ` set (llc_cpus s)"
    and "\<forall>k \<in> set (k0 # ks). kinv k" and "sorted (map (\<lambda>k. unat (llc_value contents L k)) (k0 # ks))"
  shows "sum_list (amounts (llc_read ko L) (k0 # ks) s) = unat (llc_value contents L (last (k0 # ks))) - unat (llc_value contents L k0)"
proof -
  obtain topo where s: "s = new_scheduler opts cfg topo" using Scheduler_init_new [OF assms(2)] by blast
  have "hm_wf (llc_cpus s)" "hm_get (prev_llc_load s) L = None" using new_scheduler_wf by (simp_all add: s new_scheduler_def)
  with assms(3-5) show ?thesis by (intro bpf_maps.llc_loads_add_up [OF assms(1)])
qed

definition llc_kernel :: "u64 \<Rightarrow> ref_kernel" where
  "llc_kernel n = (\<lambda>_. [])(llc_load := [(u32_bytes 1, u64_bytes n)])"

text \<open>An instance.\<close>

lemma llc_load_conserved_witness:
  "sum_list (amounts (llc_read ref_ops 1) [llc_kernel 100, llc_kernel 350, llc_kernel 1100] idle_scheduler) = 1000"
proof -
  obtain ro tn where i: "Scheduler_init Opts_default Config_default demo_boot = Inr (ro, tn, idle_scheduler)"
    using demo_init by (auto simp: idle_scheduler_def)
  have h: "1 \<in> fst ` set (llc_cpus idle_scheduler)" "\<forall>k \<in> set [llc_kernel 100, llc_kernel 350, llc_kernel 1100]. ref_inv k"
    by (simp_all add: idle_scheduler_def demo_llc_cpus llc_kernel_def ref_inv_def map_sized_def map_simps hm_wf_def)
  have v: "llc_value ref_contents 1 (llc_kernel n) = n" for n
    by (simp add: llc_value_def ref_contents_def llc_kernel_def map_simps)
  have "sorted (map (\<lambda>k. unat (llc_value ref_contents 1 k)) [llc_kernel 100, llc_kernel 350, llc_kernel 1100])" by (simp add: v)
  from llc_load_conserved [OF ref.bpf_maps_axioms, OF i h this] show ?thesis by (simp add: v)
qed

end
