(* ===== verification/Daemon_Ids.thy ===== *)
theory Daemon_Ids
  imports Daemon_Runs "HOL-Library.Multiset"
begin

text \<open>
  The cohort ids a tick leaves in the maps: those it found, and the ids of the cohorts it split off, of
  which there are at most as many as there are processes.
\<close>

section \<open>How many cohorts a tick can split off\<close>

lemma try_fold_grows:
  fixes m :: "'s \<Rightarrow> nat"
  assumes "try_fold f xs s = Inr s'" and "\<And>x s s'. f x s = Inr s' \<Longrightarrow> m s' \<le> m s + w x"
  shows "m s' \<le> m s + sum_list (map w xs)"
  using assms(1)
proof (induction xs arbitrary: s)
  case (Cons x xs)
  then obtain s1 where s1: "f x s = Inr s1" "try_fold f xs s1 = Inr s'" by (auto split: sum.splits)
  from Cons.IH [OF s1(2)] assms(2) [OF s1(1)] show ?case by simp
qed simp

definition weight :: "('k, 'v list) hashmap \<Rightarrow> nat" where
  "weight m = sum_list (map (\<lambda>(_, vs). length vs) m)"

lemma weight_entry: "weight (hm_entry k [] (\<lambda>vs. vs @ [v]) m) = weight m + 1"
proof -
  have "weight (hm_insert k (vs @ [v]) m) = weight m + 1" if "hm_get m k = Some vs" for vs
    using that by (induction m) (auto simp: weight_def split: if_splits)
  moreover have "weight (hm_insert k [v] m) = weight m + 1" if "hm_get m k = None"
    using that by (induction m) (auto simp: weight_def split: if_splits)
  ultimately show ?thesis by (auto simp: hm_entry_def split: option.split)
qed

lemma length_entry: "length (hm_entry k d f m) \<le> Suc (length m)"
proof -
  have "length (hm_insert k v m) \<le> Suc (length m)" for v by (induction m) auto
  then show ?thesis by (simp add: hm_entry_def)
qed

lemma components_count: "cohort_components cfg es members = Inr comps \<Longrightarrow> length comps \<le> length members"
proof -
  assume "cohort_components cfg es members = Inr comps"
  then obtain parent p' where "group_members members parent = Inr (p', comps)" by (auto simp: cohort_components_def split: sum.splits)
  then have "length (snd (p', comps)) \<le> length (snd (parent, [] :: (u32, (u32 \<times> u64) list) hashmap)) + sum_list (map (\<lambda>_. 1) members)"
    unfolding group_members_def
    by (rule try_fold_grows) (auto intro: length_entry split: sum.splits prod.splits)
  then show ?thesis by (simp add: sum_list_triv)
qed

lemma split_cohort_count:
  "split_cohort pri cfg es (c, members) (streaks, out) = Inr (streaks', out') \<Longrightarrow> length out' \<le> length out + length members"
proof -
  assume a: "split_cohort pri cfg es (c, members) (streaks, out) = Inr (streaks', out')"
  have off: "length (off_components n xs) \<le> length xs" for n xs
    unfolding off_components_def by (rule order_trans [OF length_filter_le]) simp
  show ?thesis
  proof (cases "cohort_components cfg es members")
    case (Inr comps)
    note n = components_count [OF Inr]
    have "length (off_components (split_min_tasks cfg) (map snd (hm_iter pri comps))) \<le> length members"
      using off [of "split_min_tasks cfg" "map snd (hm_iter pri comps)"] n by (simp add: hm_iter_def)
    then show ?thesis using a Inr by (auto simp: split_cohort_def Let_def split: if_splits)
  qed (use a in \<open>auto simp: split_cohort_def split: if_splits\<close>)
qed

lemma splits_count:
  assumes "splits pri members g = Inr (g', plans)"
  shows "length plans \<le> weight members"
proof -
  obtain streaks where f: "try_fold (split_cohort pri (wg_cfg g) (edges g)) members
      (hm_retain (\<lambda>cohort _. hm_contains members cohort) (split_streak g), []) = Inr (streaks, plans)"
    using assms by (auto simp: splits_def split: sum.splits)
  have "length (snd (streaks, plans)) \<le> length (snd (hm_retain (\<lambda>cohort _. hm_contains members cohort) (split_streak g), [] :: SplitPlan list)) +
      sum_list (map (\<lambda>(c, ms). length ms) members)"
    using f by (rule try_fold_grows) (auto dest: split_cohort_count)
  then show ?thesis by (simp add: weight_def)
qed

lemma weight_members: "weight (cohort_members_of sizes counts tc) \<le> length tc"
proof -
  have "weight (fold (\<lambda>(tgid, cohort) ct. if hm_contains sizes cohort
      then hm_entry cohort [] (\<lambda>ms. ms @ [(tgid, case hm_get counts tgid of Some n \<Rightarrow> n | None \<Rightarrow> 0)]) ct else ct) tc ct) \<le> weight ct + length tc" for ct
  proof (induction tc arbitrary: ct)
    case (Cons e tc)
    obtain tgid cohort where e: "e = (tgid, cohort)" by (cases e)
    show ?case using Cons.IH [of "if hm_contains sizes cohort then hm_entry cohort [] (\<lambda>ms. ms @ [(tgid, case hm_get counts tgid of Some n \<Rightarrow> n | None \<Rightarrow> 0)]) ct else ct"]
      by (auto simp: e weight_entry)
  qed simp
  from this [of "[]"] show ?thesis by (simp add: cohort_members_of_def weight_def)
qed

lemma weight_iter: "weight (hm_iter pri m) = weight m"
proof -
  have "mset (map (\<lambda>(_, vs). length vs) (hm_iter pri m)) = mset (map (\<lambda>(_, vs). length vs) m)" by (simp add: hm_iter_def mset_map del: map_map)
  then show ?thesis unfolding weight_def by (metis sum_mset_sum_list)
qed

lemma processes_bound: "hm_wf tc \<Longrightarrow> length tc \<le> 2 ^ 32" for tc :: "(u32, 'v) hashmap"
proof -
  assume "hm_wf tc"
  then have "length tc = card (set (map fst tc))" using distinct_card [of "map fst tc"] by (simp add: hm_wf_def)
  also have "\<dots> \<le> card (UNIV :: u32 set)" by (intro card_mono) simp_all
  finally show ?thesis by (simp add: card_word)
qed

section \<open>The ids in the maps\<close>

text \<open>The ids that have a policy or counters, or that a process is mapped to.\<close>

definition present :: "(map_id \<Rightarrow> 'k \<Rightarrow> bytes \<Rightarrow> bytes option) \<Rightarrow> 'k \<Rightarrow> u64 set" where
  "present contents k = {c. contents cohort_policy k (u64_bytes c) \<noteq> None \<or> contents cohort_counters k (u64_bytes c) \<noteq> None \<or>
     (\<exists>tgid. contents tgid_cohort_map k (u32_bytes tgid) = Some (u64_bytes c))}"

definition issued :: "u64 \<Rightarrow> nat \<Rightarrow> u64 set" where
  "issued base n = (\<lambda>i. base + of_nat i) ` {..< n}"

lemma issued_add: "issued base n \<union> issued (base + of_nat n) m = issued base (n + m)"
proof
  show "issued base (n + m) \<subseteq> issued base n \<union> issued (base + of_nat n) m"
  proof
    fix c assume "c \<in> issued base (n + m)"
    then obtain i where i: "i < n + m" "c = base + of_nat i" by (auto simp: issued_def)
    show "c \<in> issued base n \<union> issued (base + of_nat n) m"
    proof (cases "i < n")
      case True
      then show ?thesis using i by (auto simp: issued_def)
    next
      case False
      then have "i - n < m" "c = base + of_nat n + of_nat (i - n)" using i by (simp_all add: of_nat_diff)
      then show ?thesis unfolding issued_def by blast
    qed
  qed
  have "base + of_nat n + of_nat j \<in> issued base (n + m)" if "j < m" for j
    unfolding issued_def by (rule image_eqI [of _ _ "n + j"]) (use that in \<open>simp_all add: algebra_simps\<close>)
  then show "issued base n \<union> issued (base + of_nat n) m \<subseteq> issued base (n + m)" by (auto simp: issued_def)
qed

lemma present_mono:
  assumes "\<And>c. contents cohort_policy k' (u64_bytes c) \<noteq> None \<Longrightarrow> contents cohort_policy k (u64_bytes c) \<noteq> None"
    and "\<And>c. contents cohort_counters k' (u64_bytes c) \<noteq> None \<Longrightarrow> contents cohort_counters k (u64_bytes c) \<noteq> None"
    and "\<And>t v. contents tgid_cohort_map k' (u32_bytes t) = Some v \<Longrightarrow> contents tgid_cohort_map k (u32_bytes t) = Some v"
  shows "present contents k' \<subseteq> present contents k"
  unfolding present_def using assms by blast

context bpf_maps
begin

lemma apply_rules_present:
  assumes "kinv k" and "apply_rules env ko tasks k s = Inr (s', k')"
  shows "present contents k' \<subseteq> present contents k \<and> daemon_seq s' = daemon_seq s"
proof -
  have pins: "kinv k1 \<and> present contents k1 \<subseteq> present contents k"
    if "try_fold (apply_pin ko n) xs k = Inr k1" for n xs k1
    using that
  proof (rule try_fold_invariant [where I = "\<lambda>k1. kinv k1 \<and> present contents k1 \<subseteq> present contents k"])
    fix x k1 k2 assume i: "kinv k1 \<and> present contents k1 \<subseteq> present contents k" and p: "apply_pin ko n x k1 = Inr k2"
    have "k2 = k1 \<or> (\<exists>c pol. k_update ko cohort_policy (u64_bytes c) (CohortPolicy_bytes pol) F_EXIST k1 = Inr k2)"
      using p i by (auto simp: apply_pin_def lookup Let_def split: prod.splits option.splits if_splits)
    then show "kinv k2 \<and> present contents k2 \<subseteq> present contents k"
    proof (elim disjE exE)
      fix c pol assume u: "k_update ko cohort_policy (u64_bytes c) (CohortPolicy_bytes pol) F_EXIST k1 = Inr k2"
      note e = update_effect [OF conjunct1 [OF i] plain_hash_simps(2) u]
      have "present contents k2 \<subseteq> present contents k1" by (rule present_mono) (use e in \<open>auto split: if_splits\<close>)
      then show ?thesis using i e by blast
    qed (use i in simp)
  qed (simp add: assms(1))
  show ?thesis
    using assms pins by (auto simp: apply_rules_def Let_def split: if_splits prod.splits sum.splits)
qed

lemma snapshot_cohorts_present:
  assumes "kinv k" and "snapshot_cohorts ko tasks tc k s = Inr (cohorts, s', k')"
  shows "present contents k' \<subseteq> present contents k \<and> daemon_seq s' = daemon_seq s"
proof
  show "present contents k' \<subseteq> present contents k"
    by (rule present_mono) (use snapshot_cohorts_effect [OF assms] in \<open>auto split: if_splits\<close>)
  show "daemon_seq s' = daemon_seq s" using assms(2) by (auto simp: snapshot_cohorts_def split: sum.splits)
qed

lemma gc_tgid_present:
  assumes "kinv k" and "gc_tgid_map ko tc tasks k s = (s', k')"
  shows "present contents k' \<subseteq> present contents k \<and> daemon_seq s' = daemon_seq s"
proof
  show "present contents k' \<subseteq> present contents k"
    by (rule present_mono) (use gc_tgid_map_effect [OF assms] in \<open>auto split: if_splits\<close>)
  show "daemon_seq s' = daemon_seq s" using gc_tgid_map_effect [OF assms] by simp
qed

lemma apply_decisions_present:
  assumes "kinv k" and "apply_decisions ko ds k s = Inr (s', k')"
  shows "present contents k' \<subseteq> present contents k \<and> daemon_seq s' = daemon_seq s"
proof -
  let ?I = "\<lambda>(s', k'). kinv k' \<and> present contents k' \<subseteq> present contents k \<and> daemon_seq s' = daemon_seq s"
  have "?I (s', k')" using assms(2) unfolding apply_decisions_def
  proof (rule try_fold_invariant [where I = ?I])
    fix d r1 r2 assume i: "?I r1" and a: "apply_decision ko d r1 = Inr r2"
    obtain s1 k1 s2 k2 where r: "r1 = (s1, k1)" "r2 = (s2, k2)" by (metis surj_pair)
    obtain c to where d: "d = MoveCohort c to" by (cases d)
    have k1: "kinv k1" using i r by simp
    have "daemon_seq s2 = daemon_seq s1 \<and> (k2 = k1 \<or> (\<exists>pol. k_update ko cohort_policy (u64_bytes c) (CohortPolicy_bytes pol) F_EXIST k1 = Inr k2))"
      using a unfolding r d by (auto simp: apply_decision_def lookup [OF k1] split: option.splits sum.splits)
    then show "?I r2"
    proof (elim conjE disjE exE)
      fix pol assume u: "k_update ko cohort_policy (u64_bytes c) (CohortPolicy_bytes pol) F_EXIST k1 = Inr k2" and "daemon_seq s2 = daemon_seq s1"
      note e = update_effect [OF k1 plain_hash_simps(2) u]
      have "present contents k2 \<subseteq> present contents k1" by (rule present_mono) (use e in \<open>auto split: if_splits\<close>)
      then show ?thesis using i r e \<open>daemon_seq s2 = daemon_seq s1\<close> by auto
    qed (use i r in simp)
  qed (simp add: assms(1))
  then show ?thesis by simp
qed

lemma apply_merge_present:
  assumes "kinv k" and "hm_wf tc" and "apply_merge ko tc p (s, k) = Inr (s', k')"
  shows "present contents k' \<subseteq> present contents k \<and> daemon_seq s' = daemon_seq s \<and> kinv k'"
proof (cases "contents cohort_counters k (u64_bytes (m_into p)) = None \<or> contents cohort_counters k (u64_bytes (m_from p)) = None")
  case True
  then have "s' = s" "k' = k" using assms(1,3) by (auto simp: apply_merge_def lookup split: option.splits)
  then show ?thesis using assms(1) by simp
next
  case False
  let ?k1 = "fold (\<lambda>(tgid, cohort) k. if cohort = m_from p
      then k_try_update ko tgid_cohort_map (u32_bytes tgid) (u64_bytes (m_into p)) F_EXIST k else k) tc k"
  note e1 = relabel_loop [OF assms(1) refl assms(2), of "m_from p" "m_into p"]
  note e2 = delete_cohort_effect [OF conjunct1 [OF e1], of "m_from p"]
  have r: "k' = delete_cohort ko (m_from p) ?k1" "daemon_seq s' = daemon_seq s"
    using assms(1,3) False by (auto simp: apply_merge_def lookup Let_def)
  have into: "m_into p \<in> present contents k" using False by (auto simp: present_def)
  have "c \<in> present contents k" if "c \<in> present contents k'" for c
    using that e1 e2 into unfolding present_def r(1) by (auto simp: map_simps split: if_splits)
  then show ?thesis using r e2 by blast
qed

lemma apply_split_present:
  assumes "kinv k" and "apply_split ko p (s, k) = Inr (s', k')"
  shows "kinv k' \<and> (\<exists>n \<le> 1. daemon_seq s' = daemon_seq s + of_nat n \<and>
    present contents k' \<subseteq> present contents k \<union> issued (DAEMON_COHORT_BASE + daemon_seq s) n)"
proof (cases "\<exists>old. contents cohort_policy k (u64_bytes (s_cohort p)) = Some (CohortPolicy_bytes old)")
  case True
  then obtain old where "contents cohort_policy k (u64_bytes (s_cohort p)) = Some (CohortPolicy_bytes old)" by blast
  from apply_split_effect [OF assms(1) this assms(2)] have
    "kinv k'" "daemon_seq s' = daemon_seq s + of_nat 1" "present contents k' \<subseteq> present contents k \<union> issued (DAEMON_COHORT_BASE + daemon_seq s) 1"
    by (auto simp: present_def issued_def Let_def map_simps lessThan_Suc split: if_splits)
  then show ?thesis by blast
next
  case False
  have "CohortPolicy_read w = None" if "contents cohort_policy k (u64_bytes (s_cohort p)) = Some w" for w
    using False that policy.dec_iff by (metis not_None_eq)
  then have "s' = s" "k' = k" using assms by (auto simp: apply_split_def lookup split: option.splits)
  then show ?thesis using assms(1) by (intro conjI exI [of _ 0]) simp_all
qed

lemma apply_splits_present:
  assumes "kinv k" and "try_fold (apply_split ko) plans (s, k) = Inr (s', k')"
  shows "kinv k' \<and> (\<exists>n \<le> length plans. daemon_seq s' = daemon_seq s + of_nat n \<and>
    present contents k' \<subseteq> present contents k \<union> issued (DAEMON_COHORT_BASE + daemon_seq s) n)"
  using assms
proof (induction plans arbitrary: s k)
  case Nil
  then show ?case by (intro conjI exI [of _ 0]) simp_all
next
  case (Cons p plans)
  obtain s1 k1 where a: "apply_split ko p (s, k) = Inr (s1, k1)" "try_fold (apply_split ko) plans (s1, k1) = Inr (s', k')"
    using Cons.prems(2) by (auto split: sum.splits)
  obtain n where n: "n \<le> 1" "daemon_seq s1 = daemon_seq s + of_nat n" "kinv k1"
    "present contents k1 \<subseteq> present contents k \<union> issued (DAEMON_COHORT_BASE + daemon_seq s) n"
    using apply_split_present [OF Cons.prems(1) a(1)] by blast
  obtain m where m: "m \<le> length plans" "daemon_seq s' = daemon_seq s1 + of_nat m" "kinv k'"
    "present contents k' \<subseteq> present contents k1 \<union> issued (DAEMON_COHORT_BASE + daemon_seq s1) m"
    using Cons.IH [OF n(3) a(2)] by blast
  have "present contents k' \<subseteq> present contents k \<union> issued (DAEMON_COHORT_BASE + daemon_seq s) (n + m)"
    using n(4) m(4) issued_add [of "DAEMON_COHORT_BASE + daemon_seq s" n m] by (auto simp: n(2) add.assoc)
  then show ?case using n m by (intro conjI exI [of _ "n + m"]) (simp_all add: add.assoc)
qed

lemma discover_present:
  assumes "kinv k" and "hm_wf tc" and "discover_relationships env ko cohorts tasks tc k s = Inr (s', k')"
  shows "kinv k' \<and> (\<exists>n \<le> 2 ^ 32. daemon_seq s' = daemon_seq s + of_nat n \<and>
    present contents k' \<subseteq> present contents k \<union> issued (DAEMON_COHORT_BASE + daemon_seq s) n)"
proof -
  obtain deltas k1 where e: "snapshot_edges ko k = Inr (deltas, k1)" using assms(3)
    by (auto simp: discover_relationships_def split: sum.splits)
  have k1: "kinv k1" "present contents k1 = present contents k"
    using snapshot_edges_effect [OF assms(1) e] by (simp_all add: present_def)
  define g where "g = observe deltas (interval_secs (interval_ms s)) (sample_mult s) (wake_graph s)"
  define members where "members = cohort_members_of (cohort_sizes_of cohorts) (tgid_task_counts tasks) tc"
  obtain g1 plans where m: "merges tc (cohort_sizes_of cohorts) (g\<lparr> edges := hm_iter (e_pri_edge env) (edges g) \<rparr>) = (g1, plans)" by fastforce
  obtain s2 k2 g2 off where f: "try_fold (apply_merge ko tc) plans (s\<lparr> wake_graph := g1 \<rparr>, k1) = Inr (s2, k2)"
    and sp: "splits (e_pri32 env) (hm_iter (e_pri64 env) members) (wake_graph s2) = Inr (g2, off)"
    and f2: "try_fold (apply_split ko) off (s2\<lparr> wake_graph := g2 \<rparr>, k2) = Inr (s', k')"
    using assms(3) unfolding discover_relationships_def e
    by (auto simp: g_def [symmetric] members_def [symmetric] m Let_def split: sum.splits)
  let ?I = "\<lambda>(s2, k2). kinv k2 \<and> present contents k2 \<subseteq> present contents k \<and> daemon_seq s2 = daemon_seq s"
  have "?I (s2, k2)" using f
  proof (rule try_fold_invariant [where I = ?I])
    fix p r1 r2 assume "?I r1" and "apply_merge ko tc p r1 = Inr r2"
    then show "?I r2" using apply_merge_present [OF _ assms(2), of "snd r1" p "fst r1" "fst r2" "snd r2"] by fastforce
  qed (simp add: k1)
  then have i2: "kinv k2" "present contents k2 \<subseteq> present contents k" "daemon_seq s2 = daemon_seq s" by simp_all
  have "length off \<le> 2 ^ 32"
    using splits_count [OF sp] weight_members [of "cohort_sizes_of cohorts" "tgid_task_counts tasks" tc] processes_bound [OF assms(2)]
    unfolding weight_iter members_def by (rule order_trans [OF _ order_trans])
  moreover obtain n where "kinv k'" "n \<le> length off" "daemon_seq s' = daemon_seq s2 + of_nat n"
    "present contents k' \<subseteq> present contents k2 \<union> issued (DAEMON_COHORT_BASE + daemon_seq s2) n"
    using apply_splits_present [OF i2(1) f2] by auto
  ultimately show ?thesis using i2 by (intro conjI exI [of _ n]) auto
qed

text \<open>What a successful tick leaves in the maps.\<close>

lemma tick_present:
  assumes "kinv k" and "tick env ko k s = Inr (view, s', k')"
  shows "\<exists>n \<le> 2 ^ 32. daemon_seq s' = daemon_seq s + of_nat n \<and>
    present contents k' \<subseteq> present contents k \<union> issued (DAEMON_COHORT_BASE + daemon_seq s) n"
proof -
  obtain cohorts llcs where view: "view = (cohorts, llcs)" by (cases view)
  from assms(2) [unfolded view] show ?thesis
  proof (rule tickE)
    fix tasks s1 tc s2 k2 s3 k3 s4 k4 s5 b ds s6 k6 d s7 k7 s8
    assume t1: "snapshot_tasks ko k s = Inr (tasks, s1)" and t2: "snapshot_tgid_cohort ko k = Inr tc"
      and t3: "apply_rules env ko tasks k s1 = Inr (s2, k2)" and t4: "snapshot_cohorts ko tasks tc k2 s2 = Inr (cohorts, s3, k3)"
      and t5: "gc_tgid_map ko tc tasks k3 s3 = (s4, k4)" and t6: "llc_loads ko k4 s4 = Inr (llcs, s5)"
      and t8: "apply_decisions ko ds k4 (s5\<lparr> balancer := b \<rparr>) = Inr (s6, k6)"
      and t9: "plan_spills (spill_cfg s6) llcs cohorts tasks (current_spills s6) = Inr d"
      and t10: "apply_spills env ko d k6 s6 = Inr (s7, k7)"
      and t11: "discover_relationships env ko cohorts tasks tc k7 s7 = Inr (s8, k')" and s': "s' = s8\<lparr> last_tasks := tasks \<rparr>"
    have tc: "hm_wf tc" using snapshot_tgid_cohort_safe [OF assms(1)] by (simp add: t2)
    have k2: "kinv k2" using apply_rules_maps [OF assms(1) t3] by blast
    have k3: "kinv k3" using snapshot_cohorts_effect [OF k2 t4] by simp
    have k4: "kinv k4" using gc_tgid_map_effect [OF k3 t5] by simp
    have k6: "kinv k6" using apply_decisions_effect [OF k4 t8 [unfolded apply_decisions_def]] by simp
    have d: "hm_wf d" by (rule plan_spills_wf [OF t9])
    have k7: "kinv k7" "present contents k7 = present contents k6" "daemon_seq s7 = daemon_seq s6"
      using apply_spills_effect [OF k6 d t10] by (simp_all add: present_def)
    have "daemon_seq s1 = daemon_seq s" using t1 by (auto simp: snapshot_tasks_def split: sum.splits)
    moreover have "daemon_seq s5 = daemon_seq s4" using t6 by (auto simp: llc_loads_def split: sum.splits)
    ultimately have "present contents k7 \<subseteq> present contents k" "daemon_seq s7 = daemon_seq s"
      using apply_rules_present [OF assms(1) t3] snapshot_cohorts_present [OF k2 t4] gc_tgid_present [OF k3 t5]
        apply_decisions_present [OF k4 t8] k7(2,3) by (simp_all, blast)
    then show ?thesis using discover_present [OF k7(1) tc t11] by (auto simp: s')
  qed
qed

end

end
