(* ===== verification/Daemon_Ownership.thy ===== *)
theory Daemon_Ownership
  imports Daemon_Ids Daemon_Properties
begin

text \<open>
  Who writes which map. The comments of \<open>scx_cohort_common/src/lib.rs\<close> give the BPF side the exclusive
  right to write its counters, since an update from user space replaces a whole value. Here it is shown
  that a tick of the daemon respects that: what it writes of the counters are zeroed entries for the
  ids it issues. And once a rule has pinned a cohort, the rest of the tick leaves its policy entry alone.
\<close>

text \<open>The maps the daemon only reads, and the counters it leaves alone but for the ids of \<open>new\<close>.\<close>

definition counters_owned :: "(map_id \<Rightarrow> 'k \<Rightarrow> bytes \<Rightarrow> bytes option) \<Rightarrow> u64 set \<Rightarrow> 'k \<Rightarrow> 'k \<Rightarrow> bool" where
  "counters_owned contents new k k' \<longleftrightarrow>
     (\<forall>m \<in> {task_stats, llc_load, stats_map}. contents m k' = contents m k) \<and>
     (\<forall>c v. contents cohort_counters k' (u64_bytes c) = Some v \<longrightarrow>
        contents cohort_counters k (u64_bytes c) = Some v \<or> c \<in> new \<and> v = CohortCounters_bytes CohortCounters_default)"

lemma counters_owned_trans [trans]:
  "counters_owned contents new k k1 \<Longrightarrow> counters_owned contents new' k1 k2 \<Longrightarrow> counters_owned contents (new \<union> new') k k2"
  unfolding counters_owned_def by (simp, blast)

lemma counters_owned_same: "(\<And>m. m \<notin> {cohort_policy, tgid_cohort_map, spill_tasks, wake_edges} \<Longrightarrow> contents m k' = contents m k) \<Longrightarrow>
    counters_owned contents {} k k'"
  by (simp add: counters_owned_def)

context bpf_maps
begin

lemma apply_rules_owned:
  assumes "kinv k" and "apply_rules env ko tasks k s = Inr (s', k')"
  shows "counters_owned contents {} k k'"
proof -
  have pins: "kinv k1 \<and> (\<forall>m. m \<noteq> cohort_policy \<longrightarrow> contents m k1 = contents m k)"
    if "try_fold (apply_pin ko n) xs k = Inr k1" for n xs k1
    using that
  proof (rule try_fold_invariant [where I = "\<lambda>k1. kinv k1 \<and> (\<forall>m. m \<noteq> cohort_policy \<longrightarrow> contents m k1 = contents m k)"])
    fix x k1 k2 assume i: "kinv k1 \<and> (\<forall>m. m \<noteq> cohort_policy \<longrightarrow> contents m k1 = contents m k)" and "apply_pin ko n x k1 = Inr k2"
    then show "kinv k2 \<and> (\<forall>m. m \<noteq> cohort_policy \<longrightarrow> contents m k2 = contents m k)"
      using update_effect [OF _ plain_hash_simps(2), of k1]
      by (auto simp: apply_pin_def lookup Let_def split: prod.splits option.splits if_splits)
  qed (simp add: assms(1))
  have "\<forall>m. m \<noteq> cohort_policy \<longrightarrow> contents m k' = contents m k"
    using assms pins by (auto simp: apply_rules_def Let_def split: if_splits prod.splits sum.splits)
  then show ?thesis by (intro counters_owned_same) simp
qed

lemma apply_merge_owned:
  assumes "kinv k" and "hm_wf tc" and "apply_merge ko tc p (s, k) = Inr (s', k')"
  shows "counters_owned contents {} k k'"
proof (cases "k' = k")
  case False
  let ?k1 = "fold (\<lambda>(tgid, cohort) k. if cohort = m_from p
      then k_try_update ko tgid_cohort_map (u32_bytes tgid) (u64_bytes (m_into p)) F_EXIST k else k) tc k"
  note e1 = relabel_loop [OF assms(1) refl assms(2), of "m_from p" "m_into p"]
  note e2 = delete_cohort_effect [OF conjunct1 [OF e1], of "m_from p"]
  have "k' = delete_cohort ko (m_from p) ?k1"
    using assms(1,3) False by (auto simp: apply_merge_def lookup Let_def split: option.splits)
  then show ?thesis using e1 e2 by (simp add: counters_owned_def)
qed (simp add: counters_owned_def)

lemma apply_split_owned:
  assumes "kinv k" and "apply_split ko p (s, k) = Inr (s', k')"
  shows "kinv k' \<and> (\<exists>n \<le> 1. daemon_seq s' = daemon_seq s + of_nat n \<and>
    counters_owned contents (issued (DAEMON_COHORT_BASE + daemon_seq s) n) k k')"
proof (cases "\<exists>old. contents cohort_policy k (u64_bytes (s_cohort p)) = Some (CohortPolicy_bytes old)")
  case True
  then obtain old where "contents cohort_policy k (u64_bytes (s_cohort p)) = Some (CohortPolicy_bytes old)" by blast
  from apply_split_effect [OF assms(1) this assms(2)] have
    "kinv k'" "daemon_seq s' = daemon_seq s + of_nat 1" "counters_owned contents (issued (DAEMON_COHORT_BASE + daemon_seq s) 1) k k'"
    by (auto simp: counters_owned_def issued_def Let_def map_simps lessThan_Suc split: if_splits)
  then show ?thesis by blast
next
  case False
  have "CohortPolicy_read w = None" if "contents cohort_policy k (u64_bytes (s_cohort p)) = Some w" for w
    using False that policy.dec_iff by (metis not_None_eq)
  then have "s' = s" "k' = k" using assms by (auto simp: apply_split_def lookup split: option.splits)
  then show ?thesis using assms(1) by (intro conjI exI [of _ 0]) (simp_all add: counters_owned_def)
qed

lemma apply_splits_owned:
  assumes "kinv k" and "try_fold (apply_split ko) plans (s, k) = Inr (s', k')"
  shows "\<exists>n. daemon_seq s' = daemon_seq s + of_nat n \<and> n \<le> length plans \<and> counters_owned contents (issued (DAEMON_COHORT_BASE + daemon_seq s) n) k k'"
  using assms
proof (induction plans arbitrary: s k)
  case Nil
  then show ?case by (intro exI [of _ 0]) (simp add: counters_owned_def)
next
  case (Cons p plans)
  obtain s1 k1 where a: "apply_split ko p (s, k) = Inr (s1, k1)" "try_fold (apply_split ko) plans (s1, k1) = Inr (s', k')"
    using Cons.prems(2) by (auto split: sum.splits)
  obtain n where n: "n \<le> 1" "daemon_seq s1 = daemon_seq s + of_nat n" "kinv k1"
    "counters_owned contents (issued (DAEMON_COHORT_BASE + daemon_seq s) n) k k1"
    using apply_split_owned [OF Cons.prems(1) a(1)] by blast
  obtain m where m: "daemon_seq s' = daemon_seq s1 + of_nat m" "m \<le> length plans"
    "counters_owned contents (issued (DAEMON_COHORT_BASE + daemon_seq s1) m) k1 k'"
    using Cons.IH [OF n(3) a(2)] by blast
  have "counters_owned contents (issued (DAEMON_COHORT_BASE + daemon_seq s) (n + m)) k k'"
    using counters_owned_trans [OF n(4) m(3)] issued_add [of "DAEMON_COHORT_BASE + daemon_seq s" n m] by (simp add: n(2) add.assoc)
  then show ?case using n m by (intro exI [of _ "n + m"]) (simp add: add.assoc)
qed

text \<open>The stages of the discovery: the edges are drained, the merges applied, then the splits, of which
  there are no more than processes.\<close>

lemma discover_stages:
  assumes "hm_wf tc" and "discover_relationships env ko cohorts tasks tc k s = Inr (s', k')"
  obtains deltas k1 plans g1 s2 k2 g2 off where "snapshot_edges ko k = Inr (deltas, k1)"
    and "try_fold (apply_merge ko tc) plans (s\<lparr> wake_graph := g1 \<rparr>, k1) = Inr (s2, k2)"
    and "try_fold (apply_split ko) off (s2\<lparr> wake_graph := g2 \<rparr>, k2) = Inr (s', k')" and "length off \<le> 2 ^ 32"
proof -
  define members where "members = cohort_members_of (cohort_sizes_of cohorts) (tgid_task_counts tasks) tc"
  obtain deltas k1 g1 plans s2 k2 g2 off where e: "snapshot_edges ko k = Inr (deltas, k1)"
    and f: "try_fold (apply_merge ko tc) plans (s\<lparr> wake_graph := g1 \<rparr>, k1) = Inr (s2, k2)"
    and sp: "splits (e_pri32 env) (hm_iter (e_pri64 env) members) (wake_graph s2) = Inr (g2, off)"
    and f2: "try_fold (apply_split ko) off (s2\<lparr> wake_graph := g2 \<rparr>, k2) = Inr (s', k')"
    using assms(2) unfolding discover_relationships_def
    by (auto simp: members_def [symmetric] Let_def split: sum.splits prod.splits)
  have "length off \<le> 2 ^ 32"
    using splits_count [OF sp] weight_members [of "cohort_sizes_of cohorts" "tgid_task_counts tasks" tc] processes_bound [OF assms(1)]
    unfolding weight_iter members_def by (rule order_trans [OF _ order_trans])
  then show ?thesis by (rule that [OF e f f2])
qed

lemma discover_owned:
  assumes "kinv k" and "hm_wf tc" and "discover_relationships env ko cohorts tasks tc k s = Inr (s', k')"
  shows "\<exists>n. daemon_seq s' = daemon_seq s + of_nat n \<and> n \<le> 2 ^ 32 \<and> counters_owned contents (issued (DAEMON_COHORT_BASE + daemon_seq s) n) k k'"
proof -
  obtain deltas k1 plans g1 s2 k2 g2 off where e: "snapshot_edges ko k = Inr (deltas, k1)"
    and f: "try_fold (apply_merge ko tc) plans (s\<lparr> wake_graph := g1 \<rparr>, k1) = Inr (s2, k2)"
    and f2: "try_fold (apply_split ko) off (s2\<lparr> wake_graph := g2 \<rparr>, k2) = Inr (s', k')" and n: "length off \<le> 2 ^ 32"
    using assms(2,3) by (rule discover_stages)
  have k1: "kinv k1" "counters_owned contents {} k k1"
    using snapshot_edges_effect [OF assms(1) e] by (auto intro: counters_owned_same)
  let ?I = "\<lambda>(s2, k2). kinv k2 \<and> counters_owned contents {} k k2 \<and> daemon_seq s2 = daemon_seq s"
  have "?I (s2, k2)" using f
  proof (rule try_fold_invariant [where I = ?I])
    fix p r1 r2 assume i: "?I r1" and a: "apply_merge ko tc p r1 = Inr r2"
    obtain sa ka sb kb where r: "r1 = (sa, ka)" "r2 = (sb, kb)" by (metis surj_pair)
    show "?I r2"
      using i a apply_merge_present [of ka tc p sa sb kb] apply_merge_owned [of ka tc p sa sb kb] assms(2)
        counters_owned_trans [where new = "{}" and new' = "{}" and k = k and ?k1.0 = ka and ?k2.0 = kb] unfolding r by auto
  qed (simp add: k1)
  then have i2: "kinv k2" "counters_owned contents {} k k2" "daemon_seq s2 = daemon_seq s" by simp_all
  then show ?thesis using apply_splits_owned [OF i2(1) f2] n counters_owned_trans [OF i2(2)] i2(3) by fastforce
qed

lemma tick_owned:
  assumes "kinv k" and "tick env ko k s = Inr (view, s', k')"
  shows "\<exists>n. daemon_seq s' = daemon_seq s + of_nat n \<and> n \<le> 2 ^ 32 \<and> counters_owned contents (issued (DAEMON_COHORT_BASE + daemon_seq s) n) k k'"
proof -
  obtain cohorts llcs where view: "view = (cohorts, llcs)" by (cases view)
  from assms(2) [unfolded view] show ?thesis
  proof (rule tickE)
    fix tasks s1 tc s2 k2 s3 k3 s4 k4 s5 b ds s6 k6 d s7 k7 s8
    assume t1: "snapshot_tasks ko k s = Inr (tasks, s1)" and t2: "snapshot_tgid_cohort ko k = Inr tc"
      and t3: "apply_rules env ko tasks k s1 = Inr (s2, k2)" and t4: "snapshot_cohorts ko tasks tc k2 s2 = Inr (cohorts, s3, k3)"
      and t5: "gc_tgid_map ko tc tasks k3 s3 = (s4, k4)" and t6: "llc_loads ko k4 s4 = Inr (llcs, s5)"
      and t8: "apply_decisions ko ds k4 (s5\<lparr> balancer := b \<rparr>) = Inr (s6, k6)"
      and t9: "plan_spills (spill_cfg s6) llcs cohorts tasks (current_spills s6) = Inr d"
      and t10: "apply_spills env ko d k6 s6 = Inr (s7, k7)"
      and t11: "discover_relationships env ko cohorts tasks tc k7 s7 = Inr (s8, k')" and s': "s' = s8\<lparr> last_tasks := tasks \<rparr>"
    have tc: "hm_wf tc" using snapshot_tgid_cohort_safe [OF assms(1)] by (simp add: t2)
    have k2: "kinv k2" using apply_rules_maps [OF assms(1) t3] by blast
    have k3: "kinv k3" "counters_owned contents {} k2 k3"
      using snapshot_cohorts_effect [OF k2 t4] by (auto simp: counters_owned_def split: if_splits)
    have k4: "kinv k4" "counters_owned contents {} k3 k4" using gc_tgid_map_effect [OF k3(1) t5] by (auto intro: counters_owned_same)
    have k6: "kinv k6" "counters_owned contents {} k4 k6"
      using apply_decisions_effect [OF k4(1) t8 [unfolded apply_decisions_def]] by (auto intro: counters_owned_same)
    have k7: "kinv k7" "counters_owned contents {} k6 k7" "daemon_seq s7 = daemon_seq s6"
      using apply_spills_effect [OF k6(1) plan_spills_wf [OF t9] t10] by (auto intro: counters_owned_same)
    have "daemon_seq s1 = daemon_seq s" using t1 by (auto simp: snapshot_tasks_def split: sum.splits)
    moreover have "daemon_seq s5 = daemon_seq s4" using t6 by (auto simp: llc_loads_def split: sum.splits)
    ultimately have seq: "daemon_seq s7 = daemon_seq s"
      using apply_rules_present [OF assms(1) t3] snapshot_cohorts_present [OF k2 t4] gc_tgid_present [OF k3(1) t5]
        apply_decisions_present [OF k4(1) t8] k7(3) by simp
    note apply_rules_owned [OF assms(1) t3]
    also note k3(2)
    also note k4(2)
    also note k6(2)
    also note k7(2)
    finally have "counters_owned contents {} k k7" by simp
    then show ?thesis using discover_owned [OF k7(1) tc t11] counters_owned_trans [where new = "{}"] seq by (fastforce simp: s')
  qed
qed

end

text \<open>
  C21. The daemon never writes what the BPF program counts. Through a whole tick, the task statistics, the
  LLC loads and the placement statistics are untouched, and a counters entry that exists afterwards is
  the very entry that existed before, or a zeroed one under an id the daemon issued in this tick:
  entries are deleted or created, never rewritten.
\<close>

theorem daemon_never_writes_counters:
  assumes "bpf_maps ko contents kinv" and "kinv k" and "tick env ko k s = Inr (view, s', k')"
  shows "(\<forall>m \<in> {task_stats, llc_load, stats_map}. contents m k' = contents m k) \<and>
    (\<exists>n \<le> 2 ^ 32. daemon_seq s' = daemon_seq s + of_nat n \<and>
       (\<forall>c v. contents cohort_counters k' (u64_bytes c) = Some v \<longrightarrow>
          contents cohort_counters k (u64_bytes c) = Some v \<or>
          c \<in> issued (DAEMON_COHORT_BASE + daemon_seq s) n \<and> v = CohortCounters_bytes CohortCounters_default))"
  using bpf_maps.tick_owned [OF assms] unfolding counters_owned_def by blast

text \<open>A kernel with the counters of one cohort.\<close>

definition counted_kernel :: ref_kernel where
  "counted_kernel = pinned_kernel(cohort_counters := [(u64_bytes 7, CohortCounters_bytes \<lparr> k_nr_tasks = 3, k_load_sum = 900 \<rparr>)])"

lemma counted_kernel_quiet: "quiet counted_kernel"
  by (simp add: quiet_def ref_inv_def counted_kernel_def pinned_kernel_def map_sized_def map_simps hm_wf_def)

text \<open>Witness of C21.\<close>

theorem daemon_never_writes_counters_witness:
  "\<exists>view s' k'. tick demo_env ref_ops counted_kernel (new_scheduler Opts_default Config_default demo_topology) = Inr (view, s', k') \<and>
     ref_contents task_stats k' = ref_contents task_stats counted_kernel \<and>
     (\<forall>c v. ref_contents cohort_counters k' (u64_bytes c) = Some v \<longrightarrow>
        v \<in> {CohortCounters_bytes \<lparr> k_nr_tasks = 3, k_load_sum = 900 \<rparr>, CohortCounters_bytes CohortCounters_default})"
proof -
  obtain view s' k' where t: "tick demo_env ref_ops counted_kernel (new_scheduler Opts_default Config_default demo_topology) = Inr (view, s', k')"
    using quiet_tick [OF counted_kernel_quiet] by auto
  have "ref_inv counted_kernel" using counted_kernel_quiet by (simp add: quiet_def)
  note w = daemon_never_writes_counters [OF ref.bpf_maps_axioms this t]
  have "v = CohortCounters_bytes \<lparr> k_nr_tasks = 3, k_load_sum = 900 \<rparr>" if "ref_contents cohort_counters counted_kernel (u64_bytes c) = Some v" for c v
    using that by (simp add: ref_contents_def counted_kernel_def split: if_splits)
  then show ?thesis using w t by blast
qed

section \<open>Pinned cohorts\<close>

text \<open>The entry of a cohort is still \<open>v\<close>, or the cohort is gone: neither its policy nor its counters exist.\<close>

definition entry_held :: "(map_id \<Rightarrow> 'k \<Rightarrow> bytes \<Rightarrow> bytes option) \<Rightarrow> bytes \<Rightarrow> u64 \<Rightarrow> 'k \<Rightarrow> bool" where
  "entry_held contents v c k \<longleftrightarrow> contents cohort_policy k (u64_bytes c) = Some v \<or>
     contents cohort_policy k (u64_bytes c) = None \<and> contents cohort_counters k (u64_bytes c) = None"

lemma issued_mono: "n \<le> m \<Longrightarrow> issued base n \<subseteq> issued base m"
  by (auto simp: issued_def)

lemma issued_Suc: "issued base (Suc n) = insert base (issued (base + 1) n)"
  using issued_add [of base 1 n] by (auto simp: issued_def lessThan_Suc)

context bpf_maps
begin

lemma apply_merge_held:
  assumes "kinv k" and "hm_wf tc" and "apply_merge ko tc p (s, k) = Inr (s', k')" and "entry_held contents v c k"
  shows "entry_held contents v c k'"
proof (cases "k' = k")
  case False
  let ?k1 = "fold (\<lambda>(tgid, cohort) k. if cohort = m_from p
      then k_try_update ko tgid_cohort_map (u32_bytes tgid) (u64_bytes (m_into p)) F_EXIST k else k) tc k"
  note e1 = relabel_loop [OF assms(1) refl assms(2), of "m_from p" "m_into p"]
  note e2 = delete_cohort_effect [OF conjunct1 [OF e1], of "m_from p"]
  have "k' = delete_cohort ko (m_from p) ?k1"
    using assms(1,3) False by (auto simp: apply_merge_def lookup Let_def split: option.splits)
  then show ?thesis using e1 e2 assms(4) by (auto simp: entry_held_def map_simps)
qed (simp add: assms(4))

text \<open>A split writes the policy and the counters of the id it issues, and of no other cohort.\<close>

lemma apply_split_others:
  assumes "kinv k" and "apply_split ko p (s, k) = Inr (s', k')"
  shows "kinv k' \<and> (s' = s \<and> k' = k \<or> daemon_seq s' = daemon_seq s + 1 \<and>
    (\<forall>m \<in> {cohort_policy, cohort_counters}. \<forall>c. c \<noteq> DAEMON_COHORT_BASE + daemon_seq s \<longrightarrow> contents m k' (u64_bytes c) = contents m k (u64_bytes c)))"
proof (cases "\<exists>old. contents cohort_policy k (u64_bytes (s_cohort p)) = Some (CohortPolicy_bytes old)")
  case True
  then obtain old where "contents cohort_policy k (u64_bytes (s_cohort p)) = Some (CohortPolicy_bytes old)" by blast
  from apply_split_effect [OF assms(1) this assms(2)] show ?thesis by (simp add: Let_def map_simps)
next
  case False
  have "CohortPolicy_read w = None" if "contents cohort_policy k (u64_bytes (s_cohort p)) = Some w" for w
    using False that policy.dec_iff by (metis not_None_eq)
  then have "s' = s" "k' = k" using assms by (auto simp: apply_split_def lookup split: option.splits)
  then show ?thesis using assms(1) by simp
qed

lemma apply_splits_held:
  assumes "kinv k" and "try_fold (apply_split ko) plans (s, k) = Inr (s', k')"
    and "c \<notin> issued (DAEMON_COHORT_BASE + daemon_seq s) (length plans)" and "entry_held contents v c k"
  shows "entry_held contents v c k'"
  using assms
proof (induction plans arbitrary: s k)
  case (Cons p plans)
  obtain s1 k1 where a: "apply_split ko p (s, k) = Inr (s1, k1)" "try_fold (apply_split ko) plans (s1, k1) = Inr (s', k')"
    using Cons.prems(2) by (auto split: sum.splits)
  note o = apply_split_others [OF Cons.prems(1) a(1)]
  have c: "c \<noteq> DAEMON_COHORT_BASE + daemon_seq s" "c \<notin> issued (DAEMON_COHORT_BASE + daemon_seq s + 1) (length plans)"
    "c \<notin> issued (DAEMON_COHORT_BASE + daemon_seq s) (length plans)"
    using Cons.prems(3) issued_mono [of "length plans" "Suc (length plans)"] by (auto simp: issued_Suc)
  have "entry_held contents v c k1" using o c(1) Cons.prems(4) by (auto simp: entry_held_def)
  moreover have "c \<notin> issued (DAEMON_COHORT_BASE + daemon_seq s1) (length plans)" using o c(2,3) by (auto simp: add.assoc)
  ultimately show ?case using Cons.IH [OF _ a(2)] o by blast
qed simp

lemma discover_held:
  assumes "kinv k" and "hm_wf tc" and "discover_relationships env ko cohorts tasks tc k s = Inr (s', k')"
    and "c \<notin> issued (DAEMON_COHORT_BASE + daemon_seq s) (2 ^ 32)" and "entry_held contents v c k"
  shows "entry_held contents v c k'"
proof -
  obtain deltas k1 plans g1 s2 k2 g2 off where e: "snapshot_edges ko k = Inr (deltas, k1)"
    and f: "try_fold (apply_merge ko tc) plans (s\<lparr> wake_graph := g1 \<rparr>, k1) = Inr (s2, k2)"
    and f2: "try_fold (apply_split ko) off (s2\<lparr> wake_graph := g2 \<rparr>, k2) = Inr (s', k')" and n: "length off \<le> 2 ^ 32"
    using assms(2,3) by (rule discover_stages)
  have k1: "kinv k1" "entry_held contents v c k1"
    using snapshot_edges_effect [OF assms(1) e] assms(5) by (simp_all add: entry_held_def)
  let ?I = "\<lambda>(s2, k2). kinv k2 \<and> entry_held contents v c k2 \<and> daemon_seq s2 = daemon_seq s"
  have "?I (s2, k2)" using f
  proof (rule try_fold_invariant [where I = ?I])
    fix p r1 r2 assume i: "?I r1" and a: "apply_merge ko tc p r1 = Inr r2"
    obtain sa ka sb kb where r: "r1 = (sa, ka)" "r2 = (sb, kb)" by (metis surj_pair)
    show "?I r2"
      using i a apply_merge_present [of ka tc p sa sb kb] apply_merge_held [of ka tc p sa sb kb] assms(2) unfolding r by auto
  qed (simp add: k1)
  then have i2: "kinv k2" "entry_held contents v c k2" "daemon_seq s2 = daemon_seq s" by simp_all
  show ?thesis by (rule apply_splits_held [OF i2(1) f2]) (use i2 assms(4) issued_mono [OF n] in auto)
qed

lemma tick_pinned:
  assumes "kinv k" and "snapshot_tasks ko k s = Inr (tasks, s1)" and "apply_rules env ko tasks k s1 = Inr (s2, k2)"
    and "contents cohort_policy k2 (u64_bytes c) = Some (CohortPolicy_bytes p)" and "p_flags p AND COHORT_PINNED \<noteq> 0"
    and "c \<notin> issued (DAEMON_COHORT_BASE + daemon_seq s) (2 ^ 32)"
    and "tick env ko k s = Inr (view, s', k')"
  shows "entry_held contents (CohortPolicy_bytes p) c k'"
proof -
  obtain cohorts llcs where view: "view = (cohorts, llcs)" by (cases view)
  from assms(7) [unfolded view] show ?thesis
  proof (rule tickE)
    fix tasks' s1' tc s2' k2' s3 k3 s4 k4 s5 b ds s6 k6 d s7 k7 s8
    assume "snapshot_tasks ko k s = Inr (tasks', s1')" and t2: "snapshot_tgid_cohort ko k = Inr tc"
      and "apply_rules env ko tasks' k s1' = Inr (s2', k2')" and "snapshot_cohorts ko tasks' tc k2' s2' = Inr (cohorts, s3, k3)"
      and t5: "gc_tgid_map ko tc tasks' k3 s3 = (s4, k4)" and t6: "llc_loads ko k4 s4 = Inr (llcs, s5)"
      and t7: "plan (e_now_ms env) llcs cohorts (balancer s5) = Inr (b, ds)"
      and t8: "apply_decisions ko ds k4 (s5\<lparr> balancer := b \<rparr>) = Inr (s6, k6)"
      and t9: "plan_spills (spill_cfg s6) llcs cohorts tasks' (current_spills s6) = Inr d"
      and t10: "apply_spills env ko d k6 s6 = Inr (s7, k7)"
      and t11: "discover_relationships env ko cohorts tasks' tc k7 s7 = Inr (s8, k')"
    then have t4: "snapshot_cohorts ko tasks tc k2 s2 = Inr (cohorts, s3, k3)" using assms(2,3) by auto
    let ?h = "entry_held contents (CohortPolicy_bytes p) c"
    have tc: "hm_wf tc" using snapshot_tgid_cohort_safe [OF assms(1)] by (simp add: t2)
    have k2: "kinv k2" using apply_rules_maps [OF assms(1,3)] by blast
    have k3: "kinv k3" "?h k3" using snapshot_cohorts_effect [OF k2 t4] assms(4) by (simp_all add: entry_held_def)
    have k4: "kinv k4" "?h k4" using gc_tgid_map_effect [OF k3(1) t5] k3(2) by (simp_all add: entry_held_def)
    have "c \<notin> decision_id ` set ds" by (rule decisions_unpinned [OF k2 t4 t7 assms(4,5)])
    then have k6: "kinv k6" "?h k6"
      using apply_decisions_effect [OF k4(1) t8 [unfolded apply_decisions_def]] k4(2) by (simp_all add: entry_held_def)
    have k7: "kinv k7" "?h k7" "daemon_seq s7 = daemon_seq s6"
      using apply_spills_effect [OF k6(1) plan_spills_wf [OF t9] t10] k6(2) by (simp_all add: entry_held_def)
    have "daemon_seq s1 = daemon_seq s" using assms(2) by (auto simp: snapshot_tasks_def split: sum.splits)
    moreover have "daemon_seq s5 = daemon_seq s4" using t6 by (auto simp: llc_loads_def split: sum.splits)
    ultimately have seq: "daemon_seq s7 = daemon_seq s"
      using apply_rules_present [OF assms(1,3)] snapshot_cohorts_present [OF k2 t4] gc_tgid_present [OF k3(1) t5]
        apply_decisions_present [OF k4(1) t8] k7(3) by simp
    show ?thesis using discover_held [OF k7(1) tc t11 _ k7(2)] assms(6) by (simp add: seq)
  qed
qed

end

text \<open>
  C9. A pin holds through a whole tick. If after the rules of a tick have been applied a cohort's policy
  entry is pinned, and its id is not one of the ids the daemon is about to issue, then whatever the load
  gap, the wake graph and the garbage collector make of the rest of the tick, its entry is afterwards the
  same entry, with the same home and the same flags, or the cohort is gone, its policy and its counters
  deleted together.
\<close>

theorem pinned_home_kept:
  assumes "bpf_maps ko contents kinv" and "kinv k"
    and "snapshot_tasks ko k s = Inr (tasks, s1)" and "apply_rules env ko tasks k s1 = Inr (s2, k2)"
    and "contents cohort_policy k2 (u64_bytes c) = Some (CohortPolicy_bytes p)" and "p_flags p AND COHORT_PINNED \<noteq> 0"
    and "c \<notin> issued (DAEMON_COHORT_BASE + daemon_seq s) (2 ^ 32)"
    and "tick env ko k s = Inr (view, s', k')"
  shows "contents cohort_policy k' (u64_bytes c) = Some (CohortPolicy_bytes p) \<or>
    contents cohort_policy k' (u64_bytes c) = None \<and> contents cohort_counters k' (u64_bytes c) = None"
  using bpf_maps.tick_pinned [OF assms] by (simp add: entry_held_def)

lemma low_ids_not_issued:
  assumes "unat c < unat base" and "unat base + n \<le> 2 ^ 64"
  shows "c \<notin> issued base n"
proof
  assume "c \<in> issued base n"
  then obtain i where i: "i < n" "c = base + of_nat i" by (auto simp: issued_def)
  have "i < 2 ^ 64" using i(1) assms by simp
  then have "unat (of_nat i :: u64) = i" by (simp add: unat_of_nat take_bit_nat_eq_self)
  then have "unat c = unat base + i" using i assms(2) by (simp add: unat_word_ariths)
  then show False using assms(1) by simp
qed

text \<open>Witness of C9.\<close>

theorem pinned_home_kept_witness:
  "\<exists>view s' k'. tick demo_env ref_ops pinned_kernel (new_scheduler Opts_default Config_default demo_topology) = Inr (view, s', k') \<and>
     (ref_contents cohort_policy k' (u64_bytes 7) = Some (CohortPolicy_bytes \<lparr> p_home_llc = 1, p_flags = 1 \<rparr>) \<or>
      ref_contents cohort_policy k' (u64_bytes 7) = None \<and> ref_contents cohort_counters k' (u64_bytes 7) = None)"
proof -
  obtain view s' k' where t: "tick demo_env ref_ops pinned_kernel (new_scheduler Opts_default Config_default demo_topology) = Inr (view, s', k')"
    using quiet_tick [OF pinned_kernel_quiet] by auto
  have c: "ref_contents cohort_policy pinned_kernel (u64_bytes 7) = Some (CohortPolicy_bytes \<lparr> p_home_llc = 1, p_flags = 1 \<rparr>)"
    by (simp add: ref_contents_def pinned_kernel_def)
  have "7 \<notin> issued (DAEMON_COHORT_BASE + daemon_seq (new_scheduler Opts_default Config_default demo_topology)) (2 ^ 32)"
    by (rule low_ids_not_issued) (simp_all add: DAEMON_COHORT_BASE_def new_scheduler_def)
  from pinned_home_kept [OF ref.bpf_maps_axioms _ pinned_stages c _ this t] t show ?thesis
    using pinned_kernel_quiet by (simp add: quiet_def COHORT_PINNED_def)
qed

end
