(* ===== verification/Startup.thy ===== *)
theory Startup
  imports Daemon_Runs
begin

text \<open>
  Starting and restarting the daemon: the precedence of the options, the checks of
  \<open>Scheduler::init\<close>, and the order of the privilege drop, the threads and the restarts in \<open>main\<close>.
\<close>

section \<open>Options\<close>

text \<open>What \<open>clap\<close> promises of an argument that was not given: its default value.\<close>

definition cli_defaults :: "(string \<Rightarrow> bool) \<Rightarrow> Opts \<Rightarrow> bool" where
  "cli_defaults from_cli o' \<longleftrightarrow>
     (from_cli ''slice_us'' \<or> op_slice_us o' = op_slice_us Opts_default) \<and>
     (from_cli ''interval_ms'' \<or> op_interval_ms o' = op_interval_ms Opts_default) \<and>
     (from_cli ''steal_min'' \<or> op_steal_min o' = op_steal_min Opts_default) \<and>
     (from_cli ''steal_delay_us'' \<or> op_steal_delay_us o' = op_steal_delay_us Opts_default) \<and>
     (from_cli ''imbalance_pct'' \<or> op_imbalance_pct o' = op_imbalance_pct Opts_default) \<and>
     (from_cli ''residency_ms'' \<or> op_residency_ms o' = op_residency_ms Opts_default) \<and>
     (from_cli ''merge_wakes_per_sec'' \<or> op_merge_wakes_per_sec o' = op_merge_wakes_per_sec Opts_default) \<and>
     (from_cli ''config'' \<or> op_config o' = op_config Opts_default)"

text \<open>The effective value of an option: command line, else file, else built-in default.\<close>

definition effective :: "bool \<Rightarrow> 'a \<Rightarrow> 'a option \<Rightarrow> 'a \<Rightarrow> 'a" where
  "effective given cli in_file builtin = (if given then cli else case in_file of Some v \<Rightarrow> v | None \<Rightarrow> builtin)"

lemma from_file_effective: "given \<or> v = builtin \<Longrightarrow> from_file given ov v = effective given v ov builtin"
  by (auto simp: from_file_def effective_def split: option.split)

text \<open>
  Precedence of the options. Loading the configuration fails exactly when the configured
  file exists and cannot be read or compiled, or when it does not exist and its path was given on the
  command line; a missing default file means the built-in defaults. When it succeeds, each of the
  seven tunable options is the value given on the command line, else the one of the file, else the
  built-in default, and no other option changes.
\<close>

lemma load_config_precedence:
  assumes "cli_defaults from_cli opts"
  shows "case load_config toml glob exists files from_cli opts of
      Inl e \<Rightarrow> (if exists (op_config opts) then \<exists>ce. Config_load toml glob files (op_config opts) = Inl ce \<and> e = BadConfig ce
                else from_cli ''config'' \<and> e = ConfigNotFound (op_config opts))
    | Inr (cfg, opts') \<Rightarrow>
        (if exists (op_config opts) then Config_load toml glob files (op_config opts) = Inr cfg
         else \<not> from_cli ''config'' \<and> cfg = Config_default) \<and>
        op_slice_us opts' = effective (from_cli ''slice_us'') (op_slice_us opts) (o_slice_us (options cfg)) 5000 \<and>
        op_interval_ms opts' = effective (from_cli ''interval_ms'') (op_interval_ms opts) (o_interval_ms (options cfg)) 200 \<and>
        op_steal_min opts' = effective (from_cli ''steal_min'') (op_steal_min opts) (o_steal_min (options cfg)) 2 \<and>
        op_steal_delay_us opts' = effective (from_cli ''steal_delay_us'') (op_steal_delay_us opts) (o_steal_delay_us (options cfg)) 500 \<and>
        op_imbalance_pct opts' = effective (from_cli ''imbalance_pct'') (op_imbalance_pct opts) (o_imbalance_pct (options cfg)) 20 \<and>
        op_residency_ms opts' = effective (from_cli ''residency_ms'') (op_residency_ms opts) (o_residency_ms (options cfg)) 2000 \<and>
        op_merge_wakes_per_sec opts' =
          effective (from_cli ''merge_wakes_per_sec'') (op_merge_wakes_per_sec opts) (o_merge_wakes_per_sec (options cfg)) (Fin 300) \<and>
        op_config opts' = op_config opts \<and> op_stats opts' = op_stats opts \<and> op_monitor opts' = op_monitor opts \<and>
        op_no_rt opts' = op_no_rt opts \<and> op_drop_privs opts' = op_drop_privs opts \<and> op_command opts' = op_command opts"
  using assms
  by (auto simp: load_config_def apply_options_def cli_defaults_def Opts_default_def from_file_effective split: sum.splits if_splits)

text \<open>A file that sets two options, one of which is also given on the command line.\<close>

definition demo_options :: "string \<Rightarrow> ConfigFile option" where
  "demo_options text = Some \<lparr> cf_options = OptionsTable_default\<lparr> o_interval_ms := Some 100, o_residency_ms := Some 500 \<rparr>, cf_rules = [] \<rparr>"

text \<open>An instance.\<close>

lemma load_config_precedence_witness:
  "\<exists>cfg opts'. load_config demo_options (\<lambda>_. None) (\<lambda>_. True) (\<lambda>_. Some []) (\<lambda>a. a = ''residency_ms'')
       (Opts_default\<lparr> op_residency_ms := 9000 \<rparr>) = Inr (cfg, opts') \<and>
     op_interval_ms opts' = 100 \<and> op_residency_ms opts' = 9000 \<and> op_steal_min opts' = 2"
proof -
  let ?given = "\<lambda>a. a = ''residency_ms''" and ?opts = "Opts_default\<lparr> op_residency_ms := 9000 \<rparr>"
  have "cli_defaults ?given ?opts" by (simp add: cli_defaults_def)
  note p = load_config_precedence [OF this, where toml = demo_options and glob = "\<lambda>_. None" and exists = "\<lambda>_. True" and files = "\<lambda>_. Some []"]
  obtain cfg opts' where r: "load_config demo_options (\<lambda>_. None) (\<lambda>_. True) (\<lambda>_. Some []) ?given ?opts = Inr (cfg, opts')"
    and o': "options cfg = OptionsTable_default\<lparr> o_interval_ms := Some 100, o_residency_ms := Some 500 \<rparr>"
    by (simp add: load_config_def Config_load_def Config_parse_def demo_options_def)
  from p show ?thesis
    unfolding r using r by (simp add: o' effective_def OptionsTable_default_def)
qed

section \<open>Initialisation\<close>

definition topology_ok :: "Topology \<Rightarrow> bool" where
  "topology_ok topo \<longleftrightarrow> hm_wf (tp_all_cpus topo) \<and> (\<forall>(c, cpu) \<in> set (tp_all_cpus topo). cpu_id cpu = c \<and> c < 2 ^ 31)"

lemma set_cpu_llcs:
  assumes "\<forall>(c, cpu) \<in> set cpus. cpu_id cpu = c \<and> c < length ids" and "hm_wf cpus"
  shows "\<exists>ids'. try_fold set_cpu_llc cpus ids = Inr ids' \<and> length ids' = length ids \<and>
    (\<forall>(c, cpu) \<in> set cpus. ids' ! c = of_nat (cpu_llc_id cpu)) \<and> (\<forall>c. c \<notin> fst ` set cpus \<longrightarrow> ids' ! c = ids ! c)"
  using assms
proof (induction cpus arbitrary: ids)
  case (Cons x cpus)
  obtain c cpu where x: "x = (c, cpu)" by (cases x)
  let ?ids = "ids[c := of_nat (cpu_llc_id cpu)]"
  have c: "cpu_id cpu = c" "c < length ids" "c \<notin> fst ` set cpus" "hm_wf cpus" using Cons.prems by (auto simp: x hm_wf_def)
  obtain ids' where ids': "try_fold set_cpu_llc cpus ?ids = Inr ids'" "length ids' = length ?ids"
    "\<forall>(c, cpu) \<in> set cpus. ids' ! c = of_nat (cpu_llc_id cpu)" "\<forall>c. c \<notin> fst ` set cpus \<longrightarrow> ids' ! c = ?ids ! c"
    using Cons.IH [of ?ids] Cons.prems(1) c(4) by auto
  have "set_cpu_llc x ids = Inr ?ids" using c by (simp add: set_cpu_llc_def x)
  with ids' c show ?case by (auto simp: x)
qed simp

lemma nr_cpus_bound:
  assumes "mx < 2 ^ 31"
  shows "unat (of_nat mx + 1 :: u32) = mx + 1"
proof -
  have "of_nat mx + 1 = (of_nat (mx + 1) :: u32)" by simp
  moreover have "unat (of_nat (mx + 1) :: u32) = mx + 1" using assms by (simp only: unat_of_nat) (simp add: take_bit_nat_eq_self)
  ultimately show ?thesis by metis
qed

lemma fill_rodata_outcome:
  assumes "topology_ok topo" and "length (ro_cpu_llc_id ro) = unat MAX_CPUS"
  shows "case fill_rodata opts topo ro of
      Inl e \<Rightarrow> (\<exists>c \<in> fst ` set (tp_all_cpus topo). unat MAX_CPUS \<le> c) \<and> (\<exists>n. e = TooManyCpus n)
    | Inr ro' \<Rightarrow> (\<forall>c \<in> fst ` set (tp_all_cpus topo). c < unat MAX_CPUS) \<and> ro_slice_ns ro' = op_slice_us opts * 1000 \<and>
        (\<forall>(c, cpu) \<in> set (tp_all_cpus topo). c < unat (ro_nr_cpus ro') \<and> ro_cpu_llc_id ro' ! c = of_nat (cpu_llc_id cpu))"
proof -
  let ?keys = "map fst (tp_all_cpus topo)"
  define mx where "mx = (case max_by_key (\<lambda>c. c) ?keys of None \<Rightarrow> 0 | Some c \<Rightarrow> c)"
  have le: "c \<le> mx" if "c \<in> fst ` set (tp_all_cpus topo)" for c
    using that max_by_key_ge [of "\<lambda>c. c" ?keys] by (auto simp: mx_def split: option.split)
  have "?keys = [] \<and> mx = 0 \<or> mx \<in> set ?keys"
    using max_by_key_in [of "\<lambda>c. c" ?keys] by (auto simp: mx_def split: option.split)
  then have mx: "mx < 2 ^ 31" "mx \<in> fst ` set (tp_all_cpus topo) \<or> mx = 0" using assms(1) by (auto simp: topology_ok_def)
  have n: "unat (of_nat mx + 1 :: u32) = mx + 1" by (rule nr_cpus_bound [OF mx(1)])
  have big: "MAX_CPUS < of_nat mx + 1 \<longleftrightarrow> unat MAX_CPUS \<le> mx" by (simp add: word_less_nat_alt n less_Suc_eq_le)
  show ?thesis
  proof (cases "unat MAX_CPUS \<le> mx")
    case True
    then have "mx \<in> fst ` set (tp_all_cpus topo)" using mx(2) by (auto simp: MAX_CPUS_def)
    with True big show ?thesis by (auto simp: fill_rodata_def Let_def mx_def [symmetric])
  next
    case False
    then have lt: "c < unat MAX_CPUS" if "c \<in> fst ` set (tp_all_cpus topo)" for c using le [OF that] by simp
    have "\<forall>(c, cpu) \<in> set (tp_all_cpus topo). cpu_id cpu = c \<and> c < length (ro_cpu_llc_id ro)"
      using assms lt by (force simp: topology_ok_def)
    from set_cpu_llcs [OF this] assms(1) obtain ids where ids: "try_fold set_cpu_llc (tp_all_cpus topo) (ro_cpu_llc_id ro) = Inr ids"
      "\<forall>(c, cpu) \<in> set (tp_all_cpus topo). ids ! c = of_nat (cpu_llc_id cpu)" by (auto simp: topology_ok_def)
    have "\<forall>(c, cpu) \<in> set (tp_all_cpus topo). c < unat (of_nat mx + 1 :: u32)" using le by (force simp: n less_Suc_eq_le)
    with ids False big lt show ?thesis by (auto simp: fill_rodata_def Let_def mx_def [symmetric])
  qed
qed

text \<open>
  C30. Initialisation accepts exactly the machines it supports, and never panics. On a topology
  whose CPUs are keyed by their ids, \<open>Scheduler::init\<close> succeeds exactly when the process is root, the
  machine has one node, at most eight LLCs and only CPU ids below 512, and the BPF object opens, loads
  and attaches; it then tells the BPF side the LLC of every CPU, within the announced number of CPUs.
  No run of it indexes out of range.
\<close>

theorem init_accepts:
  assumes "\<forall>topo. bo_topology bo = Some topo \<longrightarrow> topology_ok topo" and "length (ro_cpu_llc_id (bo_rodata bo)) = unat MAX_CPUS"
  shows "(\<exists>ro tn s. Scheduler_init opts cfg bo = Inr (ro, tn, s)) =
      (bo_root bo \<and> bo_open bo \<and> bo_load bo \<and> bo_attach bo \<and>
       (case bo_topology bo of
          None \<Rightarrow> False
        | Some topo \<Rightarrow> tp_nodes topo \<le> 1 \<and> length (tp_all_llcs topo) \<le> 8 \<and> (\<forall>c \<in> fst ` set (tp_all_cpus topo). c < 512))) \<and>
    (\<forall>ro tn s topo. Scheduler_init opts cfg bo = Inr (ro, tn, s) \<longrightarrow> bo_topology bo = Some topo \<longrightarrow>
       (\<forall>(c, cpu) \<in> set (tp_all_cpus topo). c < unat (ro_nr_cpus ro) \<and> ro_cpu_llc_id ro ! c = of_nat (cpu_llc_id cpu)) \<and>
       tn = tunables opts \<and> s = new_scheduler opts cfg topo) \<and>
    (\<forall>p. Scheduler_init opts cfg bo \<noteq> Inl (MainPanic p))"
proof (cases "bo_topology bo")
  case None
  then show ?thesis by (simp add: Scheduler_init_def)
next
  case (Some topo)
  then have ok: "topology_ok topo" using assms(1) by blast
  have m: "unat MAX_CPUS = 512" "unat MAX_LLCS = 8" by (simp_all add: MAX_CPUS_def MAX_LLCS_def)
  note f = fill_rodata_outcome [OF ok assms(2), of opts, unfolded m]
  show ?thesis
  proof (cases "fill_rodata opts topo (bo_rodata bo)")
    case (Inl e)
    then obtain c n where "c \<in> fst ` set (tp_all_cpus topo)" "512 \<le> c" "e = TooManyCpus n" using f by auto
    then show ?thesis using Some Inl by (auto simp: Scheduler_init_def m not_less)
  next
    case (Inr ro)
    then have "\<forall>c \<in> fst ` set (tp_all_cpus topo). c < 512"
      "\<forall>(c, cpu) \<in> set (tp_all_cpus topo). c < unat (ro_nr_cpus ro) \<and> ro_cpu_llc_id ro ! c = of_nat (cpu_llc_id cpu)"
      using f by simp_all
    then show ?thesis using Some Inr by (auto simp: Scheduler_init_def m not_less)
  qed
qed

lemma demo_topology_ok: "topology_ok demo_topology"
  by (simp add: topology_ok_def demo_topology_def hm_wf_def)

text \<open>Witness of C30.\<close>

theorem init_accepts_witness: "\<exists>ro tn s. Scheduler_init Opts_default Config_default demo_boot = Inr (ro, tn, s)"
proof -
  have "\<forall>topo. bo_topology demo_boot = Some topo \<longrightarrow> topology_ok topo" "length (ro_cpu_llc_id (bo_rodata demo_boot)) = unat MAX_CPUS"
    using demo_topology_ok by (simp_all add: demo_boot_def MAX_CPUS_def)
  from init_accepts [OF this, of Opts_default Config_default] show ?thesis
    by (simp add: demo_boot_def demo_topology_def)
qed

section \<open>Privileges, threads and restarts\<close>

text \<open>
  C29. With the privilege drop requested, every thread of the daemon runs without capabilities.
  Whatever the scheduler's lives look like, in the restart loop of \<open>main\<close> (before which only \<open>set_realtime\<close> uses a
  capability) nothing but the first initialisation happens before the
  drop: no thread is started and the event loop is not entered; the drop is attempted at most once, and
  after it the daemon never initialises again, which would need the capabilities it gave up, but ends.
\<close>

theorem privileges_dropped_first:
  assumes "main_loop ko opts cfg True sessions False = (evs, r)"
  shows "set (takeWhile (\<lambda>e. e \<noteq> EvDropCaps) evs) \<subseteq> {EvInit} \<and>
    EvInit \<notin> set (dropWhile (\<lambda>e. e \<noteq> EvDropCaps) evs) \<and>
    count_list evs EvInit \<le> 1 \<and> count_list evs EvDropCaps \<le> 1"
proof (cases sessions)
  case (Cons x xs)
  show ?thesis
    using assms unfolding Cons
    by (auto simp: Let_def split: sum.splits prod.splits run_result.splits if_splits)
qed (use assms in auto)

definition demo_session :: "bool \<Rightarrow> ref_kernel Session" where
  "demo_session restart = \<lparr> se_boot = demo_boot, se_caps = True, se_server = True, se_kernel = (\<lambda>_. []), se_start = 0,
     se_inputs = [demo_turn TimedOut 0 \<lparr> li_exited := True \<rparr>], se_shutdown = False, se_restart = restart, se_report = True \<rparr>"

lemma demo_session_run: "\<exists>st. run ref_ops (se_start (demo_session b)) (se_inputs (demo_session b)) (se_kernel (demo_session b)) s = RunStopped st"
  by (simp add: run_def demo_session_def)

lemma demo_session_simps:
  "se_boot (demo_session b) = demo_boot" "se_caps (demo_session b)" "se_server (demo_session b)"
  "\<not> se_shutdown (demo_session b)" "se_restart (demo_session b) = b" "se_report (demo_session b)"
  by (simp_all add: demo_session_def)

lemma demo_session_runs:
  "main_loop ref_ops Opts_default Config_default dp (demo_session b # xs) served =
     (let evs = EvInit # (if dp \<and> \<not> served then [EvDropCaps] else []) @ (if served then [] else [EvServerThread]) @ [EvRun, EvDetach]
      in if \<not> b then (evs, MainOk) else if dp then (evs, MainErr EjectedWithoutPrivs)
         else (evs @ fst (main_loop ref_ops Opts_default Config_default dp xs True), snd (main_loop ref_ops Opts_default Config_default dp xs True)))"
proof -
  obtain ro tn where i: "Scheduler_init Opts_default Config_default demo_boot = Inr (ro, tn, new_scheduler Opts_default Config_default demo_topology)"
    using demo_init by blast
  obtain st where "run ref_ops (se_start (demo_session b)) (se_inputs (demo_session b)) (se_kernel (demo_session b))
      (new_scheduler Opts_default Config_default demo_topology) = RunStopped st" using demo_session_run by blast
  moreover have "op_stats Opts_default = None" by (simp add: Opts_default_def)
  ultimately show ?thesis by (simp add: demo_session_simps i Let_def case_prod_unfold)
qed

text \<open>Witness of C29.\<close>

theorem privileges_dropped_first_witness:
  "\<exists>evs. main_loop ref_ops Opts_default Config_default True [demo_session True] False = (evs, MainErr EjectedWithoutPrivs) \<and>
     EvServerThread \<in> set evs \<and> set (takeWhile (\<lambda>e. e \<noteq> EvDropCaps) evs) \<subseteq> {EvInit}"
proof -
  have e: "main_loop ref_ops Opts_default Config_default True [demo_session True] False =
      ([EvInit, EvDropCaps, EvServerThread, EvRun, EvDetach], MainErr EjectedWithoutPrivs)"
    by (simp add: demo_session_runs del: main_loop.simps)
  from privileges_dropped_first [OF e] e show ?thesis by auto
qed

text \<open>One life of the scheduler: the events of its own, and whether the loop goes on.\<close>

definition life_events :: "Opts \<Rightarrow> bool \<Rightarrow> bool \<Rightarrow> main_event list \<Rightarrow> bool" where
  "life_events opts dp served evs \<longleftrightarrow>
     EvInit \<notin> set evs \<and> count_list evs EvServerThread \<le> (if served then 0 else 1) \<and>
     count_list evs EvMonitorThread \<le> (if served \<or> op_stats opts = None then 0 else 1) \<and> (dp \<or> EvDropCaps \<notin> set evs)"

lemma main_loop_cases:
  assumes "main_loop ko opts cfg dp (x # xs) served = (evs, r)"
  shows "(\<exists>tl. evs = EvInit # tl \<and> life_events opts dp served tl \<and> (r = MainOk \<longrightarrow> (se_shutdown x \<or> \<not> se_restart x) \<and> se_report x)) \<or>
    (\<exists>tl evs'. evs = EvInit # tl @ evs' \<and> life_events opts dp served tl \<and> \<not> dp \<and> se_restart x \<and> \<not> se_shutdown x \<and>
       main_loop ko opts cfg dp xs True = (evs', r))"
proof -
  obtain evs' r' where rest: "main_loop ko opts cfg dp xs True = (evs', r')" by fastforce
  show ?thesis
  proof (cases "Scheduler_init opts cfg (se_boot x)")
    case (Inl e)
    then show ?thesis using assms by (auto simp: life_events_def)
  next
    case (Inr t)
    obtain ro tn s where t: "t = (ro, tn, s)" by (cases t)
    let ?tl = "(if served then [] else EvServerThread # (if op_stats opts = None then [] else [EvMonitorThread])) @ [EvRun, EvDetach]"
    show ?thesis
    proof (cases "(\<exists>st. run ko (se_start x) (se_inputs x) (se_kernel x) s = RunStopped st) \<and> \<not> dp \<and> se_restart x \<and>
        \<not> se_shutdown x \<and> (served \<or> se_server x)")
      case True
      then have "evs = EvInit # ?tl @ evs'" "r' = r" using assms Inr t rest by (auto simp: Let_def)
      moreover have "life_events opts dp served ?tl" using True by (simp add: life_events_def)
      ultimately show ?thesis using True rest by blast
    next
      case False
      then show ?thesis
        using assms unfolding main_loop.simps Inr t
        by (cases "run ko (se_start x) (se_inputs x) (se_kernel x) s")
          (auto simp: Let_def life_events_def split: if_splits)
    qed
  qed
qed

text \<open>
  The restart loop. Over any number of lives of the scheduler, the stats server and the
  monitor thread are started at most once, the latter only when it was asked for, and without
  the privilege drop no capability is dropped; the daemon initialises again only after a life that
  asked for a restart while no shutdown was requested, and returns success only after a life that
  ended with a clean exit record and asked for no restart, or on shutdown.
\<close>

lemma restart_loop_sound:
  assumes "main_loop ko opts cfg dp sessions False = (evs, r)"
  shows "count_list evs EvServerThread \<le> 1 \<and>
    count_list evs EvMonitorThread \<le> (if op_stats opts = None then 0 else 1) \<and>
    (dp \<or> EvDropCaps \<notin> set evs) \<and> count_list evs EvInit \<le> length sessions \<and>
    (\<forall>i. i + 1 < count_list evs EvInit \<longrightarrow> se_restart (sessions ! i) \<and> \<not> se_shutdown (sessions ! i)) \<and>
    (r = MainOk \<longrightarrow> (\<exists>x \<in> set sessions. (se_shutdown x \<or> \<not> se_restart x) \<and> se_report x))"
proof -
  have "count_list evs EvServerThread \<le> (if served then 0 else 1) \<and>
    count_list evs EvMonitorThread \<le> (if served \<or> op_stats opts = None then 0 else 1) \<and>
    (dp \<or> EvDropCaps \<notin> set evs) \<and> count_list evs EvInit \<le> length sessions \<and>
    (\<forall>i. i + 1 < count_list evs EvInit \<longrightarrow> se_restart (sessions ! i) \<and> \<not> se_shutdown (sessions ! i)) \<and>
    (r = MainOk \<longrightarrow> (\<exists>x \<in> set sessions. (se_shutdown x \<or> \<not> se_restart x) \<and> se_report x))"
    if "main_loop ko opts cfg dp sessions served = (evs, r)" for served
    using that
  proof (induction sessions arbitrary: served evs)
    case (Cons x xs)
    have init: "EvInit \<notin> set tl \<Longrightarrow> count_list tl EvInit = 0" for tl by (simp add: count_list_0_iff)
    from main_loop_cases [OF Cons.prems] show ?case
    proof (elim disjE exE conjE)
      fix tl assume e: "evs = EvInit # tl" "life_events opts dp served tl"
        and ok: "r = MainOk \<longrightarrow> (se_shutdown x \<or> \<not> se_restart x) \<and> se_report x"
      then show ?thesis using init [of tl] by (auto simp: life_events_def)
    next
      fix tl evs' assume e: "evs = EvInit # tl @ evs'" "life_events opts dp served tl" "\<not> dp" "se_restart x" "\<not> se_shutdown x"
        and rest: "main_loop ko opts cfg dp xs True = (evs', r)"
      have n: "count_list evs EvInit = Suc (count_list evs' EvInit)" using e init [of tl] by (simp add: life_events_def)
      have step: "se_restart ((x # xs) ! i) \<and> \<not> se_shutdown ((x # xs) ! i)" if "i + 1 < count_list evs EvInit" for i
        using that e Cons.IH [OF rest] n by (cases i) auto
      then show ?thesis using e n Cons.IH [OF rest] by (auto simp: life_events_def)
    qed
  qed simp
  from this [OF assms] show ?thesis by simp
qed

text \<open>An instance.\<close>

lemma restart_loop_sound_witness:
  "\<exists>evs. main_loop ref_ops Opts_default Config_default False [demo_session True, demo_session False] False = (evs, MainOk) \<and>
     count_list evs EvInit = 2 \<and> count_list evs EvServerThread \<le> 1 \<and> se_restart (demo_session True)"
proof -
  have e: "main_loop ref_ops Opts_default Config_default False [demo_session True, demo_session False] False =
      ([EvInit, EvServerThread, EvRun, EvDetach, EvInit, EvRun, EvDetach], MainOk)"
    by (simp add: demo_session_runs del: main_loop.simps)
  from restart_loop_sound [OF e] e show ?thesis by (auto simp: demo_session_simps)
qed

end
