(* ===== verification/Text_Format.thy ===== *)
theory Text_Format
  imports Rust_String Float64
begin

text \<open>
  The text formatting of \<open>std::fmt\<close> that the sources print with: decimal integers, floats with a fixed
  number of decimals, and padding to a column. A string is its UTF-8 bytes; widths count characters.
\<close>

section \<open>Integers\<close>

definition digit_char :: "nat \<Rightarrow> char" where
  "digit_char d = char_of (48 + d)"

fun show_nat :: "nat \<Rightarrow> string" where
  "show_nat n = (if n < 10 then [digit_char n] else show_nat (n div 10) @ [digit_char (n mod 10)])"

declare show_nat.simps [simp del]

definition show_word :: "'a::len word \<Rightarrow> string" where
  "show_word w = show_nat (unat w)"

lemma show_nat_nonempty [simp]: "show_nat n \<noteq> []"
  by (subst show_nat.simps) simp

definition is_digit :: "char \<Rightarrow> bool" where
  "is_digit c \<longleftrightarrow> 48 \<le> (of_char c :: nat) \<and> (of_char c :: nat) \<le> 57"

lemma digit_char_digit: "d < 10 \<Longrightarrow> is_digit (digit_char d)"
  by (simp add: is_digit_def digit_char_def)

lemma show_nat_digits: "c \<in> set (show_nat n) \<Longrightarrow> is_digit c"
proof (induction n rule: show_nat.induct)
  case (1 n)
  show ?case
  proof (cases "n < 10")
    case True
    then show ?thesis using "1.prems" by (subst (asm) show_nat.simps) (simp add: digit_char_digit)
  next
    case False
    then have "c \<in> set (show_nat (n div 10)) \<or> c = digit_char (n mod 10)"
      using "1.prems" by (subst (asm) show_nat.simps) auto
    then show ?thesis using "1.IH" [OF False] by (auto simp: digit_char_digit)
  qed
qed

section \<open>Floats with a fixed number of decimals\<close>

text \<open>\<open>{:.d}\<close>: the exact value, rounded to \<open>d\<close> decimals, ties to even.\<close>

definition decimals :: "nat \<Rightarrow> nat \<Rightarrow> string" where
  "decimals d n = (if d = 0 then show_nat n
     else show_nat (n div 10 ^ d) @ ''.'' @ map (\<lambda>i. digit_char (n div 10 ^ i mod 10)) (rev [0 ..< d]))"

fun fixed :: "nat \<Rightarrow> f64 \<Rightarrow> string" where
  "fixed d NaN = ''NaN''"
| "fixed d PInf = ''inf''"
| "fixed d NInf = ''-inf''"
| "fixed d (Fin q) = (if q < 0 then ''-'' else []) @ decimals d (nat (round_half_even (\<bar>q\<bar> * 10 ^ d)))"

text \<open>A printed number is within half a unit of its last place.\<close>

lemma round_half_even_close: "\<bar>of_int (round_half_even x) - x\<bar> \<le> 1 / 2"
proof -
  have "of_int \<lfloor>x\<rfloor> \<le> x" "x < of_int \<lfloor>x\<rfloor> + 1" by linarith+
  then show ?thesis by (auto simp: round_half_even_def Let_def)
qed

section \<open>Padding\<close>

definition chars :: "string \<Rightarrow> nat" where
  "chars s = length (filter (\<lambda>c. of_char c < (0x80 :: nat) \<or> 0xC0 \<le> (of_char c :: nat)) s)"

text \<open>\<open>{:<n}\<close> and \<open>{:>n}\<close>.\<close>

definition pad_right :: "nat \<Rightarrow> string \<Rightarrow> string" where
  "pad_right n s = s @ replicate (n - chars s) CHR '' ''"

definition pad_left :: "nat \<Rightarrow> string \<Rightarrow> string" where
  "pad_left n s = replicate (n - chars s) CHR '' '' @ s"

lemma chars_append [simp]: "chars (s @ t) = chars s + chars t"
  by (simp add: chars_def)

lemma chars_Cons [simp]: "chars [] = 0" "chars (c # s) = (if of_char c < (0x80 :: nat) \<or> 0xC0 \<le> (of_char c :: nat) then 1 else 0) + chars s"
  by (simp_all add: chars_def)

lemma chars_spaces [simp]: "chars (replicate n CHR '' '') = n"
  by (simp add: chars_def)

lemma chars_pad [simp]: "chars (pad_right n s) = max n (chars s)" "chars (pad_left n s) = max n (chars s)"
  by (simp_all add: pad_right_def pad_left_def)

text \<open>\<open>[&str]::join_with\<close>.\<close>

fun join_with :: "string \<Rightarrow> string list \<Rightarrow> string" where
  "join_with sep [] = []"
| "join_with sep [s] = s"
| "join_with sep (s # t # ss) = s @ sep @ join_with sep (t # ss)"

definition newline :: string where "newline = [CHR 0x0A]"

lemma show_nat_no_newline: "CHR 0x0A \<notin> set (show_nat n)"
  using show_nat_digits [of "CHR 0x0A" n] by (auto simp: is_digit_def)

lemma decimals_no_newline: "CHR 0x0A \<notin> set (decimals d n)"
proof -
  have "digit_char (m mod 10) \<noteq> CHR 0x0A" for m
    using digit_char_digit [of "m mod 10"] by (auto simp: is_digit_def)
  then show ?thesis by (auto simp: decimals_def show_nat_no_newline dest: sym)
qed

lemma fixed_no_newline: "CHR 0x0A \<notin> set (fixed d x)"
  by (cases x) (auto simp: decimals_no_newline)

lemma pad_no_newline: "CHR 0x0A \<notin> set s \<Longrightarrow> CHR 0x0A \<notin> set (pad_right n s)" "CHR 0x0A \<notin> set s \<Longrightarrow> CHR 0x0A \<notin> set (pad_left n s)"
  by (auto simp: pad_right_def pad_left_def)

lemmas no_newline = show_nat_no_newline decimals_no_newline fixed_no_newline pad_no_newline

text \<open>Lines written with \<open>writeln!\<close> are the lines that are read.\<close>

lemma split_lines_cur: "CHR 0x0A \<notin> set l \<Longrightarrow> split_lines cur (l @ newline @ rest) = (cur @ l) # split_lines [] rest"
  by (induction l arbitrary: cur) (auto simp: newline_def)

lemma split_writeln: "\<forall>l \<in> set ls. CHR 0x0A \<notin> set l \<Longrightarrow> split_lines [] (concat (map (\<lambda>l. l @ newline) ls)) = ls"
  by (induction ls) (simp_all add: split_lines_cur)

end
