(* ===== verification/Process_Setup.thy ===== *)
theory Process_Setup
  imports Startup Text_Format
begin

text \<open>
  The start of the daemon's process in \<open>scx_cohort/src/main.rs\<close>: the log settings, the signal handlers and
  \<open>set_realtime\<close>, and the shutdown flag that the handler sets and the event and restart loops read.
  \<open>sigaction\<close> is an operation on an abstract process, with its documented effect as a locale; a
  table of handlers interprets it.
\<close>

section \<open>The log\<close>

datatype LevelFilter = LvOff | LvError | LvWarn | LvInfo | LvDebug | LvTrace
datatype ColorChoice = ColorAuto | ColorNever

record LogConfig =
  lg_level :: LevelFilter
  lg_time :: LevelFilter
  lg_location :: LevelFilter
  lg_target :: LevelFilter
  lg_thread :: LevelFilter
  lg_color :: ColorChoice

definition log_level :: "nat \<Rightarrow> LevelFilter" where
  "log_level verbose = (if verbose = 0 then LvInfo else if verbose = 1 then LvDebug else LvTrace)"

definition log_config :: "nat \<Rightarrow> bool \<Rightarrow> LogConfig" where
  "log_config verbose journald =
     \<lparr> lg_level = log_level verbose, lg_time = (if journald then LvOff else LvError), lg_location = LvOff, lg_target = LvOff,
       lg_thread = LvOff, lg_color = (if journald then ColorNever else ColorAuto) \<rparr>"

type_synonym log_line = "LevelFilter \<times> string"

text \<open>What \<open>log_topology\<close> reads of the topology: its totals, and its nodes and LLCs in order.\<close>

record LlcInfo =
  ti_llc_id :: nat
  ti_llc_cores :: nat
  ti_llc_cpus :: "nat list"

record TopologyInfo =
  ti_nodes :: "(nat \<times> LlcInfo list) list"
  ti_nr_llcs :: nat
  ti_nr_cores :: nat
  ti_nr_cpus :: nat
  ti_smt_enabled :: bool

definition log_llc :: "nat \<Rightarrow> LlcInfo \<Rightarrow> log_line" where
  "log_llc node l = (LvInfo,
     ''  node '' @ show_nat node @ '' llc '' @ show_nat (ti_llc_id l) @ '': '' @ show_nat (ti_llc_cores l) @ '' cores, '' @
     show_nat (length (ti_llc_cpus l)) @ '' cpus ['' @ join_with '','' (map show_nat (ti_llc_cpus l)) @ '']'')"

definition log_topology :: "TopologyInfo \<Rightarrow> log_line list" where
  "log_topology topo =
     (LvInfo, ''topology: '' @ show_nat (length (ti_nodes topo)) @ '' node(s), '' @ show_nat (ti_nr_llcs topo) @ '' LLC(s), '' @
        show_nat (ti_nr_cores topo) @ '' core(s), '' @ show_nat (ti_nr_cpus topo) @ '' CPU(s), SMT '' @
        (if ti_smt_enabled topo then ''on'' else ''off'')) #
     concat (map (\<lambda>(node, llcs). map (log_llc node) llcs) (ti_nodes topo))"

text \<open>\<open>set_realtime\<close> never fails: \<open>result\<close> is the error of \<open>sched_setscheduler\<close>, if any, and is logged.\<close>

definition show_int :: "int \<Rightarrow> string" where
  "show_int n = (if n < 0 then ''-'' @ show_nat (nat (- n)) else show_nat (nat n))"

definition set_realtime :: "int \<Rightarrow> string option \<Rightarrow> log_line" where
  "set_realtime priority result =
     (case result of
        Some err \<Rightarrow> (LvWarn, ''failed to set SCHED_FIFO '' @ show_int priority @ '': '' @ err)
      | None \<Rightarrow> (LvInfo, ''daemon running at SCHED_FIFO '' @ show_int priority))"

section \<open>Signals\<close>

definition SIGINT :: int where "SIGINT = 2"
definition SIGTERM :: int where "SIGTERM = 15"

text \<open>
  \<open>sigaction sig\<close> installs \<open>on_signal\<close> for \<open>sig\<close>, or fails; \<open>runs_handler\<close> tells whether the arrival of a
  signal runs it.
\<close>

record 'p sig_ops =
  sigaction :: "int \<Rightarrow> 'p \<Rightarrow> 'p option"
  runs_handler :: "'p \<Rightarrow> int \<Rightarrow> bool"

datatype setup_error = LoggerFailed | HandlerFailed int

definition install_one :: "'p sig_ops \<Rightarrow> int \<Rightarrow> 'p \<Rightarrow> setup_error + 'p" where
  "install_one ops sig p = (case sigaction ops sig p of None \<Rightarrow> Inl (HandlerFailed sig) | Some p' \<Rightarrow> Inr p')"

definition install_signal_handlers :: "'p sig_ops \<Rightarrow> 'p \<Rightarrow> setup_error + 'p" where
  "install_signal_handlers ops p = try_fold (install_one ops) [SIGINT, SIGTERM] p"

text \<open>The handler's effect on the flag \<open>SHUTDOWN\<close>.\<close>

definition on_signal :: "int \<Rightarrow> bool \<Rightarrow> bool" where
  "on_signal sig SHUTDOWN = True"

definition arrive :: "'p sig_ops \<Rightarrow> 'p \<Rightarrow> int \<Rightarrow> bool \<Rightarrow> bool" where
  "arrive ops p sig SHUTDOWN = (if runs_handler ops p sig then on_signal sig SHUTDOWN else SHUTDOWN)"

locale posix_signals =
  fixes ops :: "'p sig_ops"
  assumes sigaction_runs: "sigaction ops sig p = Some p' \<Longrightarrow> runs_handler ops p' s = (s = sig \<or> runs_handler ops p s)"
begin

lemma installed:
  assumes "install_signal_handlers ops p = Inr p'"
  shows "runs_handler ops p' s = (s = SIGINT \<or> s = SIGTERM \<or> runs_handler ops p s)"
  using assms
  by (auto simp: install_signal_handlers_def install_one_def sigaction_runs split: option.splits sum.splits)

lemma stop_sets_flag:
  assumes "install_signal_handlers ops p = Inr p'" and "set sigs \<inter> {SIGINT, SIGTERM} \<noteq> {}"
  shows "fold (arrive ops p') sigs b"
proof -
  have mono: "fold (arrive ops p') ss True" for ss by (induction ss) (simp_all add: arrive_def on_signal_def)
  obtain s where "s \<in> set sigs" and s: "s \<in> {SIGINT, SIGTERM}" using assms(2) by blast
  then obtain pre post where "sigs = pre @ s # post" using split_list by metis
  then show ?thesis using s installed [OF assms(1), of s] mono by (auto simp: arrive_def on_signal_def)
qed

end

text \<open>The table of the signals that run the handler. \<open>SIGKILL\<close> and \<open>SIGSTOP\<close> cannot be caught.\<close>

definition ref_sig_ops :: "int set sig_ops" where
  "ref_sig_ops = \<lparr> sigaction = (\<lambda>sig p. if 1 \<le> sig \<and> sig \<le> 64 \<and> sig \<noteq> 9 \<and> sig \<noteq> 19 then Some (insert sig p) else None),
     runs_handler = (\<lambda>p sig. sig \<in> p) \<rparr>"

interpretation ref_sigs: posix_signals ref_sig_ops
  by unfold_locales (auto simp: ref_sig_ops_def split: if_splits)

section \<open>The flag and the loops\<close>

text \<open>
  A turn of the event loop with the signals that arrive before its head, and a life of the scheduler
  with those that arrive before the flag is read again after the loop. Nothing clears the flag, so
  each life starts with what the last one left.
\<close>

type_synonym 'k signalled_turn = "int list \<times> 'k LoopInput"
type_synonym 'k signalled_life = "'k signalled_turn list \<times> int list \<times> 'k Session"

definition flag_after :: "'p sig_ops \<Rightarrow> 'p \<Rightarrow> 'k signalled_turn list \<Rightarrow> bool \<Rightarrow> bool" where
  "flag_after ops p turns SHUTDOWN = fold (arrive ops p) (concat (map fst turns)) SHUTDOWN"

fun flagged_inputs :: "'p sig_ops \<Rightarrow> 'p \<Rightarrow> bool \<Rightarrow> 'k signalled_turn list \<Rightarrow> 'k LoopInput list" where
  "flagged_inputs ops p SHUTDOWN [] = []"
| "flagged_inputs ops p SHUTDOWN ((sigs, i) # turns) =
     (let b = fold (arrive ops p) sigs SHUTDOWN in i\<lparr> li_shutdown := b \<rparr> # flagged_inputs ops p b turns)"

definition flagged_session :: "'p sig_ops \<Rightarrow> 'p \<Rightarrow> bool \<Rightarrow> 'k signalled_life \<Rightarrow> 'k Session" where
  "flagged_session ops p SHUTDOWN = (\<lambda>(turns, late, x).
     x\<lparr> se_inputs := flagged_inputs ops p SHUTDOWN turns,
        se_shutdown := fold (arrive ops p) late (flag_after ops p turns SHUTDOWN) \<rparr>)"

fun flagged_sessions :: "'p sig_ops \<Rightarrow> 'p \<Rightarrow> bool \<Rightarrow> 'k signalled_life list \<Rightarrow> 'k Session list" where
  "flagged_sessions ops p SHUTDOWN [] = []"
| "flagged_sessions ops p SHUTDOWN (life # lives) =
     (let x = flagged_session ops p SHUTDOWN life in x # flagged_sessions ops p (se_shutdown x) lives)"

text \<open>The process as a whole: logger, handlers, and \<open>main\<close> with the flag cleared at the start.\<close>

definition main_process :: "'p sig_ops \<Rightarrow> 'p \<Rightarrow> bool \<Rightarrow> 'k kernel_ops \<Rightarrow> (string \<Rightarrow> ConfigFile option) \<Rightarrow>
    (string \<Rightarrow> (string \<Rightarrow> bool) option) \<Rightarrow> (string \<Rightarrow> bool) \<Rightarrow> (string \<Rightarrow> string option) \<Rightarrow> (string \<Rightarrow> bool) \<Rightarrow> Opts \<Rightarrow>
    'k signalled_life list \<Rightarrow> setup_error + main_event list \<times> main_result" where
  "main_process ops p logger_ok ko toml glob exists files from_cli opts lives =
     (if \<not> logger_ok then Inl LoggerFailed
      else case install_signal_handlers ops p of
             Inl e \<Rightarrow> Inl e
           | Inr p' \<Rightarrow> Inr (main ko toml glob exists files from_cli opts (flagged_sessions ops p' False lives)))"

section \<open>Stopping\<close>

lemma flagged_inputs_append:
  "flagged_inputs ops p b (turns @ turns') = flagged_inputs ops p b turns @ flagged_inputs ops p (flag_after ops p turns b) turns'"
  by (induction turns arbitrary: b) (auto simp: Let_def flag_after_def)

lemma run_loop_append:
  "run_loop ko (is1 @ is2) st = (case run_loop ko is1 st of RunPending st' \<Rightarrow> run_loop ko is2 st' | r \<Rightarrow> r)"
  by (induction is1 arbitrary: st) (auto split: sum.split)

lemma signal_ends_loop:
  assumes "posix_signals ops" and "install_signal_handlers ops p = Inr p'" and "set sigs \<inter> {SIGINT, SIGTERM} \<noteq> {}"
  shows "run_loop ko (flagged_inputs ops p' b (turns @ (sigs, i) # turns')) st =
    (case run_loop ko (flagged_inputs ops p' b turns) st of RunPending st' \<Rightarrow> RunStopped st' | r \<Rightarrow> r)"
  using posix_signals.stop_sets_flag [OF assms]
  by (simp add: flagged_inputs_append run_loop_append Let_def split: run_result.split)

text \<open>The errors of the parts are not the one of the restart loop.\<close>

lemma run_loop_error: "run_loop ko inputs st \<noteq> RunFailed EjectedWithoutPrivs"
  by (induction inputs arbitrary: st)
    (auto simp: loop_body_def Let_def split: sum.splits recv.splits StatsReq.splits if_splits daemon_error.splits)

lemma Scheduler_init_error: "Scheduler_init opts cfg bo \<noteq> Inl EjectedWithoutPrivs"
proof -
  have "try_fold set_cpu_llc cpus ids \<noteq> Inl EjectedWithoutPrivs" for cpus ids
    by (induction cpus arbitrary: ids) (auto simp: set_cpu_llc_def split: sum.splits if_splits)
  then show ?thesis
    by (auto simp: Scheduler_init_def fill_rodata_def Let_def split: option.splits sum.splits if_splits)
qed

lemma shutdown_no_restart:
  assumes "se_shutdown x" and "\<And>s st. run ko (se_start x) (se_inputs x) (se_kernel x) s \<noteq> RunPending st"
    and "main_loop ko opts cfg dp (x # xs) served = (evs, r)"
  shows "main_loop ko opts cfg dp [x] served = (evs, r) \<and> r \<noteq> MainPending \<and> r \<noteq> MainErr EjectedWithoutPrivs \<and> count_list evs EvInit = 1"
proof (cases "Scheduler_init opts cfg (se_boot x)")
  case (Inl e)
  then show ?thesis using assms(3) Scheduler_init_error [of opts cfg "se_boot x"] by auto
next
  case (Inr t)
  obtain ro tn s where t: "t = (ro, tn, s)" by (cases t)
  show ?thesis
    using assms(1,3) assms(2) [of s] run_loop_error [of ko "se_inputs x"] unfolding main_loop.simps Inr t
    by (cases "run ko (se_start x) (se_inputs x) (se_kernel x) s") (auto simp: Let_def run_def split: if_splits)
qed

text \<open>
  C33. SIGINT and SIGTERM stop the daemon. Once the handlers are installed, on every system where
  \<open>sigaction\<close> has its documented effect: if one of the two signals arrives before some turn of the
  event loop, then the loop takes exactly the turns before it and stops at the head of that turn, unless
  it stopped or failed earlier; and the daemon then returns without initialising a scheduler again,
  whatever restart the exit record asks for and whether or not privileges were dropped.
\<close>

theorem stop_signal_stops:
  assumes "posix_signals ops" and "install_signal_handlers ops p = Inr p'" and "set sigs \<inter> {SIGINT, SIGTERM} \<noteq> {}"
    and "life = flagged_session ops p' b (turns @ (sigs, i) # turns', late, x)"
    and "main_loop ko opts cfg dp (life # xs) served = (evs, r)"
  shows "run ko (se_start x) (se_inputs life) k s =
      (case run ko (se_start x) (flagged_inputs ops p' b turns) k s of RunPending st \<Rightarrow> RunStopped st | r \<Rightarrow> r) \<and>
    main_loop ko opts cfg dp [life] served = (evs, r) \<and> r \<noteq> MainPending \<and> r \<noteq> MainErr EjectedWithoutPrivs \<and>
    count_list evs EvInit = 1"
proof -
  have inputs: "se_inputs life = flagged_inputs ops p' b (turns @ (sigs, i) # turns')"
    and flag: "se_shutdown life = fold (arrive ops p') (concat (map fst turns) @ sigs @ concat (map fst turns') @ late) b"
    by (simp_all add: assms(4) flagged_session_def flag_after_def)
  have loop: "run ko start (se_inputs life) k s =
      (case run ko start (flagged_inputs ops p' b turns) k s of RunPending st \<Rightarrow> RunStopped st | r \<Rightarrow> r)" for start k s
    unfolding run_def inputs by (rule signal_ends_loop [OF assms(1-3)])
  then have "run ko start (se_inputs life) k s \<noteq> RunPending st" for start k s st by (auto split: run_result.splits)
  moreover have "se_shutdown life"
    unfolding flag by (rule posix_signals.stop_sets_flag [OF assms(1,2)]) (use assms(3) in auto)
  ultimately show ?thesis using shutdown_no_restart [OF _ _ assms(5)] loop by simp
qed

text \<open>Witness of C33.\<close>

theorem stop_signal_stops_witness:
  "\<exists>p' evs r. install_signal_handlers ref_sig_ops {} = Inr p' \<and>
     main_loop ref_ops Opts_default Config_default False
       (flagged_session ref_sig_ops p' False ([([], demo_turn TimedOut 0), ([SIGTERM], demo_turn TimedOut 0)], [], demo_session True) #
        [demo_session False]) False = (evs, r) \<and>
     r \<noteq> MainPending \<and> count_list evs EvInit = 1"
proof -
  obtain p' where p: "install_signal_handlers ref_sig_ops {} = Inr p'"
    by (simp add: install_signal_handlers_def install_one_def ref_sig_ops_def SIGINT_def SIGTERM_def)
  let ?life = "flagged_session ref_sig_ops p' False ([([], demo_turn TimedOut 0), ([SIGTERM], demo_turn TimedOut 0)], [], demo_session True)"
  obtain evs r where m: "main_loop ref_ops Opts_default Config_default False (?life # [demo_session False]) False = (evs, r)" by fastforce
  have "?life = flagged_session ref_sig_ops p' False ([([], demo_turn TimedOut 0)] @ ([SIGTERM], demo_turn TimedOut 0) # [], [], demo_session True)" by simp
  from stop_signal_stops [OF ref_sigs.posix_signals_axioms p _ this m] p m show ?thesis by auto
qed

end
