(* ===== verification/Privileges.thy ===== *)
theory Privileges
  imports Daemon_Main
begin

text \<open>
  \<open>drop_all_capabilities\<close> of \<open>scx_cohort/src/main.rs\<close>. The system calls are a record of functions on an
  abstract thread state; the locale states what \<open>prctl(2)\<close> and \<open>capabilities(7)\<close> document of them, in
  particular that dropping from the bounding set needs \<open>CAP_SETPCAP\<close>, which is why the order of the
  calls matters. A record of capability sets interprets it.
\<close>

record CapHeader =
  ch_version :: u32
  ch_pid :: int

record CapData =
  cd_effective :: u32
  cd_permitted :: u32
  cd_inheritable :: u32

definition CapData_default :: CapData where
  "CapData_default = \<lparr> cd_effective = 0, cd_permitted = 0, cd_inheritable = 0 \<rparr>"

definition LINUX_CAPABILITY_VERSION_3 :: u32 where
  "LINUX_CAPABILITY_VERSION_3 = 0x20080522"

text \<open>The results of the \<open>prctl\<close> calls are ignored; \<open>capset\<close> returns nothing when it fails.\<close>

record 'c cap_ops =
  set_no_new_privs :: "'c \<Rightarrow> 'c"
  ambient_clear_all :: "'c \<Rightarrow> 'c"
  capbset_drop :: "nat \<Rightarrow> 'c \<Rightarrow> 'c"
  capset :: "CapHeader \<Rightarrow> CapData list \<Rightarrow> 'c \<Rightarrow> 'c option"

definition drop_all_capabilities :: "'c cap_ops \<Rightarrow> 'c \<Rightarrow> main_error + 'c" where
  "drop_all_capabilities ops c =
     (let c = set_no_new_privs ops c;
          c = ambient_clear_all ops c;
          c = fold (capbset_drop ops) [0 ..< 64] c
      in case capset ops \<lparr> ch_version = LINUX_CAPABILITY_VERSION_3, ch_pid = 0 \<rparr> [CapData_default, CapData_default] c of
           None \<Rightarrow> Inl CapsetFailed
         | Some c \<Rightarrow> Inr c)"

definition CAP_SETPCAP :: nat where "CAP_SETPCAP = 8"

locale linux_caps =
  fixes ops :: "'c cap_ops"
    and nnp :: "'c \<Rightarrow> bool"
    and eff perm inh bnd amb :: "'c \<Rightarrow> nat set"
  assumes bounding_range: "bnd c \<subseteq> {..<64}"
    and no_new_privs: "nnp (set_no_new_privs ops c)" "eff (set_no_new_privs ops c) = eff c" "bnd (set_no_new_privs ops c) = bnd c"
    and ambient_clear: "nnp (ambient_clear_all ops c) = nnp c" "eff (ambient_clear_all ops c) = eff c"
      "bnd (ambient_clear_all ops c) = bnd c" "amb (ambient_clear_all ops c) = {}"
    and bset_drop: "nnp (capbset_drop ops n c) = nnp c" "eff (capbset_drop ops n c) = eff c" "amb (capbset_drop ops n c) = amb c"
      "bnd (capbset_drop ops n c) = (if CAP_SETPCAP \<in> eff c then bnd c - {n} else bnd c)"
    and capset_clear: "capset ops \<lparr> ch_version = LINUX_CAPABILITY_VERSION_3, ch_pid = 0 \<rparr> [CapData_default, CapData_default] c = Some c' \<Longrightarrow>
      nnp c' = nnp c \<and> eff c' = {} \<and> perm c' = {} \<and> inh c' = {} \<and> bnd c' = bnd c \<and> amb c' \<subseteq> amb c"
begin

lemma bset_loop:
  "nnp (fold (capbset_drop ops) ns c) = nnp c \<and> eff (fold (capbset_drop ops) ns c) = eff c \<and>
   amb (fold (capbset_drop ops) ns c) = amb c \<and>
   bnd (fold (capbset_drop ops) ns c) = (if CAP_SETPCAP \<in> eff c then bnd c - set ns else bnd c)"
  by (induction ns arbitrary: c) (auto simp: bset_drop)

lemma drop_all:
  assumes "drop_all_capabilities ops c = Inr c'"
  shows "nnp c' \<and> eff c' = {} \<and> perm c' = {} \<and> inh c' = {} \<and> amb c' = {} \<and>
    bnd c' = (if CAP_SETPCAP \<in> eff c then {} else bnd c)"
proof -
  let ?c1 = "ambient_clear_all ops (set_no_new_privs ops c)"
  let ?c2 = "fold (capbset_drop ops) [0 ..< 64] ?c1"
  have s: "capset ops \<lparr> ch_version = LINUX_CAPABILITY_VERSION_3, ch_pid = 0 \<rparr> [CapData_default, CapData_default] ?c2 = Some c'"
    using assms by (auto simp: drop_all_capabilities_def Let_def split: option.splits)
  have c1: "nnp ?c1" "eff ?c1 = eff c" "bnd ?c1 = bnd c" "amb ?c1 = {}" by (simp_all add: ambient_clear no_new_privs)
  have "bnd ?c2 = (if CAP_SETPCAP \<in> eff c then bnd c - {..<64} else bnd c)"
    using bset_loop [of "[0 ..< 64]" ?c1] c1 by (simp add: atLeast0LessThan)
  moreover have "bnd c - {..<64} = {}" using bounding_range [of c] by blast
  ultimately have "bnd ?c2 = (if CAP_SETPCAP \<in> eff c then {} else bnd c)" by simp
  then show ?thesis using capset_clear [OF s] c1 bset_loop [of "[0 ..< 64]" ?c1] by simp
qed

end

section \<open>A thread with capability sets\<close>

record Caps =
  cp_nnp :: bool
  cp_eff :: "nat set"
  cp_perm :: "nat set"
  cp_inh :: "nat set"
  cp_bnd :: "nat set"
  cp_amb :: "nat set"

text \<open>The highest capability is 40; \<open>capset\<close> understands version 3 for the calling thread.\<close>

definition ref_cap_ops :: "Caps cap_ops" where
  "ref_cap_ops = \<lparr>
     set_no_new_privs = (\<lambda>c. c\<lparr> cp_nnp := True \<rparr>),
     ambient_clear_all = (\<lambda>c. c\<lparr> cp_amb := {} \<rparr>),
     capbset_drop = (\<lambda>n c. if CAP_SETPCAP \<in> cp_eff c \<and> n \<le> 40 then c\<lparr> cp_bnd := cp_bnd c - {n} \<rparr> else c),
     capset = (\<lambda>h ds c. if ch_version h = LINUX_CAPABILITY_VERSION_3 \<and> ch_pid h = 0 \<and> ds = [CapData_default, CapData_default]
       then Some (c\<lparr> cp_eff := {}, cp_perm := {}, cp_inh := {}, cp_amb := {} \<rparr>) else None) \<rparr>"

interpretation ref_caps: linux_caps ref_cap_ops cp_nnp cp_eff cp_perm cp_inh "\<lambda>c. cp_bnd c \<inter> {..40}" cp_amb
  by unfold_locales (auto simp: ref_cap_ops_def split: if_splits)

text \<open>
  C35. What survives the privilege drop. On every system whose calls behave as documented, when the
  drop reports success the effective, permitted, inheritable and ambient sets of the thread are empty
  and it can no longer gain privileges by executing a program. The bounding set is emptied when the
  thread has \<open>CAP_SETPCAP\<close>; without it (as under the shipped unit, whose \<open>CapabilityBoundingSet\<close>
  excludes it) every \<open>PR_CAPBSET_DROP\<close> fails unnoticed and the bounding set stays what it was.
\<close>

theorem capabilities_all_dropped:
  assumes "linux_caps ops nnp eff perm inh bnd amb" and "drop_all_capabilities ops c = Inr c'"
  shows "nnp c' \<and> eff c' = {} \<and> perm c' = {} \<and> inh c' = {} \<and> amb c' = {} \<and>
    bnd c' = (if CAP_SETPCAP \<in> eff c then {} else bnd c)"
  by (rule linux_caps.drop_all [OF assms])

text \<open>
  A root shell has every capability; the shipped unit leaves \<open>CAP_SYS_ADMIN\<close>, \<open>CAP_SYS_NICE\<close>,
  \<open>CAP_PERFMON\<close> and \<open>CAP_BPF\<close>.
\<close>

definition root_caps :: Caps where
  "root_caps = \<lparr> cp_nnp = False, cp_eff = {..40}, cp_perm = {..40}, cp_inh = {}, cp_bnd = {..40}, cp_amb = {} \<rparr>"

definition unit_caps :: Caps where
  "unit_caps = \<lparr> cp_nnp = True, cp_eff = {21, 23, 38, 39}, cp_perm = {21, 23, 38, 39}, cp_inh = {}, cp_bnd = {21, 23, 38, 39}, cp_amb = {} \<rparr>"

text \<open>Witness of C35: from a root shell nothing is left; under the shipped unit the bounding set is.\<close>

theorem capabilities_all_dropped_witness:
  "(\<exists>c'. drop_all_capabilities ref_cap_ops root_caps = Inr c' \<and> cp_nnp c' \<and> cp_eff c' = {} \<and> cp_perm c' = {} \<and> cp_bnd c' \<inter> {..40} = {}) \<and>
   (\<exists>c'. drop_all_capabilities ref_cap_ops unit_caps = Inr c' \<and> cp_nnp c' \<and> cp_eff c' = {} \<and> cp_perm c' = {} \<and> cp_bnd c' \<inter> {..40} = {21, 23, 38, 39})"
proof -
  obtain c' d' where d: "drop_all_capabilities ref_cap_ops root_caps = Inr c'" "drop_all_capabilities ref_cap_ops unit_caps = Inr d'"
    by (simp add: drop_all_capabilities_def ref_cap_ops_def Let_def)
  have "CAP_SETPCAP \<in> cp_eff root_caps" "CAP_SETPCAP \<notin> cp_eff unit_caps" "cp_bnd unit_caps \<inter> {..40} = {21, 23, 38, 39}"
    by (auto simp: root_caps_def unit_caps_def CAP_SETPCAP_def)
  then show ?thesis
    using capabilities_all_dropped [OF ref_caps.linux_caps_axioms d(1)] capabilities_all_dropped [OF ref_caps.linux_caps_axioms d(2)] d
    by simp
qed

end
