(* ===== verification/Top_View.thy ===== *)
theory Top_View
  imports Stats_View "HOL-Library.Product_Lexorder" "HOL-Library.Multiset"
begin

text \<open>
  The live view of \<open>scx_cohort top\<close>, \<open>scx_cohort/src/top.rs\<close>: the lines of a frame before their
  fields are padded and printed, with their order, the choice of columns, the cut of long names and
  the cut at the height of the terminal. \<open>Text_Views\<close> holds the text.
\<close>

section \<open>The total order of floating-point numbers\<close>

text \<open>\<open>f64::total_cmp\<close> on the numbers of the model (one zero, one NaN).\<close>

instantiation f64 :: linorder
begin

fun f_rank :: "f64 \<Rightarrow> nat \<times> rat" where
  "f_rank NInf = (0, 0)" | "f_rank (Fin q) = (1, q)" | "f_rank PInf = (2, 0)" | "f_rank NaN = (3, 0)"

definition less_eq_f64 :: "f64 \<Rightarrow> f64 \<Rightarrow> bool" where
  "less_eq_f64 x y = (f_rank x \<le> f_rank y)"

definition less_f64 :: "f64 \<Rightarrow> f64 \<Rightarrow> bool" where
  "less_f64 x y = (f_rank x < f_rank y)"

instance
proof
  fix x y :: f64
  have inj: "f_rank x = f_rank y \<Longrightarrow> x = y" by (cases x; cases y) auto
  show "x \<le> y \<Longrightarrow> y \<le> x \<Longrightarrow> x = y" unfolding less_eq_f64_def by (rule inj) (rule order_antisym)
  show "(x < y) = (x \<le> y \<and> \<not> y \<le> x)" unfolding less_f64_def less_eq_f64_def by (rule less_le_not_le)
  show "x \<le> y \<or> y \<le> x" unfolding less_eq_f64_def by (rule linear)
  show "x \<le> x" unfolding less_eq_f64_def by (rule order_refl)
  show "x \<le> y \<Longrightarrow> y \<le> z \<Longrightarrow> x \<le> z" for z unfolding less_eq_f64_def by (rule order_trans)
qed

end

text \<open>\<open>v.sort_by(|a, b| key(b).total_cmp(&key(a)))\<close>: descending and stable.\<close>

definition sort_desc :: "('a \<Rightarrow> f64) \<Rightarrow> 'a list \<Rightarrow> 'a list" where
  "sort_desc key xs = rev (sort_key key (rev xs))"

lemma set_sort_desc [simp]: "set (sort_desc key xs) = set xs"
  by (simp add: sort_desc_def)

lemma mset_sort_desc [simp]: "mset (sort_desc key xs) = mset xs"
  by (simp add: sort_desc_def)

lemma sorted_sort_desc: "sorted_wrt (\<lambda>x y. key y \<le> key x) (sort_desc key xs)"
proof -
  have "sorted_wrt (\<lambda>x y. key x \<le> key y) (sort_key key (rev xs))"
    using sorted_sort_key [of key "rev xs"] by (simp only: sorted_map)
  then show ?thesis by (simp add: sort_desc_def sorted_wrt_rev)
qed

section \<open>A frame\<close>

datatype top_line =
    SummaryLine u64 nat f64 "(u64 \<times> f64) list"             \<comment> \<open>tasks, cohorts, affinity, CCD utilization\<close>
  | BlankLine
  | TitleLine
  | CohortLine u64 u64 bool u64 f64 f64                     \<comment> \<open>id, home, pinned, tasks, utilization, affinity\<close>
  | ProcLine u64 string u64 "u64 option" f64 f64            \<comment> \<open>tgid, comm, threads, spilled, utilization, affinity\<close>

text \<open>The height from the \<open>TIOCGWINSZ\<close> call: \<open>None\<close> when it fails.\<close>

definition terminal_rows :: "nat option \<Rightarrow> nat" where
  "terminal_rows ws = (case ws of Some n \<Rightarrow> if 0 < n then n else 40 | None \<Rightarrow> 40)"

definition comm_column :: "string \<Rightarrow> panic + string" where
  "comm_column comm = (if 18 < length comm then str_prefix comm 18 else Inr comm)"

definition proc_line :: "ProcRow \<Rightarrow> top_line list \<Rightarrow> panic + top_line list" where
  "proc_line p lines =
     (case comm_column (pr_comm p) of
        Inl e \<Rightarrow> Inl e
      | Inr comm \<Rightarrow> Inr (lines @ [ProcLine (pr_tgid p) comm (pr_threads p)
          (if 0 < pr_spilled p then Some (pr_spilled p) else None) (pr_util_pct p) (pr_affinity_pct p)]))"

definition cohort_lines :: "u64 \<times> CohortRow \<Rightarrow> top_line list \<Rightarrow> panic + top_line list" where
  "cohort_lines = (\<lambda>(i, c) lines.
     try_fold proc_line (sort_desc pr_util_pct (map snd (cr_procs c)))
       (lines @ [CohortLine i (cr_home_llc c) (cr_pinned c \<noteq> 0) (cr_tasks c) (cr_util_pct c) (cr_affinity_pct c)]))"

definition render :: "nat option \<Rightarrow> ProcsSnapshot \<Rightarrow> panic + top_line list" where
  "render ws s =
     (case try_fold cohort_lines (sort_desc (\<lambda>(i, c). cr_util_pct c) (ps_cohorts s))
             [SummaryLine (ps_nr_tasks s) (length (ps_cohorts s)) (ps_affinity_pct s) (ps_llc_util_pct s), BlankLine, TitleLine] of
        Inl e \<Rightarrow> Inl e
      | Inr lines \<Rightarrow> Inr (take (min (length lines) (max (terminal_rows ws - 1) 10)) lines))"

section \<open>What a frame shows\<close>

text \<open>A name that can be cut to its column.\<close>

definition comm_fits :: "string \<Rightarrow> bool" where
  "comm_fits comm \<longleftrightarrow> length comm \<le> 18 \<or> is_char_boundary comm 18"

definition shown_comm :: "string \<Rightarrow> string" where
  "shown_comm comm = (if length comm \<le> 18 then comm else take 18 comm)"

definition shown_proc :: "ProcRow \<Rightarrow> top_line" where
  "shown_proc p = ProcLine (pr_tgid p) (shown_comm (pr_comm p)) (pr_threads p)
     (if 0 < pr_spilled p then Some (pr_spilled p) else None) (pr_util_pct p) (pr_affinity_pct p)"

definition shown_cohort :: "u64 \<times> CohortRow \<Rightarrow> top_line list" where
  "shown_cohort = (\<lambda>(i, c). CohortLine i (cr_home_llc c) (cr_pinned c \<noteq> 0) (cr_tasks c) (cr_util_pct c) (cr_affinity_pct c) #
     map shown_proc (sort_desc pr_util_pct (map snd (cr_procs c))))"

lemma comm_column_cases:
  "comm_column comm = (if comm_fits comm then Inr (shown_comm comm) else Inl NotCharBoundary)"
  by (auto simp: comm_column_def comm_fits_def shown_comm_def str_prefix_def)

lemma proc_lines:
  "try_fold proc_line ps lines =
     (if \<forall>p \<in> set ps. comm_fits (pr_comm p) then Inr (lines @ map shown_proc ps) else Inl NotCharBoundary)"
  by (induction ps arbitrary: lines) (auto simp: proc_line_def comm_column_cases shown_proc_def)

definition view_comms :: "ProcsSnapshot \<Rightarrow> string set" where
  "view_comms s = {pr_comm p | i c g p. (i, c) \<in> set (ps_cohorts s) \<and> (g, p) \<in> set (cr_procs c)}"

lemma cohort_blocks:
  "try_fold cohort_lines cs lines =
     (if \<forall>(i, c) \<in> set cs. \<forall>(g, p) \<in> set (cr_procs c). comm_fits (pr_comm p)
      then Inr (lines @ concat (map shown_cohort cs)) else Inl NotCharBoundary)"
proof (induction cs arbitrary: lines)
  case (Cons ic cs)
  obtain i c where ic: "ic = (i, c)" by (cases ic)
  have "cohort_lines ic lines = (if \<forall>(g, p) \<in> set (cr_procs c). comm_fits (pr_comm p)
      then Inr (lines @ shown_cohort ic) else Inl NotCharBoundary)"
    by (auto simp: ic cohort_lines_def shown_cohort_def proc_lines)
  with Cons.IH show ?case by (auto simp: ic)
qed simp

text \<open>
  C39. What the live view prints, and when it crashes. If every process name of the snapshot is
  at most 18 bytes long or has a character boundary at byte 18, a frame is the summary, a blank and
  the title followed by the cohorts in descending order of utilization, each with its processes in
  descending order of utilization, cut at the height of the terminal but never below ten lines;
  otherwise drawing the frame panics, whether or not the offending line would have been visible.
\<close>

theorem render_frame:
  "render ws s =
     (if \<forall>comm \<in> view_comms s. comm_fits comm
      then Inr (take (max 10 (terminal_rows ws - 1))
        (SummaryLine (ps_nr_tasks s) (length (ps_cohorts s)) (ps_affinity_pct s) (ps_llc_util_pct s) # BlankLine # TitleLine #
         concat (map shown_cohort (sort_desc (\<lambda>(i, c). cr_util_pct c) (ps_cohorts s)))))
      else Inl NotCharBoundary) \<and>
   sorted_wrt (\<lambda>x y. cr_util_pct (snd y) \<le> cr_util_pct (snd x)) (sort_desc (\<lambda>(i, c). cr_util_pct c) (ps_cohorts s)) \<and>
   mset (sort_desc (\<lambda>(i, c). cr_util_pct c) (ps_cohorts s)) = mset (ps_cohorts s)"
proof -
  have "(\<forall>comm \<in> view_comms s. comm_fits comm) =
      (\<forall>(i, c) \<in> set (ps_cohorts s). \<forall>(g, p) \<in> set (cr_procs c). comm_fits (pr_comm p))"
    by (fastforce simp: view_comms_def)
  note comms = this
  have cut: "take (min (length xs) n) xs = take n xs" for n and xs :: "top_line list" by (simp add: min_def)
  show ?thesis
    using sorted_sort_desc [of "\<lambda>(i, c). cr_util_pct c" "ps_cohorts s"]
    unfolding render_def cut cohort_blocks comms set_sort_desc max.commute [of _ 10]
    by (simp add: case_prod_unfold)
qed

text \<open>Witness of C39.\<close>

theorem render_frame_witness:
  "\<exists>lines. render (Some 24) \<lparr> ps_nr_tasks = 0, ps_affinity_pct = Fin 100, ps_llc_util_pct = [], ps_cohorts = [] \<rparr> = Inr lines \<and>
     length lines = 3"
  using render_frame [of "Some 24" "\<lparr> ps_nr_tasks = 0, ps_affinity_pct = Fin 100, ps_llc_util_pct = [], ps_cohorts = [] \<rparr>"]
  by (simp add: view_comms_def terminal_rows_def sort_desc_def)

section \<open>A process name that crashes the view\<close>

text \<open>
  A comm of seven bytes, set with \<open>prctl(PR_SET_NAME)\<close>: the letter a and six bytes that are not
  UTF-8. Lossy decoding makes 19 bytes of it, with character boundaries at 1, 4, ..., 16, 19.
\<close>

definition rogue_comm :: bytes where
  "rogue_comm = [0x61, 0xFF, 0xFF, 0xFF, 0xFF, 0xFF, 0xFF, 0, 0, 0, 0, 0, 0, 0, 0, 0]"

definition rogue_task :: TaskSnapshot where
  "rogue_task = \<lparr> t_pid = 5, t_tgid = 5, t_cohort_id = 1, t_duty_ns = 0, t_home_ns = 0, t_comm = comm_string rogue_comm \<rparr>"

definition rogue_cohort :: CohortSnapshot where
  "rogue_cohort = \<lparr> c_id = 1, c_home_llc = 0, c_pinned = False, c_nr_tasks = 1, c_load_ns = 0, c_residency_ms = None \<rparr>"

lemma lossy_invalid:
  "utf8_char_width b = 0 \<Longrightarrow> from_utf8_lossy (b # bs) = REPLACEMENT @ from_utf8_lossy bs"
  by (subst from_utf8_lossy.simps) (simp add: utf8_next_def utf8_step_def byte_at_def)

lemma lossy_ascii: "utf8_char_width b = 1 \<Longrightarrow> from_utf8_lossy (b # bs) = b # from_utf8_lossy bs"
  by (subst from_utf8_lossy.simps) (simp add: utf8_next_def utf8_step_def byte_at_def)

lemma rogue_comm_string: "\<not> comm_fits (comm_string rogue_comm)"
proof -
  have w: "utf8_char_width 0x61 = 1" "utf8_char_width 0xFF = 0" by (simp_all add: utf8_char_width_def)
  show ?thesis
    by (simp add: rogue_comm_def comm_string_def lossy_ascii [OF w(1)] lossy_invalid [OF w(2)] REPLACEMENT_def
        comm_fits_def str_of_bytes_def is_char_boundary_def)
qed

text \<open>
  The live view can be crashed by a process name. A task whose comm is the letter a
  followed by six bytes that are not UTF-8 reaches the view with a 19-byte name that has no
  character boundary at byte 18, so drawing any frame that lists it panics, on every terminal and
  for every length of the interval.
\<close>

lemma render_rogue_comm:
  "render ws (procs_snapshot [rogue_cohort] [rogue_task] llcs [] tick) = Inl NotCharBoundary"
proof -
  let ?s = "procs_snapshot [rogue_cohort] [rogue_task] llcs [] tick"
  let ?row = "procs_row [rogue_task] [] (of_nat (max tick 1)) rogue_cohort"
  have "ps_cohorts ?s = [(1, ?row)]"
    by (simp add: procs_snapshot_def Let_def rogue_cohort_def bt_insert_def insort_key_def split: prod.split)
  moreover obtain p where "cr_procs ?row = [(5, p)]" "pr_comm p = comm_string rogue_comm"
    by (simp add: procs_row_def Let_def rogue_cohort_def rogue_task_def add_task_def bt_entry_def hm_entry_def finish_proc_def)
  ultimately have "\<not> (\<forall>(i, c) \<in> set (ps_cohorts ?s). \<forall>(g, p) \<in> set (cr_procs c). comm_fits (pr_comm p))"
    using rogue_comm_string by simp
  then show ?thesis by (simp add: render_def cohort_blocks)
qed

end
