(* ===== verification/Text_Views.thy ===== *)
theory Text_Views
  imports Top_View Text_Format
begin

text \<open>
  The text the daemon's clients print: the periodic report of \<open>Metrics::format\<close>
  (\<open>scx_cohort/src/stats.rs\<close>) and the frames of \<open>scx_cohort top\<close> (\<open>scx_cohort/src/top.rs\<close>).
\<close>

section \<open>The periodic report\<close>

definition LlcMetrics_line :: "u64 \<times> LlcMetrics \<Rightarrow> string" where
  "LlcMetrics_line = (\<lambda>(i, llc).
     ''  LLC['' @ show_word i @ ''] util='' @ pad_left 5 (fixed 1 (f_mul (lm_util llc) (Fin 100))) @ ''% cohorts='' @ show_word (lm_nr_cohorts llc))"

definition Metrics_lines :: "Metrics \<Rightarrow> string list" where
  "Metrics_lines m =
     [''[scx_cohort] cohorts='' @ pad_right 4 (show_word (mt_nr_cohorts m)) @ '' tasks='' @ pad_right 5 (show_word (mt_nr_tasks m)) @
        '' affinity='' @ pad_left 5 (fixed 1 (mt_affinity_hit_pct m)) @ ''% moves='' @ show_word (mt_nr_migrations m) @
        '' merges='' @ show_word (mt_nr_merges m) @ '' splits='' @ show_word (mt_nr_splits m) @ '' spilled='' @ show_word (mt_nr_spilled m),
      ''  place: sync='' @ show_word (mt_nr_sync_local m) @ '' prev='' @ show_word (mt_nr_prev_idle m) @ '' core='' @ show_word (mt_nr_idle_core m) @
        '' smt='' @ show_word (mt_nr_idle_smt m) @ '' clamp='' @ show_word (mt_nr_home_miss_clamp m) @ '' enq='' @ show_word (mt_nr_enq_home m) @
        '' | spill='' @ show_word (mt_nr_enq_spill m) @ '' steal='' @ show_word (mt_nr_steals m) @ '' tctx_err='' @ show_word (mt_nr_tctx_errors m)] @
     map LlcMetrics_line (mt_llcs m)"

definition Metrics_format :: "Metrics \<Rightarrow> string" where
  "Metrics_format m = concat (map (\<lambda>l. l @ newline) (Metrics_lines m))"

text \<open>A report is two lines and one line per LLC, whatever the numbers are.\<close>

lemma Metrics_format_lines: "split_lines [] (Metrics_format m) = Metrics_lines m"
proof -
  have "CHR 0x0A \<notin> set (LlcMetrics_line l)" for l
    by (cases l) (auto simp: LlcMetrics_line_def show_word_def no_newline)
  then have "\<forall>l \<in> set (Metrics_lines m). CHR 0x0A \<notin> set l"
    by (auto simp: Metrics_lines_def show_word_def no_newline)
  then show ?thesis unfolding Metrics_format_def by (rule split_writeln)
qed

section \<open>A frame of the live view\<close>

definition cohort_mark :: string where
  "cohort_mark = [CHR 0xE2, CHR 0x94, CHR 0x80] @ '' cohort '' @ [CHR 0xE2, CHR 0x94, CHR 0x80]"

fun top_text :: "top_line \<Rightarrow> string" where
  "top_text (SummaryLine tasks cohorts affinity llcs) =
     ''scx_cohort  tasks '' @ show_word tasks @ ''  cohorts '' @ show_nat cohorts @ ''  affinity '' @ pad_left 5 (fixed 1 affinity) @
     ''%  |  '' @ join_with ''  '' (map (\<lambda>(i, util). ''CCD'' @ show_word i @ '' '' @ pad_left 5 (fixed 1 util) @ ''%'') llcs)"
| "top_text BlankLine = []"
| "top_text TitleLine =
     pad_right 10 ''COHORT'' @ '' '' @ pad_right 18 ''COMM'' @ '' '' @ pad_left 4 ''CCD'' @ '' '' @ pad_left 8 ''THREADS'' @ '' '' @
     pad_left 7 ''UTIL%'' @ '' '' @ pad_left 9 ''AFFINITY%''"
| "top_text (CohortLine i home pinned tasks util affinity) =
     pad_right 10 (show_word i) @ '' '' @ pad_right 18 cohort_mark @ '' '' @ pad_left 3 (show_word home) @ (if pinned then ''*'' else '' '') @ '' '' @
     pad_left 8 (show_word tasks) @ '' '' @ pad_left 7 (fixed 1 util) @ '' '' @ pad_left 9 (fixed 1 affinity)"
| "top_text (ProcLine tgid comm threads spilled util affinity) =
     ''  '' @ pad_right 8 (show_word tgid) @ '' '' @ pad_right 18 comm @ '' '' @ pad_left 4 [] @ '' '' @ pad_left 5 (show_word threads) @
     pad_left 3 (case spilled of Some n \<Rightarrow> ''s'' @ show_word n | None \<Rightarrow> []) @ '' '' @ pad_left 7 (fixed 1 util) @ '' '' @ pad_left 9 (fixed 1 affinity)"

definition CLEAR :: string where
  "CLEAR = [CHR 0x1B] @ ''[2J'' @ [CHR 0x1B] @ ''[H''"

definition render_text :: "nat option \<Rightarrow> ProcsSnapshot \<Rightarrow> panic + string" where
  "render_text ws s = (case render ws s of Inl e \<Rightarrow> Inl e | Inr lines \<Rightarrow> Inr (CLEAR @ join_with newline (map top_text lines) @ newline))"

section \<open>The columns line up\<close>

lemma chars_digits: "\<forall>c \<in> set s. is_digit c \<Longrightarrow> chars s = length s"
  by (induction s) (auto simp: chars_def is_digit_def)

lemma length_show_nat: "n < 10 ^ k \<Longrightarrow> 0 < k \<Longrightarrow> length (show_nat n) \<le> k"
proof (induction k arbitrary: n)
  case (Suc k)
  show ?case
  proof (cases "n < 10")
    case True
    then show ?thesis by (subst show_nat.simps) simp
  next
    case False
    then have "0 < k" using Suc.prems(1) by (cases k) auto
    moreover have "n div 10 < 10 ^ k" using Suc.prems(1) by (simp add: less_mult_imp_div_less mult.commute)
    ultimately show ?thesis using Suc.IH False by (subst show_nat.simps) simp
  qed
qed simp

lemma chars_show_nat: "n < 10 ^ k \<Longrightarrow> 0 < k \<Longrightarrow> chars (show_nat n) \<le> k"
  using chars_digits [of "show_nat n"] show_nat_digits length_show_nat by simp

text \<open>The ranges the columns are made for.\<close>

definition pct_fits :: "nat \<Rightarrow> f64 \<Rightarrow> bool" where
  "pct_fits k x \<longleftrightarrow> (case x of Fin q \<Rightarrow> 0 \<le> q \<and> nat (round_half_even (q * 10)) < 10 ^ Suc k | _ \<Rightarrow> False)"

lemma chars_fixed: "pct_fits k x \<Longrightarrow> 0 < k \<Longrightarrow> chars (fixed 1 x) \<le> k + 2"
proof -
  assume p: "pct_fits k x" and k: "0 < k"
  then obtain q where q: "x = Fin q" "0 \<le> q" and r: "nat (round_half_even (q * 10)) < 10 * 10 ^ k" by (auto simp: pct_fits_def split: f64.splits)
  let ?n = "nat (round_half_even (q * 10))"
  have "chars (show_nat (?n div 10)) \<le> k" using chars_show_nat [OF _ k] r by (simp add: less_mult_imp_div_less mult.commute)
  then show ?thesis using q by (simp add: decimals_def)
qed

fun row_fits :: "top_line \<Rightarrow> bool" where
  "row_fits (CohortLine i home pinned tasks util affinity) \<longleftrightarrow>
     unat i < 10 ^ 10 \<and> unat home < 10 ^ 3 \<and> unat tasks < 10 ^ 8 \<and> pct_fits 5 util \<and> pct_fits 7 affinity"
| "row_fits (ProcLine tgid comm threads spilled util affinity) \<longleftrightarrow>
     unat tgid < 10 ^ 8 \<and> chars comm \<le> 18 \<and> unat threads < 10 ^ 5 \<and> (case spilled of Some n \<Rightarrow> unat n < 10 ^ 2 | None \<Rightarrow> True) \<and>
     pct_fits 5 util \<and> pct_fits 7 affinity"
| "row_fits TitleLine \<longleftrightarrow> True"
| "row_fits _ \<longleftrightarrow> False"

text \<open>Title, cohort rows and process rows that fit all have 61 characters, so the columns line up.\<close>

lemma rows_align: "row_fits l \<Longrightarrow> chars (top_text l) = 61"
proof (cases l)
  case TitleLine
  then show ?thesis by simp
next
  case (CohortLine i home pinned tasks util affinity)
  assume f: "row_fits l"
  have "chars (show_word i) \<le> 10" "chars (show_word home) \<le> 3" "chars (show_word tasks) \<le> 8"
    using f chars_show_nat [of "unat i" 10] chars_show_nat [of "unat home" 3] chars_show_nat [of "unat tasks" 8] by (simp_all add: CohortLine show_word_def)
  moreover have "chars (fixed 1 util) \<le> 7" "chars (fixed 1 affinity) \<le> 9"
    using f chars_fixed [of 5 util] chars_fixed [of 7 affinity] by (simp_all add: CohortLine)
  moreover have "chars cohort_mark = 10" by (simp add: cohort_mark_def)
  ultimately show ?thesis by (simp add: CohortLine max_def)
next
  case (ProcLine tgid comm threads spilled util affinity)
  assume f: "row_fits l"
  have "chars (show_word tgid) \<le> 8" "chars (show_word threads) \<le> 5"
    using f chars_show_nat [of "unat tgid" 8] chars_show_nat [of "unat threads" 5] by (simp_all add: ProcLine show_word_def)
  moreover have "chars (case spilled of Some n \<Rightarrow> ''s'' @ show_word n | None \<Rightarrow> []) \<le> 3"
  proof (cases spilled)
    case None
    then show ?thesis by simp
  next
    case (Some n)
    have "chars (show_word n) \<le> 2" using f chars_show_nat [of "unat n" 2] by (simp add: ProcLine Some show_word_def)
    then show ?thesis by (simp add: Some)
  qed
  moreover have "chars (fixed 1 util) \<le> 7" "chars (fixed 1 affinity) \<le> 9" "chars comm \<le> 18"
    using f chars_fixed [of 5 util] chars_fixed [of 7 affinity] by (simp_all add: ProcLine)
  ultimately show ?thesis by (simp add: ProcLine max_def)
qed simp_all

section \<open>A frame fits the terminal\<close>

lemma join_newline: "ls \<noteq> [] \<Longrightarrow> join_with newline ls @ newline = concat (map (\<lambda>l. l @ newline) ls)"
  by (induction newline ls rule: join_with.induct) simp_all

lemma join_no_newline: "CHR 0x0A \<notin> set sep \<Longrightarrow> \<forall>s \<in> set ss. CHR 0x0A \<notin> set s \<Longrightarrow> CHR 0x0A \<notin> set (join_with sep ss)"
  by (induction sep ss rule: join_with.induct) auto

lemma top_text_no_newline:
  assumes "\<And>tgid comm threads spilled util affinity. l = ProcLine tgid comm threads spilled util affinity \<Longrightarrow> CHR 0x0A \<notin> set comm"
  shows "CHR 0x0A \<notin> set (top_text l)"
proof (cases l)
  case (SummaryLine tasks cohorts affinity llcs)
  have "CHR 0x0A \<notin> set (join_with ''  '' (map (\<lambda>(i, util). ''CCD'' @ show_word i @ '' '' @ pad_left 5 (fixed 1 util) @ ''%'') llcs))"
    by (rule join_no_newline) (auto simp: show_word_def no_newline)
  then show ?thesis by (auto simp: SummaryLine show_word_def no_newline)
next
  case (ProcLine tgid comm threads spilled util affinity)
  then show ?thesis using assms by (auto simp: show_word_def no_newline split: option.splits)
next
  case TitleLine
  then show ?thesis by (simp add: pad_right_def pad_left_def)
next
  case (CohortLine i home pinned tasks util affinity)
  have "CHR 0x0A \<notin> set cohort_mark" by (simp add: cohort_mark_def)
  then show ?thesis by (auto simp: CohortLine show_word_def no_newline)
qed simp

text \<open>
  If no process name contains a line break, a frame occupies exactly as many rows of the screen as
  \<open>render\<close> kept lines, so the rows above the cut never scroll away.
\<close>

lemma render_text_rows:
  assumes "render ws s = Inr lines" and "lines \<noteq> []"
    and "\<forall>l \<in> set lines. \<forall>tgid comm threads spilled util affinity. l = ProcLine tgid comm threads spilled util affinity \<longrightarrow> CHR 0x0A \<notin> set comm"
  shows "\<exists>text. render_text ws s = Inr (CLEAR @ text) \<and> split_lines [] text = map top_text lines"
proof -
  have "\<forall>l \<in> set (map top_text lines). CHR 0x0A \<notin> set l" using assms(3) by (auto intro!: top_text_no_newline)
  from split_writeln [OF this] show ?thesis
    using assms(1,2) by (simp add: render_text_def join_newline)
qed

end
