(* ===== verification/Pingpong.thy ===== *)
theory Pingpong
  imports Rust_String Float64
begin

text \<open>
  The IPC benchmark, \<open>bench/ipc_pingpong/src/main.rs\<close>: its options, its sampling and percentiles, and
  the message protocol of a pair. Client and server are separate processes over shared memory, so
  the protocol is a step relation: every load, store, system call and payload access of either
  process is a step, and steps of the two interleave freely. A process in \<open>FUTEX_WAIT\<close> sleeps only if
  the word still has the value it loaded, and leaves only when the other side wakes it; interruption
  by a signal is not modelled. The processes and the output of \<open>main\<close> are in \<open>Bench_Main\<close>.
\<close>

definition CACHE_LINE :: nat where "CACHE_LINE = 64"
definition MAX_SAMPLES :: nat where "MAX_SAMPLES = 512 * 1024"

record PpOpts =
  pp_pairs :: u64
  pp_iters :: u64
  pp_warmup :: u64
  pp_payload :: u64
  pp_background :: u64

section \<open>Payload\<close>

text \<open>
  One word per cache line of the payload. \<open>checks\<close> tells whether integer overflow checks are
  compiled in, as in a debug build; without them the addition wraps.
\<close>

definition payload_write :: "bool \<Rightarrow> nat \<Rightarrow> u64 \<Rightarrow> panic + u64 list" where
  "payload_write checks lines stamp =
     try_fold (\<lambda>j out. if checks \<and> 2 ^ 64 \<le> unat stamp + 64 * j then Inl ArithOverflow
                       else Inr (out @ [stamp + of_nat (64 * j)])) [0 ..< lines] []"

definition payload_read :: "u64 list \<Rightarrow> u64" where
  "payload_read buf = fold (\<lambda>w sum. sum + w) buf 0"

text \<open>What a release build writes.\<close>

definition message :: "nat \<Rightarrow> u64 \<Rightarrow> u64 list" where
  "message lines stamp = map (\<lambda>j. stamp + of_nat (64 * j)) [0 ..< lines]"

lemma payload_write_release: "payload_write False lines stamp = Inr (message lines stamp)"
proof -
  have "try_fold (\<lambda>j out. if False \<and> 2 ^ 64 \<le> unat stamp + 64 * j then Inl ArithOverflow
      else Inr (out @ [stamp + of_nat (64 * j)])) js out = Inr (out @ map (\<lambda>j. stamp + of_nat (64 * j)) js)" for js out
    by (induction js arbitrary: out) auto
  then show ?thesis by (simp add: payload_write_def message_def)
qed

section \<open>The protocol of a pair\<close>

datatype pc = Write | Store | Wake | Load | Wait u32 | Sleep | Read | Done

text \<open>
  \<open>c_rounds\<close> and \<open>s_rounds\<close> count the rounds each side has completed, so the loop variable \<open>i\<close> of a side
  is one more; the futex words hold \<open>i as u32\<close>.
\<close>

record pair =
  c_pc :: pc
  s_pc :: pc
  c_rounds :: nat
  s_rounds :: nat
  ping :: u32
  pong :: u32
  buf :: "u64 list"
  c_sink :: u64
  s_sink :: u64

definition c_word :: "pair \<Rightarrow> u32" where "c_word st = of_nat (Suc (c_rounds st))"
definition s_word :: "pair \<Rightarrow> u32" where "s_word st = of_nat (Suc (s_rounds st))"

definition pair_start :: pair where
  "pair_start = \<lparr> c_pc = Write, s_pc = Load, c_rounds = 0, s_rounds = 0, ping = 0, pong = 0, buf = [], c_sink = 0, s_sink = 0 \<rparr>"

text \<open>The loop heads: the next round, or the end after \<open>rounds\<close> rounds.\<close>

definition c_next :: "nat \<Rightarrow> pair \<Rightarrow> pair" where
  "c_next rounds st = st\<lparr> c_rounds := Suc (c_rounds st), c_pc := if Suc (c_rounds st) < rounds then Write else Done \<rparr>"

definition s_next :: "nat \<Rightarrow> pair \<Rightarrow> pair" where
  "s_next rounds st = st\<lparr> s_rounds := Suc (s_rounds st), s_pc := if Suc (s_rounds st) < rounds then Load else Done \<rparr>"

definition awake :: "pc \<Rightarrow> pc" where
  "awake p = (if p = Sleep then Load else p)"

text \<open>
  \<open>futex_wait_until\<close>: after the load it returns or calls \<open>FUTEX_WAIT\<close> with what it loaded; the call
  sleeps if the word is unchanged and returns at once otherwise.
\<close>

definition wait_loaded :: "u32 \<Rightarrow> u32 \<Rightarrow> pc" where [simp]:
  "wait_loaded word want = (if word = want then Read else Wait word)"

definition futex_wait :: "u32 \<Rightarrow> u32 \<Rightarrow> pc" where [simp]:
  "futex_wait word cur = (if word = cur then Sleep else Load)"

inductive pair_step :: "nat \<Rightarrow> nat \<Rightarrow> pair \<Rightarrow> pair \<Rightarrow> bool" for rounds lines where
  c_write: "c_pc st = Write \<Longrightarrow> pair_step rounds lines st (st\<lparr> buf := message lines (of_nat (Suc (c_rounds st))), c_pc := Store \<rparr>)"
| c_store: "c_pc st = Store \<Longrightarrow> pair_step rounds lines st (st\<lparr> ping := c_word st, c_pc := Wake \<rparr>)"
| c_wake: "c_pc st = Wake \<Longrightarrow> pair_step rounds lines st (st\<lparr> s_pc := awake (s_pc st), c_pc := Load \<rparr>)"
| c_load: "c_pc st = Load \<Longrightarrow> pair_step rounds lines st (st\<lparr> c_pc := wait_loaded (pong st) (c_word st) \<rparr>)"
| c_wait: "c_pc st = Wait cur \<Longrightarrow> pair_step rounds lines st (st\<lparr> c_pc := futex_wait (pong st) cur \<rparr>)"
| c_read: "c_pc st = Read \<Longrightarrow> pair_step rounds lines st (c_next rounds (st\<lparr> c_sink := c_sink st + payload_read (buf st) \<rparr>))"
| s_load: "s_pc st = Load \<Longrightarrow> pair_step rounds lines st (st\<lparr> s_pc := wait_loaded (ping st) (s_word st) \<rparr>)"
| s_wait: "s_pc st = Wait cur \<Longrightarrow> pair_step rounds lines st (st\<lparr> s_pc := futex_wait (ping st) cur \<rparr>)"
| s_read: "s_pc st = Read \<Longrightarrow> pair_step rounds lines st (st\<lparr> s_sink := s_sink st + payload_read (buf st), s_pc := Write \<rparr>)"
| s_write: "s_pc st = Write \<Longrightarrow> pair_step rounds lines st (st\<lparr> buf := message lines (NOT (of_nat (Suc (s_rounds st)))), s_pc := Store \<rparr>)"
| s_store: "s_pc st = Store \<Longrightarrow> pair_step rounds lines st (st\<lparr> pong := s_word st, s_pc := Wake \<rparr>)"
| s_wake: "s_pc st = Wake \<Longrightarrow> pair_step rounds lines st (s_next rounds (st\<lparr> c_pc := awake (c_pc st) \<rparr>))"

inductive_cases pair_stepE: "pair_step rounds lines st st'"

section \<open>The invariant of the protocol\<close>

text \<open>
  The four configurations a pair can be in, seen from the client's round: the server still has to
  wake it from the round before; the server is in the same round and has not answered; it has
  answered and not finished its round; it waits for the next round or is done.
\<close>

definition waits_for :: "u32 \<Rightarrow> pc set" where
  "waits_for stale = {Load, Wait stale, Sleep}"

definition lagging :: "pair \<Rightarrow> bool" where
  "lagging st \<longleftrightarrow> Suc (s_rounds st) = c_rounds st \<and> s_pc st = Wake \<and> pong st = of_nat (c_rounds st) \<and>
     c_pc st \<in> {Write, Store, Wake} \<union> waits_for (of_nat (c_rounds st))"

definition serving :: "pair \<Rightarrow> bool" where
  "serving st \<longleftrightarrow> s_rounds st = c_rounds st \<and> pong st = of_nat (c_rounds st) \<and>
     (c_pc st \<in> {Write, Store} \<and> s_pc st \<in> waits_for (of_nat (c_rounds st)) \<or>
      c_pc st = Wake \<and> s_pc st \<in> {Read, Write, Store} \<union> waits_for (of_nat (c_rounds st)) \<or>
      c_pc st \<in> waits_for (of_nat (c_rounds st)) \<and> s_pc st \<in> {Load, Wait (of_nat (c_rounds st)), Read, Write, Store})"

definition answered :: "pair \<Rightarrow> bool" where
  "answered st \<longleftrightarrow> s_rounds st = c_rounds st \<and> s_pc st = Wake \<and> pong st = c_word st \<and>
     c_pc st \<in> {Wake, Read} \<union> waits_for (of_nat (c_rounds st))"

definition ahead :: "nat \<Rightarrow> pair \<Rightarrow> bool" where
  "ahead rounds st \<longleftrightarrow> s_rounds st = Suc (c_rounds st) \<and> pong st = c_word st \<and>
     c_pc st \<in> {Wake, Read, Load, Wait (of_nat (c_rounds st))} \<and>
     (if s_rounds st < rounds then s_pc st \<in> waits_for (c_word st) else s_pc st = Done)"

definition finished :: "nat \<Rightarrow> pair \<Rightarrow> bool" where
  "finished rounds st \<longleftrightarrow> c_pc st = Done \<and> c_rounds st = rounds \<and>
     (Suc (s_rounds st) = rounds \<and> s_pc st = Wake \<or> s_rounds st = rounds \<and> s_pc st = Done)"

text \<open>The client's word is stored when it has passed the store; the buffer holds the message of the round.\<close>

definition ping_ok :: "pair \<Rightarrow> bool" where
  "ping_ok st \<longleftrightarrow> ping st = (if c_pc st \<in> {Write, Store, Done} then of_nat (c_rounds st) else c_word st)"

definition buf_ok :: "nat \<Rightarrow> pair \<Rightarrow> bool" where
  "buf_ok lines st \<longleftrightarrow>
     (c_pc st \<in> {Write, Done} \<or>
      buf st = message lines (if pong st = c_word st \<or> s_pc st = Store \<and> s_rounds st = c_rounds st
                              then NOT (of_nat (Suc (c_rounds st))) else of_nat (Suc (c_rounds st))))"

text \<open>Each side has read the messages of the rounds it has passed, and nothing else.\<close>

definition sinks_ok :: "nat \<Rightarrow> pair \<Rightarrow> bool" where
  "sinks_ok lines st \<longleftrightarrow>
     c_sink st = (\<Sum>i \<leftarrow> [0 ..< c_rounds st]. payload_read (message lines (NOT (of_nat (Suc i))))) \<and>
     s_sink st = (\<Sum>i \<leftarrow> [0 ..< s_rounds st + (if s_pc st \<in> {Write, Store, Wake} then 1 else 0)]. payload_read (message lines (of_nat (Suc i))))"

definition pair_inv :: "nat \<Rightarrow> nat \<Rightarrow> pair \<Rightarrow> bool" where
  "pair_inv rounds lines st \<longleftrightarrow>
     (c_rounds st < rounds \<and> (lagging st \<or> serving st \<or> answered st \<or> ahead rounds st) \<or> finished rounds st) \<and>
     ping_ok st \<and> buf_ok lines st \<and> sinks_ok lines st"

lemmas pair_defs = pair_inv_def lagging_def serving_def answered_def ahead_def finished_def ping_ok_def buf_ok_def sinks_ok_def
  waits_for_def c_word_def s_word_def c_next_def s_next_def awake_def

lemma pair_inv_start: "0 < rounds \<Longrightarrow> pair_inv rounds lines pair_start"
  by (simp add: pair_inv_def serving_def waits_for_def ping_ok_def buf_ok_def sinks_ok_def pair_start_def)

text \<open>A server about to sleep in its current round, or in the round after the client's.\<close>

lemma s_wait_config:
  assumes "pair_inv rounds lines st" and "s_pc st = Wait cur"
  shows "serving st \<and> cur = of_nat (c_rounds st) \<and> (ping st = cur \<longrightarrow> c_pc st \<in> {Write, Store}) \<and> ping st \<in> {cur, s_word st} \<or>
    ahead rounds st \<and> cur = c_word st \<and> ping st = cur"
proof -
  have "serving st \<or> ahead rounds st" and "ping_ok st"
    using assms by (auto simp: pair_inv_def lagging_def answered_def finished_def)
  then show ?thesis
    using assms(2) by (elim disjE) (auto simp: serving_def ahead_def ping_ok_def waits_for_def s_word_def c_word_def split: if_splits)
qed

lemma pair_inv_step:
  assumes "pair_inv rounds lines st" and "pair_step rounds lines st st'"
  shows "pair_inv rounds lines st'"
  using assms(2)
proof cases
  case c_write
  with assms(1) show ?thesis by (auto simp: pair_defs)
next
  case c_store
  with assms(1) show ?thesis by (auto simp: pair_defs)
next
  case c_wake
  with assms(1) show ?thesis by (auto simp: pair_defs split: if_splits)
next
  case c_load
  with assms(1) show ?thesis by (auto simp: pair_defs split: if_splits)
next
  case (c_wait cur)
  then have cur: "cur = of_nat (c_rounds st)"
    and config: "(lagging st \<or> serving st) \<and> pong st = cur \<or> (answered st \<or> ahead rounds st) \<and> pong st \<noteq> cur"
    and rest: "ping_ok st" "buf_ok lines st" "sinks_ok lines st" "c_rounds st < rounds"
    using assms(1) by (auto simp: pair_inv_def lagging_def serving_def answered_def ahead_def finished_def waits_for_def c_word_def)
  from config obtain p where st': "st' = st\<lparr> c_pc := p \<rparr>" and p: "pong st = cur \<and> p = Sleep \<or> pong st \<noteq> cur \<and> p = Load" using c_wait by auto
  have "lagging st' \<or> serving st' \<or> answered st' \<or> ahead rounds st'"
    using config p c_wait(2) unfolding cur
    by (elim disjE conjE) (auto simp: st' lagging_def serving_def answered_def ahead_def waits_for_def c_word_def split: if_splits)
  moreover have "ping_ok st'" "buf_ok lines st'" "sinks_ok lines st'"
    using rest p c_wait(2) by (auto simp: st' ping_ok_def buf_ok_def sinks_ok_def c_word_def)
  ultimately show ?thesis using rest(4) by (simp add: pair_inv_def st')
next
  case c_read
  with assms(1) show ?thesis by (auto simp: pair_defs split: if_splits)
next
  case s_load
  then have "serving st \<or> ahead rounds st" and rest: "ping_ok st" "buf_ok lines st" "sinks_ok lines st" "c_rounds st < rounds"
    using assms(1) by (auto simp: pair_inv_def lagging_def answered_def finished_def)
  then show ?thesis
  proof (elim disjE)
    assume "serving st"
    then have "c_pc st \<in> {Write, Store} \<and> ping st = of_nat (c_rounds st) \<or> c_pc st \<notin> {Write, Store, Done} \<and> ping st = s_word st"
      using rest by (auto simp: serving_def ping_ok_def s_word_def c_word_def waits_for_def)
    with \<open>serving st\<close> rest s_load show ?thesis by (auto simp: pair_defs)
  next
    assume "ahead rounds st"
    then have "ping st = c_word st" "ping st \<noteq> s_word st" using rest by (auto simp: ahead_def ping_ok_def s_word_def c_word_def)
    then have st': "st' = st\<lparr> s_pc := Wait (c_word st) \<rparr>" using s_load by simp
    have "ahead rounds st'" using \<open>ahead rounds st\<close> s_load(2) by (auto simp: st' ahead_def waits_for_def c_word_def split: if_splits)
    moreover have "ping_ok st'" "sinks_ok lines st'" using rest s_load(2) by (simp_all add: st' ping_ok_def sinks_ok_def c_word_def)
    moreover have "buf_ok lines st'" using rest \<open>ahead rounds st\<close> by (simp add: st' buf_ok_def ahead_def c_word_def)
    ultimately show ?thesis using rest by (simp add: pair_inv_def st')
  qed
next
  case (s_wait cur)
  note config = s_wait_config [OF assms(1) s_wait(2)]
  have rest: "ping_ok st" "buf_ok lines st" "sinks_ok lines st" "c_rounds st < rounds"
    using assms(1) s_wait(2) by (auto simp: pair_inv_def finished_def)
  obtain p where st': "st' = st\<lparr> s_pc := p \<rparr>" and p: "ping st = cur \<and> p = Sleep \<or> ping st \<noteq> cur \<and> p = Load" using s_wait by auto
  have "serving st' \<or> ahead rounds st'"
    using config p s_wait(2)
    by (elim disjE conjE) (auto simp: st' serving_def ahead_def waits_for_def c_word_def split: if_splits)
  moreover have "ping_ok st'" "buf_ok lines st'" "sinks_ok lines st'"
    using rest p s_wait(2) by (auto simp: st' ping_ok_def buf_ok_def sinks_ok_def c_word_def)
  ultimately show ?thesis using rest(4) by (auto simp: pair_inv_def st')
next
  case s_read
  with assms(1) show ?thesis by (auto simp: pair_defs split: if_splits)
next
  case s_write
  with assms(1) show ?thesis by (auto simp: pair_defs split: if_splits)
next
  case s_store
  with assms(1) show ?thesis by (auto simp: pair_defs split: if_splits)
next
  case s_wake
  with assms(1) show ?thesis by (auto simp: pair_defs split: if_splits)
qed

end
