(* ===== verification/Pingpong_Progress.thy ===== *)
theory Pingpong_Progress
  imports Pingpong
begin

text \<open>
  The IPC benchmark's protocol always completes: every step brings a pair closer to the end, and a
  pair that cannot step has finished.
\<close>

section \<open>Progress\<close>

text \<open>How far a waiting side is from going on, depending on whether its word has come.\<close>

definition wait_rank :: "bool \<Rightarrow> pc \<Rightarrow> nat" where
  "wait_rank ready p = (case p of Load \<Rightarrow> if ready then 7 else 12 | Wait _ \<Rightarrow> if ready then 8 else 11 | Sleep \<Rightarrow> if ready then 9 else 10 | _ \<Rightarrow> 0)"

definition c_rank :: "pair \<Rightarrow> nat" where
  "c_rank st = (case c_pc st of Write \<Rightarrow> 22 | Store \<Rightarrow> 21 | Wake \<Rightarrow> 20 | Read \<Rightarrow> 6 | Done \<Rightarrow> 0 | p \<Rightarrow> wait_rank (pong st = c_word st) p)"

definition s_rank :: "pair \<Rightarrow> nat" where
  "s_rank st = (case s_pc st of Read \<Rightarrow> 6 | Write \<Rightarrow> 5 | Store \<Rightarrow> 4 | Wake \<Rightarrow> 3 | Done \<Rightarrow> 0 | p \<Rightarrow> wait_rank (ping st = s_word st) p)"

definition pair_measure :: "nat \<Rightarrow> pair \<Rightarrow> nat" where
  "pair_measure rounds st = 30 * (rounds - c_rounds st) + c_rank st + (30 * (rounds - s_rounds st) + s_rank st)"

lemmas rank_defs = c_rank_def s_rank_def wait_rank_def

lemma rank_bounds: "c_rank st \<le> 22" "s_rank st \<le> 12"
  by (auto simp: rank_defs split: pc.split)

lemma rank_cong:
  "c_pc st' = c_pc st \<Longrightarrow> pong st' = pong st \<Longrightarrow> c_rounds st' = c_rounds st \<Longrightarrow> c_rank st' = c_rank st"
  "s_pc st' = s_pc st \<Longrightarrow> ping st' = ping st \<Longrightarrow> s_rounds st' = s_rounds st \<Longrightarrow> s_rank st' = s_rank st"
  unfolding c_rank_def s_rank_def c_word_def s_word_def by (simp_all cong: pc.case_cong)

text \<open>A step of one side that leaves the other's rank alone.\<close>

lemma measure_side:
  "c_rank st' < c_rank st \<Longrightarrow> s_rank st' \<le> s_rank st \<Longrightarrow> c_rounds st' = c_rounds st \<Longrightarrow> s_rounds st' = s_rounds st \<Longrightarrow>
     pair_measure rounds st' < pair_measure rounds st"
  "s_rank st' < s_rank st \<Longrightarrow> c_rank st' \<le> c_rank st \<Longrightarrow> c_rounds st' = c_rounds st \<Longrightarrow> s_rounds st' = s_rounds st \<Longrightarrow>
     pair_measure rounds st' < pair_measure rounds st"
  by (simp_all add: pair_measure_def)

lemma inv_bounds: "pair_inv rounds lines st \<Longrightarrow> c_rounds st \<le> rounds \<and> s_rounds st \<le> rounds \<and>
    (c_pc st \<noteq> Done \<longrightarrow> c_rounds st < rounds) \<and> (s_pc st \<noteq> Done \<longrightarrow> s_rounds st < rounds)"
  by (auto simp: pair_inv_def lagging_def serving_def answered_def ahead_def finished_def waits_for_def split: if_splits)

lemma pair_measure_step:
  assumes "pair_inv rounds lines st" and "pair_step rounds lines st st'"
  shows "pair_measure rounds st' < pair_measure rounds st"
  using assms(2)
proof cases
  case c_write
  then show ?thesis by (intro measure_side(1)) (auto simp: c_rank_def intro!: eq_imp_le rank_cong(2))
next
  case c_store
  have "lagging st \<or> serving st" "ping_ok st"
    using assms(1) c_store(2) by (auto simp: pair_inv_def answered_def ahead_def finished_def waits_for_def)
  then have "s_pc st = Wake \<or> ping st \<noteq> s_word st"
    using c_store(2) by (elim disjE) (simp_all add: lagging_def serving_def ping_ok_def s_word_def)
  then have "s_rank st' \<le> s_rank st" using c_store by (auto simp: rank_defs s_word_def split: pc.split)
  then show ?thesis using c_store by (intro measure_side(1)) (auto simp: c_rank_def)
next
  case c_wake
  have "s_rank st' \<le> s_rank st + 2" using c_wake by (auto simp: rank_defs s_word_def awake_def split: pc.split)
  moreover have "c_rank st' + 2 < c_rank st" using c_wake by (simp add: rank_defs)
  ultimately show ?thesis using c_wake(1) by (simp add: pair_measure_def)
next
  case c_load
  then show ?thesis
    by (intro measure_side(1)) (auto simp: c_rank_def wait_rank_def c_word_def intro!: eq_imp_le rank_cong(2))
next
  case (c_wait cur)
  then have "cur = of_nat (c_rounds st)" "pong st = cur \<or> pong st = c_word st"
    using assms(1) by (auto simp: pair_inv_def lagging_def serving_def answered_def ahead_def finished_def waits_for_def)
  then have "c_rank st' < c_rank st" using c_wait by (auto simp: rank_defs c_word_def)
  then show ?thesis using c_wait(1) by (intro measure_side(1)) (auto intro!: eq_imp_le rank_cong(2))
next
  case c_read
  have s: "s_rank st' = s_rank st" "s_rounds st' = s_rounds st" "c_rounds st' = Suc (c_rounds st)"
    using c_read by (auto simp: c_next_def intro!: rank_cong(2))
  have "c_rounds st < rounds" using inv_bounds [OF assms(1)] c_read(2) by simp
  moreover have "c_rank st = 6" using c_read(2) by (simp add: c_rank_def)
  ultimately show ?thesis using s rank_bounds(1) [of st'] by (simp add: pair_measure_def)
next
  case s_load
  then show ?thesis
    by (intro measure_side(2)) (auto simp: s_rank_def wait_rank_def s_word_def intro!: eq_imp_le rank_cong(1))
next
  case (s_wait cur)
  then have "cur \<noteq> s_word st" "ping st = cur \<or> ping st = s_word st"
    using s_wait_config [OF assms(1) s_wait(2)] by (auto simp: serving_def ahead_def s_word_def c_word_def)
  then have "s_rank st' < s_rank st" using s_wait by (auto simp: rank_defs s_word_def)
  then show ?thesis using s_wait(1) by (intro measure_side(2)) (auto intro!: eq_imp_le rank_cong(1))
next
  case s_read
  then show ?thesis by (intro measure_side(2)) (auto simp: s_rank_def intro!: eq_imp_le rank_cong(1))
next
  case s_write
  then show ?thesis by (intro measure_side(2)) (auto simp: s_rank_def intro!: eq_imp_le rank_cong(1))
next
  case s_store
  then have "pong st \<noteq> c_word st"
    using assms(1) by (auto simp: pair_inv_def lagging_def serving_def answered_def ahead_def finished_def waits_for_def c_word_def split: if_splits)
  then have "c_rank st' \<le> c_rank st" using s_store by (auto simp: rank_defs c_word_def split: pc.split)
  then show ?thesis using s_store by (intro measure_side(2)) (auto simp: s_rank_def)
next
  case s_wake
  have c: "c_rank st' \<le> c_rank st + 2" "c_rounds st' = c_rounds st" "s_rounds st' = Suc (s_rounds st)"
    using s_wake by (auto simp: rank_defs c_word_def awake_def s_next_def split: pc.split)
  have "s_rounds st < rounds" using inv_bounds [OF assms(1)] s_wake(2) by simp
  moreover have "s_rank st = 3" using s_wake(2) by (simp add: s_rank_def)
  ultimately show ?thesis using c rank_bounds(2) [of st'] by (simp add: pair_measure_def)
qed

lemma pair_not_stuck:
  assumes "pair_inv rounds lines st" and "\<nexists>st'. pair_step rounds lines st st'"
  shows "c_pc st = Done \<and> s_pc st = Done \<and> c_rounds st = rounds \<and> s_rounds st = rounds"
proof -
  have c: "c_pc st \<in> {Sleep, Done}" using assms(2) by (cases "c_pc st") (auto intro: pair_step.intros)
  have s: "s_pc st \<in> {Sleep, Done}" using assms(2) by (cases "s_pc st") (auto intro: pair_step.intros)
  show ?thesis
    using assms(1) c s
    by (auto simp: pair_inv_def lagging_def serving_def answered_def ahead_def finished_def waits_for_def split: if_splits)
qed

lemma pair_runs:
  assumes "0 < rounds" and "((pair_step rounds lines) ^^ n) pair_start st"
  shows "pair_inv rounds lines st \<and> n + pair_measure rounds st \<le> pair_measure rounds pair_start"
  using assms(2)
proof (induction n arbitrary: st)
  case 0
  then show ?case using pair_inv_start [OF assms(1)] by simp
next
  case (Suc n)
  then obtain u where u: "((pair_step rounds lines) ^^ n) pair_start u" "pair_step rounds lines u st" by auto
  from Suc.IH [OF u(1)] pair_inv_step [OF _ u(2)] pair_measure_step [OF _ u(2)] show ?case by fastforce
qed

lemma pair_start_measure: "0 < rounds \<Longrightarrow> pair_measure rounds pair_start = 60 * rounds + 34"
  by (simp add: pair_measure_def pair_start_def rank_defs c_word_def s_word_def)

text \<open>Who holds the payload: while the server does, the client waits for an answer that has not come.\<close>

lemma server_holds:
  assumes "pair_inv rounds lines st" and "s_pc st \<in> {Read, Write}"
  shows "s_rounds st = c_rounds st \<and> pong st \<noteq> c_word st \<and> c_pc st \<notin> {Write, Read, Done, Store}"
proof -
  have "serving st"
    using assms by (auto simp: pair_inv_def lagging_def answered_def ahead_def finished_def waits_for_def split: if_splits)
  moreover have "c_pc st \<notin> {Write, Read, Done, Store}"
    using \<open>serving st\<close> assms(2) unfolding serving_def by (elim conjE disjE) (auto simp: waits_for_def)
  moreover have "of_nat (c_rounds st) \<noteq> c_word st" by (simp add: c_word_def)
  ultimately show ?thesis by (simp add: serving_def)
qed

lemma client_holds:
  assumes "pair_inv rounds lines st" and "c_pc st = Read"
  shows "pong st = c_word st"
proof -
  have "answered st \<or> ahead rounds st"
    using assms by (auto simp: pair_inv_def lagging_def serving_def finished_def waits_for_def)
  then show ?thesis by (auto simp: answered_def ahead_def)
qed

text \<open>
  C28. Client and server never touch the payload at the same time, and every message arrives
  intact. In every state a pair can reach, under every interleaving and also when the 32-bit round
  numbers wrap, at most one side is reading or writing the payload; when the server reads, the buffer is
  exactly what the client wrote for that round, and when the client reads it is exactly the
  server's answer to that round.
\<close>

theorem pair_messages_intact:
  assumes "0 < rounds" and "(pair_step rounds lines)\<^sup>*\<^sup>* pair_start st"
  shows "\<not> (c_pc st \<in> {Write, Read} \<and> s_pc st \<in> {Read, Write}) \<and>
    (s_pc st = Read \<longrightarrow> s_rounds st = c_rounds st \<and> Inr (buf st) = payload_write False lines (of_nat (Suc (s_rounds st)))) \<and>
    (c_pc st = Read \<longrightarrow> Inr (buf st) = payload_write False lines (NOT (of_nat (Suc (c_rounds st)))))"
proof -
  obtain n where "((pair_step rounds lines) ^^ n) pair_start st" using assms(2) by (auto simp: rtranclp_power)
  then have inv: "pair_inv rounds lines st" using pair_runs [OF assms(1)] by blast
  have b: "buf_ok lines st" using inv by (simp add: pair_inv_def)
  have s: "s_rounds st = c_rounds st \<and> buf st = message lines (of_nat (Suc (s_rounds st)))" if "s_pc st = Read"
    using server_holds [OF inv] b that by (simp add: buf_ok_def c_word_def)
  have c: "buf st = message lines (NOT (of_nat (Suc (c_rounds st))))" if "c_pc st = Read"
    using client_holds [OF inv that] b that by (simp add: buf_ok_def)
  have "\<not> (c_pc st \<in> {Write, Read} \<and> s_pc st \<in> {Read, Write})" using server_holds [OF inv] by auto
  then show ?thesis using s c by (simp add: payload_write_release)
qed

text \<open>Witness of C28.\<close>

theorem pair_messages_intact_witness:
  "let st = pair_start\<lparr> buf := message 2 1, ping := 1, c_pc := Wake, s_pc := Read \<rparr>
   in (pair_step 3 2)\<^sup>*\<^sup>* pair_start st \<and> Inr (buf st) = payload_write False 2 1"
proof -
  let ?s1 = "pair_start\<lparr> buf := message 2 1, c_pc := Store \<rparr>"
  let ?s2 = "?s1\<lparr> ping := 1, c_pc := Wake \<rparr>"
  let ?s3 = "?s2\<lparr> s_pc := Read \<rparr>"
  have 1: "pair_step 3 2 pair_start ?s1" using pair_step.c_write [of pair_start 3 2] by (simp add: pair_start_def)
  have 2: "pair_step 3 2 ?s1 ?s2" using pair_step.c_store [of ?s1 3 2] by (simp add: pair_start_def c_word_def)
  have 3: "pair_step 3 2 ?s2 ?s3" using pair_step.s_load [of ?s2 3 2] by (simp add: pair_start_def s_word_def)
  have r: "(pair_step 3 2)\<^sup>*\<^sup>* pair_start ?s3" using 1 2 3 by (meson converse_rtranclp_into_rtranclp rtranclp.rtrancl_refl)
  have eq: "?s3 = pair_start\<lparr> buf := message 2 1, ping := 1, c_pc := Wake, s_pc := Read \<rparr>" by (simp add: pair_start_def)
  have "(0 :: nat) < 3" by simp
  from pair_messages_intact [OF this r] r show ?thesis unfolding eq by (simp add: pair_start_def)
qed

text \<open>
  C20. The exchange always completes. No execution of a pair, under any interleaving, takes more
  than \<open>60 \<cdot> rounds + 34\<close> steps, so none runs forever; and an execution that can go no further is
  never a deadlock or a lost wakeup: both sides have done all their rounds, the server has read every
  message of the client and the client every answer, each exactly once.
\<close>

theorem pair_completes:
  assumes "0 < rounds" and "((pair_step rounds lines) ^^ n) pair_start st"
  shows "n \<le> 60 * rounds + 34 \<and>
    ((\<exists>st'. pair_step rounds lines st st') \<or>
     c_pc st = Done \<and> s_pc st = Done \<and> c_rounds st = rounds \<and> s_rounds st = rounds \<and>
     s_sink st = (\<Sum>i \<leftarrow> [0 ..< rounds]. payload_read (message lines (of_nat (Suc i)))) \<and>
     c_sink st = (\<Sum>i \<leftarrow> [0 ..< rounds]. payload_read (message lines (NOT (of_nat (Suc i))))))"
proof -
  have inv: "pair_inv rounds lines st" and m: "n + pair_measure rounds st \<le> pair_measure rounds pair_start"
    using pair_runs [OF assms] by auto
  have n: "n \<le> 60 * rounds + 34" using m pair_start_measure [OF assms(1)] by simp
  show ?thesis
  proof (cases "\<exists>st'. pair_step rounds lines st st'")
    case False
    note ended = pair_not_stuck [OF inv False]
    have "sinks_ok lines st" using inv by (simp add: pair_inv_def)
    then show ?thesis using n ended by (simp add: sinks_ok_def)
  qed (use n in simp)
qed

text \<open>Witness of C20.\<close>

theorem pair_completes_witness: "\<exists>st. pair_step 2 4 pair_start st \<and> (1 :: nat) \<le> 60 * 2 + 34"
proof -
  obtain st where s: "pair_step 2 4 pair_start st" using pair_step.c_write [of pair_start 2 4] by (auto simp: pair_start_def)
  then have "((pair_step 2 4) ^^ Suc 0) pair_start st" by auto
  from pair_completes [OF _ this] s show ?thesis by auto
qed

end
