(* ===== verification/Pingpong_Report.thy ===== *)
theory Pingpong_Report
  imports Pingpong
begin

text \<open>
  The sequential parts of the IPC benchmark, \<open>bench/ipc_pingpong/src/main.rs\<close>: the options, the
  layout of the shared mapping, the sampling of round trips, and the report over all samples.
\<close>

section \<open>Options\<close>

text \<open>\<open>u64::from_str\<close>: an optional plus sign and at least one digit, no overflow.\<close>

definition digit_of :: "char \<Rightarrow> nat option" where
  "digit_of c = (if 48 \<le> (of_char c :: nat) \<and> (of_char c :: nat) \<le> 57 then Some (of_char c - 48) else None)"

fun parse_digits :: "nat \<Rightarrow> string \<Rightarrow> nat option" where
  "parse_digits acc [] = Some acc"
| "parse_digits acc (c # cs) =
     (case digit_of c of None \<Rightarrow> None
      | Some d \<Rightarrow> if 2 ^ 64 \<le> 10 * acc + d then None else parse_digits (10 * acc + d) cs)"

definition parse_u64 :: "string \<Rightarrow> u64 option" where
  "parse_u64 s = (let ds = (case s of c # cs \<Rightarrow> if c = CHR ''+'' then cs else s | [] \<Rightarrow> [])
                  in if ds = [] then None else map_option of_nat (parse_digits 0 ds))"

text \<open>\<open>exit(2)\<close> with the usage, \<open>exit(1)\<close> with the flag that lacks its number.\<close>

datatype pp_exit = Usage | NeedsNumber string

definition PpOpts_default :: PpOpts where
  "PpOpts_default = \<lparr> pp_pairs = 1, pp_iters = 200000, pp_warmup = 5000, pp_payload = 4096, pp_background = 0 \<rparr>"

definition flag_update :: "string \<Rightarrow> (u64 \<Rightarrow> PpOpts \<Rightarrow> PpOpts) option" where
  "flag_update flag =
     (if flag = ''-p'' then Some (\<lambda>v. pp_pairs_update (\<lambda>_. v))
      else if flag = ''-n'' then Some (\<lambda>v. pp_iters_update (\<lambda>_. v))
      else if flag = ''-w'' then Some (\<lambda>v. pp_warmup_update (\<lambda>_. v))
      else if flag = ''-s'' then Some (\<lambda>v. pp_payload_update (\<lambda>_. v))
      else if flag = ''-b'' then Some (\<lambda>v. pp_background_update (\<lambda>_. v))
      else None)"

fun parse_args :: "string list \<Rightarrow> PpOpts \<Rightarrow> pp_exit + PpOpts" where
  "parse_args [] opts = Inr opts"
| "parse_args [flag] opts = (case flag_update flag of None \<Rightarrow> Inl Usage | Some _ \<Rightarrow> Inl (NeedsNumber flag))"
| "parse_args (flag # v # args) opts =
     (case flag_update flag of None \<Rightarrow> Inl Usage
      | Some upd \<Rightarrow> (case parse_u64 v of None \<Rightarrow> Inl (NeedsNumber flag) | Some x \<Rightarrow> parse_args args (upd x opts)))"

definition next_multiple_of :: "u64 \<Rightarrow> u64 \<Rightarrow> u64" where
  "next_multiple_of n m = (if n mod m = 0 then n else n + (m - n mod m))"

definition parse_opts :: "string list \<Rightarrow> pp_exit + PpOpts" where
  "parse_opts args =
     (case parse_args args PpOpts_default of Inl e \<Rightarrow> Inl e
      | Inr opts \<Rightarrow>
          if pp_pairs opts < 1 \<or> pp_iters opts < 1 \<or> pp_payload opts < of_nat CACHE_LINE then Inl Usage
          else Inr (opts\<lparr> pp_payload := next_multiple_of (pp_payload opts) (of_nat CACHE_LINE) \<rparr>))"

section \<open>The shared mapping\<close>

text \<open>\<open>Channel\<close> is two futex words, each alone on its cache line.\<close>

definition size_of_Channel :: nat where "size_of_Channel = 2 * CACHE_LINE"

definition ch_sz :: "PpOpts \<Rightarrow> u64" where
  "ch_sz opts = next_multiple_of (of_nat size_of_Channel + pp_payload opts) (of_nat CACHE_LINE)"

text \<open>The bytes of the mapping that pair \<open>i\<close> uses: its channel header and its payload.\<close>

definition channel_bytes :: "PpOpts \<Rightarrow> u64 \<Rightarrow> nat set" where
  "channel_bytes opts i = (let base = unat (ch_sz opts * i) in {base ..< base + size_of_Channel + unat (pp_payload opts)})"

section \<open>Sampling\<close>

definition sample_stride :: "u64 \<Rightarrow> u64" where
  "sample_stride iters = iters div of_nat MAX_SAMPLES + (if 0 < iters mod of_nat MAX_SAMPLES then 1 else 0)"

definition clamp_ns :: "nat \<Rightarrow> u32" where
  "clamp_ns ns = of_nat (min ns (2 ^ 32 - 1))"

text \<open>
  The sampling of \<open>run_client\<close> over its rounds \<open>i = 1, 2, \<dots>\<close>; the list holds how long each round
  took, and the result is the filled prefix of \<open>res.samples\<close>.
\<close>

definition record_sample :: "PpOpts \<Rightarrow> nat \<Rightarrow> nat \<Rightarrow> u32 list \<Rightarrow> u32 list" where
  "record_sample opts i dt samples =
     (if unat (pp_warmup opts) < i then
        (let k = i - unat (pp_warmup opts) - 1
         in if unat (sample_stride (pp_iters opts)) dvd k \<and> length samples < MAX_SAMPLES
            then samples @ [clamp_ns dt] else samples)
      else samples)"

fun run_client_from :: "PpOpts \<Rightarrow> nat \<Rightarrow> nat list \<Rightarrow> u32 list \<Rightarrow> u32 list" where
  "run_client_from opts i [] samples = samples"
| "run_client_from opts i (dt # dts) samples = run_client_from opts (Suc i) dts (record_sample opts i dt samples)"

definition run_client :: "PpOpts \<Rightarrow> nat list \<Rightarrow> u32 list" where
  "run_client opts dts = run_client_from opts 1 dts []"

section \<open>The report\<close>

text \<open>\<open>f64 as usize\<close>: towards zero, saturating, \<open>NaN\<close> becomes 0.\<close>

definition f64_to_usize :: "f64 \<Rightarrow> nat" where
  "f64_to_usize x = (case x of NaN \<Rightarrow> 0 | PInf \<Rightarrow> 2 ^ 64 - 1 | NInf \<Rightarrow> 0 | Fin q \<Rightarrow> min (nat \<lfloor>q\<rfloor>) (2 ^ 64 - 1))"

text \<open>\<open>sorted.len() - 1\<close> wraps on an empty slice, and the index is then out of range.\<close>

definition percentile :: "u32 list \<Rightarrow> f64 \<Rightarrow> panic + u32" where
  "percentile xs p =
     (let last = u64_to_f64 (of_nat (length xs) - 1); idx = f64_to_usize (f_mul (f_div p (Fin 100)) last)
      in if idx < length xs then Inr (xs ! idx) else Inl OutOfRange)"

record PairResult =
  pr_samples :: "u32 list"
  pr_elapsed_ns :: u64
  pr_iters :: u64

record Report =
  rtt_p50_ns :: u32
  rtt_p90_ns :: u32
  rtt_p99_ns :: u32
  rtt_p999_ns :: u32
  rtt_max_ns :: u32
  rtt_mean_ns :: f64
  throughput :: f64

definition tput :: "PairResult list \<Rightarrow> f64" where
  "tput results =
     fold (\<lambda>res t. if 0 < pr_elapsed_ns res
                   then f_add t (f_div (f_mul (u64_to_f64 (pr_iters res)) (Fin 1000000000)) (u64_to_f64 (pr_elapsed_ns res)))
                   else t) results (Fin 0)"

definition mean_ns :: "u32 list \<Rightarrow> f64" where
  "mean_ns xs = f_div (fold (\<lambda>x t. f_add t (to_f64 (of_nat (unat x)))) xs (Fin 0)) (u64_to_f64 (of_nat (length xs)))"

definition report :: "PairResult list \<Rightarrow> panic + Report" where
  "report results =
     (let xs = sort (concat (map pr_samples results))
      in case percentile xs (Fin 50) of Inl e \<Rightarrow> Inl e | Inr p50 \<Rightarrow>
         (case percentile xs (Fin 90) of Inl e \<Rightarrow> Inl e | Inr p90 \<Rightarrow>
         (case percentile xs (Fin 99) of Inl e \<Rightarrow> Inl e | Inr p99 \<Rightarrow>
         (case percentile xs (to_f64 (999 / 10)) of Inl e \<Rightarrow> Inl e | Inr p999 \<Rightarrow>
           if xs = [] then Inl OutOfRange
           else Inr \<lparr> rtt_p50_ns = p50, rtt_p90_ns = p90, rtt_p99_ns = p99, rtt_p999_ns = p999,
                      rtt_max_ns = xs ! (length xs - 1), rtt_mean_ns = mean_ns xs, throughput = tput results \<rparr>))))"

section \<open>Samples are spread evenly and never truncated\<close>

text \<open>The multiples of \<open>s\<close> below \<open>n\<close>.\<close>

lemma count_multiples:
  assumes "0 < s"
  shows "length (filter (\<lambda>k. s dvd k) [0 ..< n]) = (n + s - 1) div s"
proof (induction n)
  case (Suc n)
  have last: "(Suc n + s - 1) div s = n div s + 1" using assms by simp
  show ?case
  proof (cases "s dvd n")
    case True
    then obtain q where q: "n = s * q" by (elim dvdE)
    have "(n + s - 1) div s = (s * q + (s - 1)) div s" using assms q by simp
    also have "\<dots> = n div s" using assms q by (subst div_mult_self4) simp_all
    finally show ?thesis using Suc.IH True last by simp
  next
    case False
    then have "0 < n mod s" by (simp add: mod_greater_zero_iff_not_dvd)
    then have "(n div s * s + n mod s) + s - 1 = (n div s + 1) * s + (n mod s - 1)" by simp
    then have "n + s - 1 = (n div s + 1) * s + (n mod s - 1)" unfolding div_mult_mod_eq .
    moreover have "n mod s - 1 < s" using assms by (meson less_imp_diff_less mod_less_divisor)
    ultimately have "(n + s - 1) div s = n div s + 1" using assms by (simp only: div_mult_self3 div_less)
    then show ?thesis using Suc.IH False last by simp
  qed
qed (use assms in simp)

lemma sample_stride_ceil:
  assumes "0 < iters"
  shows "0 < unat (sample_stride iters)" and "unat iters \<le> MAX_SAMPLES * unat (sample_stride iters)"
    and "unat iters \<le> MAX_SAMPLES \<Longrightarrow> unat (sample_stride iters) = 1"
proof -
  define q where "q = unat iters div MAX_SAMPLES"
  define r where "r = unat iters mod MAX_SAMPLES"
  have m: "unat (of_nat MAX_SAMPLES :: u64) = MAX_SAMPLES" by (simp add: MAX_SAMPLES_def)
  have qr: "unat iters = MAX_SAMPLES * q + r" "r < MAX_SAMPLES" by (simp_all add: q_def r_def MAX_SAMPLES_def)
  have "unat iters < 2 ^ 64" using unsigned_less [of iters] by simp
  then have "Suc q < 2 ^ 64" using qr(1) by (simp add: MAX_SAMPLES_def)
  moreover have r: "0 < iters mod of_nat MAX_SAMPLES \<longleftrightarrow> 0 < r"
    unfolding word_less_nat_alt unat_mod_distrib m r_def by simp
  moreover have "unat (iters div of_nat MAX_SAMPLES) = q" unfolding unat_div_distrib m q_def ..
  ultimately have s: "unat (sample_stride iters) = q + (if 0 < r then 1 else 0)"
    by (simp add: sample_stride_def unat_word_ariths)
  have pos: "0 < unat iters" using assms by (simp add: word_less_nat_alt)
  show "0 < unat (sample_stride iters)" using s qr pos by (cases "r = 0") (auto intro: Nat.gr0I)
  show "unat iters \<le> MAX_SAMPLES * unat (sample_stride iters)" using s qr by auto
  show "unat (sample_stride iters) = 1" if "unat iters \<le> MAX_SAMPLES"
  proof (cases "unat iters = MAX_SAMPLES")
    case True
    then show ?thesis unfolding s by (simp add: q_def r_def MAX_SAMPLES_def)
  next
    case False
    then have "q = 0" "r = unat iters" using that by (simp_all add: q_def r_def)
    then show ?thesis using s pos by simp
  qed
qed

lemma samples_fit:
  assumes "0 < iters" and "n \<le> unat iters"
  shows "length (filter (\<lambda>k. unat (sample_stride iters) dvd k) [0 ..< n]) \<le> MAX_SAMPLES"
proof -
  define s where "s = unat (sample_stride iters)"
  have s: "0 < s" "n \<le> MAX_SAMPLES * s" using sample_stride_ceil [OF assms(1)] assms(2) by (auto simp: s_def)
  have "(n + s - 1) div s \<le> (MAX_SAMPLES * s + (s - 1)) div s" using s by (intro div_le_mono) simp
  also have "\<dots> = MAX_SAMPLES" using s(1) by (subst div_mult_self3) simp_all
  finally show ?thesis unfolding s_def [symmetric] count_multiples [OF s(1)] .
qed

lemma run_client_from_snoc:
  "run_client_from opts i (dts @ [dt]) samples = record_sample opts (i + length dts) dt (run_client_from opts i dts samples)"
  by (induction dts arbitrary: i samples) auto

lemma run_client_prefix:
  assumes "0 < pp_iters opts" and "unat (pp_warmup opts) + unat (pp_iters opts) = length dts" and "n \<le> length dts"
  shows "run_client opts (take n dts) =
    map (\<lambda>k. clamp_ns (dts ! (unat (pp_warmup opts) + k)))
      (filter (\<lambda>k. unat (sample_stride (pp_iters opts)) dvd k) [0 ..< n - unat (pp_warmup opts)])"
  using assms(3)
proof (induction n)
  case (Suc n)
  let ?w = "unat (pp_warmup opts)" and ?P = "\<lambda>k. unat (sample_stride (pp_iters opts)) dvd k"
  have step: "run_client opts (take (Suc n) dts) = record_sample opts (Suc n) (dts ! n) (run_client opts (take n dts))"
    using Suc.prems by (simp add: take_Suc_conv_app_nth run_client_def run_client_from_snoc)
  show ?case
  proof (cases "n < ?w")
    case True
    then show ?thesis using Suc step by (simp add: record_sample_def)
  next
    case False
    define m where "m = n - ?w"
    have m: "Suc n - ?w = Suc m" "n = ?w + m" "Suc m \<le> unat (pp_iters opts)" using False Suc.prems assms(2) by (simp_all add: m_def)
    have "length (filter ?P [0 ..< m]) < MAX_SAMPLES" if "?P m" using samples_fit [OF assms(1) m(3)] that by simp
    then show ?thesis using Suc step m by (simp add: record_sample_def)
  qed
qed (simp add: run_client_def)

text \<open>
  Every run of the client keeps an even subsample of its measured round trips. With the number
  of round trips given by the options, the samples are exactly the durations of the measured rounds
  \<open>0, s, 2s, \<dots>\<close>, clamped to 32 bits, in order; warm-up rounds never count. All of them fit the
  buffer, so the buffer's guard never cuts the tail off, and up to the capacity every round is kept.
\<close>

lemma run_client_samples:
  assumes "0 < pp_iters opts" and "unat (pp_warmup opts) + unat (pp_iters opts) = length dts"
  shows "run_client opts dts =
      map (\<lambda>k. clamp_ns (dts ! (unat (pp_warmup opts) + k)))
        (filter (\<lambda>k. unat (sample_stride (pp_iters opts)) dvd k) [0 ..< unat (pp_iters opts)]) \<and>
    length (run_client opts dts) \<le> MAX_SAMPLES \<and>
    (unat (pp_iters opts) \<le> MAX_SAMPLES \<longrightarrow> run_client opts dts = map clamp_ns (drop (unat (pp_warmup opts)) dts))"
proof -
  have eq: "run_client opts dts = map (\<lambda>k. clamp_ns (dts ! (unat (pp_warmup opts) + k)))
      (filter (\<lambda>k. unat (sample_stride (pp_iters opts)) dvd k) [0 ..< unat (pp_iters opts)])"
    using run_client_prefix [OF assms, of "length dts"] by (simp flip: assms(2))
  moreover have "run_client opts dts = map clamp_ns (drop (unat (pp_warmup opts)) dts)" if "unat (pp_iters opts) \<le> MAX_SAMPLES"
    unfolding eq sample_stride_ceil(3) [OF assms(1) that] using assms(2) by (auto intro: nth_equalityI)
  ultimately show ?thesis using samples_fit [OF assms(1), of "unat (pp_iters opts)"] by simp
qed

text \<open>An instance.\<close>

lemma run_client_samples_witness:
  "run_client \<lparr> pp_pairs = 1, pp_iters = 3, pp_warmup = 2, pp_payload = 64, pp_background = 0 \<rparr> [900, 800, 10, 2 ^ 40, 30] =
     [10, 2 ^ 32 - 1, 30]"
  (is "run_client ?opts ?dts = _")
proof -
  have "0 < pp_iters ?opts" "unat (pp_warmup ?opts) + unat (pp_iters ?opts) = length ?dts" by simp_all
  from run_client_samples [OF this] have "unat (pp_iters ?opts) \<le> MAX_SAMPLES \<longrightarrow> run_client ?opts ?dts = map clamp_ns (drop (unat (pp_warmup ?opts)) ?dts)"
    by blast
  then show ?thesis by (simp add: MAX_SAMPLES_def clamp_ns_def)
qed

section \<open>The report\<close>

text \<open>
  Against the locale of rounding: a percentile of a non-empty slice rounds to an index of it, and
  a larger percentile to no smaller an index.
\<close>

definition rank :: "rat \<Rightarrow> nat \<Rightarrow> nat" where
  "rank p n = nat \<lfloor>f64_round (f64_round (p / 100) * of_nat (n - 1))\<rfloor>"

lemma rank_mono: "p \<le> q \<Longrightarrow> rank p n \<le> rank q n"
  unfolding rank_def by (intro nat_mono floor_mono rnd.mono mult_right_mono divide_right_mono) simp_all

lemma rank_less:
  assumes "0 < n" and "n \<le> 2 ^ 53" and "p \<le> 100"
  shows "rank p n < n"
proof -
  have "f64_round (p / 100) \<le> 1" using assms(3) by (intro rnd.le_rep) (simp_all add: rnd.one)
  then have "f64_round (p / 100) * of_nat (n - 1) \<le> of_nat (n - 1)" by (simp add: mult_left_le_one_le mult.commute mult_left_le)
  moreover have "f64_round (of_nat (n - 1)) = of_nat (n - 1)"
    using f64_round_int [of "int (n - 1)"] assms(2) by simp
  ultimately have "f64_round (f64_round (p / 100) * of_nat (n - 1)) \<le> of_nat (n - 1)" by (intro rnd.le_rep)
  then have "\<lfloor>f64_round (f64_round (p / 100) * of_nat (n - 1))\<rfloor> \<le> int (n - 1)" by (simp add: floor_le_iff)
  then show ?thesis using assms(1) unfolding rank_def by linarith
qed

lemma f64_small:
  assumes "\<bar>x\<bar> \<le> 2 ^ 53"
  shows "to_f64 x = Fin (f64_round x)"
  using assms by (intro to_f64_range(1) [of x 53]) auto

lemma last_index_f64:
  assumes "0 < n" and "n \<le> 2 ^ 53"
  shows "u64_to_f64 (of_nat n - 1) = Fin (of_nat (n - 1))"
proof -
  have "(of_nat n - 1 :: u64) = of_nat (n - 1)" using assms(1) by (simp add: of_nat_diff)
  then have "unat (of_nat n - 1 :: u64) = n - 1" using assms(2) by (simp add: unsigned_of_nat take_bit_nat_eq_self)
  moreover have "to_f64 (of_int (int (n - 1))) = Fin (f64_round (of_int (int (n - 1))))"
    using assms(2) by (intro f64_small) simp
  moreover have "f64_round (of_int (int (n - 1))) = of_int (int (n - 1))" using assms(2) by (intro f64_round_int) simp
  ultimately show ?thesis by (simp add: u64_to_f64_def)
qed

lemma percentile_rank:
  assumes "xs \<noteq> []" and "length xs \<le> 2 ^ 53" and "0 \<le> p" and "p \<le> 100"
  shows "percentile xs (Fin p) = Inr (xs ! rank p (length xs))"
proof -
  let ?n = "length xs"
  have n: "0 < ?n" using assms(1) by simp
  have r: "0 \<le> f64_round (p / 100)" "f64_round (p / 100) \<le> 1"
    using assms(3,4) by (simp_all add: rnd.nonneg rnd.le_rep rnd.one)
  have "0 \<le> f64_round (p / 100) * of_nat (?n - 1)" "f64_round (p / 100) * of_nat (?n - 1) \<le> 1 * of_nat (?n - 1)"
    using r by (simp, intro mult_right_mono) simp_all
  moreover have "(of_nat (?n - 1) :: rat) \<le> of_nat (2 ^ 53)" using assms(2) by (subst of_nat_le_iff) simp
  ultimately have prod: "\<bar>f64_round (p / 100) * of_nat (?n - 1)\<bar> \<le> 2 ^ 53" by simp
  have d: "f_div (Fin p) (Fin 100) = Fin (f64_round (p / 100))" using assms(3,4) f64_small [of "p / 100"] by simp
  have l: "u64_to_f64 (of_nat ?n - 1) = Fin (of_nat (?n - 1))" by (intro last_index_f64 n assms(2))
  have "f64_to_usize (f_mul (f_div (Fin p) (Fin 100)) (u64_to_f64 (of_nat ?n - 1))) = min (rank p ?n) (2 ^ 64 - 1)"
    by (simp only: d l f_mul.simps f64_small [OF prod] f64_to_usize_def f64.case rank_def)
  moreover have "rank p ?n < ?n" by (intro rank_less n assms(2,4))
  ultimately show ?thesis using assms(2) by (simp add: percentile_def Let_def)
qed

text \<open>
  The report of a run with samples never panics, and its latencies are what they are called:
  each is a measured sample, they are in the order of their percentiles, and the maximum bounds
  every sample of every pair.
\<close>

lemma report_ordered:
  assumes "concat (map pr_samples results) \<noteq> []" and "length (concat (map pr_samples results)) \<le> 2 ^ 53"
  shows "\<exists>r. report results = Inr r \<and>
    {rtt_p50_ns r, rtt_p90_ns r, rtt_p99_ns r, rtt_p999_ns r, rtt_max_ns r} \<subseteq> set (concat (map pr_samples results)) \<and>
    rtt_p50_ns r \<le> rtt_p90_ns r \<and> rtt_p90_ns r \<le> rtt_p99_ns r \<and> rtt_p99_ns r \<le> rtt_p999_ns r \<and> rtt_p999_ns r \<le> rtt_max_ns r \<and>
    (\<forall>x \<in> set (concat (map pr_samples results)). x \<le> rtt_max_ns r)"
proof -
  define all where "all = concat (map pr_samples results)"
  define xs where "xs = sort all"
  define q where "q = f64_round (999 / 10)"
  have len: "length xs = length all" and set: "set xs = set all" and sorted: "sorted xs" by (simp_all add: xs_def)
  have ne: "xs \<noteq> []" "0 < length xs" "length xs \<le> 2 ^ 53" using assms len by (auto simp: all_def)
  have q: "to_f64 (999 / 10) = Fin q" unfolding q_def by (intro f64_small) simp
  have "f64_round 99 = 99" "f64_round 100 = 100" using f64_round_int [of 99] f64_round_int [of 100] by simp_all
  then have bounds: "99 \<le> q" "q \<le> 100" unfolding q_def by (auto intro: rnd.rep_le rnd.le_rep)
  have at: "percentile xs (Fin p) = Inr (xs ! rank p (length xs))" "rank p (length xs) < length xs" if "0 \<le> p" "p \<le> 100" for p
    using that ne by (simp_all add: percentile_rank rank_less)
  have up: "xs ! rank p (length xs) \<le> xs ! rank p' (length xs)" if "p \<le> p'" "p' \<le> 100" "0 \<le> p'" for p p'
    using that at(2) sorted by (intro sorted_nth_mono rank_mono)
  have top: "xs ! i \<le> xs ! (length xs - 1)" if "i < length xs" for i
    using that sorted ne by (intro sorted_nth_mono) auto
  have in_set: "xs ! i \<in> set all" if "i < length xs" for i using that set nth_mem by blast
  let ?r = "\<lparr> rtt_p50_ns = xs ! rank 50 (length xs), rtt_p90_ns = xs ! rank 90 (length xs), rtt_p99_ns = xs ! rank 99 (length xs),
    rtt_p999_ns = xs ! rank q (length xs), rtt_max_ns = xs ! (length xs - 1), rtt_mean_ns = mean_ns xs, throughput = tput results \<rparr>"
  have "report results = Inr ?r"
    using ne at(1) bounds by (simp add: report_def q flip: all_def xs_def)
  moreover have "\<forall>x \<in> set all. x \<le> xs ! (length xs - 1)" using top by (auto simp: in_set_conv_nth simp flip: set)
  ultimately show ?thesis
    unfolding all_def [symmetric] using at(2) bounds up in_set top ne by (intro exI [of _ ?r]) simp
qed

text \<open>An instance.\<close>

lemma report_ordered_witness:
  "\<exists>r. report [\<lparr> pr_samples = [7, 3], pr_elapsed_ns = 10, pr_iters = 2 \<rparr>, \<lparr> pr_samples = [5], pr_elapsed_ns = 5, pr_iters = 1 \<rparr>] = Inr r \<and>
     rtt_p50_ns r \<le> rtt_max_ns r \<and> 7 \<le> rtt_max_ns r \<and> 3 \<le> rtt_max_ns r \<and> 5 \<le> rtt_max_ns r"
  (is "\<exists>r. report ?res = _ \<and> _")
proof -
  have "concat (map pr_samples ?res) \<noteq> []" "length (concat (map pr_samples ?res)) \<le> 2 ^ 53" by simp_all
  from report_ordered [OF this] show ?thesis by (fastforce intro: order_trans)
qed

section \<open>The shared mapping\<close>

lemma next_multiple_dvd: "64 dvd unat (next_multiple_of n 64)"
proof -
  let ?r = "unat n mod 64"
  have r: "unat (n mod 64) = ?r" by (simp add: unat_mod_distrib)
  have z: "n mod 64 = 0 \<longleftrightarrow> ?r = 0" using r by (metis unat_eq_zero)
  have le: "n mod 64 \<le> 64" using r by (simp add: word_le_nat_alt)
  have "unat (64 - n mod 64) = 64 - ?r" using unat_sub_le [OF le] r by simp
  then have eq: "unat (next_multiple_of n 64) = (if ?r = 0 then unat n else (unat n + (64 - ?r)) mod 2 ^ 64)"
    using z by (simp add: next_multiple_of_def unat_word_ariths)
  have "64 * q + r + (64 - r) = 64 * Suc q" if "r < 64" for q r :: nat using that by simp
  from this [of ?r "unat n div 64"] have "unat n + (64 - ?r) = 64 * Suc (unat n div 64)" unfolding mult_div_mod_eq by simp
  then have "64 dvd (unat n + (64 - ?r)) mod 2 ^ 64" by (intro dvd_mod) (simp_all only: dvd_triv_left, simp)
  then show ?thesis unfolding eq by auto
qed

lemma next_multiple_id: "64 dvd unat n \<Longrightarrow> next_multiple_of n 64 = n"
  by (simp add: next_multiple_of_def word_unat_eq_iff [of "n mod 64" 0] unat_mod_distrib del: word_unat_eq_iff)

lemma parse_opts_accepts:
  assumes "parse_opts args = Inr opts"
  shows "0 < pp_pairs opts \<and> 0 < pp_iters opts \<and> 64 dvd unat (pp_payload opts)"
  using assms next_multiple_dvd
  by (auto simp: parse_opts_def CACHE_LINE_def word_gt_0 split: sum.splits if_splits)

text \<open>
  The pairs of a run never share memory. Whenever the options are accepted and the mapping the
  code asks for does not exceed the address space, a pair's slot is exactly its channel and its
  payload, both of whole cache lines; every slot lies inside the mapping, starts on a cache line, and
  is disjoint from the slot of every other pair.
\<close>

lemma channels_disjoint:
  assumes "parse_opts args = Inr opts" and "i < pp_pairs opts" and "j < pp_pairs opts" and "i \<noteq> j"
    and "(size_of_Channel + unat (pp_payload opts)) * unat (pp_pairs opts) < 2 ^ 64"
  shows "unat (ch_sz opts) = size_of_Channel + unat (pp_payload opts) \<and> CACHE_LINE dvd unat (pp_payload opts) \<and>
    channel_bytes opts i \<inter> channel_bytes opts j = {} \<and>
    channel_bytes opts i \<subseteq> {0 ..< unat (ch_sz opts * pp_pairs opts)} \<and>
    CACHE_LINE dvd unat (ch_sz opts * i)"
proof -
  let ?p = "unat (pp_payload opts)" and ?k = "unat (ch_sz opts)" and ?n = "unat (pp_pairs opts)"
  have n: "unat i < ?n" "unat j < ?n" "unat i \<noteq> unat j" using assms(2-4) by (simp_all add: word_less_nat_alt word_unat_eq_iff)
  have "128 + ?p \<le> (128 + ?p) * ?n" using n(1) by (cases ?n) auto
  also have "\<dots> < 2 ^ 64" using assms(5) by (simp only: size_of_Channel_def CACHE_LINE_def mult_2 numeral_plus_numeral) simp
  finally have p: "128 + ?p < 2 ^ 64" .
  let ?c = "of_nat size_of_Channel + pp_payload opts :: u64"
  have d: "64 dvd ?p" using parse_opts_accepts [OF assms(1)] by simp
  have c: "unat ?c = 128 + ?p" using p by (simp add: size_of_Channel_def CACHE_LINE_def unat_word_ariths)
  have eq: "?k = size_of_Channel + ?p" using next_multiple_id [of ?c] c d by (simp add: ch_sz_def size_of_Channel_def CACHE_LINE_def)
  then have k: "64 dvd ?k" using d by (simp add: size_of_Channel_def CACHE_LINE_def)
  have "?k * ?n < 2 ^ 64" using assms(5) eq by simp
  then have at: "unat (ch_sz opts * m) = ?k * unat m" if "unat m \<le> ?n" for m
    using that by (simp add: unat_word_ariths) (meson mod_less mult_le_mono2 order_le_less_trans)
  have bytes: "channel_bytes opts m \<subseteq> {?k * unat m ..< ?k * Suc (unat m)}" if "unat m \<le> ?n" for m
    using eq at [OF that] by (auto simp: channel_bytes_def Let_def)
  have apart: "{?k * a ..< ?k * Suc a} \<inter> {?k * b ..< ?k * Suc b} = {}" if "a < b" for a b
    using mult_le_mono2 [of "Suc a" b ?k] that by auto
  have "channel_bytes opts i \<inter> channel_bytes opts j = {}"
    using bytes [of i] bytes [of j] n apart [of "unat i" "unat j"] apart [of "unat j" "unat i"] by (cases "unat i < unat j") fastforce+
  moreover have "?k * Suc (unat i) \<le> ?k * ?n" using n(1) by (intro mult_le_mono2) simp
  then have "channel_bytes opts i \<subseteq> {0 ..< unat (ch_sz opts * pp_pairs opts)}" using bytes [of i] at [of "pp_pairs opts"] n by fastforce
  moreover have "CACHE_LINE dvd unat (ch_sz opts * i)" using k at [of i] n by (simp add: CACHE_LINE_def)
  ultimately show ?thesis using eq d by (simp add: CACHE_LINE_def)
qed

text \<open>An instance.\<close>

lemma channels_disjoint_witness:
  "\<exists>opts. parse_opts [''-p'', ''2'', ''-s'', ''+100''] = Inr opts \<and> ch_sz opts = 256 \<and> channel_bytes opts 0 \<inter> channel_bytes opts 1 = {}"
proof -
  let ?opts = "PpOpts_default\<lparr> pp_pairs := 2, pp_payload := 128 \<rparr>"
  have p: "parse_opts [''-p'', ''2'', ''-s'', ''+100''] = Inr ?opts"
    by (simp add: parse_opts_def flag_update_def parse_u64_def digit_of_def next_multiple_of_def PpOpts_default_def CACHE_LINE_def)
  have "0 < pp_pairs ?opts" "1 < pp_pairs ?opts" "(0 :: u64) \<noteq> 1" by simp_all
  moreover have "(size_of_Channel + unat (pp_payload ?opts)) * unat (pp_pairs ?opts) < 2 ^ 64"
    by (simp add: size_of_Channel_def CACHE_LINE_def)
  ultimately have "channel_bytes ?opts 0 \<inter> channel_bytes ?opts 1 = {}"
    using channels_disjoint [OF p] by blast
  moreover have "ch_sz ?opts = 256" by (simp add: ch_sz_def next_multiple_of_def size_of_Channel_def CACHE_LINE_def)
  ultimately show ?thesis using p by blast
qed

text \<open>
  With overflow checks compiled in, the server's first answer of a payload of two or more cache lines
  aborts it: the stamp \<open>!i\<close> is too close to the end of the range to add an offset to.
\<close>

lemma payload_write_debug:
  assumes "0 < i" and "i < 64" and "1 < lines"
  shows "payload_write True lines (NOT (of_nat i)) = Inl ArithOverflow"
proof -
  have "(NOT (of_nat i) :: u64) = - 1 - of_nat i" by (simp add: not_eq_complement)
  moreover have "unat (of_nat i :: u64) = i" using assms(2) by (simp add: unsigned_of_nat take_bit_nat_eq_self)
  moreover have "unat (- 1 :: u64) = 2 ^ 64 - 1" unfolding unsigned_minus_1_eq_mask by (simp add: mask_eq_exp_minus_1)
  ultimately have "unat (NOT (of_nat i) :: u64) = 2 ^ 64 - 1 - i" using unat_sub_le [of "of_nat i :: u64" "- 1"] by simp
  moreover obtain l where "[0 ..< lines] = 0 # 1 # l" using assms(3) by (metis less_trans upt_conv_Cons One_nat_def zero_less_one)
  moreover have "(18446744073709551616 :: nat) \<le> 18446744073709551679 - i" using assms(2) by linarith
  ultimately show ?thesis using assms by (simp add: payload_write_def)
qed

end
