(* ===== verification/Bench_Main.thy ===== *)
theory Bench_Main
  imports Pingpong_Report Text_Format
begin

text \<open>
  The \<open>main\<close> of the IPC benchmark, \<open>bench/ipc_pingpong/src/main.rs\<close>: the mapping, the forked processes,
  the waiting, and the lines it prints. The kernel's answers are the inputs: whether \<open>mmap\<close> succeeds,
  what \<open>fork\<close> returns, how a process ended, and what the clients left in the shared results.
\<close>

section \<open>Processes\<close>

text \<open>How \<open>waitpid\<close> reports a process: \<open>WIFEXITED\<close> with its status, or ended by a signal.\<close>

datatype wait_status = Exited int | Signaled int

record BenchEnv =
  be_mmap :: "u64 \<Rightarrow> bool"
  be_fork :: "nat \<Rightarrow> int"                     \<comment> \<open>the value of the n-th \<open>fork\<close> in the parent\<close>
  be_wait :: "int \<Rightarrow> wait_status option"       \<comment> \<open>\<open>None\<close> when \<open>waitpid\<close> fails\<close>
  be_results :: "PairResult list"

text \<open>What the parent does to its children, in order.\<close>

datatype bench_event = Forked int | Waited int | Killed int

datatype bench_end =
    Finished string          \<comment> \<open>exit status 0, with what was printed\<close>
  | Died string              \<comment> \<open>\<open>die\<close>: a message on stderr and exit status 1\<close>
  | UsageShown               \<comment> \<open>exit status 2\<close>
  | BenchPanicked panic string

text \<open>\<open>spawn\<close> in the parent, \<open>n\<close> counting the forks before it.\<close>

definition spawn :: "BenchEnv \<Rightarrow> nat \<Rightarrow> string + int" where
  "spawn env n = (if be_fork env n < 0 then Inl ''fork failed'' else Inr (be_fork env n))"

text \<open>The pids of \<open>n\<close> forks, the first being number \<open>i\<close>; a failed fork ends the run.\<close>

fun spawn_all :: "BenchEnv \<Rightarrow> nat \<Rightarrow> nat \<Rightarrow> (int list \<times> string) + int list" where
  "spawn_all env i 0 = Inr []"
| "spawn_all env i (Suc n) =
     (case spawn env i of
        Inl e \<Rightarrow> Inl ([], e)
      | Inr pid \<Rightarrow> (case spawn_all env (Suc i) n of Inl (pids, e) \<Rightarrow> Inl (pid # pids, e) | Inr pids \<Rightarrow> Inr (pid # pids)))"

text \<open>The loop over the workers: how many were waited for, and \<open>failed\<close>.\<close>

fun wait_all :: "BenchEnv \<Rightarrow> int list \<Rightarrow> bool \<Rightarrow> int list \<times> (string + bool)" where
  "wait_all env [] failed = ([], Inr failed)"
| "wait_all env (pid # pids) failed =
     (case be_wait env pid of
        None \<Rightarrow> ([pid], Inl ''waitpid failed'')
      | Some status \<Rightarrow>
          let (waited, r) = wait_all env pids (failed \<or> status \<noteq> Exited 0) in (pid # waited, r))"

section \<open>Output\<close>

definition header_line :: "PpOpts \<Rightarrow> nat \<Rightarrow> string" where
  "header_line opts n =
     ''# ipc_pingpong pairs='' @ show_word (pp_pairs opts) @ '' iters='' @ show_word (pp_iters opts) @ '' warmup='' @ show_word (pp_warmup opts) @
     '' payload='' @ show_word (pp_payload opts) @ '' background='' @ show_word (pp_background opts) @ '' samples='' @ show_nat n"

definition result_line :: "string \<Rightarrow> string \<Rightarrow> string" where
  "result_line name v = ''RESULT '' @ name @ '' '' @ v"

definition report_lines :: "Report \<Rightarrow> string list" where
  "report_lines r =
     [result_line ''rtt_p50_ns'' (show_word (rtt_p50_ns r)), result_line ''rtt_p90_ns'' (show_word (rtt_p90_ns r)),
      result_line ''rtt_p99_ns'' (show_word (rtt_p99_ns r)), result_line ''rtt_p999_ns'' (show_word (rtt_p999_ns r)),
      result_line ''rtt_max_ns'' (show_word (rtt_max_ns r)), result_line ''rtt_mean_ns'' (fixed 0 (rtt_mean_ns r)),
      result_line ''throughput_msgs_per_sec'' (fixed 0 (throughput r))]"

definition writelns :: "string list \<Rightarrow> string" where
  "writelns ls = concat (map (\<lambda>l. l @ newline) ls)"

definition print_report :: "PpOpts \<Rightarrow> PairResult list \<Rightarrow> bench_end" where
  "print_report opts results =
     (let head = header_line opts (length (concat (map pr_samples results)))
      in case report results of
           Inl e \<Rightarrow> BenchPanicked e (writelns [head])
         | Inr r \<Rightarrow> Finished (writelns (head # report_lines r)))"

section \<open>main\<close>

definition size_of_PairResult :: u64 where
  "size_of_PairResult = of_nat (24 + 4 * MAX_SAMPLES)"

definition bench_main :: "string list \<Rightarrow> BenchEnv \<Rightarrow> bench_event list \<times> bench_end" where
  "bench_main args env =
     (case parse_opts args of
        Inl Usage \<Rightarrow> ([], UsageShown)
      | Inl (NeedsNumber flag) \<Rightarrow> ([], Died (flag @ '' needs a numeric argument''))
      | Inr opts \<Rightarrow>
          if \<not> be_mmap env (ch_sz opts * pp_pairs opts) \<or> \<not> be_mmap env (size_of_PairResult * pp_pairs opts) then ([], Died ''mmap failed'')
          else
            (case spawn_all env 0 (unat (pp_background opts)) of
               Inl (pids, e) \<Rightarrow> (map Forked pids, Died e)
             | Inr spinners \<Rightarrow>
                 (case spawn_all env (unat (pp_background opts)) (2 * unat (pp_pairs opts)) of
                    Inl (pids, e) \<Rightarrow> (map Forked (spinners @ pids), Died e)
                  | Inr workers \<Rightarrow>
                      let forks = map Forked (spinners @ workers); (waited, r) = wait_all env workers False
                      in case r of
                           Inl e \<Rightarrow> (forks @ map Waited waited, Died e)
                         | Inr failed \<Rightarrow>
                             (forks @ map Waited waited @ concat (map (\<lambda>pid. [Killed pid, Waited pid]) spinners),
                              if failed then Died ''a worker process failed'' else print_report opts (be_results env)))))"

section \<open>A report is printed only for a run that went well\<close>

lemma spawn_all_forks:
  "spawn_all env i n = Inr pids \<longleftrightarrow> pids = map (be_fork env) [i ..< i + n] \<and> (\<forall>j \<in> {i ..< i + n}. 0 \<le> be_fork env j)"
proof (induction n arbitrary: i pids)
  case (Suc n)
  have split: "[i ..< i + Suc n] = i # [Suc i ..< Suc i + n]" "{i ..< i + Suc n} = insert i {Suc i ..< Suc i + n}"
    by (auto simp: upt_conv_Cons)
  show ?case
  proof (cases "be_fork env i < 0")
    case True
    then show ?thesis unfolding split by (auto simp: spawn_def)
  next
    case False
    then have "spawn_all env i (Suc n) = Inr pids \<longleftrightarrow> (\<exists>ps. spawn_all env (Suc i) n = Inr ps \<and> pids = be_fork env i # ps)"
      by (auto simp: spawn_def split: sum.splits)
    then show ?thesis using False unfolding split Suc.IH by auto
  qed
qed auto

lemma wait_all_status:
  "wait_all env pids failed =
     (case find (\<lambda>pid. be_wait env pid = None) pids of
        Some _ \<Rightarrow> (takeWhile (\<lambda>pid. be_wait env pid \<noteq> None) pids @ [hd (dropWhile (\<lambda>pid. be_wait env pid \<noteq> None) pids)], Inl ''waitpid failed'')
      | None \<Rightarrow> (pids, Inr (failed \<or> (\<exists>pid \<in> set pids. be_wait env pid \<noteq> Some (Exited 0)))))"
  by (induction env pids failed rule: wait_all.induct) (auto simp: Let_def split: option.splits)

lemma wait_all_ok:
  "wait_all env pids failed = (waited, Inr False) \<longleftrightarrow> waited = pids \<and> \<not> failed \<and> (\<forall>pid \<in> set pids. be_wait env pid = Some (Exited 0))"
  unfolding wait_all_status by (auto simp: find_None_iff find_Some_iff split: option.splits)

text \<open>The workers and spinners of a run whose forks succeed.\<close>

definition spinner_pids :: "BenchEnv \<Rightarrow> PpOpts \<Rightarrow> int list" where
  "spinner_pids env opts = map (be_fork env) [0 ..< unat (pp_background opts)]"

definition worker_pids :: "BenchEnv \<Rightarrow> PpOpts \<Rightarrow> int list" where
  "worker_pids env opts = map (be_fork env) [unat (pp_background opts) ..< unat (pp_background opts) + 2 * unat (pp_pairs opts)]"

definition run_ok :: "BenchEnv \<Rightarrow> PpOpts \<Rightarrow> bool" where
  "run_ok env opts \<longleftrightarrow> be_mmap env (ch_sz opts * pp_pairs opts) \<and> be_mmap env (size_of_PairResult * pp_pairs opts) \<and>
     (\<forall>pid \<in> set (spinner_pids env opts @ worker_pids env opts). 0 \<le> pid) \<and> (\<forall>pid \<in> set (worker_pids env opts). be_wait env pid = Some (Exited 0))"

lemma print_report_finished:
  "print_report opts results = Finished out \<longleftrightarrow> (\<exists>r. report results = Inr r \<and>
     out = writelns (header_line opts (length (concat (map pr_samples results))) # report_lines r))"
  by (auto simp: print_report_def Let_def split: sum.splits)

lemma bench_main_finished:
  "bench_main args env = (evs, Finished out) \<longleftrightarrow>
     (\<exists>opts. parse_opts args = Inr opts \<and> run_ok env opts \<and> print_report opts (be_results env) = Finished out \<and>
        evs = map Forked (spinner_pids env opts @ worker_pids env opts) @ map Waited (worker_pids env opts) @
          concat (map (\<lambda>pid. [Killed pid, Waited pid]) (spinner_pids env opts)))"
proof (cases "parse_opts args")
  case (Inl e)
  then show ?thesis by (cases e) (auto simp: bench_main_def)
next
  case (Inr opts)
  let ?b = "unat (pp_background opts)" and ?p = "2 * unat (pp_pairs opts)"
  have ok: "run_ok env opts \<longleftrightarrow> be_mmap env (ch_sz opts * pp_pairs opts) \<and> be_mmap env (size_of_PairResult * pp_pairs opts) \<and>
      spawn_all env 0 ?b = Inr (spinner_pids env opts) \<and> spawn_all env ?b ?p = Inr (worker_pids env opts) \<and>
      wait_all env (worker_pids env opts) False = (worker_pids env opts, Inr False)"
    unfolding spawn_all_forks wait_all_ok by (auto simp: run_ok_def spinner_pids_def worker_pids_def)
  have pids: "spawn_all env 0 ?b = Inr sp \<Longrightarrow> sp = spinner_pids env opts" "spawn_all env ?b ?p = Inr wp \<Longrightarrow> wp = worker_pids env opts" for sp wp
    unfolding spawn_all_forks by (simp_all add: spinner_pids_def worker_pids_def)
  have waits: "wait_all env wp False = (w, Inr f) \<Longrightarrow> w = wp" for wp w f
    unfolding wait_all_status by (auto split: option.splits)
  show ?thesis
  proof
    assume m: "bench_main args env = (evs, Finished out)"
    then obtain sp wp w where "be_mmap env (ch_sz opts * pp_pairs opts)" "be_mmap env (size_of_PairResult * pp_pairs opts)"
      "spawn_all env 0 ?b = Inr sp" "spawn_all env ?b ?p = Inr wp" "wait_all env wp False = (w, Inr False)"
      "evs = map Forked (sp @ wp) @ map Waited w @ concat (map (\<lambda>pid. [Killed pid, Waited pid]) sp)"
      "print_report opts (be_results env) = Finished out"
      unfolding bench_main_def Inr by (auto simp: Let_def split: if_splits sum.splits prod.splits)
    then show "\<exists>opts. parse_opts args = Inr opts \<and> run_ok env opts \<and> print_report opts (be_results env) = Finished out \<and>
        evs = map Forked (spinner_pids env opts @ worker_pids env opts) @ map Waited (worker_pids env opts) @
          concat (map (\<lambda>pid. [Killed pid, Waited pid]) (spinner_pids env opts))"
      using pids waits Inr ok by blast
  next
    assume "\<exists>opts. parse_opts args = Inr opts \<and> run_ok env opts \<and> print_report opts (be_results env) = Finished out \<and>
        evs = map Forked (spinner_pids env opts @ worker_pids env opts) @ map Waited (worker_pids env opts) @
          concat (map (\<lambda>pid. [Killed pid, Waited pid]) (spinner_pids env opts))"
    then show "bench_main args env = (evs, Finished out)" using ok by (auto simp: bench_main_def Inr)
  qed
qed

section \<open>Reading the report back\<close>

lemma parse_digits_append: "parse_digits acc (xs @ ys) = Option.bind (parse_digits acc xs) (\<lambda>a. parse_digits a ys)"
  by (induction acc xs rule: parse_digits.induct) (auto split: option.splits)

lemma digit_of_char: "d < 10 \<Longrightarrow> digit_of (digit_char d) = Some d"
  by (simp add: digit_of_def digit_char_def)

lemma parse_show_nat: "n < 2 ^ 64 \<Longrightarrow> parse_digits 0 (show_nat n) = Some n"
proof (induction n rule: show_nat.induct)
  case (1 n)
  show ?case
  proof (cases "n < 10")
    case True
    then show ?thesis by (subst show_nat.simps) (simp add: digit_of_char)
  next
    case False
    have "parse_digits 0 (show_nat (n div 10)) = Some (n div 10)" using "1.IH" [OF False] "1.prems" by (meson div_le_dividend le_less_trans)
    moreover have "10 * (n div 10) + n mod 10 = n" by simp
    ultimately show ?thesis using False "1.prems" by (subst show_nat.simps) (simp add: parse_digits_append digit_of_char not_le)
  qed
qed

lemma parse_show_u64: "n < 2 ^ 64 \<Longrightarrow> parse_u64 (show_nat n) = Some (of_nat n)"
proof -
  assume n: "n < 2 ^ 64"
  obtain c cs where c: "show_nat n = c # cs" by (cases "show_nat n") auto
  then have "is_digit c" using show_nat_digits [of c n] by simp
  then have "c \<noteq> CHR ''+''" by (auto simp: is_digit_def)
  then show ?thesis using parse_show_nat [OF n] by (simp add: parse_u64_def c)
qed

text \<open>The lines that \<open>bench/run-suite.sh\<close> greps for: the value of the first \<open>RESULT\<close> line with this name.\<close>

definition read_result :: "string \<Rightarrow> string \<Rightarrow> u64 option" where
  "read_result name out = Option.bind (find_map (strip_prefix (''RESULT '' @ name @ '' '')) (split_lines [] out)) parse_u64"

lemma strip_prefix_same [simp]: "strip_prefix p (p @ s) = Some s"
  by (induction p) simp_all

lemma header_no_newline: "CHR 0x0A \<notin> set (header_line opts n)"
  by (auto simp: header_line_def show_word_def no_newline)

lemma report_no_newline: "l \<in> set (report_lines r) \<Longrightarrow> CHR 0x0A \<notin> set l"
  by (auto simp: report_lines_def result_line_def show_word_def no_newline)

lemma report_split: "split_lines [] (writelns (header_line opts n # report_lines r)) = header_line opts n # report_lines r"
  unfolding writelns_def by (rule split_writeln) (use header_no_newline report_no_newline in auto)

lemma parse_show_u32: "parse_u64 (show_word w) = Some (of_nat (unat w))" for w :: u32
proof -
  have "unat w < 2 ^ 64" using unsigned_less [of w, where ?'a = nat] by simp
  then show ?thesis by (simp add: show_word_def parse_show_u64)
qed

text \<open>
  C40. The benchmark reports only runs that went well, and what it prints can be read back. The program
  finishes normally exactly when its arguments are accepted, both mappings and every fork succeed, every
  worker of every pair exits with status 0, and there are samples to report. Before it prints, it has
  waited for all workers and then killed and reaped every background process; and reading the \<open>RESULT\<close>
  lines of its output, as the benchmark suite does, gives exactly the latencies of the report.
\<close>

theorem bench_report_roundtrip:
  "(\<exists>evs out. bench_main args env = (evs, Finished out)) =
     (\<exists>opts r. parse_opts args = Inr opts \<and> run_ok env opts \<and> report (be_results env) = Inr r) \<and>
   (\<forall>evs out. bench_main args env = (evs, Finished out) \<longrightarrow>
     (\<exists>opts r. parse_opts args = Inr opts \<and> report (be_results env) = Inr r \<and>
        evs = map Forked (spinner_pids env opts @ worker_pids env opts) @ map Waited (worker_pids env opts) @
          concat (map (\<lambda>pid. [Killed pid, Waited pid]) (spinner_pids env opts)) \<and>
        read_result ''rtt_p50_ns'' out = Some (of_nat (unat (rtt_p50_ns r))) \<and> read_result ''rtt_p90_ns'' out = Some (of_nat (unat (rtt_p90_ns r))) \<and>
        read_result ''rtt_p99_ns'' out = Some (of_nat (unat (rtt_p99_ns r))) \<and> read_result ''rtt_p999_ns'' out = Some (of_nat (unat (rtt_p999_ns r))) \<and>
        read_result ''rtt_max_ns'' out = Some (of_nat (unat (rtt_max_ns r)))))"
proof (intro conjI allI impI)
  show "(\<exists>evs out. bench_main args env = (evs, Finished out)) =
     (\<exists>opts r. parse_opts args = Inr opts \<and> run_ok env opts \<and> report (be_results env) = Inr r)"
    unfolding bench_main_finished print_report_finished by blast
next
  fix evs out assume "bench_main args env = (evs, Finished out)"
  then obtain opts r where o: "parse_opts args = Inr opts" "report (be_results env) = Inr r"
    and evs: "evs = map Forked (spinner_pids env opts @ worker_pids env opts) @ map Waited (worker_pids env opts) @
          concat (map (\<lambda>pid. [Killed pid, Waited pid]) (spinner_pids env opts))"
    and out: "out = writelns (header_line opts (length (concat (map pr_samples (be_results env)))) # report_lines r)"
    unfolding bench_main_finished print_report_finished by blast
  have "read_result ''rtt_p50_ns'' out = Some (of_nat (unat (rtt_p50_ns r)))" "read_result ''rtt_p90_ns'' out = Some (of_nat (unat (rtt_p90_ns r)))"
    "read_result ''rtt_p99_ns'' out = Some (of_nat (unat (rtt_p99_ns r)))" "read_result ''rtt_p999_ns'' out = Some (of_nat (unat (rtt_p999_ns r)))"
    "read_result ''rtt_max_ns'' out = Some (of_nat (unat (rtt_max_ns r)))"
    unfolding out read_result_def report_split by (simp_all add: header_line_def report_lines_def result_line_def parse_show_u32)
  then show "\<exists>opts r. parse_opts args = Inr opts \<and> report (be_results env) = Inr r \<and>
        evs = map Forked (spinner_pids env opts @ worker_pids env opts) @ map Waited (worker_pids env opts) @
          concat (map (\<lambda>pid. [Killed pid, Waited pid]) (spinner_pids env opts)) \<and>
        read_result ''rtt_p50_ns'' out = Some (of_nat (unat (rtt_p50_ns r))) \<and> read_result ''rtt_p90_ns'' out = Some (of_nat (unat (rtt_p90_ns r))) \<and>
        read_result ''rtt_p99_ns'' out = Some (of_nat (unat (rtt_p99_ns r))) \<and> read_result ''rtt_p999_ns'' out = Some (of_nat (unat (rtt_p999_ns r))) \<and>
        read_result ''rtt_max_ns'' out = Some (of_nat (unat (rtt_max_ns r)))"
    using o evs by blast
qed

definition demo_bench :: BenchEnv where
  "demo_bench = \<lparr> be_mmap = (\<lambda>_. True), be_fork = (\<lambda>n. 100 + int n), be_wait = (\<lambda>_. Some (Exited 0)),
     be_results = [\<lparr> pr_samples = [7], pr_elapsed_ns = 10, pr_iters = 1 \<rparr>] \<rparr>"

text \<open>Witness of C40: one pair and one background process.\<close>

theorem bench_report_roundtrip_witness:
  "\<exists>evs out. bench_main [''-b'', ''1''] demo_bench = (evs, Finished out) \<and> read_result ''rtt_max_ns'' out = Some 7 \<and>
     evs = [Forked 100, Forked 101, Forked 102, Waited 101, Waited 102, Killed 100, Waited 100]"
proof -
  let ?args = "[''-b'', ''1'']" and ?opts = "PpOpts_default\<lparr> pp_background := 1 \<rparr>"
  have args: "parse_opts ?args = Inr ?opts"
    by (simp add: parse_opts_def flag_update_def parse_u64_def digit_of_def PpOpts_default_def CACHE_LINE_def next_multiple_of_def)
  obtain r where r: "report (be_results demo_bench) = Inr r" "rtt_max_ns r = 7"
    using report_ordered [of "be_results demo_bench"] by (auto simp: demo_bench_def)
  have "run_ok demo_bench ?opts" by (auto simp: run_ok_def demo_bench_def worker_pids_def spinner_pids_def)
  with args r bench_report_roundtrip [of ?args demo_bench] show ?thesis
    by (fastforce simp: worker_pids_def spinner_pids_def demo_bench_def PpOpts_default_def upt_rec)
qed

end
