(* ===== verification/Bpf_Kernel.thy ===== *)
theory Bpf_Kernel
  imports Daemon_Main "HOL-Library.Multiset"
begin

text \<open>
  What the BPF program \<open>scx_cohort/src/bpf/main.bpf.c\<close> calls of the kernel: the map helpers, seen from
  the other side than in \<open>Kernel_Maps\<close>, and the functions of \<open>sched_ext\<close> for dispatch queues and idle
  CPUs. Both are records of operations on an abstract state. The locales \<open>bpf_side\<close> and \<open>scx_kernel\<close> state
  their documented behaviour; \<open>bpf_side\<close> extends the daemon's contract \<open>bpf_maps\<close> on the same maps. A
  reference kernel interprets each.
\<close>

section \<open>Tasks\<close>

text \<open>The fields of \<open>task_struct\<close> that the program reads.\<close>

record Task =
  tk_pid :: u32
  tk_tgid :: u32
  tk_cpus_ptr :: "nat set"
  tk_nr_cpus_allowed :: nat
  tk_weight :: u32
  tk_comm :: bytes

text \<open>
  What a callback finds: the clock, the CPU it runs on, the current task, and the CPU of the task it is
  called for.
\<close>

record Ctx =
  cx_now :: u64
  cx_cpu :: nat
  cx_current :: "Task option"
  cx_task_cpu :: int

section \<open>Map helpers\<close>

text \<open>
  \<open>map_store\<close> writes through the pointer that a lookup returned. The callers ignore the result of
  \<open>bpf_map_update_elem\<close> and \<open>bpf_map_delete_elem\<close>.
\<close>

record 'k bpf_helpers =
  map_lookup_elem :: "map_id \<Rightarrow> bytes \<Rightarrow> 'k \<Rightarrow> bytes option"
  map_update_elem :: "map_id \<Rightarrow> bytes \<Rightarrow> bytes \<Rightarrow> map_flags \<Rightarrow> 'k \<Rightarrow> 'k"
  map_delete_elem :: "map_id \<Rightarrow> bytes \<Rightarrow> 'k \<Rightarrow> 'k"
  map_store :: "map_id \<Rightarrow> bytes \<Rightarrow> bytes \<Rightarrow> 'k \<Rightarrow> 'k"

text \<open>
  An update of a hash map can fail, when the map is full or the flags forbid it, and then changes
  nothing; overwriting an entry does not fail. The LRU map may drop other entries.
\<close>

locale bpf_side = bpf_maps ko contents kinv
  for ko :: "'k kernel_ops" and contents and kinv +
  fixes bh :: "'k bpf_helpers"
  assumes h_lookup: "kinv k \<Longrightarrow> map_lookup_elem bh m key k = contents m k key"
    and h_update: "kinv k \<Longrightarrow> length key = key_size m \<Longrightarrow> length v = val_size m \<Longrightarrow>
      kinv (map_update_elem bh m key v fl k) \<and>
      (m' \<noteq> m \<longrightarrow> contents m' (map_update_elem bh m key v fl k) = contents m' k) \<and>
      (plain_hash m \<longrightarrow> contents m (map_update_elem bh m key v fl k) = contents m k \<or>
         flags_allow fl (contents m k key) \<and> contents m (map_update_elem bh m key v fl k) = (contents m k)(key \<mapsto> v))"
    and h_update_present: "kinv k \<Longrightarrow> plain_hash m \<Longrightarrow> length key = key_size m \<Longrightarrow> length v = val_size m \<Longrightarrow>
      contents m k key \<noteq> None \<Longrightarrow> fl \<noteq> F_NO_EXIST \<Longrightarrow> contents m (map_update_elem bh m key v fl k) = (contents m k)(key \<mapsto> v)"
    and h_delete: "kinv k \<Longrightarrow> plain_hash m \<Longrightarrow>
      kinv (map_delete_elem bh m key k) \<and>
      contents m' (map_delete_elem bh m key k) = (if m' = m then (contents m k)(key := None) else contents m' k)"
    and h_store: "kinv k \<Longrightarrow> contents m k key \<noteq> None \<Longrightarrow> length v = val_size m \<Longrightarrow>
      kinv (map_store bh m key v k) \<and>
      contents m' (map_store bh m key v k) = (if m' = m then (contents m k)(key \<mapsto> v) else contents m' k)"

text \<open>
  \<open>llc_load\<close> is a \<open>BPF_MAP_TYPE_ARRAY\<close>: it has an entry for every index below its size from the moment it is
  created, and none can be deleted.
\<close>

locale bpf_arrays = bpf_side ko contents kinv bh
  for ko :: "'k kernel_ops" and contents and kinv and bh +
  assumes array_entry: "kinv k \<Longrightarrow> l < MAX_LLCS \<Longrightarrow> contents llc_load k (u32_bytes l) \<noteq> None"

section \<open>Dispatch queues and idle CPUs\<close>

text \<open>The queue of the CPU that \<open>select_cpu\<close> returns, the queue of a given CPU, and the queue of an LLC.\<close>

datatype dsq = LocalDsq | LocalOn nat | LlcDsq u32

record 'x scx_ops =
  dsq_nr_queued :: "dsq \<Rightarrow> 'x \<Rightarrow> int"
  dsq_insert :: "Task \<Rightarrow> dsq \<Rightarrow> u64 \<Rightarrow> 'x \<Rightarrow> 'x"
  dsq_insert_vtime :: "Task \<Rightarrow> u32 \<Rightarrow> u64 \<Rightarrow> u64 \<Rightarrow> u64 \<Rightarrow> 'x \<Rightarrow> 'x"
  dsq_move_to_local :: "u32 \<Rightarrow> nat \<Rightarrow> 'x \<Rightarrow> bool \<times> 'x"
  idle_smtmask :: "'x \<Rightarrow> nat set"
  test_and_clear_cpu_idle :: "nat \<Rightarrow> 'x \<Rightarrow> bool \<times> 'x"
  pick_idle_cpu :: "nat set \<Rightarrow> bool \<Rightarrow> 'x \<Rightarrow> int \<times> 'x"
  any_distribute :: "nat set \<Rightarrow> 'x \<Rightarrow> nat \<times> 'x"

text \<open>
  \<open>queue\<close> is what an LLC's queue holds. Moving to the local queue takes one task of the queue
  that may run on the CPU, and fails exactly when there is none.
\<close>

locale scx_kernel =
  fixes so :: "'x scx_ops"
    and queue :: "'x \<Rightarrow> u32 \<Rightarrow> Task multiset"
    and local_queue :: "'x \<Rightarrow> nat \<Rightarrow> Task multiset"
  assumes nr_queued: "dsq_nr_queued so (LlcDsq l) x = int (size (queue x l))"
    and insert_vtime: "queue (dsq_insert_vtime so p l sl v fl x) l' = (if l' = l then add_mset p (queue x l) else queue x l')"
    and insert_local: "queue (dsq_insert so p LocalDsq sl x) = queue x"
    and move_some: "dsq_move_to_local so l cpu x = (True, x') \<Longrightarrow>
      \<exists>p. p \<in># queue x l \<and> cpu \<in> tk_cpus_ptr p \<and> queue x' = (queue x)(l := queue x l - {#p#}) \<and>
        local_queue x' = (local_queue x)(cpu := add_mset p (local_queue x cpu))"
    and move_none: "dsq_move_to_local so l cpu x = (False, x') \<Longrightarrow>
      (\<forall>p. p \<in># queue x l \<longrightarrow> cpu \<notin> tk_cpus_ptr p) \<and> queue x' = queue x \<and> local_queue x' = local_queue x"
    and clear_idle: "queue (snd (test_and_clear_cpu_idle so cpu x)) = queue x"
    and pick_idle: "0 \<le> fst (pick_idle_cpu so cpus core x) \<Longrightarrow> nat (fst (pick_idle_cpu so cpus core x)) \<in> cpus"
      "queue (snd (pick_idle_cpu so cpus core x)) = queue x"
    and distribute: "cpus \<noteq> {} \<Longrightarrow> fst (any_distribute so cpus x) \<in> cpus" "queue (snd (any_distribute so cpus x)) = queue x"

text \<open>
  \<open>idle\<close> is the set of CPUs marked idle. Claiming a CPU takes it, and no other, off the set; a search
  that asks for any CPU of a set fails only when none of them is idle.
\<close>

locale scx_idle = scx_kernel so queue local_queue
  for so :: "'x scx_ops" and queue and local_queue +
  fixes idle :: "'x \<Rightarrow> nat set"
  assumes insert_idle: "idle (dsq_insert so p LocalDsq sl x) = idle x"
    and claim_idle: "test_and_clear_cpu_idle so cpu x = (True, x') \<Longrightarrow> cpu \<in> idle x \<and> idle x' = idle x - {cpu}"
      "test_and_clear_cpu_idle so cpu x = (False, x') \<Longrightarrow> idle x' = idle x"
    and pick_some: "pick_idle_cpu so cpus core x = (c, x') \<Longrightarrow> 0 \<le> c \<Longrightarrow> nat c \<in> idle x \<and> idle x' = idle x - {nat c}"
    and pick_none: "pick_idle_cpu so cpus core x = (c, x') \<Longrightarrow> c < 0 \<Longrightarrow> idle x' = idle x \<and> (\<not> core \<longrightarrow> cpus \<inter> idle x = {})"
    and distribute_idle: "idle (snd (any_distribute so cpus x)) = idle x"

section \<open>A reference kernel\<close>

definition ref_helpers :: "ref_kernel bpf_helpers" where
  "ref_helpers = \<lparr>
     map_lookup_elem = (\<lambda>m key k. hm_get (k m) key),
     map_update_elem = (\<lambda>m key v fl k. case k_update ref_ops m key v fl k of Inl _ \<Rightarrow> k | Inr k' \<Rightarrow> k'),
     map_delete_elem = (\<lambda>m key k. case k_delete ref_ops m key k of Inl _ \<Rightarrow> k | Inr k' \<Rightarrow> k'),
     map_store = (\<lambda>m key v k. k(m := hm_insert key v (k m))) \<rparr>"

lemma ref_store:
  assumes "ref_inv k" and "ref_contents m k key \<noteq> None" and "length v = val_size m"
  shows "ref_inv (k(m := hm_insert key v (k m)))"
    and "ref_contents m' (k(m := hm_insert key v (k m))) = (if m' = m then (ref_contents m k)(key \<mapsto> v) else ref_contents m' k)"
proof -
  have s: "map_sized m (k m)" using assms(1) by (simp add: ref_inv_def)
  then have "length key = key_size m" using assms(2) map_sized_get by (auto simp: ref_contents_def)
  then show "ref_inv (k(m := hm_insert key v (k m)))" using assms(1,3) s by (intro ref_inv_upd map_sized_insert)
  show "ref_contents m' (k(m := hm_insert key v (k m))) = (if m' = m then (ref_contents m k)(key \<mapsto> v) else ref_contents m' k)"
    by (auto simp: ref_contents_def hm_get_insert)
qed

interpretation ref_bpf: bpf_side ref_ops ref_contents ref_inv ref_helpers
proof (unfold_locales, goal_cases)
  case (2 k key m v m' fl)
  have s: "map_sized m (k m)" using 2 by (simp add: ref_inv_def)
  with 2 show ?case
    using ref_inv_upd [of k m "hm_insert key v (k m)"] map_sized_insert [OF s, of key v]
    by (auto simp: ref_helpers_def ref_ops_def ref_contents_def hm_get_insert)
next
  case (3 k m key v fl)
  then show ?case by (cases fl) (auto simp: ref_helpers_def ref_ops_def ref_contents_def hm_get_insert)
next
  case (4 k m key m')
  have s: "map_sized m (k m)" using 4 by (simp add: ref_inv_def)
  show ?case
    using 4 ref_inv_upd [of k m "hm_remove key (k m)"] map_sized_remove [OF s, of key]
    by (auto simp: ref_helpers_def ref_ops_def ref_contents_def hm_get_remove hm_contains_iff fun_upd_idem_iff)
next
  case (5 k m key v m')
  then show ?case using ref_store [OF 5] by (simp add: ref_helpers_def)
qed (simp add: ref_helpers_def ref_contents_def)

text \<open>The reference kernel with its arrays in place.\<close>

definition ref_array_inv :: "ref_kernel \<Rightarrow> bool" where
  "ref_array_inv k \<longleftrightarrow> ref_inv k \<and> (\<forall>l < MAX_LLCS. hm_get (k llc_load) (u32_bytes l) \<noteq> None)"

lemma ref_array_kept:
  "ref_array_inv k \<Longrightarrow> ref_inv (k(m := hm_insert key v (k m))) \<Longrightarrow> ref_array_inv (k(m := hm_insert key v (k m)))"
  "ref_array_inv k \<Longrightarrow> ref_inv (k(m := kvs)) \<Longrightarrow> m \<noteq> llc_load \<Longrightarrow> ref_array_inv (k(m := kvs))"
  by (auto simp: ref_array_inv_def hm_get_insert)

lemma ref_array_ops:
  assumes "ref_array_inv k"
  shows "k_update ref_ops m key v fl k = Inr k' \<Longrightarrow> ref_inv k' \<Longrightarrow> ref_array_inv k'"
    and "k_delete ref_ops m key k = Inr k' \<Longrightarrow> ref_inv k' \<Longrightarrow> m \<noteq> llc_load \<Longrightarrow> ref_array_inv k'"
  using ref_array_kept [OF assms] by (auto simp: ref_ops_def split: if_splits)

interpretation ref_array_maps: bpf_maps ref_ops ref_contents ref_array_inv
proof -
  have inv: "ref_array_inv k \<Longrightarrow> ref_inv k" for k by (simp add: ref_array_inv_def)
  have ph: "plain_hash m \<Longrightarrow> m \<noteq> llc_load" for m by (auto simp: plain_hash_def)
  show "bpf_maps ref_ops ref_contents ref_array_inv"
  proof (unfold_locales, goal_cases)
    case (3 k m key v fl k' m')
    then show ?case using ref.update_effect [OF inv 3(2,3)] ref_array_ops(1) by blast
  next
    case (5 k m key v fl)
    then show ?case by (intro ref.update_present inv)
  next
    case (6 k m key k' m')
    then show ?case using ref.delete_effect [OF inv 6(2,3)] ref_array_ops(2) ph by blast
  next
    case (9 k)
    from ref.drain [OF inv [OF 9]] show ?case
      using ref_array_kept(2) [OF 9, of wake_edges "[]"] by (auto simp: ref_ops_def)
  next
    case (1 k m key v)
    then show ?case by (intro ref.sizes inv)
  next
    case (2 k m key)
    then show ?case by (intro ref.lookup inv)
  next
    case (4 m key v fl k e)
    then show ?case by (rule ref.update_error)
  next
    case (7 k m key)
    then show ?case by (intro ref.delete_present inv)
  next
    case (8 k m)
    then show ?case by (intro ref.batch inv)
  qed
qed

interpretation ref_arrays: bpf_arrays ref_ops ref_contents ref_array_inv ref_helpers
proof -
  have inv: "ref_array_inv k \<Longrightarrow> ref_inv k" for k by (simp add: ref_array_inv_def)
  have keep: "ref_array_inv (map_update_elem ref_helpers m key v fl k)"
    if "ref_array_inv k" "ref_inv (map_update_elem ref_helpers m key v fl k)" for m key v fl k
    using that ref_array_ops(1) [OF that(1)] by (auto simp: ref_helpers_def split: sum.splits)
  have del: "ref_array_inv (map_delete_elem ref_helpers m key k)"
    if "ref_array_inv k" "plain_hash m" "ref_inv (map_delete_elem ref_helpers m key k)" for m key k
    using that ref_array_ops(2) [OF that(1), of m] by (auto simp: ref_helpers_def plain_hash_def split: sum.splits)
  show "bpf_arrays ref_ops ref_contents ref_array_inv ref_helpers"
  proof (unfold_locales, goal_cases)
    case (2 k key m v m' fl)
    then show ?case using ref_bpf.h_update [OF inv 2(2,3)] keep by blast
  next
    case (4 k m key m')
    then show ?case using ref_bpf.h_delete [OF inv 4(2)] del by blast
  next
    case (5 k m key v m')
    then show ?case
      using ref_bpf.h_store [OF inv 5(2,3)] ref_array_kept(1) [OF 5(1)] by (auto simp: ref_helpers_def)
  next
    case (6 k l)
    then show ?case by (simp add: ref_array_inv_def ref_contents_def)
  next
    case (1 k m key)
    then show ?case by (intro ref_bpf.h_lookup inv)
  next
    case (3 k m key v fl)
    then show ?case by (intro ref_bpf.h_update_present inv)
  qed
qed

record ref_scx =
  rx_queues :: "u32 \<Rightarrow> (u64 \<times> Task) list"
  rx_local :: "nat \<Rightarrow> Task list"
  rx_idle :: "nat list"
  rx_idle_cores :: "nat list"

definition take_idle :: "nat \<Rightarrow> ref_scx \<Rightarrow> ref_scx" where
  "take_idle cpu x = x\<lparr> rx_idle := filter (\<lambda>c. c \<noteq> cpu) (rx_idle x), rx_idle_cores := filter (\<lambda>c. c \<noteq> cpu) (rx_idle_cores x) \<rparr>"

definition ref_scx_ops :: "ref_scx scx_ops" where
  "ref_scx_ops = \<lparr>
     dsq_nr_queued = (\<lambda>d x. case d of LlcDsq l \<Rightarrow> int (length (rx_queues x l)) | LocalOn c \<Rightarrow> int (length (rx_local x c)) | LocalDsq \<Rightarrow> 0),
     dsq_insert = (\<lambda>p d sl x. case d of LocalOn c \<Rightarrow> x\<lparr> rx_local := (rx_local x)(c := rx_local x c @ [p]) \<rparr> | _ \<Rightarrow> x),
     dsq_insert_vtime = (\<lambda>p l sl v fl x. x\<lparr> rx_queues := (rx_queues x)(l := insort_key fst (v, p) (rx_queues x l)) \<rparr>),
     dsq_move_to_local = (\<lambda>l cpu x. case filter (\<lambda>(v, p). cpu \<in> tk_cpus_ptr p) (rx_queues x l) of
         [] \<Rightarrow> (False, x)
       | e # _ \<Rightarrow> (True, x\<lparr> rx_queues := (rx_queues x)(l := remove1 e (rx_queues x l)),
                          rx_local := (rx_local x)(cpu := rx_local x cpu @ [snd e]) \<rparr>)),
     idle_smtmask = (\<lambda>x. set (rx_idle_cores x)),
     test_and_clear_cpu_idle = (\<lambda>cpu x. if cpu \<in> set (rx_idle x) then (True, take_idle cpu x) else (False, x)),
     pick_idle_cpu = (\<lambda>cpus core x. case find (\<lambda>c. c \<in> cpus) (if core then filter (\<lambda>c. c \<in> set (rx_idle x)) (rx_idle_cores x) else rx_idle x) of
         None \<Rightarrow> (- 1, x) | Some c \<Rightarrow> (int c, take_idle c x)),
     any_distribute = (\<lambda>cpus x. (LEAST c. c \<in> cpus, x)) \<rparr>"

lemma mset_remove1_map: "e \<in> set xs \<Longrightarrow> image_mset f (mset xs - {#e#}) = image_mset f (mset xs) - {#f e#}"
  by (simp add: image_mset_Diff)

interpretation ref_scx: scx_kernel ref_scx_ops "\<lambda>x l. mset (map snd (rx_queues x l))" "\<lambda>x c. mset (rx_local x c)"
proof (unfold_locales, goal_cases)
  case (2 p l sl v fl x l')
  have "mset (insort_key fst (v, p) xs) = add_mset (v, p) (mset xs)" for xs :: "(u64 \<times> Task) list"
    by (induction xs) auto
  then show ?case by (simp add: ref_scx_ops_def)
next
  case (4 l cpu x x')
  then obtain e es where f: "filter (\<lambda>(v, p). cpu \<in> tk_cpus_ptr p) (rx_queues x l) = e # es"
    and x': "x' = x\<lparr> rx_queues := (rx_queues x)(l := remove1 e (rx_queues x l)), rx_local := (rx_local x)(cpu := rx_local x cpu @ [snd e]) \<rparr>"
    by (auto simp: ref_scx_ops_def split: list.splits)
  have "e \<in> set (filter (\<lambda>(v, p). cpu \<in> tk_cpus_ptr p) (rx_queues x l))" unfolding f by simp
  then have e: "e \<in> set (rx_queues x l)" "cpu \<in> tk_cpus_ptr (snd e)" by (auto simp: split_beta)
  then show ?case by (intro exI [of _ "snd e"]) (auto simp: x' mset_remove1_map fun_eq_iff)
next
  case (5 l cpu x x')
  then have "filter (\<lambda>(v, p). cpu \<in> tk_cpus_ptr p) (rx_queues x l) = [] \<and> x' = x"
    by (auto simp: ref_scx_ops_def split: list.splits)
  then show ?case by (auto simp: filter_empty_conv)
next
  case (7 cpus core x)
  define idle where "idle = (if core then filter (\<lambda>c. c \<in> set (rx_idle x)) (rx_idle_cores x) else rx_idle x)"
  have "c \<in> cpus" if "find (\<lambda>c. c \<in> cpus) idle = Some c" for c using that by (auto simp: find_Some_iff)
  with 7 show ?case by (simp add: ref_scx_ops_def flip: idle_def split: option.splits)
qed (auto simp: ref_scx_ops_def take_idle_def split: option.splits dsq.splits intro: LeastI)

interpretation ref_idle: scx_idle ref_scx_ops "\<lambda>x l. mset (map snd (rx_queues x l))" "\<lambda>x c. mset (rx_local x c)" "\<lambda>x. set (rx_idle x)"
  by unfold_locales
    (auto simp: ref_scx_ops_def take_idle_def find_None_iff find_Some_iff split: option.splits if_splits dest: nth_mem)

section \<open>Both sides together\<close>

locale bpf_kernel = bpf_side ko contents kinv bh + scx_kernel so queue local_queue
  for ko :: "'k kernel_ops" and contents and kinv and bh and so :: "'x scx_ops" and queue and local_queue

interpretation ref_all: bpf_kernel ref_ops ref_contents ref_inv ref_helpers ref_scx_ops
    "\<lambda>x l. mset (map snd (rx_queues x l))" "\<lambda>x c. mset (rx_local x c)"
  by unfold_locales

locale bpf_idle_kernel = bpf_kernel ko contents kinv bh so queue local_queue + scx_idle so queue local_queue idle
  for ko :: "'k kernel_ops" and contents and kinv and bh and so :: "'x scx_ops" and queue and local_queue and idle

interpretation ref_all_idle: bpf_idle_kernel ref_ops ref_contents ref_inv ref_helpers ref_scx_ops
    "\<lambda>x l. mset (map snd (rx_queues x l))" "\<lambda>x c. mset (rx_local x c)" "\<lambda>x. set (rx_idle x)"
  by unfold_locales

end
