(* ===== verification/Bpf_Scheduler.thy ===== *)
theory Bpf_Scheduler
  imports Bpf_Kernel
begin

text \<open>
  The BPF program \<open>scx_cohort/src/bpf/main.bpf.c\<close>: its state and its callbacks. Its constants are the
  \<open>Rodata\<close> the daemon fills before loading. The maps shared with the daemon are the state \<open>'k\<close> of the map
  helpers; the dispatch queues and idle masks are the state \<open>'x\<close> of \<open>sched_ext\<close>. A task's storage is
  kept under its pid, and a write through its pointer is an update there. The per-CPU slots of \<open>stats\<close>,
  which no callback reads, are kept per CPU and index. Callbacks are atomic with respect to each other
  and to the daemon's map operations; the in-place additions of the source are atomic in the same way.
\<close>

section \<open>State\<close>

record llc_ctx =
  lx_cpumask :: "nat set option"
  lx_vtime_now :: u64
  lx_head_enq_ts :: u64

record scratch_ctx =
  sx_mask :: "nat set option"
  sx_sample_ctr :: u32

record ('k, 'x) Bpf =
  b_rodata :: Rodata
  b_tunables :: Tunables
  b_cohort_seq :: u64
  b_rr_ctr :: u32
  b_llcs :: "llc_ctx list"
  b_scratch :: "scratch_ctx list"
  b_task_ctxs :: "u32 \<Rightarrow> TaskCtx option"
  b_stats :: "nat \<Rightarrow> nat \<Rightarrow> u64"
  b_maps :: 'k
  b_scx :: 'x

definition vtime_before :: "u64 \<Rightarrow> u64 \<Rightarrow> bool" where
  "vtime_before a b \<longleftrightarrow> sint (a - b) < 0"

definition put_ctx :: "Task \<Rightarrow> TaskCtx \<Rightarrow> ('k, 'x) Bpf \<Rightarrow> ('k, 'x) Bpf" where
  "put_ctx p t st = st\<lparr> b_task_ctxs := (b_task_ctxs st)(tk_pid p := Some t) \<rparr>"

definition stat_inc :: "Ctx \<Rightarrow> nat \<Rightarrow> ('k, 'x) Bpf \<Rightarrow> ('k, 'x) Bpf" where
  "stat_inc cx i st =
     (if i < NR_STATS
      then st\<lparr> b_stats := (b_stats st)(cx_cpu cx := (b_stats st (cx_cpu cx))(i := b_stats st (cx_cpu cx) i + 1)) \<rparr> else st)"

definition lookup_task_ctx :: "Ctx \<Rightarrow> Task \<Rightarrow> ('k, 'x) Bpf \<Rightarrow> TaskCtx option \<times> ('k, 'x) Bpf" where
  "lookup_task_ctx cx p st =
     (case b_task_ctxs st (tk_pid p) of None \<Rightarrow> (None, stat_inc cx STAT_TCTX_ERR st) | Some t \<Rightarrow> (Some t, st))"

definition lookup_llc_ctx :: "u32 \<Rightarrow> ('k, 'x) Bpf \<Rightarrow> llc_ctx option" where
  "lookup_llc_ctx llc st = (if unat llc < length (b_llcs st) then Some (b_llcs st ! unat llc) else None)"

definition put_llc :: "u32 \<Rightarrow> llc_ctx \<Rightarrow> ('k, 'x) Bpf \<Rightarrow> ('k, 'x) Bpf" where
  "put_llc llc x st = st\<lparr> b_llcs := (b_llcs st)[unat llc := x] \<rparr>"

definition safe_llc :: "Rodata \<Rightarrow> u32 \<Rightarrow> u32" where
  "safe_llc ro llc = (if llc < ro_nr_llcs ro then llc else 0)"

definition llc_of_cpu :: "Rodata \<Rightarrow> int \<Rightarrow> u32" where
  "llc_of_cpu ro cpu = (if 0 \<le> cpu \<and> cpu < int (unat MAX_CPUS) then safe_llc ro (ro_cpu_llc_id ro ! nat cpu) else 0)"

section \<open>Cohorts and homes\<close>

definition resolve_cohort :: "'k bpf_helpers \<Rightarrow> Task \<Rightarrow> TaskCtx option \<Rightarrow> ('k, 'x) Bpf \<Rightarrow> u64 \<times> ('k, 'x) Bpf" where
  "resolve_cohort bh p tctx st =
     (case map_lookup_elem bh tgid_cohort_map (u32_bytes (tk_tgid p)) (b_maps st) of
        Some v \<Rightarrow>
          let i = le_dec v
          in (i, case tctx of Some t \<Rightarrow> put_ctx p (t\<lparr> tc_cohort_id := i \<rparr>) st | None \<Rightarrow> st)
      | None \<Rightarrow> (case tctx of Some t \<Rightarrow> tc_cohort_id t | None \<Rightarrow> COHORT_INVALID, st))"

definition policy_home :: "'k bpf_helpers \<Rightarrow> u64 \<Rightarrow> 'k \<Rightarrow> u32 option" where
  "policy_home bh i k = map_option (\<lambda>v. le_dec (slice v 0 4)) (map_lookup_elem bh cohort_policy (u64_bytes i) k)"

definition task_home_llc :: "'k bpf_helpers \<Rightarrow> Ctx \<Rightarrow> Task \<Rightarrow> TaskCtx option \<Rightarrow> ('k, 'x) Bpf \<Rightarrow> u32 \<times> ('k, 'x) Bpf" where
  "task_home_llc bh cx p tctx st =
     (case tctx of
        None \<Rightarrow> (llc_of_cpu (b_rodata st) (cx_task_cpu cx), st)
      | Some t \<Rightarrow>
          (case map_lookup_elem bh spill_tasks (u32_bytes (tk_pid p)) (b_maps st) of
             Some v \<Rightarrow>
               let llc = safe_llc (b_rodata st) (le_dec v)
               in (llc, put_ctx p (t\<lparr> tc_is_spilled := 1, tc_spill_llc := llc, tc_home_llc := llc \<rparr>) st)
           | None \<Rightarrow>
               let t1 = t\<lparr> tc_is_spilled := 0 \<rparr>;
                   (i, st1) = resolve_cohort bh p (Some t1) (put_ctx p t1 st);
                   home = (case policy_home bh i (b_maps st1) of
                             None \<Rightarrow> llc_of_cpu (b_rodata st) (cx_task_cpu cx)
                           | Some h \<Rightarrow> safe_llc (b_rodata st) h)
               in (home, put_ctx p (t1\<lparr> tc_cohort_id := i, tc_home_llc := home \<rparr>) st1)))"

definition record_wake_edge :: "'k bpf_helpers \<Rightarrow> Ctx \<Rightarrow> Task \<Rightarrow> ('k, 'x) Bpf \<Rightarrow> ('k, 'x) Bpf" where
  "record_wake_edge bh cx p st =
     (case cx_current cx of
        None \<Rightarrow> st
      | Some waker \<Rightarrow>
          if tk_tgid waker = tk_tgid p \<or> \<not> cx_cpu cx < length (b_scratch st) then st
          else
            let sctx = b_scratch st ! cx_cpu cx; ctr = sx_sample_ctr sctx + 1;
                st1 = st\<lparr> b_scratch := (b_scratch st)[cx_cpu cx := sctx\<lparr> sx_sample_ctr := ctr \<rparr>] \<rparr>
            in if ctr AND (push_bit (unat (sample_shift (b_tunables st) AND 15)) 1 - 1) \<noteq> 0 then st1
               else
                 let key = WakeEdgeKey_bytes \<lparr> waker_tgid = tk_tgid waker, wakee_tgid = tk_tgid p \<rparr>
                 in case map_lookup_elem bh wake_edges key (b_maps st1) of
                      Some v \<Rightarrow> st1\<lparr> b_maps := map_store bh wake_edges key (u64_bytes (le_dec v + 1)) (b_maps st1) \<rparr>
                    | None \<Rightarrow> st1\<lparr> b_maps := map_update_elem bh wake_edges key (u64_bytes 1) F_ANY (b_maps st1) \<rparr>)"

definition task_effective_llc :: "'k bpf_helpers \<Rightarrow> Ctx \<Rightarrow> Task \<Rightarrow> TaskCtx option \<Rightarrow> ('k, 'x) Bpf \<Rightarrow> u32 \<times> ('k, 'x) Bpf" where
  "task_effective_llc bh cx p tctx st =
     (let (home, st1) = task_home_llc bh cx p tctx st
      in case lookup_llc_ctx home st1 of
           None \<Rightarrow> (home, st1)
         | Some llcx \<Rightarrow>
             (case lx_cpumask llcx of
                Some cpus \<Rightarrow> if cpus \<inter> tk_cpus_ptr p = {} then (llc_of_cpu (b_rodata st1) (cx_task_cpu cx), st1) else (home, st1)
              | None \<Rightarrow> (home, st1)))"

section \<open>ops.select_cpu\<close>

text \<open>Count a placement and put the task on the queue of the CPU that is returned.\<close>

definition place :: "'x scx_ops \<Rightarrow> Ctx \<Rightarrow> Task \<Rightarrow> nat \<Rightarrow> ('k, 'x) Bpf \<Rightarrow> ('k, 'x) Bpf" where
  "place so cx p i st =
     (let st1 = stat_inc cx i st
      in st1\<lparr> b_scx := dsq_insert so p LocalDsq (ro_slice_ns (b_rodata st1)) (b_scx st1) \<rparr>)"

text \<open>The condition of the synchronous handoff to the waker's CPU.\<close>

definition sync_handoff :: "'x scx_ops \<Rightarrow> Ctx \<Rightarrow> Task \<Rightarrow> nat set \<Rightarrow> ('k, 'x) Bpf \<Rightarrow> bool" where
  "sync_handoff so cx p home_cpus st =
     (case (b_task_ctxs st (tk_pid p), Option.bind (cx_current cx) (\<lambda>w. b_task_ctxs st (tk_pid w))) of
        (Some t, Some wt) \<Rightarrow>
          tc_cohort_id t = tc_cohort_id wt \<and> cx_cpu cx \<in> home_cpus \<and> cx_cpu cx \<in> tk_cpus_ptr p \<and>
          dsq_nr_queued so (LocalOn (cx_cpu cx)) (b_scx st) = 0
      | _ \<Rightarrow> False)"

text \<open>
  The search for an idle CPU in the home, \<open>scratch\<close> being the home's CPUs the task may use: a whole
  core, the previous CPU, any CPU; and when all are busy, a CPU of the home to queue for.
\<close>

definition idle_search :: "'x scx_ops \<Rightarrow> Ctx \<Rightarrow> Task \<Rightarrow> nat \<Rightarrow> bool \<Rightarrow> nat set \<Rightarrow> ('k, 'x) Bpf \<Rightarrow> nat \<times> ('k, 'x) Bpf" where
  "idle_search so cx p prev_cpu prev_in_home scratch st =
     (let (cpu, x) = pick_idle_cpu so scratch True (b_scx st); st = st\<lparr> b_scx := x \<rparr>
      in if 0 \<le> cpu then (nat cpu, place so cx p STAT_IDLE_CORE st)
         else
           let (hit, x) = (if prev_in_home then test_and_clear_cpu_idle so prev_cpu (b_scx st) else (False, b_scx st));
               st = st\<lparr> b_scx := x \<rparr>
           in if hit then (prev_cpu, place so cx p STAT_IDLE_SMT st)
              else
                let (cpu, x) = pick_idle_cpu so scratch False (b_scx st); st = st\<lparr> b_scx := x \<rparr>
                in if 0 \<le> cpu then (nat cpu, place so cx p STAT_IDLE_SMT st)
                   else
                     let st = stat_inc cx STAT_HOME_MISS_CLAMP st
                     in if prev_in_home then (prev_cpu, st)
                        else let (cpu, x) = any_distribute so scratch (b_scx st) in (cpu, st\<lparr> b_scx := x \<rparr>))"

text \<open>The placement once the home's CPUs are known.\<close>

definition select_in_home :: "'x scx_ops \<Rightarrow> Ctx \<Rightarrow> Task \<Rightarrow> nat \<Rightarrow> bool \<Rightarrow> nat set \<Rightarrow> ('k, 'x) Bpf \<Rightarrow> nat \<times> ('k, 'x) Bpf" where
  "select_in_home so cx p prev_cpu sync home_cpus st =
     (let prev_in_home = prev_cpu \<in> home_cpus
      in if sync \<and> sync_handoff so cx p home_cpus st then (cx_cpu cx, place so cx p STAT_SYNC_LOCAL st)
         else
           let (hit, x) = (if prev_in_home \<and> prev_cpu \<in> idle_smtmask so (b_scx st)
                           then test_and_clear_cpu_idle so prev_cpu (b_scx st) else (False, b_scx st));
               st = st\<lparr> b_scx := x \<rparr>
           in if hit then (prev_cpu, place so cx p STAT_PREV_IDLE st)
              else if cx_cpu cx < length (b_scratch st) \<and> sx_mask (b_scratch st ! cx_cpu cx) \<noteq> None
              then
                let scratch = home_cpus \<inter> tk_cpus_ptr p;
                    sctx = (b_scratch st ! cx_cpu cx)\<lparr> sx_mask := Some scratch \<rparr>
                in idle_search so cx p prev_cpu prev_in_home scratch (st\<lparr> b_scratch := (b_scratch st)[cx_cpu cx := sctx] \<rparr>)
              else (if prev_in_home then prev_cpu else Min home_cpus, st))"

definition cohort_select_cpu :: "'k bpf_helpers \<Rightarrow> 'x scx_ops \<Rightarrow> Ctx \<Rightarrow> Task \<Rightarrow> nat \<Rightarrow> bool \<Rightarrow> ('k, 'x) Bpf \<Rightarrow> nat \<times> ('k, 'x) Bpf" where
  "cohort_select_cpu bh so cx p prev_cpu sync st =
     (let st = record_wake_edge bh cx p st
      in if tk_nr_cpus_allowed p = 1 then (prev_cpu, st)
         else
           let (tctx, st) = lookup_task_ctx cx p st; (home, st) = task_home_llc bh cx p tctx st
           in case lookup_llc_ctx home st of
                None \<Rightarrow> (prev_cpu, st)
              | Some llcx \<Rightarrow>
                  (case lx_cpumask llcx of
                     None \<Rightarrow> (prev_cpu, st)
                   | Some home_cpus \<Rightarrow>
                       if home_cpus \<inter> tk_cpus_ptr p = {} then (prev_cpu, st)
                       else select_in_home so cx p prev_cpu sync home_cpus st))"

section \<open>ops.enqueue and ops.dispatch\<close>

text \<open>Whether the task has the interactive signature, and the virtual time it is queued with.\<close>

definition interactive :: "Tunables \<Rightarrow> TaskCtx \<Rightarrow> bool" where
  "interactive tn t \<longleftrightarrow> credit_wake_freq_min tn \<le> tc_wake_freq t \<and> 0 < tc_avg_runtime_ns t \<and> tc_avg_runtime_ns t \<le> credit_runtime_max_ns tn"

definition enqueue_vtime :: "Rodata \<Rightarrow> Tunables \<Rightarrow> u64 \<Rightarrow> TaskCtx option \<Rightarrow> u64" where
  "enqueue_vtime ro tn vtime_now tctx =
     (let vtime = (case tctx of Some t \<Rightarrow> tc_vtime t | None \<Rightarrow> vtime_now);
          vtime = (if vtime_before vtime (vtime_now - ro_slice_ns ro) then vtime_now - ro_slice_ns ro else vtime)
      in case tctx of Some t \<Rightarrow> if interactive tn t then vtime - credit_max_ns tn else vtime | None \<Rightarrow> vtime)"

definition cohort_enqueue :: "'k bpf_helpers \<Rightarrow> 'x scx_ops \<Rightarrow> Ctx \<Rightarrow> Task \<Rightarrow> u64 \<Rightarrow> ('k, 'x) Bpf \<Rightarrow> ('k, 'x) Bpf" where
  "cohort_enqueue bh so cx p enq_flags st =
     (let (tctx, st) = lookup_task_ctx cx p st;
          (llc, st) = task_effective_llc bh cx p tctx st;
          tctx = (if tctx = None then None else b_task_ctxs st (tk_pid p));
          llcx = lookup_llc_ctx llc st;
          vtime_now = (case llcx of Some x \<Rightarrow> lx_vtime_now x | None \<Rightarrow> 0);
          vtime = enqueue_vtime (b_rodata st) (b_tunables st) vtime_now tctx;
          st = (case llcx of
                  Some x \<Rightarrow> if dsq_nr_queued so (LlcDsq llc) (b_scx st) = 0 then put_llc llc (x\<lparr> lx_head_enq_ts := cx_now cx \<rparr>) st else st
                | None \<Rightarrow> st);
          st = stat_inc cx (case tctx of Some t \<Rightarrow> if tc_is_spilled t \<noteq> 0 then STAT_ENQ_SPILL else STAT_ENQ_HOME | None \<Rightarrow> STAT_ENQ_HOME) st
      in st\<lparr> b_scx := dsq_insert_vtime so p llc (ro_slice_ns (b_rodata st)) vtime enq_flags (b_scx st) \<rparr>)"

text \<open>The gate of a steal, and the loop over the other LLCs.\<close>

definition steal_gate :: "Tunables \<Rightarrow> u64 \<Rightarrow> int \<Rightarrow> llc_ctx \<Rightarrow> bool" where
  "steal_gate tn now queued fx \<longleftrightarrow> steal_min tn < of_int queued \<or> steal_delay_ns tn < now - lx_head_enq_ts fx"

fun steal_loop :: "'x scx_ops \<Rightarrow> Ctx \<Rightarrow> nat \<Rightarrow> u32 \<Rightarrow> u32 list \<Rightarrow> ('k, 'x) Bpf \<Rightarrow> ('k, 'x) Bpf" where
  "steal_loop so cx cpu my_llc [] st = st"
| "steal_loop so cx cpu my_llc (i # is) st =
     (case lookup_llc_ctx i st of
        Some fx \<Rightarrow>
          let queued = dsq_nr_queued so (LlcDsq i) (b_scx st)
          in if i \<noteq> my_llc \<and> 0 < queued \<and> steal_gate (b_tunables st) (cx_now cx) queued fx
             then
               let (moved, x) = dsq_move_to_local so i cpu (b_scx st); st = st\<lparr> b_scx := x \<rparr>
               in if moved then stat_inc cx STAT_STEAL (put_llc i (fx\<lparr> lx_head_enq_ts := cx_now cx \<rparr>) st)
                  else steal_loop so cx cpu my_llc is st
             else steal_loop so cx cpu my_llc is st
      | None \<Rightarrow> steal_loop so cx cpu my_llc is st)"

definition cohort_dispatch :: "'x scx_ops \<Rightarrow> Ctx \<Rightarrow> nat \<Rightarrow> ('k, 'x) Bpf \<Rightarrow> ('k, 'x) Bpf" where
  "cohort_dispatch so cx cpu st =
     (let my_llc = llc_of_cpu (b_rodata st) (int cpu);
          (moved, x) = dsq_move_to_local so my_llc cpu (b_scx st); st = st\<lparr> b_scx := x \<rparr>
      in if moved
         then (case lookup_llc_ctx my_llc st of Some llcx \<Rightarrow> put_llc my_llc (llcx\<lparr> lx_head_enq_ts := cx_now cx \<rparr>) st | None \<Rightarrow> st)
         else steal_loop so cx cpu my_llc (map of_nat [0 ..< unat (ro_nr_llcs (b_rodata st))]) st)"

section \<open>Accounting\<close>

definition cohort_runnable :: "Ctx \<Rightarrow> Task \<Rightarrow> ('k, 'x) Bpf \<Rightarrow> ('k, 'x) Bpf" where
  "cohort_runnable cx p st =
     (case lookup_task_ctx cx p st of
        (None, st) \<Rightarrow> st
      | (Some t, st) \<Rightarrow>
          let gap = cx_now cx - tc_last_wake_at t;
              freq = (if tc_last_wake_at t \<noteq> 0 \<and> 0 < gap then (tc_wake_freq t * 3 + 1000000000 div gap) div 4 else tc_wake_freq t)
          in put_ctx p (t\<lparr> tc_wake_freq := freq, tc_last_wake_at := cx_now cx \<rparr>) st)"

definition cohort_running :: "Ctx \<Rightarrow> Task \<Rightarrow> ('k, 'x) Bpf \<Rightarrow> ('k, 'x) Bpf" where
  "cohort_running cx p st =
     (case lookup_task_ctx cx p st of
        (None, st) \<Rightarrow> st
      | (Some t, st) \<Rightarrow>
          let llc = llc_of_cpu (b_rodata st) (cx_task_cpu cx);
              st = put_ctx p (t\<lparr> tc_last_run_at := cx_now cx \<rparr>) st
          in case lookup_llc_ctx llc st of
               Some llcx \<Rightarrow> if vtime_before (lx_vtime_now llcx) (tc_vtime t) then put_llc llc (llcx\<lparr> lx_vtime_now := tc_vtime t \<rparr>) st else st
             | None \<Rightarrow> st)"

text \<open>\<open>__sync_fetch_and_add\<close> on a field of a map value.\<close>

definition add_load :: "'k bpf_helpers \<Rightarrow> u64 \<Rightarrow> u64 \<Rightarrow> 'k \<Rightarrow> 'k" where
  "add_load bh i scaled k =
     (case map_lookup_elem bh cohort_counters (u64_bytes i) k of
        None \<Rightarrow> k
      | Some v \<Rightarrow> map_store bh cohort_counters (u64_bytes i) (slice v 0 8 @ u64_bytes (le_dec (slice v 8 8) + scaled)) k)"

definition add_nr_tasks :: "'k bpf_helpers \<Rightarrow> u64 \<Rightarrow> u64 \<Rightarrow> 'k \<Rightarrow> 'k" where
  "add_nr_tasks bh i n k =
     (case map_lookup_elem bh cohort_counters (u64_bytes i) k of
        None \<Rightarrow> k
      | Some v \<Rightarrow> map_store bh cohort_counters (u64_bytes i) (u64_bytes (le_dec (slice v 0 8) + n) @ slice v 8 8) k)"

definition add_llc_load :: "'k bpf_helpers \<Rightarrow> u32 \<Rightarrow> u64 \<Rightarrow> 'k \<Rightarrow> 'k" where
  "add_llc_load bh llc scaled k =
     (case map_lookup_elem bh llc_load (u32_bytes llc) k of
        None \<Rightarrow> k | Some v \<Rightarrow> map_store bh llc_load (u32_bytes llc) (u64_bytes (le_dec v + scaled)) k)"

definition charge_task :: "'k bpf_helpers \<Rightarrow> Task \<Rightarrow> u64 \<Rightarrow> bool \<Rightarrow> u64 \<Rightarrow> 'k \<Rightarrow> 'k" where
  "charge_task bh p delta at_home i k =
     (case Option.bind (map_lookup_elem bh task_stats (u32_bytes (tk_pid p)) k) TaskStat_read of
        None \<Rightarrow> k
      | Some ts \<Rightarrow>
          map_store bh task_stats (u32_bytes (tk_pid p))
            (TaskStat_bytes (ts\<lparr> ts_runtime_sum := ts_runtime_sum ts + delta,
                                 ts_runtime_home_sum := ts_runtime_home_sum ts + (if at_home then delta else 0), ts_cohort_id := i \<rparr>)) k)"

definition cohort_stopping :: "'k bpf_helpers \<Rightarrow> Ctx \<Rightarrow> Task \<Rightarrow> ('k, 'x) Bpf \<Rightarrow> ('k, 'x) Bpf" where
  "cohort_stopping bh cx p st =
     (case lookup_task_ctx cx p st of
        (None, st) \<Rightarrow> st
      | (Some t, st) \<Rightarrow>
          let delta = cx_now cx - tc_last_run_at t; weight = ucast (tk_weight p);
              scaled = delta * weight div 100;
              st = put_ctx p (t\<lparr> tc_vtime := tc_vtime t + delta * 100 div weight,
                                 tc_avg_runtime_ns := (tc_avg_runtime_ns t * 3 + delta) div 4 \<rparr>) st;
              run_llc = llc_of_cpu (b_rodata st) (cx_task_cpu cx)
          in st\<lparr> b_maps := charge_task bh p delta (run_llc = tc_home_llc t) (tc_cohort_id t)
                             (add_llc_load bh run_llc scaled (add_load bh (tc_cohort_id t) scaled (b_maps st))) \<rparr>)"

section \<open>Tasks coming and going\<close>

definition assign_cohort :: "'k bpf_helpers \<Rightarrow> Ctx \<Rightarrow> Task \<Rightarrow> bool \<Rightarrow> ('k, 'x) Bpf \<Rightarrow> u64 \<times> ('k, 'x) Bpf" where
  "assign_cohort bh cx p fork st =
     (case map_lookup_elem bh tgid_cohort_map (u32_bytes (tk_tgid p)) (b_maps st) of
        Some v \<Rightarrow> (le_dec v, st)
      | None \<Rightarrow>
          let inherited = (if fork then (case Option.bind (cx_current cx) (\<lambda>par. b_task_ctxs st (tk_pid par)) of
                                           Some t \<Rightarrow> tc_cohort_id t | None \<Rightarrow> COHORT_INVALID)
                           else COHORT_INVALID);
              (i, st) = (if inherited = COHORT_INVALID
                 then let home = b_rr_ctr st mod ro_nr_llcs (b_rodata st); i = b_cohort_seq st + 1;
                          k = map_update_elem bh cohort_policy (u64_bytes i) (CohortPolicy_bytes \<lparr> p_home_llc = home, p_flags = 0 \<rparr>) F_NO_EXIST (b_maps st);
                          k = map_update_elem bh cohort_counters (u64_bytes i) (CohortCounters_bytes CohortCounters_default) F_NO_EXIST k
                      in (i, st\<lparr> b_rr_ctr := b_rr_ctr st + 1, b_cohort_seq := i, b_maps := k \<rparr>)
                 else (inherited, st))
          in (i, st\<lparr> b_maps := map_update_elem bh tgid_cohort_map (u32_bytes (tk_tgid p)) (u64_bytes i) F_ANY (b_maps st) \<rparr>))"

definition TaskCtx_zero :: TaskCtx where
  "TaskCtx_zero = \<lparr> tc_cohort_id = 0, tc_vtime = 0, tc_last_run_at = 0, tc_avg_runtime_ns = 0, tc_wake_freq = 0,
     tc_last_wake_at = 0, tc_is_spilled = 0, tc_spill_llc = 0, tc_home_llc = 0, tc_pad = 0 \<rparr>"

definition ENOENT :: int where "ENOENT = 2"
definition ENOMEM :: int where "ENOMEM = 12"

text \<open>\<open>alloc\<close> tells whether the kernel can create the task's storage.\<close>

definition cohort_init_task :: "'k bpf_helpers \<Rightarrow> Ctx \<Rightarrow> bool \<Rightarrow> Task \<Rightarrow> bool \<Rightarrow> ('k, 'x) Bpf \<Rightarrow> int \<times> ('k, 'x) Bpf" where
  "cohort_init_task bh cx alloc p fork st =
     (case (case b_task_ctxs st (tk_pid p) of Some t \<Rightarrow> Some t | None \<Rightarrow> if alloc then Some TaskCtx_zero else None) of
        None \<Rightarrow> (- ENOMEM, st)
      | Some t \<Rightarrow>
          let (i, st) = assign_cohort bh cx p fork (put_ctx p t st);
              k = add_nr_tasks bh i 1 (b_maps st);
              vtime = (case policy_home bh i k of
                         None \<Rightarrow> tc_vtime t
                       | Some home \<Rightarrow> (case lookup_llc_ctx (safe_llc (b_rodata st) home) st of Some x \<Rightarrow> lx_vtime_now x | None \<Rightarrow> 0));
              ts = \<lparr> ts_tgid = tk_tgid p, ts_pad = 0, ts_cohort_id = i, ts_runtime_sum = 0, ts_runtime_home_sum = 0, ts_comm = tk_comm p \<rparr>;
              k = map_update_elem bh task_stats (u32_bytes (tk_pid p)) (TaskStat_bytes ts) F_ANY k
          in (0, put_ctx p (t\<lparr> tc_cohort_id := i, tc_vtime := vtime \<rparr>) (st\<lparr> b_maps := k \<rparr>)))"

definition cohort_exit_task :: "'k bpf_helpers \<Rightarrow> Task \<Rightarrow> ('k, 'x) Bpf \<Rightarrow> ('k, 'x) Bpf" where
  "cohort_exit_task bh p st =
     (case b_task_ctxs st (tk_pid p) of
        None \<Rightarrow> st
      | Some t \<Rightarrow>
          let (i, st) = resolve_cohort bh p (Some t) st;
              k = add_nr_tasks bh i (- 1) (b_maps st);
              k = map_delete_elem bh task_stats (u32_bytes (tk_pid p)) k;
              k = map_delete_elem bh spill_tasks (u32_bytes (tk_pid p)) k
          in st\<lparr> b_maps := k \<rparr>)"

section \<open>ops.init\<close>

text \<open>What can fail while loading: creating a queue and allocating a CPU mask.\<close>

record InitEnv =
  ie_create_dsq :: "u32 \<Rightarrow> int"
  ie_llc_mask :: "u32 \<Rightarrow> bool"
  ie_cpu_mask :: "nat \<Rightarrow> bool"

definition llc_cpumask :: "Rodata \<Rightarrow> u32 \<Rightarrow> nat set" where
  "llc_cpumask ro llc = {cpu \<in> {..< min (unat (ro_nr_cpus ro)) (unat MAX_CPUS)}. safe_llc ro (ro_cpu_llc_id ro ! cpu) = llc}"

definition init_llc :: "InitEnv \<Rightarrow> u32 \<Rightarrow> ('k, 'x) Bpf \<Rightarrow> int + ('k, 'x) Bpf" where
  "init_llc ie llc st =
     (case lookup_llc_ctx llc st of
        None \<Rightarrow> Inl (- ENOENT)
      | Some llcx \<Rightarrow>
          if ie_create_dsq ie llc \<noteq> 0 then Inl (ie_create_dsq ie llc)
          else if \<not> ie_llc_mask ie llc then Inl (- ENOMEM)
          else Inr (put_llc llc (llcx\<lparr> lx_cpumask := Some (llc_cpumask (b_rodata st) llc) \<rparr>) st))"

definition init_scratch :: "InitEnv \<Rightarrow> nat \<Rightarrow> ('k, 'x) Bpf \<Rightarrow> int + ('k, 'x) Bpf" where
  "init_scratch ie cpu st =
     (if \<not> cpu < length (b_scratch st) then Inr st
      else if \<not> ie_cpu_mask ie cpu then Inl (- ENOMEM)
      else Inr (st\<lparr> b_scratch := (b_scratch st)[cpu := (b_scratch st ! cpu)\<lparr> sx_mask := Some {} \<rparr>] \<rparr>))"

definition cohort_init :: "InitEnv \<Rightarrow> ('k, 'x) Bpf \<Rightarrow> int + ('k, 'x) Bpf" where
  "cohort_init ie st =
     (case try_fold (init_llc ie) (map of_nat [0 ..< unat (ro_nr_llcs (b_rodata st))]) st of
        Inl e \<Rightarrow> Inl e
      | Inr st \<Rightarrow> try_fold (init_scratch ie) [0 ..< unat (ro_nr_cpus (b_rodata st))] st)"

end
