(* ===== verification/Bpf_Placement.thy ===== *)
theory Bpf_Placement
  imports Bpf_Scheduler Daemon_Runs
begin

text \<open>
  Where the BPF program puts a task: the home it derives from the daemon's decisions, the CPU it selects,
  the queue and virtual time of an enqueue, and what a dispatch takes.
\<close>

section \<open>Frames of the small steps\<close>

named_theorems bpf_frame \<open>fields a step of the BPF program leaves alone\<close>

lemma put_ctx_frame [bpf_frame]:
  "b_rodata (put_ctx p t st) = b_rodata st" "b_tunables (put_ctx p t st) = b_tunables st" "b_llcs (put_ctx p t st) = b_llcs st"
  "b_scratch (put_ctx p t st) = b_scratch st" "b_stats (put_ctx p t st) = b_stats st" "b_maps (put_ctx p t st) = b_maps st"
  "b_scx (put_ctx p t st) = b_scx st" "b_cohort_seq (put_ctx p t st) = b_cohort_seq st" "b_rr_ctr (put_ctx p t st) = b_rr_ctr st"
  "b_task_ctxs (put_ctx p t st) (tk_pid p) = Some t"
  by (simp_all add: put_ctx_def)

lemma put_ctx_twice [simp]: "put_ctx p t (put_ctx p u st) = put_ctx p t st"
  by (simp add: put_ctx_def)

lemma stat_inc_frame [bpf_frame]:
  "b_rodata (stat_inc cx i st) = b_rodata st" "b_tunables (stat_inc cx i st) = b_tunables st" "b_llcs (stat_inc cx i st) = b_llcs st"
  "b_scratch (stat_inc cx i st) = b_scratch st" "b_maps (stat_inc cx i st) = b_maps st" "b_scx (stat_inc cx i st) = b_scx st"
  "b_task_ctxs (stat_inc cx i st) = b_task_ctxs st" "b_cohort_seq (stat_inc cx i st) = b_cohort_seq st" "b_rr_ctr (stat_inc cx i st) = b_rr_ctr st"
  by (simp_all add: stat_inc_def)

lemma put_llc_frame [bpf_frame]:
  "b_rodata (put_llc l x st) = b_rodata st" "b_tunables (put_llc l x st) = b_tunables st" "b_scratch (put_llc l x st) = b_scratch st"
  "b_stats (put_llc l x st) = b_stats st" "b_maps (put_llc l x st) = b_maps st" "b_scx (put_llc l x st) = b_scx st"
  "b_task_ctxs (put_llc l x st) = b_task_ctxs st" "length (b_llcs (put_llc l x st)) = length (b_llcs st)"
  "b_cohort_seq (put_llc l x st) = b_cohort_seq st" "b_rr_ctr (put_llc l x st) = b_rr_ctr st"
  by (simp_all add: put_llc_def)

lemma lookup_llc_cong: "b_llcs st' = b_llcs st \<Longrightarrow> lookup_llc_ctx l st' = lookup_llc_ctx l st"
  by (simp add: lookup_llc_ctx_def)

lemma safe_llc_range: "0 < ro_nr_llcs ro \<Longrightarrow> safe_llc ro llc < ro_nr_llcs ro"
  by (simp add: safe_llc_def)

lemma llc_of_cpu_range: "0 < ro_nr_llcs ro \<Longrightarrow> llc_of_cpu ro cpu < ro_nr_llcs ro"
  by (simp add: llc_of_cpu_def safe_llc_range)

section \<open>The home of a task\<close>

text \<open>
  The daemon's decision about a task, read off the maps: its spill target, or the home of the
  cohort its process is mapped to, or, without a mapping, of the cohort it was last in.
\<close>

definition decided_llc :: "(map_id \<Rightarrow> 'k \<Rightarrow> bytes \<Rightarrow> bytes option) \<Rightarrow> Rodata \<Rightarrow> int \<Rightarrow> Task \<Rightarrow> TaskCtx \<Rightarrow> 'k \<Rightarrow> u32" where
  "decided_llc contents ro task_cpu p t k =
     (case contents spill_tasks k (u32_bytes (tk_pid p)) of
        Some v \<Rightarrow> safe_llc ro (le_dec v)
      | None \<Rightarrow>
          let i = (case contents tgid_cohort_map k (u32_bytes (tk_tgid p)) of Some v \<Rightarrow> le_dec v | None \<Rightarrow> tc_cohort_id t)
          in case contents cohort_policy k (u64_bytes i) of
               Some v \<Rightarrow> safe_llc ro (le_dec (slice v 0 4))
             | None \<Rightarrow> llc_of_cpu ro task_cpu)"

lemma decided_llc_cong:
  assumes "contents spill_tasks k = contents spill_tasks k'" and "contents tgid_cohort_map k = contents tgid_cohort_map k'"
    and "contents cohort_policy k = contents cohort_policy k'"
  shows "decided_llc contents ro cpu p t k = decided_llc contents ro cpu p t k'"
  unfolding decided_llc_def assms ..

context bpf_side
begin

lemma task_home_decided:
  assumes "kinv (b_maps st)" and "task_home_llc bh cx p (Some t) st = (home, st')"
  shows "home = decided_llc contents (b_rodata st) (cx_task_cpu cx) p t (b_maps st)"
    and "\<exists>t'. st' = put_ctx p t' st \<and> tc_home_llc t' = home \<and> tc_vtime t' = tc_vtime t \<and> tc_wake_freq t' = tc_wake_freq t \<and>
      tc_avg_runtime_ns t' = tc_avg_runtime_ns t \<and> tc_last_run_at t' = tc_last_run_at t \<and> tc_last_wake_at t' = tc_last_wake_at t \<and>
      (tc_is_spilled t' \<noteq> 0 \<longleftrightarrow> contents spill_tasks (b_maps st) (u32_bytes (tk_pid p)) \<noteq> None) \<and>
      tc_cohort_id t' = (if contents spill_tasks (b_maps st) (u32_bytes (tk_pid p)) = None
        then (case contents tgid_cohort_map (b_maps st) (u32_bytes (tk_tgid p)) of Some v \<Rightarrow> le_dec v | None \<Rightarrow> tc_cohort_id t)
        else tc_cohort_id t)"
  using assms(2)
  by (auto simp: task_home_llc_def decided_llc_def resolve_cohort_def policy_home_def h_lookup [OF assms(1)] Let_def bpf_frame
      split: option.splits prod.splits)

lemma record_wake_edge_effect:
  assumes "kinv (b_maps st)"
  shows "kinv (b_maps (record_wake_edge bh cx p st)) \<and>
    (\<forall>m. m \<noteq> wake_edges \<longrightarrow> contents m (b_maps (record_wake_edge bh cx p st)) = contents m (b_maps st))"
proof -
  have key: "length (WakeEdgeKey_bytes e) = key_size wake_edges" for e using edge_key.enc_size by simp
  have val: "length (u64_bytes w) = val_size wake_edges" for w by (simp add: layout_simps)
  show ?thesis
    using assms h_update [OF assms key val] h_store [OF assms _ val] h_lookup [OF assms]
    by (auto simp: record_wake_edge_def Let_def split: option.splits)
qed

end

lemma record_wake_edge_frame [bpf_frame]:
  "b_rodata (record_wake_edge bh cx p st) = b_rodata st" "b_tunables (record_wake_edge bh cx p st) = b_tunables st"
  "b_llcs (record_wake_edge bh cx p st) = b_llcs st" "length (b_scratch (record_wake_edge bh cx p st)) = length (b_scratch st)"
  "b_stats (record_wake_edge bh cx p st) = b_stats st" "b_scx (record_wake_edge bh cx p st) = b_scx st"
  "b_task_ctxs (record_wake_edge bh cx p st) = b_task_ctxs st" "b_cohort_seq (record_wake_edge bh cx p st) = b_cohort_seq st"
  "b_rr_ctr (record_wake_edge bh cx p st) = b_rr_ctr st"
  by (auto simp: record_wake_edge_def Let_def split: option.splits)

section \<open>Selecting a CPU\<close>

text \<open>The counters of placements that put the task directly on a CPU's queue.\<close>

definition direct_stats :: "nat set" where
  "direct_stats = {STAT_SYNC_LOCAL, STAT_PREV_IDLE, STAT_IDLE_CORE, STAT_IDLE_SMT}"

text \<open>Whether the CPU the callback runs on has its scratch mask, as \<open>ops.init\<close> leaves it.\<close>

definition scratch_ready :: "Ctx \<Rightarrow> ('k, 'x) Bpf \<Rightarrow> bool" where
  "scratch_ready cx st \<longleftrightarrow> cx_cpu cx < length (b_scratch st) \<and> sx_mask (b_scratch st ! cx_cpu cx) \<noteq> None"

text \<open>
  What one counted placement means for the idle CPUs: a handoff takes the waker's CPU and claims none; a
  direct placement claims exactly the CPU it returns, which was idle; and a task is only queued for the
  home when no CPU of the home that it may use is idle.
\<close>

definition placement_claims :: "nat \<Rightarrow> Ctx \<Rightarrow> nat set \<Rightarrow> nat \<Rightarrow> nat set \<Rightarrow> nat set \<Rightarrow> bool" where
  "placement_claims i cx usable cpu idle0 idle1 \<longleftrightarrow>
     i = STAT_SYNC_LOCAL \<and> cpu = cx_cpu cx \<and> idle1 = idle0 \<or>
     i \<in> {STAT_PREV_IDLE, STAT_IDLE_CORE, STAT_IDLE_SMT} \<and> cpu \<in> idle0 \<and> idle1 = idle0 - {cpu} \<or>
     i = STAT_HOME_MISS_CLAMP \<and> usable \<inter> idle0 = {} \<and> idle1 = idle0"

text \<open>
  The outcome of a selection in the home: the CPU is one of the home and one the task may use, or its
  previous CPU; the queues of the LLCs and the maps are left alone; and one placement is counted, always
  so when \<open>ready\<close>, with the claim that goes with it.
\<close>

definition home_outcome :: "('x \<Rightarrow> u32 \<Rightarrow> Task multiset) \<Rightarrow> ('x \<Rightarrow> nat set) \<Rightarrow> Ctx \<Rightarrow> bool \<Rightarrow> Task \<Rightarrow> nat \<Rightarrow> nat set \<Rightarrow> ('k, 'x) Bpf \<Rightarrow>
    nat \<times> ('k, 'x) Bpf \<Rightarrow> bool" where
  "home_outcome queue idle cx ready p prev_cpu home_cpus st = (\<lambda>(cpu, st').
     cpu \<in> home_cpus \<and> (ready \<longrightarrow> cpu \<in> tk_cpus_ptr p \<or> cpu = prev_cpu) \<and>
     queue (b_scx st') = queue (b_scx st) \<and> b_maps st' = b_maps st \<and>
     ((\<exists>i. b_stats st' = b_stats (stat_inc cx i st) \<and>
         placement_claims i cx (home_cpus \<inter> tk_cpus_ptr p) cpu (idle (b_scx st)) (idle (b_scx st'))) \<or>
      \<not> ready \<and> b_stats st' = b_stats st \<and> idle (b_scx st') = idle (b_scx st)))"

context scx_kernel
begin

lemma place_effect [simp]:
  "queue (b_scx (place so cx p i st)) = queue (b_scx st)" "b_maps (place so cx p i st) = b_maps st"
  "b_stats (place so cx p i st) = b_stats (stat_inc cx i st)"
  by (simp_all add: place_def insert_local bpf_frame Let_def)

lemma stat_inc_scx [simp]: "b_stats (stat_inc cx i (st\<lparr> b_scx := x \<rparr>)) = b_stats (stat_inc cx i st)"
  "b_stats (stat_inc cx i (st\<lparr> b_scratch := s \<rparr>)) = b_stats (stat_inc cx i st)"
  by (simp_all add: stat_inc_def)

lemma stat_inc_scx_comm: "stat_inc cx i (st\<lparr> b_scx := x \<rparr>) = (stat_inc cx i st)\<lparr> b_scx := x \<rparr>"
  by (simp add: stat_inc_def)

end

context scx_idle
begin

lemma place_idle [simp]: "idle (b_scx (place so cx p i st)) = idle (b_scx st)"
  by (simp add: place_def insert_idle bpf_frame Let_def)

lemma outcome_place:
  "cpu \<in> home_cpus \<Longrightarrow> cpu \<in> tk_cpus_ptr p \<or> cpu = prev_cpu \<Longrightarrow> queue x = queue (b_scx st) \<Longrightarrow>
     placement_claims i cx (home_cpus \<inter> tk_cpus_ptr p) cpu (idle (b_scx st)) (idle x) \<Longrightarrow>
     home_outcome queue idle cx ready p prev_cpu home_cpus st (cpu, place so cx p i (st\<lparr> b_scx := x \<rparr>))"
  by (auto simp: home_outcome_def)

lemma outcome_clamp:
  "cpu \<in> home_cpus \<Longrightarrow> cpu \<in> tk_cpus_ptr p \<or> cpu = prev_cpu \<Longrightarrow> queue x = queue (b_scx st) \<Longrightarrow>
     home_cpus \<inter> tk_cpus_ptr p \<inter> idle (b_scx st) = {} \<Longrightarrow> idle x = idle (b_scx st) \<Longrightarrow>
     home_outcome queue idle cx ready p prev_cpu home_cpus st (cpu, (stat_inc cx STAT_HOME_MISS_CLAMP st)\<lparr> b_scx := x \<rparr>)"
  by (auto simp: home_outcome_def placement_claims_def bpf_frame intro!: exI [of _ STAT_HOME_MISS_CLAMP])

lemma idle_search_outcome:
  assumes "home_cpus \<inter> tk_cpus_ptr p \<noteq> {}" and "prev_in_home \<longleftrightarrow> prev_cpu \<in> home_cpus"
  shows "home_outcome queue idle cx ready p prev_cpu home_cpus st
    (idle_search so cx p prev_cpu prev_in_home (home_cpus \<inter> tk_cpus_ptr p) st)"
proof -
  let ?use = "home_cpus \<inter> tk_cpus_ptr p"
  obtain c1 x1 where p1: "pick_idle_cpu so ?use True (b_scx st) = (c1, x1)" by fastforce
  obtain h x2 where t: "(if prev_in_home then test_and_clear_cpu_idle so prev_cpu x1 else (False, x1)) = (h, x2)" by fastforce
  obtain c3 x3 where p3: "pick_idle_cpu so ?use False x2 = (c3, x3)" by fastforce
  obtain c4 x4 where d: "any_distribute so ?use x3 = (c4, x4)" by fastforce
  have q: "queue x1 = queue (b_scx st)" "queue x2 = queue x1" "queue x3 = queue x2" "queue x4 = queue x3"
    using pick_idle(2) [of ?use True "b_scx st"] pick_idle(2) [of ?use False x2] clear_idle [of prev_cpu x1]
      distribute(2) [of ?use x3] t by (auto simp: p1 p3 d split: if_splits)
  have c: "0 \<le> c1 \<Longrightarrow> nat c1 \<in> ?use" "0 \<le> c3 \<Longrightarrow> nat c3 \<in> ?use" "c4 \<in> ?use"
    using pick_idle(1) [of ?use True "b_scx st"] pick_idle(1) [of ?use False x2] distribute(1) [OF assms(1), of x3]
    by (simp_all add: p1 p3 d)
  have h: "h \<Longrightarrow> prev_cpu \<in> home_cpus \<and> prev_cpu \<in> idle x1 \<and> idle x2 = idle x1 - {prev_cpu}" "\<not> h \<Longrightarrow> idle x2 = idle x1"
    using t assms(2) claim_idle(1) [of prev_cpu x1 x2] claim_idle(2) [of prev_cpu x1 x2] by (auto split: if_splits)
  note i1 = pick_some [OF p1] pick_none [OF p1] and i3 = pick_some [OF p3] pick_none [OF p3]
  have i4: "idle x4 = idle x3" using distribute_idle [of ?use x3] by (simp add: d)
  let ?r = "idle_search so cx p prev_cpu prev_in_home ?use st"
  consider (core) "0 \<le> c1" | (prev) "c1 < 0" h | (any) "c1 < 0" "\<not> h" "0 \<le> c3" | (clamp) "c1 < 0" "\<not> h" "c3 < 0" by linarith
  then show ?thesis
  proof cases
    case core
    then have "?r = (nat c1, place so cx p STAT_IDLE_CORE (st\<lparr> b_scx := x1 \<rparr>))" by (simp add: idle_search_def p1 Let_def)
    then show ?thesis using core c(1) q(1) i1(1) by (simp add: outcome_place placement_claims_def)
  next
    case prev
    then have "?r = (prev_cpu, place so cx p STAT_IDLE_SMT (st\<lparr> b_scx := x2 \<rparr>))" using t by (cases prev_in_home) (simp_all add: idle_search_def p1 Let_def)
    then show ?thesis using prev h(1) q i1(2) by (simp add: outcome_place placement_claims_def)
  next
    case any
    have "?r = (nat c3, place so cx p STAT_IDLE_SMT (st\<lparr> b_scx := x3 \<rparr>))" using any t by (cases prev_in_home) (simp_all add: idle_search_def p1 p3 Let_def)
    moreover have "idle x3 = idle (b_scx st) - {nat c3}" "nat c3 \<in> idle (b_scx st)" using any h(2) i1(2) i3(1) by simp_all
    ultimately show ?thesis using any(3) c(2) q by (simp add: outcome_place placement_claims_def)
  next
    case clamp
    then have "?r = (if prev_in_home then prev_cpu else c4, (stat_inc cx STAT_HOME_MISS_CLAMP st)\<lparr> b_scx := if prev_in_home then x3 else x4 \<rparr>)"
      using t by (cases prev_in_home) (simp_all add: idle_search_def p1 p3 d Let_def stat_inc_scx_comm bpf_frame)
    moreover have "?use \<inter> idle (b_scx st) = {}" "idle x3 = idle (b_scx st)" using clamp h i1 i3 by auto
    ultimately show ?thesis using c assms q i4 by (auto intro!: outcome_clamp)
  qed
qed

lemma select_in_home_outcome:
  assumes "home_cpus \<inter> tk_cpus_ptr p \<noteq> {}" and "finite home_cpus"
  shows "home_outcome queue idle cx (scratch_ready cx st) p prev_cpu home_cpus st (select_in_home so cx p prev_cpu sync home_cpus st)"
proof -
  obtain h x where t: "(if prev_cpu \<in> home_cpus \<and> prev_cpu \<in> idle_smtmask so (b_scx st)
      then test_and_clear_cpu_idle so prev_cpu (b_scx st) else (False, b_scx st)) = (h, x)" by fastforce
  have q: "queue x = queue (b_scx st)" using clear_idle [of prev_cpu "b_scx st"] t by (auto split: if_splits)
  have h: "h \<Longrightarrow> prev_cpu \<in> home_cpus \<and> prev_cpu \<in> idle (b_scx st) \<and> idle x = idle (b_scx st) - {prev_cpu}"
    "\<not> h \<Longrightarrow> idle x = idle (b_scx st)"
    using t claim_idle(1) [of prev_cpu "b_scx st" x] claim_idle(2) [of prev_cpu "b_scx st" x] by (auto split: if_splits)
  have m: "Min home_cpus \<in> home_cpus" using assms by (intro Min_in) auto
  have search: "home_outcome queue idle cx ready p prev_cpu home_cpus st
      (idle_search so cx p prev_cpu (prev_cpu \<in> home_cpus) (home_cpus \<inter> tk_cpus_ptr p) (st\<lparr> b_scx := x, b_scratch := s \<rparr>))"
    if "\<not> h" for s ready
  proof -
    have "home_outcome queue idle cx ready p prev_cpu home_cpus (st\<lparr> b_scx := x, b_scratch := s \<rparr>)
        (idle_search so cx p prev_cpu (prev_cpu \<in> home_cpus) (home_cpus \<inter> tk_cpus_ptr p) (st\<lparr> b_scx := x, b_scratch := s \<rparr>))"
      by (rule idle_search_outcome) (use assms in auto)
    then show ?thesis using q h(2) [OF that] by (simp add: home_outcome_def)
  qed
  have sync_case: "home_outcome queue idle cx (scratch_ready cx st) p prev_cpu home_cpus st (cx_cpu cx, place so cx p STAT_SYNC_LOCAL st)"
    if "sync_handoff so cx p home_cpus st"
    using that outcome_place [of "cx_cpu cx" home_cpus p prev_cpu "b_scx st" st STAT_SYNC_LOCAL]
    by (auto simp: sync_handoff_def placement_claims_def split: option.splits)
  have prev_case: "home_outcome queue idle cx (scratch_ready cx st) p prev_cpu home_cpus st (prev_cpu, place so cx p STAT_PREV_IDLE (st\<lparr> b_scx := x \<rparr>))" if h
    using h(1) [OF that] q by (intro outcome_place) (simp_all add: placement_claims_def)
  have no_scratch: "home_outcome queue idle cx (scratch_ready cx st) p prev_cpu home_cpus st (cpu, st\<lparr> b_scx := x \<rparr>)"
    if "cpu \<in> home_cpus" "\<not> scratch_ready cx st" "\<not> h" for cpu
    using that q h(2) by (simp add: home_outcome_def)
  show ?thesis
    unfolding select_in_home_def Let_def t prod.case
    using search sync_case prev_case no_scratch m by (simp add: scratch_ready_def)
qed

end

context bpf_idle_kernel
begin

lemma select_cpu_outcome:
  assumes "kinv (b_maps st)" and "b_task_ctxs st (tk_pid p) = Some t"
    and "lookup_llc_ctx (decided_llc contents (b_rodata st) (cx_task_cpu cx) p t (b_maps st)) st = Some llcx"
    and "lx_cpumask llcx = Some home_cpus" and "finite home_cpus"
  defines "st1 \<equiv> record_wake_edge bh cx p st"
  shows "if tk_nr_cpus_allowed p = 1 \<or> home_cpus \<inter> tk_cpus_ptr p = {}
    then \<exists>s \<in> {st1} \<union> range (\<lambda>t'. put_ctx p t' st1). cohort_select_cpu bh so cx p prev_cpu sync st = (prev_cpu, s)
    else home_outcome queue idle cx (scratch_ready cx st1) p prev_cpu home_cpus st1 (cohort_select_cpu bh so cx p prev_cpu sync st)"
proof -
  have k1: "kinv (b_maps st1)" and same: "\<forall>m. m \<noteq> wake_edges \<longrightarrow> contents m (b_maps st1) = contents m (b_maps st)"
    using record_wake_edge_effect [OF assms(1)] by (auto simp: st1_def)
  have ctx: "lookup_task_ctx cx p st1 = (Some t, st1)" using assms(2) by (simp add: lookup_task_ctx_def st1_def bpf_frame)
  obtain home st2 where h: "task_home_llc bh cx p (Some t) st1 = (home, st2)" by fastforce
  have "home = decided_llc contents (b_rodata st1) (cx_task_cpu cx) p t (b_maps st1)" by (rule task_home_decided(1) [OF k1 h])
  also have "\<dots> = decided_llc contents (b_rodata st1) (cx_task_cpu cx) p t (b_maps st)" using same by (intro decided_llc_cong) auto
  finally have home: "home = decided_llc contents (b_rodata st) (cx_task_cpu cx) p t (b_maps st)" by (simp add: st1_def bpf_frame)
  obtain t' where st2: "st2 = put_ctx p t' st1" using task_home_decided(2) [OF k1 h] by blast
  have llcx: "lookup_llc_ctx home st2 = Some llcx"
    using assms(3) lookup_llc_cong [of st2 st home] by (simp add: home st2 st1_def bpf_frame)
  have "b_stats (stat_inc cx i st2) = b_stats (stat_inc cx i st1)" for i by (simp add: stat_inc_def st2 bpf_frame)
  then have frame: "home_outcome queue idle cx (scratch_ready cx st1) p prev_cpu home_cpus st1 r"
    if "home_outcome queue idle cx (scratch_ready cx st2) p prev_cpu home_cpus st2 r" for r
    using that by (simp add: home_outcome_def st2 scratch_ready_def bpf_frame)
  show ?thesis
    unfolding cohort_select_cpu_def Let_def st1_def [symmetric] ctx prod.case h llcx option.case assms(4)
    using frame [OF select_in_home_outcome [OF _ assms(5)]] by (auto simp: st2)
qed

end

text \<open>
  C5. A wake-up never leaves the home. For a task whose home, as the daemon decided it in the maps (the
  spill target, or else the home of its cohort), has the CPUs \<open>home_cpus\<close>, the CPU that \<open>select_cpu\<close>
  returns is one of the home, and one the task is allowed on unless it is the CPU the kernel passed as
  the task's previous one. Exactly one placement is counted, and it says what was claimed: a handoff goes to
  the waker's CPU and claims nothing; a direct placement claims the CPU it returns, which was idle, and no
  other; and only when no CPU of the home that the task may use is idle is it left for the queue, again
  claiming nothing. A task that may not run in the home at all, or that has a single CPU, stays where it
  was, uncounted and with no CPU claimed. No map but the wake edges changes, nor any queue of an LLC. The scratch
  mask of the CPU is the one \<open>ops.init\<close> builds.
\<close>

theorem select_cpu_stays_home:
  assumes "bpf_idle_kernel ko contents kinv bh so queue local_queue idle" and "kinv (b_maps st)"
    and "b_task_ctxs st (tk_pid p) = Some t"
    and "lookup_llc_ctx (decided_llc contents (b_rodata st) (cx_task_cpu cx) p t (b_maps st)) st = Some llcx"
    and "lx_cpumask llcx = Some home_cpus" and "finite home_cpus" and "scratch_ready cx st"
    and "cohort_select_cpu bh so cx p prev_cpu sync st = (cpu, st')"
  shows "(if tk_nr_cpus_allowed p = 1 \<or> home_cpus \<inter> tk_cpus_ptr p = {}
      then cpu = prev_cpu \<and> b_stats st' = b_stats st \<and> idle (b_scx st') = idle (b_scx st)
      else cpu \<in> home_cpus \<and> (cpu \<in> tk_cpus_ptr p \<or> cpu = prev_cpu) \<and>
        (\<exists>i. b_stats st' = b_stats (stat_inc cx i st) \<and>
          (i = STAT_SYNC_LOCAL \<and> cpu = cx_cpu cx \<and> idle (b_scx st') = idle (b_scx st) \<or>
           i \<in> {STAT_PREV_IDLE, STAT_IDLE_CORE, STAT_IDLE_SMT} \<and> cpu \<in> idle (b_scx st) \<and> idle (b_scx st') = idle (b_scx st) - {cpu} \<or>
           i = STAT_HOME_MISS_CLAMP \<and> home_cpus \<inter> tk_cpus_ptr p \<inter> idle (b_scx st) = {} \<and> idle (b_scx st') = idle (b_scx st)))) \<and>
    queue (b_scx st') = queue (b_scx st) \<and> (\<forall>m. m \<noteq> wake_edges \<longrightarrow> contents m (b_maps st') = contents m (b_maps st))"
proof -
  have side: "bpf_side ko contents kinv bh" using assms(1) by (simp add: bpf_idle_kernel_def bpf_kernel_def)
  define st1 where "st1 = record_wake_edge bh cx p st"
  have stats: "b_stats (stat_inc cx i st1) = b_stats (stat_inc cx i st)" for i by (simp add: stat_inc_def st1_def bpf_frame)
  have ready: "scratch_ready cx st1"
    using assms(7) by (auto simp: scratch_ready_def st1_def record_wake_edge_def Let_def split: option.splits)
  have f: "b_stats st1 = b_stats st" "b_scx st1 = b_scx st" by (simp_all add: st1_def bpf_frame)
  note out = bpf_idle_kernel.select_cpu_outcome [OF assms(1-6), where prev_cpu = prev_cpu and sync = sync, folded st1_def, unfolded assms(8)]
  note same = bpf_side.record_wake_edge_effect [OF side assms(2), of cx p, folded st1_def]
  show ?thesis
  proof (cases "tk_nr_cpus_allowed p = 1 \<or> home_cpus \<inter> tk_cpus_ptr p = {}")
    case True
    then show ?thesis using out same f by (auto simp: bpf_frame)
  next
    case False
    then show ?thesis using out same ready f by (simp add: home_outcome_def placement_claims_def stats)
  qed
qed

section \<open>A small machine\<close>

text \<open>Two LLCs of two CPUs; one process of one task, in cohort 1, whose home is LLC 1; CPU 0 is idle.\<close>

definition demo_rodata :: Rodata where
  "demo_rodata = \<lparr> ro_slice_ns = 5000000, ro_nr_llcs = 2, ro_nr_cpus = 4, ro_cpu_llc_id = [0, 0, 1, 1] @ replicate 508 0 \<rparr>"

definition demo_task :: Task where
  "demo_task = \<lparr> tk_pid = 100, tk_tgid = 10, tk_cpus_ptr = {0, 1, 2, 3}, tk_nr_cpus_allowed = 4, tk_weight = 100, tk_comm = replicate 16 0 \<rparr>"

definition demo_ctx :: TaskCtx where
  "demo_ctx = TaskCtx_zero\<lparr> tc_cohort_id := 1, tc_home_llc := 1, tc_last_run_at := 1000 \<rparr>"

definition demo_maps :: ref_kernel where
  "demo_maps = (\<lambda>_. [])
     (tgid_cohort_map := [(u32_bytes 10, u64_bytes 1)],
      cohort_policy := [(u64_bytes 1, CohortPolicy_bytes \<lparr> p_home_llc = 1, p_flags = 0 \<rparr>)],
      cohort_counters := [(u64_bytes 1, CohortCounters_bytes CohortCounters_default)],
      llc_load := [(u32_bytes 0, u64_bytes 0), (u32_bytes 1, u64_bytes 0)],
      task_stats := [(u32_bytes 100, TaskStat_bytes \<lparr> ts_tgid = 10, ts_pad = 0, ts_cohort_id = 1, ts_runtime_sum = 0,
        ts_runtime_home_sum = 0, ts_comm = replicate 16 0 \<rparr>)])"

definition demo_bpf :: "(ref_kernel, ref_scx) Bpf" where
  "demo_bpf = \<lparr> b_rodata = demo_rodata, b_tunables = Tunables_default, b_cohort_seq = 1, b_rr_ctr = 1,
     b_llcs = map (\<lambda>cpus. \<lparr> lx_cpumask = Some cpus, lx_vtime_now = 0, lx_head_enq_ts = 0 \<rparr>) [{0, 1}, {2, 3}],
     b_scratch = replicate 4 \<lparr> sx_mask = Some {}, sx_sample_ctr = 0 \<rparr>,
     b_task_ctxs = [100 \<mapsto> demo_ctx], b_stats = (\<lambda>_ _. 0), b_maps = demo_maps,
     b_scx = \<lparr> rx_queues = (\<lambda>_. []), rx_local = (\<lambda>_. []), rx_idle = [0], rx_idle_cores = [0] \<rparr> \<rparr>"

definition demo_cx :: Ctx where
  "demo_cx = \<lparr> cx_now = 5000, cx_cpu = 0, cx_current = None, cx_task_cpu = 0 \<rparr>"

lemma demo_maps_inv: "ref_inv demo_maps"
  by (simp add: ref_inv_def demo_maps_def map_sized_def hm_wf_def task_stat.enc_size map_simps)

lemma demo_lookups [simp]:
  "ref_contents spill_tasks demo_maps key = None"
  "ref_contents tgid_cohort_map demo_maps (u32_bytes 10) = Some (u64_bytes 1)"
  "ref_contents cohort_policy demo_maps (u64_bytes 1) = Some (CohortPolicy_bytes \<lparr> p_home_llc = 1, p_flags = 0 \<rparr>)"
  by (simp_all add: ref_contents_def demo_maps_def)

lemma demo_decided: "decided_llc ref_contents demo_rodata cpu demo_task t demo_maps = 1"
  by (simp add: decided_llc_def demo_task_def safe_llc_def demo_rodata_def CohortPolicy_bytes_def layout_simps)

text \<open>
  Witness of C5: although CPU 0, where the task was, is idle, it goes to its home, where it is left for the
  queue, and CPU 0 stays idle; with CPU 2 of the home idle too, that one and no other is claimed.
\<close>

theorem select_cpu_stays_home_witness:
  "(\<exists>cpu st'. cohort_select_cpu ref_helpers ref_scx_ops demo_cx demo_task 0 False demo_bpf = (cpu, st') \<and> cpu \<in> {2, 3} \<and> set (rx_idle (b_scx st')) = {0}) \<and>
   (\<exists>st'. cohort_select_cpu ref_helpers ref_scx_ops demo_cx demo_task 0 False (demo_bpf\<lparr> b_scx := (b_scx demo_bpf)\<lparr> rx_idle := [0, 2] \<rparr> \<rparr>) = (2, st') \<and>
      set (rx_idle (b_scx st')) = {0})"
proof -
  have home: "cpu \<in> {2, 3} \<and> (cpu \<in> idles \<and> set (rx_idle (b_scx st')) = idles - {cpu} \<or> {2, 3} \<inter> idles = {} \<and> set (rx_idle (b_scx st')) = idles)"
    if s: "cohort_select_cpu ref_helpers ref_scx_ops demo_cx demo_task 0 False st = (cpu, st')"
      and st: "st = demo_bpf\<lparr> b_scx := x \<rparr>" and idles: "idles = set (rx_idle x)" for st cpu st' x idles
  proof -
    have l: "lookup_llc_ctx (decided_llc ref_contents (b_rodata st) (cx_task_cpu demo_cx) demo_task demo_ctx (b_maps st)) st =
      Some \<lparr> lx_cpumask = Some {2, 3}, lx_vtime_now = 0, lx_head_enq_ts = 0 \<rparr>"
      by (simp add: st demo_bpf_def demo_decided lookup_llc_ctx_def)
    have side: "ref_inv (b_maps st)" "b_task_ctxs st (tk_pid demo_task) = Some demo_ctx" "scratch_ready demo_cx st"
      using demo_maps_inv by (simp_all add: st demo_bpf_def demo_task_def demo_cx_def scratch_ready_def)
    have t: "tk_nr_cpus_allowed demo_task \<noteq> 1" "tk_cpus_ptr demo_task = {0, 1, 2, 3}" "cx_cpu demo_cx = 0" "set (rx_idle (b_scx st)) = idles"
      by (simp_all add: demo_task_def demo_cx_def st idles)
    show ?thesis
      using select_cpu_stays_home [OF ref_all_idle.bpf_idle_kernel_axioms side(1,2) l _ _ side(3) s, of "{2, 3}"] t by auto
  qed
  obtain cpu st' where s: "cohort_select_cpu ref_helpers ref_scx_ops demo_cx demo_task 0 False demo_bpf = (cpu, st')" by fastforce
  obtain cpu2 st2' where s2: "cohort_select_cpu ref_helpers ref_scx_ops demo_cx demo_task 0 False
      (demo_bpf\<lparr> b_scx := (b_scx demo_bpf)\<lparr> rx_idle := [0, 2] \<rparr> \<rparr>) = (cpu2, st2')" by fastforce
  have i: "{0} = set (rx_idle (b_scx demo_bpf))" by (simp add: demo_bpf_def)
  have "st = st\<lparr> b_scx := b_scx st \<rparr>" for st :: "(ref_kernel, ref_scx) Bpf" by (cases st) simp
  from home [OF s this i] have "cpu \<in> {2, 3} \<and> set (rx_idle (b_scx st')) = {0}" by (elim conjE disjE) simp_all
  moreover have "{0, 2} = set (rx_idle ((b_scx demo_bpf)\<lparr> rx_idle := [0, 2] \<rparr>))" by simp
  from home [OF s2 refl this] have "cpu2 = 2 \<and> set (rx_idle (b_scx st2')) = {0}"
    by (elim conjE disjE) (simp_all add: insert_Diff_if, force)
  ultimately show ?thesis using s s2 by blast
qed

end
