(* ===== verification/Bpf_Queues.thy ===== *)
theory Bpf_Queues
  imports Bpf_Placement Startup
begin

text \<open>
  The queues of the BPF program: what \<open>ops.init\<close> builds, where and with which virtual time a task is
  queued, and what a CPU that runs dry takes from which queue.
\<close>

section \<open>ops.init\<close>

definition masks_ready :: "('k, 'x) Bpf \<Rightarrow> bool" where
  "masks_ready st \<longleftrightarrow> (\<forall>llc < ro_nr_llcs (b_rodata st). \<exists>x. lookup_llc_ctx llc st = Some x \<and>
     lx_cpumask x = Some (llc_cpumask (b_rodata st) llc))"

lemma init_llcs:
  assumes "distinct ls"
  shows "case try_fold (init_llc ie) ls st of
      Inl e \<Rightarrow> (\<exists>l \<in> set ls. length (b_llcs st) \<le> unat l \<and> e = - ENOENT \<or> ie_create_dsq ie l \<noteq> 0 \<and> e = ie_create_dsq ie l \<or>
          \<not> ie_llc_mask ie l \<and> e = - ENOMEM)
    | Inr st' \<Rightarrow> b_rodata st' = b_rodata st \<and> b_scratch st' = b_scratch st \<and> length (b_llcs st') = length (b_llcs st) \<and>
        (\<forall>l \<in> set ls. unat l < length (b_llcs st) \<and> ie_create_dsq ie l = 0 \<and> ie_llc_mask ie l) \<and>
        (\<forall>l. lookup_llc_ctx l st' = (if l \<in> set ls
          then map_option (\<lambda>x. x\<lparr> lx_cpumask := Some (llc_cpumask (b_rodata st) l) \<rparr>) (lookup_llc_ctx l st) else lookup_llc_ctx l st))"
  using assms
proof (induction ls arbitrary: st)
  case (Cons l ls)
  show ?case
  proof (cases "init_llc ie l st")
    case (Inl e)
    then show ?thesis by (auto simp: init_llc_def lookup_llc_ctx_def split: if_splits)
  next
    case (Inr st1)
    then have st1: "st1 = put_llc l ((b_llcs st ! unat l)\<lparr> lx_cpumask := Some (llc_cpumask (b_rodata st) l) \<rparr>) st"
      and l: "unat l < length (b_llcs st)" "ie_create_dsq ie l = 0" "ie_llc_mask ie l"
      by (auto simp: init_llc_def lookup_llc_ctx_def split: if_splits)
    have at: "lookup_llc_ctx l' st1 = (if l' = l then map_option (\<lambda>x. x\<lparr> lx_cpumask := Some (llc_cpumask (b_rodata st) l) \<rparr>) (lookup_llc_ctx l st)
        else lookup_llc_ctx l' st)" for l'
      using l(1) word_unat_eq_iff [of l' l] by (auto simp: st1 put_llc_def lookup_llc_ctx_def nth_list_update)
    have f: "b_rodata st1 = b_rodata st" "b_scratch st1 = b_scratch st" "length (b_llcs st1) = length (b_llcs st)"
      by (simp_all add: st1 bpf_frame)
    from Cons.IH [of st1] Cons.prems have ih: "case try_fold (init_llc ie) ls st1 of
        Inl e \<Rightarrow> (\<exists>l \<in> set ls. length (b_llcs st1) \<le> unat l \<and> e = - ENOENT \<or> ie_create_dsq ie l \<noteq> 0 \<and> e = ie_create_dsq ie l \<or>
            \<not> ie_llc_mask ie l \<and> e = - ENOMEM)
      | Inr st' \<Rightarrow> b_rodata st' = b_rodata st1 \<and> b_scratch st' = b_scratch st1 \<and> length (b_llcs st') = length (b_llcs st1) \<and>
          (\<forall>l \<in> set ls. unat l < length (b_llcs st1) \<and> ie_create_dsq ie l = 0 \<and> ie_llc_mask ie l) \<and>
          (\<forall>l. lookup_llc_ctx l st' = (if l \<in> set ls
            then map_option (\<lambda>x. x\<lparr> lx_cpumask := Some (llc_cpumask (b_rodata st1) l) \<rparr>) (lookup_llc_ctx l st1) else lookup_llc_ctx l st1))"
      by simp
    have "l \<notin> set ls" using Cons.prems by simp
    with ih show ?thesis using Inr l at f by (auto split: sum.splits)
  qed
qed simp

lemma init_scratches:
  "case try_fold (init_scratch ie) cpus st of
      Inl e \<Rightarrow> e = - ENOMEM \<and> (\<exists>cpu \<in> set cpus. cpu < length (b_scratch st) \<and> \<not> ie_cpu_mask ie cpu)
    | Inr st' \<Rightarrow> b_rodata st' = b_rodata st \<and> b_llcs st' = b_llcs st \<and> length (b_scratch st') = length (b_scratch st) \<and>
        (\<forall>cpu \<in> set cpus. cpu < length (b_scratch st) \<longrightarrow> ie_cpu_mask ie cpu) \<and>
        (\<forall>cpu < length (b_scratch st). cpu \<in> set cpus \<or> sx_mask (b_scratch st ! cpu) \<noteq> None \<longrightarrow> sx_mask (b_scratch st' ! cpu) \<noteq> None)"
proof (induction cpus arbitrary: st)
  case (Cons c cpus)
  show ?case
  proof (cases "c < length (b_scratch st) \<and> ie_cpu_mask ie c")
    case True
    define st1 where "st1 = st\<lparr> b_scratch := (b_scratch st)[c := (b_scratch st ! c)\<lparr> sx_mask := Some {} \<rparr>] \<rparr>"
    have "init_scratch ie c st = Inr st1" using True by (simp add: init_scratch_def st1_def)
    moreover have "sx_mask (b_scratch st1 ! cpu) \<noteq> None" if "cpu = c \<or> sx_mask (b_scratch st ! cpu) \<noteq> None" "cpu < length (b_scratch st)" for cpu
      using that True by (auto simp: st1_def nth_list_update)
    ultimately show ?thesis using Cons.IH [of st1] True by (fastforce simp: st1_def split: sum.splits)
  next
    case False
    then show ?thesis using Cons.IH [of st] by (auto simp: init_scratch_def split: sum.splits)
  qed
qed simp

lemma unat_of_nat_below: "i < unat n \<Longrightarrow> unat (of_nat i :: u32) = i" for n :: u32
proof -
  assume "i < unat n"
  moreover have "unat n < 2 ^ 32" using unsigned_less [of n] by simp
  ultimately show ?thesis by (simp add: unsigned_of_nat take_bit_nat_eq_self)
qed

lemma of_nat_below: "i < unat n \<Longrightarrow> of_nat i < n" for n :: u32
  by (simp add: word_less_nat_alt unat_of_nat_below)

lemma all_llcs_distinct: "distinct (map of_nat [0 ..< unat n] :: u32 list)" for n :: u32
proof -
  have "inj_on (of_nat :: nat \<Rightarrow> u32) {0 ..< unat n}"
    by (rule inj_on_inverseI [where g = unat]) (simp add: unat_of_nat_below)
  then show ?thesis by (simp add: distinct_map)
qed

lemma set_all_llcs: "set (map of_nat [0 ..< unat n]) = {l. l < n}" for n :: u32
proof -
  have "l \<in> of_nat ` {0 ..< unat n}" if "l < n" for l
    using that by (intro image_eqI [of _ _ "unat l"]) (simp_all add: word_less_nat_alt)
  then show ?thesis using of_nat_below by auto
qed

lemma all_llcs_prefix:
  fixes n i j :: u32
  assumes "map of_nat [0 ..< unat n] = xs @ i # ys"
  shows "i < n" and "j < i \<Longrightarrow> j \<in> set xs"
proof -
  have len: "length xs < unat n" using arg_cong [OF assms, of length] by simp
  have "map of_nat [0 ..< unat n] ! length xs = i" by (simp add: assms)
  then have i: "i = of_nat (length xs)" using len by simp
  then show "i < n" using len by (simp add: of_nat_below)
  assume "j < i"
  then have "unat j < length xs" using len by (simp add: word_less_nat_alt i unat_of_nat_below)
  moreover have "(map of_nat [0 ..< unat n] :: u32 list) ! unat j = j" using calculation len by simp
  ultimately show "j \<in> set xs" by (metis assms nth_append nth_mem)
qed

lemma cohort_init_outcome:
  "case cohort_init ie st of
      Inl e \<Rightarrow> (\<exists>l < ro_nr_llcs (b_rodata st). length (b_llcs st) \<le> unat l \<and> e = - ENOENT \<or> ie_create_dsq ie l \<noteq> 0 \<and> e = ie_create_dsq ie l \<or>
          \<not> ie_llc_mask ie l \<and> e = - ENOMEM) \<or> e = - ENOMEM \<and> (\<exists>cpu < unat (ro_nr_cpus (b_rodata st)). \<not> ie_cpu_mask ie cpu)
    | Inr st' \<Rightarrow> b_rodata st' = b_rodata st \<and> masks_ready st' \<and> (\<forall>cpu < unat (ro_nr_cpus (b_rodata st)).
        cpu < length (b_scratch st') \<longrightarrow> sx_mask (b_scratch st' ! cpu) \<noteq> None)"
proof -
  let ?ls = "map of_nat [0 ..< unat (ro_nr_llcs (b_rodata st))] :: u32 list"
  note out = init_llcs [OF all_llcs_distinct [of "ro_nr_llcs (b_rodata st)"], where ie = ie and st = st]
  show ?thesis
  proof (cases "try_fold (init_llc ie) ?ls st")
    case (Inl e)
    then show ?thesis using out unfolding set_all_llcs by (auto simp: cohort_init_def)
  next
    case (Inr st1)
    have ro: "b_rodata st1 = b_rodata st" and at: "\<forall>l < ro_nr_llcs (b_rodata st). unat l < length (b_llcs st)"
      and masks: "\<forall>l < ro_nr_llcs (b_rodata st). lookup_llc_ctx l st1 =
        map_option (\<lambda>x. x\<lparr> lx_cpumask := Some (llc_cpumask (b_rodata st) l) \<rparr>) (lookup_llc_ctx l st)"
      using out Inr unfolding set_all_llcs by simp_all
    have m1: "masks_ready st1" using masks at ro by (auto simp: masks_ready_def lookup_llc_ctx_def)
    note sc = init_scratches [where ie = ie and cpus = "[0 ..< unat (ro_nr_cpus (b_rodata st))]" and st = st1]
    show ?thesis
    proof (cases "try_fold (init_scratch ie) [0 ..< unat (ro_nr_cpus (b_rodata st))] st1")
      case (Inl e)
      then show ?thesis using sc Inr ro by (auto simp: cohort_init_def)
    next
      case (Inr st2)
      then have "b_rodata st2 = b_rodata st" "masks_ready st2" "\<forall>cpu < unat (ro_nr_cpus (b_rodata st)).
          cpu < length (b_scratch st2) \<longrightarrow> sx_mask (b_scratch st2 ! cpu) \<noteq> None"
        using sc ro m1 by (auto simp: masks_ready_def lookup_llc_ctx_def)
      then show ?thesis using \<open>try_fold (init_llc ie) ?ls st = Inr st1\<close> Inr ro by (simp add: cohort_init_def)
    qed
  qed
qed

text \<open>
  C24. The BPF side's picture of the machine is the topology. On a machine that
  \<open>Scheduler::init\<close> accepts and whose LLCs are numbered consecutively, \<open>ops.init\<close> fails only when the
  kernel cannot create a queue or allocate a mask; when it succeeds, every LLC has a CPU mask, every
  CPU of the topology is in the mask of its own LLC and in no other, and that LLC is the one the BPF
  program charges for work on this CPU.
\<close>

theorem init_masks_topology:
  assumes "Scheduler_init opts cfg bo = Inr (ro, tn, s)" and "bo_topology bo = Some topo" and "topology_ok topo"
    and "length (ro_cpu_llc_id (bo_rodata bo)) = unat MAX_CPUS"
    and "\<forall>(c, cpu) \<in> set (tp_all_cpus topo). cpu_llc_id cpu < length (tp_all_llcs topo)"
    and "b_rodata st = ro" and "length (b_llcs st) = unat MAX_LLCS"
  shows "case cohort_init ie st of
      Inl e \<Rightarrow> (\<exists>l < ro_nr_llcs ro. ie_create_dsq ie l \<noteq> 0 \<or> \<not> ie_llc_mask ie l) \<or> (\<exists>cpu < unat (ro_nr_cpus ro). \<not> ie_cpu_mask ie cpu)
    | Inr st' \<Rightarrow> masks_ready st' \<and> b_rodata st' = ro \<and> (\<forall>(c, cpu) \<in> set (tp_all_cpus topo).
        llc_of_cpu ro (int c) = of_nat (cpu_llc_id cpu) \<and> (\<forall>l. c \<in> llc_cpumask ro l \<longleftrightarrow> l = of_nat (cpu_llc_id cpu)))"
proof -
  have fill: "fill_rodata opts topo (bo_rodata bo) = Inr ro" and few: "length (tp_all_llcs topo) \<le> unat MAX_LLCS"
    using assms(1,2) by (auto simp: Scheduler_init_def split: if_splits sum.splits)
  have nr: "ro_nr_llcs ro = of_nat (length (tp_all_llcs topo))"
    using fill by (auto simp: fill_rodata_def Let_def split: if_splits sum.splits)
  have n: "unat (ro_nr_llcs ro) = length (tp_all_llcs topo)"
    using few by (simp add: nr unsigned_of_nat take_bit_nat_eq_self MAX_LLCS_def)
  have cpus: "c < unat MAX_CPUS \<and> c < unat (ro_nr_cpus ro) \<and> ro_cpu_llc_id ro ! c = of_nat (cpu_llc_id cpu)"
    if "(c, cpu) \<in> set (tp_all_cpus topo)" for c cpu
    using fill_rodata_outcome [OF assms(3,4), of opts] that by (force simp: fill)
  have own: "safe_llc ro (ro_cpu_llc_id ro ! c) = of_nat (cpu_llc_id cpu)" if "(c, cpu) \<in> set (tp_all_cpus topo)" for c cpu
  proof -
    have lt: "cpu_llc_id cpu < unat (ro_nr_llcs ro)" using assms(5) that n by auto
    then have "of_nat (cpu_llc_id cpu) < ro_nr_llcs ro" by (rule of_nat_below)
    then show ?thesis using cpus [OF that] by (simp add: safe_llc_def)
  qed
  have small: "unat l < length (b_llcs st)" if "l < ro_nr_llcs ro" for l
    using that few n assms(7) by (simp add: word_less_nat_alt)
  have topo: "llc_of_cpu ro (int c) = of_nat (cpu_llc_id cpu) \<and> (\<forall>l. c \<in> llc_cpumask ro l \<longleftrightarrow> l = of_nat (cpu_llc_id cpu))"
    if "(c, cpu) \<in> set (tp_all_cpus topo)" for c cpu
    using own [OF that] cpus [OF that] by (auto simp: llc_of_cpu_def llc_cpumask_def MAX_CPUS_def)
  show ?thesis
  proof (cases "cohort_init ie st")
    case (Inl e)
    then show ?thesis using cohort_init_outcome [where ie = ie and st = st] small assms(6) by (auto simp: not_le [symmetric])
  next
    case (Inr st')
    then show ?thesis using cohort_init_outcome [where ie = ie and st = st] topo assms(6) by auto
  qed
qed

text \<open>Witness of C24.\<close>

theorem init_masks_topology_witness:
  "\<exists>ro tn s. Scheduler_init Opts_default Config_default demo_boot = Inr (ro, tn, s) \<and>
     (case cohort_init \<lparr> ie_create_dsq = (\<lambda>_. 0), ie_llc_mask = (\<lambda>_. True), ie_cpu_mask = (\<lambda>_. True) \<rparr>
        (demo_bpf\<lparr> b_rodata := ro, b_llcs := replicate (unat MAX_LLCS) \<lparr> lx_cpumask = None, lx_vtime_now = 0, lx_head_enq_ts = 0 \<rparr> \<rparr>) of
        Inl e \<Rightarrow> False | Inr st' \<Rightarrow> masks_ready st' \<and> llc_of_cpu ro (int 3) = 1)"
proof -
  let ?ie = "\<lparr> ie_create_dsq = (\<lambda>_. 0), ie_llc_mask = (\<lambda>_. True), ie_cpu_mask = (\<lambda>_. True) \<rparr>"
  obtain ro tn s where i: "Scheduler_init Opts_default Config_default demo_boot = Inr (ro, tn, s)" using demo_init by blast
  have ok: "topology_ok demo_topology" "bo_topology demo_boot = Some demo_topology" "length (ro_cpu_llc_id (bo_rodata demo_boot)) = unat MAX_CPUS"
    "\<forall>(c, cpu) \<in> set (tp_all_cpus demo_topology). cpu_llc_id cpu < length (tp_all_llcs demo_topology)"
    by (simp_all add: topology_ok_def demo_topology_def demo_boot_def MAX_CPUS_def hm_wf_def)
  have three: "(3, \<lparr> cpu_id = 3, cpu_llc_id = 1 \<rparr>) \<in> set (tp_all_cpus demo_topology)" by (simp add: demo_topology_def)
  let ?st = "demo_bpf\<lparr> b_rodata := ro, b_llcs := replicate (unat MAX_LLCS) \<lparr> lx_cpumask = None, lx_vtime_now = 0, lx_head_enq_ts = 0 \<rparr> \<rparr>"
  have "case cohort_init ?ie ?st of Inl e \<Rightarrow> False | Inr st' \<Rightarrow> masks_ready st' \<and> llc_of_cpu ro (int 3) = 1"
    using init_masks_topology [OF i ok(2,1,3,4), of ?st ?ie] three by (auto split: sum.splits)
  then show ?thesis using i by blast
qed

section \<open>ops.enqueue\<close>

text \<open>The queue's virtual time is at or after one slice behind the frontier, less the credit.\<close>

lemma enqueue_vtime_floor:
  "\<exists>d. enqueue_vtime ro tn vtime_now (Some t) = vtime_now - ro_slice_ns ro + d - (if interactive tn t then credit_max_ns tn else 0) \<and>
     0 \<le> sint d \<and> (d = 0 \<or> d = tc_vtime t - (vtime_now - ro_slice_ns ro))"
proof (cases "vtime_before (tc_vtime t) (vtime_now - ro_slice_ns ro)")
  case True
  then show ?thesis by (intro exI [of _ 0]) (simp add: enqueue_vtime_def)
next
  case False
  then show ?thesis
    by (intro exI [of _ "tc_vtime t - (vtime_now - ro_slice_ns ro)"]) (simp add: enqueue_vtime_def vtime_before_def)
qed

lemma sint_small: "unat w < 2 ^ 63 \<Longrightarrow> sint w = int (unat w)" for w :: u64
proof -
  assume "unat w < 2 ^ 63"
  then have "int (unat w) < int (2 ^ 63)" by (simp only: of_nat_less_iff)
  then have "uint w < 2 ^ 63" by simp
  moreover have "- (2 ^ 63) \<le> uint w" by (rule order_trans [of _ 0]) simp_all
  ultimately show ?thesis by (simp add: sint_uint signed_take_bit_int_eq_self)
qed

lemma sint_sum3:
  fixes a b c :: u64
  assumes "unat a < 2 ^ 61" and "unat b < 2 ^ 61" and "unat c < 2 ^ 61"
  shows "0 \<le> sint (a + b + c)"
proof -
  have "unat (a + b) = unat a + unat b" using assms by (subst unat_add_lem [symmetric]) simp
  moreover from this have "unat (a + b + c) = unat (a + b) + unat c" using assms by (subst unat_add_lem [symmetric]) simp
  ultimately show ?thesis using assms sint_small [of "a + b + c"] by simp
qed

text \<open>
  C25. The unfairness of the interactive credit is finite. Take any virtual time \<open>v\<close> in the queue of
  an LLC, in the wrap-around order of 64 bits. Once the LLC's frontier has passed \<open>v\<close> by one slice plus the
  credit, no task that is enqueued there is put before \<open>v\<close>, however long it slept and however
  interactive it is. The distances are below \<open>2^61\<close> nanoseconds, some seventy years.
\<close>

theorem enqueue_overtakes_boundedly:
  assumes "unat (vtime_now - ro_slice_ns ro - credit_max_ns tn - v) < 2 ^ 61" and "unat (credit_max_ns tn) < 2 ^ 61"
    and "vtime_before (tc_vtime t) (vtime_now - ro_slice_ns ro) \<or> unat (tc_vtime t - (vtime_now - ro_slice_ns ro)) < 2 ^ 61"
  shows "\<not> vtime_before (enqueue_vtime ro tn vtime_now (Some t)) v"
proof -
  define a where "a = vtime_now - ro_slice_ns ro - credit_max_ns tn - v"
  obtain d where e: "enqueue_vtime ro tn vtime_now (Some t) = vtime_now - ro_slice_ns ro + d - (if interactive tn t then credit_max_ns tn else 0)"
    and d: "0 \<le> sint d" "d = 0 \<or> d = tc_vtime t - (vtime_now - ro_slice_ns ro)"
    using enqueue_vtime_floor by blast
  have "unat d < 2 ^ 61" using d assms(3) by (auto simp: vtime_before_def)
  then have "0 \<le> sint (a + d + (if interactive tn t then 0 else credit_max_ns tn))"
    using assms(1,2) by (intro sint_sum3) (simp_all add: a_def)
  moreover have "enqueue_vtime ro tn vtime_now (Some t) - v = a + d + (if interactive tn t then 0 else credit_max_ns tn)"
    unfolding e a_def by simp
  ultimately show ?thesis by (simp add: vtime_before_def)
qed

text \<open>Witness of C25.\<close>

theorem enqueue_overtakes_boundedly_witness:
  "\<not> vtime_before (enqueue_vtime demo_rodata Tunables_default 10000000 (Some demo_ctx)) 1000000"
  by (rule enqueue_overtakes_boundedly) (simp_all add: demo_rodata_def Tunables_default_def demo_ctx_def TaskCtx_zero_def vtime_before_def)

text \<open>The LLC a task is queued at: the decided home, unless its affinity excludes that entirely.\<close>

definition queue_llc :: "(map_id \<Rightarrow> 'k \<Rightarrow> bytes \<Rightarrow> bytes option) \<Rightarrow> Ctx \<Rightarrow> Task \<Rightarrow> TaskCtx \<Rightarrow> ('k, 'x) Bpf \<Rightarrow> u32" where
  "queue_llc contents cx p t st =
     (let home = decided_llc contents (b_rodata st) (cx_task_cpu cx) p t (b_maps st)
      in if llc_cpumask (b_rodata st) home \<inter> tk_cpus_ptr p = {} then llc_of_cpu (b_rodata st) (cx_task_cpu cx) else home)"

lemma decided_range: "0 < ro_nr_llcs ro \<Longrightarrow> decided_llc contents ro cpu p t k < ro_nr_llcs ro"
  by (simp add: decided_llc_def safe_llc_range llc_of_cpu_range Let_def split: option.splits)

lemma llc_cpumask_own:
  "cpu < unat (ro_nr_cpus ro) \<Longrightarrow> cpu < unat MAX_CPUS \<Longrightarrow> cpu \<in> llc_cpumask ro l \<longleftrightarrow> l = llc_of_cpu ro (int cpu)"
  by (auto simp: llc_cpumask_def llc_of_cpu_def MAX_CPUS_def)

context bpf_kernel
begin

lemma effective_llc:
  assumes "kinv (b_maps st)" and "masks_ready st" and "0 < ro_nr_llcs (b_rodata st)"
    and "task_effective_llc bh cx p (Some t) st = (llc, st')"
  shows "llc = queue_llc contents cx p t st" and "\<exists>t'. st' = put_ctx p t' st"
proof -
  obtain home st1 where h: "task_home_llc bh cx p (Some t) st = (home, st1)" by fastforce
  note home = task_home_decided [OF assms(1) h]
  then obtain t' where st1: "st1 = put_ctx p t' st" by blast
  have "home < ro_nr_llcs (b_rodata st)" using decided_range [OF assms(3)] by (simp add: home(1))
  then obtain x where x: "lookup_llc_ctx home st1 = Some x" "lx_cpumask x = Some (llc_cpumask (b_rodata st) home)"
    using assms(2) lookup_llc_cong [of st1 st home] by (auto simp: masks_ready_def st1 bpf_frame)
  have e: "(if llc_cpumask (b_rodata st) home \<inter> tk_cpus_ptr p = {} then (llc_of_cpu (b_rodata st1) (cx_task_cpu cx), st1) else (home, st1)) = (llc, st')"
    using assms(4) unfolding task_effective_llc_def h Let_def prod.case x option.case .
  then show "llc = queue_llc contents cx p t st" "\<exists>t'. st' = put_ctx p t' st"
    by (auto simp: queue_llc_def Let_def home(1) [symmetric] st1 bpf_frame split: if_splits)
qed

lemma enqueue_effect:
  fixes cx :: Ctx and fl :: u64
  assumes "kinv (b_maps st)" and "masks_ready st" and "0 < ro_nr_llcs (b_rodata st)" and "b_task_ctxs st (tk_pid p) = Some t"
  defines "st' \<equiv> cohort_enqueue bh so cx p fl st" and "llc \<equiv> queue_llc contents cx p t st"
  shows "queue (b_scx st') = (queue (b_scx st))(llc := add_mset p (queue (b_scx st) llc))" and "b_rodata st' = b_rodata st"
    and "b_tunables st' = b_tunables st" and "b_maps st' = b_maps st"
proof -
  obtain e st1 where s: "task_effective_llc bh cx p (Some t) st = (e, st1)" by fastforce
  obtain t' where st1: "st1 = put_ctx p t' st" using effective_llc(2) [OF assms(1-3) s] by blast
  have e: "e = llc" using effective_llc(1) [OF assms(1-3) s] by (simp add: llc_def)
  have c: "lookup_task_ctx cx p st = (Some t, st)" using assms(4) by (simp add: lookup_task_ctx_def)
  have st': "\<exists>v. b_scx st' = dsq_insert_vtime so p llc (ro_slice_ns (b_rodata st)) v fl (b_scx st) \<and> b_rodata st' = b_rodata st \<and>
      b_tunables st' = b_tunables st \<and> b_maps st' = b_maps st"
    unfolding st'_def cohort_enqueue_def c Let_def prod.case s e
    by (auto simp: st1 bpf_frame split: option.splits)
  then show "queue (b_scx st') = (queue (b_scx st))(llc := add_mset p (queue (b_scx st) llc))" "b_rodata st' = b_rodata st"
    "b_tunables st' = b_tunables st" "b_maps st' = b_maps st"
    by (auto simp: insert_vtime fun_eq_iff)
qed

end

section \<open>ops.dispatch\<close>

text \<open>Whether the CPU may steal from the LLC: its gate is open and a task of its queue may run there.\<close>

definition stealable :: "('x \<Rightarrow> u32 \<Rightarrow> Task multiset) \<Rightarrow> Ctx \<Rightarrow> nat \<Rightarrow> u32 \<Rightarrow> ('k, 'x) Bpf \<Rightarrow> u32 \<Rightarrow> bool" where
  "stealable queue cx cpu my_llc st i \<longleftrightarrow> i \<noteq> my_llc \<and> (\<exists>p. p \<in># queue (b_scx st) i \<and> cpu \<in> tk_cpus_ptr p) \<and>
     (case lookup_llc_ctx i st of Some fx \<Rightarrow> steal_gate (b_tunables st) (cx_now cx) (int (size (queue (b_scx st) i))) fx | None \<Rightarrow> False)"

text \<open>One task of the LLC's queue, allowed on the CPU, is now in the CPU's queue; nothing else moved.\<close>

definition moved_one :: "('x \<Rightarrow> u32 \<Rightarrow> Task multiset) \<Rightarrow> ('x \<Rightarrow> nat \<Rightarrow> Task multiset) \<Rightarrow> nat \<Rightarrow> u32 \<Rightarrow> 'x \<Rightarrow> 'x \<Rightarrow> bool" where
  "moved_one queue local_queue cpu l x x' \<longleftrightarrow> (\<exists>p. p \<in># queue x l \<and> cpu \<in> tk_cpus_ptr p \<and>
     queue x' = (queue x)(l := queue x l - {#p#}) \<and> local_queue x' = (local_queue x)(cpu := add_mset p (local_queue x cpu)))"

context scx_kernel
begin

lemma steal_loop_outcome:
  "(\<forall>i \<in> set is. \<not> stealable queue cx cpu my_llc st i) \<and> queue (b_scx (steal_loop so cx cpu my_llc is st)) = queue (b_scx st) \<and>
     local_queue (b_scx (steal_loop so cx cpu my_llc is st)) = local_queue (b_scx st) \<and> b_stats (steal_loop so cx cpu my_llc is st) = b_stats st \<or>
   (\<exists>xs i ys. is = xs @ i # ys \<and> (\<forall>j \<in> set xs. \<not> stealable queue cx cpu my_llc st j) \<and> stealable queue cx cpu my_llc st i \<and>
     moved_one queue local_queue cpu i (b_scx st) (b_scx (steal_loop so cx cpu my_llc is st)) \<and>
     b_stats (steal_loop so cx cpu my_llc is st) = b_stats (stat_inc cx STAT_STEAL st))"
    (is "?none is st \<or> ?some is st")
proof (induction "is" arbitrary: st)
  case (Cons i "is")
  obtain m x where mv: "dsq_move_to_local so i cpu (b_scx st) = (m, x)" by fastforce
  show ?case
  proof (cases "stealable queue cx cpu my_llc st i")
    case True
    then obtain fx where fx: "lookup_llc_ctx i st = Some fx" by (auto simp: stealable_def split: option.splits)
    have m: m using True move_none [of i cpu "b_scx st" x] mv by (auto simp: stealable_def)
    have "0 < int (size (queue (b_scx st) i))" using True by (auto simp: stealable_def dest: multi_member_split)
    then have "steal_loop so cx cpu my_llc (i # is) st = stat_inc cx STAT_STEAL (put_llc i (fx\<lparr> lx_head_enq_ts := cx_now cx \<rparr>) (st\<lparr> b_scx := x \<rparr>))"
      using True m mv by (simp add: fx nr_queued stealable_def)
    moreover have "moved_one queue local_queue cpu i (b_scx st) x" using move_some [of i cpu "b_scx st" x] mv m by (simp add: moved_one_def)
    ultimately have "?some (i # is) st" using True by (intro exI [of _ "[]"] exI [of _ i] exI [of _ "is"]) (simp add: bpf_frame stat_inc_def put_llc_def)
    then show ?thesis ..
  next
    case False
    have "\<exists>x. steal_loop so cx cpu my_llc (i # is) st = steal_loop so cx cpu my_llc is (st\<lparr> b_scx := x \<rparr>) \<and>
        queue x = queue (b_scx st) \<and> local_queue x = local_queue (b_scx st)"
    proof (cases "\<exists>fx. lookup_llc_ctx i st = Some fx \<and> i \<noteq> my_llc \<and> 0 < dsq_nr_queued so (LlcDsq i) (b_scx st) \<and>
        steal_gate (b_tunables st) (cx_now cx) (dsq_nr_queued so (LlcDsq i) (b_scx st)) fx")
      case True
      then have "\<not> m" using False move_some [of i cpu "b_scx st" x] mv by (auto simp: stealable_def nr_queued)
      then show ?thesis using True move_none [of i cpu "b_scx st" x] mv by (intro exI [of _ x]) auto
    next
      case False
      then show ?thesis by (intro exI [of _ "b_scx st"]) (auto split: option.splits)
    qed
    then obtain x where x: "steal_loop so cx cpu my_llc (i # is) st = steal_loop so cx cpu my_llc is (st\<lparr> b_scx := x \<rparr>)"
        "queue x = queue (b_scx st)" "local_queue x = local_queue (b_scx st)" by blast
    have st: "stealable queue cx cpu my_llc (st\<lparr> b_scx := x \<rparr>) j = stealable queue cx cpu my_llc st j" for j
      using x(2) lookup_llc_cong [of "st\<lparr> b_scx := x \<rparr>" st j] by (simp add: stealable_def cong: option.case_cong)
    have mo: "moved_one queue local_queue cpu j x = moved_one queue local_queue cpu j (b_scx st)" for j
      using x by (simp add: moved_one_def fun_eq_iff)
    define r where "r = steal_loop so cx cpu my_llc is (st\<lparr> b_scx := x \<rparr>)"
    have r: "steal_loop so cx cpu my_llc (i # is) st = r" by (simp only: x(1) r_def)
    have stat: "b_stats (stat_inc cx STAT_STEAL (st\<lparr> b_scx := x \<rparr>)) = b_stats (stat_inc cx STAT_STEAL st)" by (simp add: stat_inc_def)
    from Cons.IH [of "st\<lparr> b_scx := x \<rparr>", folded r_def, unfolded st] show ?thesis
    proof (elim disjE exE)
      fix xs j ys
      assume "is = xs @ j # ys \<and> (\<forall>j \<in> set xs. \<not> stealable queue cx cpu my_llc st j) \<and> stealable queue cx cpu my_llc st j \<and>
        moved_one queue local_queue cpu j (b_scx (st\<lparr> b_scx := x \<rparr>)) (b_scx r) \<and> b_stats r = b_stats (stat_inc cx STAT_STEAL (st\<lparr> b_scx := x \<rparr>))"
      then show ?thesis unfolding r using False
        by (intro disjI2 exI [of _ "i # xs"] exI [of _ j] exI [of _ ys]) (simp add: mo stat)
    qed (use False x r in \<open>simp del: steal_loop.simps\<close>)
  qed
qed simp

lemma dispatch_own:
  assumes "p \<in># queue (b_scx st) (llc_of_cpu (b_rodata st) (int cpu))" and "cpu \<in> tk_cpus_ptr p"
  shows "moved_one queue local_queue cpu (llc_of_cpu (b_rodata st) (int cpu)) (b_scx st) (b_scx (cohort_dispatch so cx cpu st))"
    and "b_stats (cohort_dispatch so cx cpu st) = b_stats st"
proof -
  define my_llc where "my_llc = llc_of_cpu (b_rodata st) (int cpu)"
  obtain m x where mv: "dsq_move_to_local so my_llc cpu (b_scx st) = (m, x)" by fastforce
  then have m: m using move_none [of my_llc cpu "b_scx st" x] assms by (auto simp: my_llc_def)
  then have "b_scx (cohort_dispatch so cx cpu st) = x" and stats: "b_stats (cohort_dispatch so cx cpu st) = b_stats st"
    using mv by (auto simp: cohort_dispatch_def my_llc_def [symmetric] Let_def bpf_frame split: option.splits)
  moreover have "moved_one queue local_queue cpu my_llc (b_scx st) x"
    using move_some [of my_llc cpu "b_scx st" x] mv m by (simp add: moved_one_def)
  ultimately show "moved_one queue local_queue cpu (llc_of_cpu (b_rodata st) (int cpu)) (b_scx st) (b_scx (cohort_dispatch so cx cpu st))"
    by (simp add: my_llc_def)
  show "b_stats (cohort_dispatch so cx cpu st) = b_stats st" by (rule stats)
qed

end

text \<open>
  C12. A CPU that runs dry serves its own LLC first, and crosses to another only when that LLC's gate is
  open. If a task queued at the CPU's own LLC may run on the CPU, one such task moves to the CPU
  and no steal is counted. Otherwise the CPU takes one task from the first other LLC whose queue is
  deeper than \<open>steal_min\<close> or has been waiting for longer than \<open>steal_delay_ns\<close>, and that has a task for
  the CPU, and counts one steal; and only if no LLC is like that, nothing moves. So at most one
  task moves, none is lost, and no CPU stays idle beside a task it may take.
\<close>

theorem dispatch_local_first:
  fixes st :: "('k, 'x) Bpf" and cx :: Ctx and cpu :: nat
  assumes "bpf_kernel ko contents kinv bh so queue local_queue"
  defines "my_llc \<equiv> llc_of_cpu (b_rodata st) (int cpu)" and "st' \<equiv> cohort_dispatch so cx cpu st"
  shows "if \<exists>p. p \<in># queue (b_scx st) my_llc \<and> cpu \<in> tk_cpus_ptr p
    then moved_one queue local_queue cpu my_llc (b_scx st) (b_scx st') \<and> b_stats st' = b_stats st
    else if \<exists>i < ro_nr_llcs (b_rodata st). stealable queue cx cpu my_llc st i
    then \<exists>i < ro_nr_llcs (b_rodata st). stealable queue cx cpu my_llc st i \<and> (\<forall>j < i. \<not> stealable queue cx cpu my_llc st j) \<and>
      moved_one queue local_queue cpu i (b_scx st) (b_scx st') \<and> b_stats st' = b_stats (stat_inc cx STAT_STEAL st)
    else queue (b_scx st') = queue (b_scx st) \<and> local_queue (b_scx st') = local_queue (b_scx st) \<and> b_stats st' = b_stats st"
proof -
  have scx: "scx_kernel so queue local_queue" using assms(1) by (simp add: bpf_kernel_def)
  obtain m x where mv: "dsq_move_to_local so my_llc cpu (b_scx st) = (m, x)" by fastforce
  show ?thesis
  proof (cases "\<exists>p. p \<in># queue (b_scx st) my_llc \<and> cpu \<in> tk_cpus_ptr p")
    case True
    then show ?thesis using scx_kernel.dispatch_own [OF scx, of _ st cpu cx] by (auto simp: my_llc_def st'_def)
  next
    case False
    let ?st = "st\<lparr> b_scx := x \<rparr>" and ?is = "map of_nat [0 ..< unat (ro_nr_llcs (b_rodata st))] :: u32 list"
    have m: "\<not> m" using False scx_kernel.move_some [OF scx, of my_llc cpu "b_scx st" x] mv by auto
    then have q: "queue x = queue (b_scx st)" "local_queue x = local_queue (b_scx st)"
      using scx_kernel.move_none [OF scx, of my_llc cpu "b_scx st" x] mv by auto
    have st': "st' = steal_loop so cx cpu my_llc ?is ?st"
      using mv m by (simp add: st'_def cohort_dispatch_def my_llc_def [symmetric])
    have st: "stealable queue cx cpu my_llc ?st = stealable queue cx cpu my_llc st"
      using q(1) lookup_llc_cong [of ?st st] by (simp add: stealable_def fun_eq_iff cong: option.case_cong)
    have mo: "moved_one queue local_queue cpu j x = moved_one queue local_queue cpu j (b_scx st)" for j
      using q by (simp add: moved_one_def fun_eq_iff)
    have stat: "b_stats (stat_inc cx STAT_STEAL ?st) = b_stats (stat_inc cx STAT_STEAL st)" by (simp add: stat_inc_def)
    from scx_kernel.steal_loop_outcome [OF scx, of ?is cx cpu my_llc ?st, folded st', unfolded st set_all_llcs]
    show ?thesis
    proof
      assume "(\<forall>i \<in> {l. l < ro_nr_llcs (b_rodata st)}. \<not> stealable queue cx cpu my_llc st i) \<and> queue (b_scx st') = queue (b_scx ?st) \<and>
        local_queue (b_scx st') = local_queue (b_scx ?st) \<and> b_stats st' = b_stats ?st"
      then show ?thesis using False q by auto
    next
      assume "\<exists>xs i ys. ?is = xs @ i # ys \<and> (\<forall>j \<in> set xs. \<not> stealable queue cx cpu my_llc st j) \<and> stealable queue cx cpu my_llc st i \<and>
        moved_one queue local_queue cpu i (b_scx ?st) (b_scx st') \<and> b_stats st' = b_stats (stat_inc cx STAT_STEAL ?st)"
      then obtain xs i ys where s: "?is = xs @ i # ys" "\<forall>j \<in> set xs. \<not> stealable queue cx cpu my_llc st j" "stealable queue cx cpu my_llc st i"
        "moved_one queue local_queue cpu i (b_scx st) (b_scx st')" "b_stats st' = b_stats (stat_inc cx STAT_STEAL st)"
        by (auto simp: mo stat)
      note i = all_llcs_prefix [OF s(1)]
      then show ?thesis using False s by auto
    qed
  qed
qed

text \<open>Witness of C12: CPU 0 finds its own queue empty and steals the task that waits at LLC 1.\<close>

theorem dispatch_local_first_witness:
  defines "st \<equiv> demo_bpf\<lparr> b_scx := (b_scx demo_bpf)\<lparr> rx_queues := (\<lambda>_. [])(1 := [(7, demo_task)]) \<rparr> \<rparr>"
  defines "st' \<equiv> cohort_dispatch ref_scx_ops (demo_cx\<lparr> cx_now := 600000 \<rparr>) 0 st"
  shows "mset (map snd (rx_queues (b_scx st') 1)) = {#} \<and> b_stats st' = b_stats (stat_inc (demo_cx\<lparr> cx_now := 600000 \<rparr>) STAT_STEAL st)"
proof -
  let ?cx = "demo_cx\<lparr> cx_now := 600000 \<rparr>"
  have own: "llc_of_cpu (b_rodata st) (int 0) = 0" by (simp add: llc_of_cpu_def st_def demo_bpf_def demo_rodata_def safe_llc_def MAX_CPUS_def)
  have steal: "stealable (\<lambda>x l. mset (map snd (rx_queues x l))) ?cx 0 0 st i \<longleftrightarrow> i = 1" for i
    by (auto simp: stealable_def st_def demo_bpf_def lookup_llc_ctx_def steal_gate_def Tunables_default_def demo_task_def)
  have none: "(\<exists>p. p \<in># mset (map snd (rx_queues (b_scx st) 0)) \<and> 0 \<in> tk_cpus_ptr p) = False" by (simp add: st_def demo_bpf_def)
  have some: "(\<exists>i < ro_nr_llcs (b_rodata st). stealable (\<lambda>x l. mset (map snd (rx_queues x l))) ?cx 0 0 st i) = True"
    unfolding steal by (simp add: st_def demo_bpf_def demo_rodata_def)
  from dispatch_local_first [OF ref_all.bpf_kernel_axioms, of st 0 ?cx, folded st'_def, unfolded own none some if_True if_False]
  have "moved_one (\<lambda>x l. mset (map snd (rx_queues x l))) (\<lambda>x c. mset (rx_local x c)) 0 1 (b_scx st) (b_scx st')"
    and stats: "b_stats st' = b_stats (stat_inc ?cx STAT_STEAL st)"
    unfolding steal by auto
  then show ?thesis by (auto simp: moved_one_def st_def fun_eq_iff dest: spec [of _ 1])
qed

section \<open>No task is stranded\<close>

text \<open>
  C11. A queued task can be run. After \<open>ops.init\<close>, for a task whose current CPU is one it may use, an
  enqueue adds the task once to the queue of one LLC of the machine and leaves every queue otherwise as it was,
  and that LLC has a CPU the task may use. It is the decided home when the task may use some CPU of the home, and
  otherwise the LLC of the task's current CPU. And the queue is served: whenever a CPU of that LLC that
  the task may use dispatches while the task waits, it takes a task from this very queue, never one of another LLC.
\<close>

theorem enqueue_never_strands:
  fixes st :: "('k, 'x) Bpf" and cx :: Ctx and fl :: u64
  assumes "bpf_kernel ko contents kinv bh so queue local_queue" and "kinv (b_maps st)" and "masks_ready st"
    and "0 < ro_nr_llcs (b_rodata st)" and "b_task_ctxs st (tk_pid p) = Some t"
    and "cx_task_cpu cx = int c" and "c \<in> tk_cpus_ptr p" and "c < unat (ro_nr_cpus (b_rodata st))" and "c < unat MAX_CPUS"
  defines "home \<equiv> decided_llc contents (b_rodata st) (cx_task_cpu cx) p t (b_maps st)" and "st' \<equiv> cohort_enqueue bh so cx p fl st"
  shows "\<exists>llc. llc < ro_nr_llcs (b_rodata st) \<and>
    llc = (if llc_cpumask (b_rodata st) home \<inter> tk_cpus_ptr p = {} then llc_of_cpu (b_rodata st) (int c) else home) \<and>
    queue (b_scx st') = (queue (b_scx st))(llc := add_mset p (queue (b_scx st) llc)) \<and>
    llc_cpumask (b_rodata st) llc \<inter> tk_cpus_ptr p \<noteq> {} \<and>
    (\<forall>cpu cx' st2. cpu \<in> llc_cpumask (b_rodata st) llc \<inter> tk_cpus_ptr p \<and> b_rodata st2 = b_rodata st \<and> p \<in># queue (b_scx st2) llc \<longrightarrow>
      moved_one queue local_queue cpu llc (b_scx st2) (b_scx (cohort_dispatch so cx' cpu st2)))"
proof -
  have scx: "scx_kernel so queue local_queue" using assms(1) by (simp add: bpf_kernel_def)
  let ?ro = "b_rodata st"
  define llc where "llc = queue_llc contents cx p t st"
  have own: "c \<in> llc_cpumask ?ro (llc_of_cpu ?ro (int c))" using llc_cpumask_own [OF assms(8,9)] by simp
  have range: "llc < ro_nr_llcs ?ro"
    unfolding llc_def queue_llc_def Let_def by (simp add: decided_range [OF assms(4)] llc_of_cpu_range [OF assms(4)])
  have some: "llc_cpumask ?ro llc \<inter> tk_cpus_ptr p \<noteq> {}"
    unfolding llc_def queue_llc_def Let_def using own assms(6,7) by auto
  have queued: "queue (b_scx st') = (queue (b_scx st))(llc := add_mset p (queue (b_scx st) llc))"
    using bpf_kernel.enqueue_effect(1) [OF assms(1-5), of cx fl] by (simp add: llc_def st'_def)
  have which: "llc = (if llc_cpumask ?ro home \<inter> tk_cpus_ptr p = {} then llc_of_cpu ?ro (int c) else home)"
    by (simp add: llc_def queue_llc_def home_def assms(6) Let_def)
  have served: "moved_one queue local_queue cpu llc (b_scx st2) (b_scx (cohort_dispatch so cx' cpu st2))"
    if "cpu \<in> llc_cpumask ?ro llc \<inter> tk_cpus_ptr p" "b_rodata st2 = ?ro" "p \<in># queue (b_scx st2) llc" for cpu cx' st2
  proof -
    have "llc = llc_of_cpu ?ro (int cpu)" using that(1) llc_cpumask_own [of cpu ?ro llc] by (auto simp: llc_cpumask_def)
    then show ?thesis using scx_kernel.dispatch_own(1) [OF scx, of p st2 cpu cx'] that by simp
  qed
  show ?thesis by (rule exI [of _ llc]) (use range which queued some served in blast)
qed

lemma demo_fields [simp]:
  "b_rodata demo_bpf = demo_rodata" "b_maps demo_bpf = demo_maps" "b_task_ctxs demo_bpf 100 = Some demo_ctx"
  "ro_nr_llcs demo_rodata = 2" "ro_nr_cpus demo_rodata = 4"
  by (simp_all add: demo_bpf_def demo_rodata_def)

lemma demo_masks: "llc_cpumask demo_rodata 0 = {0, 1}" "llc_cpumask demo_rodata 1 = {2, 3}"
proof -
  have s: "{..< min (unat (ro_nr_cpus demo_rodata)) (unat MAX_CPUS)} = set [0, 1, 2, 3]" by (auto simp: demo_rodata_def MAX_CPUS_def)
  show "llc_cpumask demo_rodata 0 = {0, 1}" "llc_cpumask demo_rodata 1 = {2, 3}"
    unfolding llc_cpumask_def s by (auto simp: safe_llc_def demo_rodata_def)
qed

lemma demo_llc_of: "llc_of_cpu demo_rodata 0 = 0"
  by (simp add: llc_of_cpu_def demo_rodata_def safe_llc_def MAX_CPUS_def)

lemma demo_ready: "masks_ready demo_bpf"
  unfolding masks_ready_def
proof (intro allI impI)
  fix llc assume "llc < ro_nr_llcs (b_rodata demo_bpf)"
  then have "unat llc < 2" by (simp add: demo_bpf_def demo_rodata_def word_less_nat_alt)
  then have "unat llc = 0 \<or> unat llc = 1" by linarith
  then have "llc = 0 \<or> llc = 1" by (simp add: word_unat_eq_iff)
  then show "\<exists>x. lookup_llc_ctx llc demo_bpf = Some x \<and> lx_cpumask x = Some (llc_cpumask (b_rodata demo_bpf) llc)"
    by (auto simp: lookup_llc_ctx_def demo_bpf_def demo_masks)
qed

text \<open>Witness of C11: a task of the cohort that may only use CPUs 0 and 1 is queued there, and nowhere else.\<close>

theorem enqueue_never_strands_witness:
  defines "p \<equiv> demo_task\<lparr> tk_cpus_ptr := {0, 1} \<rparr>"
  shows "(\<lambda>l. mset (map snd (rx_queues (b_scx (cohort_enqueue ref_helpers ref_scx_ops demo_cx p 0 demo_bpf)) l))) = (\<lambda>_. {#})(0 := {#p#})"
proof -
  have d: "decided_llc ref_contents (b_rodata demo_bpf) (cx_task_cpu demo_cx) p demo_ctx (b_maps demo_bpf) = 1"
    using demo_decided [of 0 demo_ctx] by (simp add: decided_llc_def p_def demo_bpf_def demo_task_def demo_cx_def)
  have q: "(\<lambda>l. mset (map snd (rx_queues (b_scx demo_bpf) l))) = (\<lambda>_. {#})" by (simp add: demo_bpf_def)
  have m: "llc_cpumask (b_rodata demo_bpf) 1 \<inter> tk_cpus_ptr p = {}" "llc_of_cpu (b_rodata demo_bpf) (int 0) = 0"
    by (simp_all add: demo_masks p_def demo_llc_of)
  have side: "ref_inv (b_maps demo_bpf)" "0 < ro_nr_llcs (b_rodata demo_bpf)" "b_task_ctxs demo_bpf (tk_pid p) = Some demo_ctx"
      "cx_task_cpu demo_cx = int 0" "0 \<in> tk_cpus_ptr p" "0 < unat (ro_nr_cpus (b_rodata demo_bpf))" "0 < unat MAX_CPUS"
    using demo_maps_inv by (simp_all add: p_def demo_task_def demo_cx_def MAX_CPUS_def)
  have "\<exists>llc. llc = (if llc_cpumask (b_rodata demo_bpf) 1 \<inter> tk_cpus_ptr p = {} then llc_of_cpu (b_rodata demo_bpf) (int 0) else 1) \<and>
      (\<lambda>l. mset (map snd (rx_queues (b_scx (cohort_enqueue ref_helpers ref_scx_ops demo_cx p 0 demo_bpf)) l))) =
      (\<lambda>l. mset (map snd (rx_queues (b_scx demo_bpf) l)))(llc := add_mset p (mset (map snd (rx_queues (b_scx demo_bpf) llc))))"
    using enqueue_never_strands [OF ref_all.bpf_kernel_axioms side(1) demo_ready side(2-7), of 0, unfolded d] by blast
  then show ?thesis unfolding m q by (auto simp: demo_bpf_def)
qed

end
