(* ===== verification/Bpf_Accounting.thy ===== *)
theory Bpf_Accounting
  imports Bpf_Queues
begin

text \<open>
  What the BPF program charges: the runtime of a task when it stops, and the members of a cohort
  as tasks come and go. The maps are read through abstraction functions that decode an entry.
\<close>

section \<open>Reading the maps\<close>

definition counters_at :: "(map_id \<Rightarrow> 'k \<Rightarrow> bytes \<Rightarrow> bytes option) \<Rightarrow> 'k \<Rightarrow> u64 \<Rightarrow> CohortCounters option" where
  "counters_at contents k i = Option.bind (contents cohort_counters k (u64_bytes i)) CohortCounters_read"

definition load_at :: "(map_id \<Rightarrow> 'k \<Rightarrow> bytes \<Rightarrow> bytes option) \<Rightarrow> 'k \<Rightarrow> u32 \<Rightarrow> u64 option" where
  "load_at contents k l = Option.bind (contents llc_load k (u32_bytes l)) u64_read"

definition stat_at :: "(map_id \<Rightarrow> 'k \<Rightarrow> bytes \<Rightarrow> bytes option) \<Rightarrow> 'k \<Rightarrow> u32 \<Rightarrow> TaskStat option" where
  "stat_at contents k pid = Option.bind (contents task_stats k (u32_bytes pid)) TaskStat_read"

definition mapped_at :: "(map_id \<Rightarrow> 'k \<Rightarrow> bytes \<Rightarrow> bytes option) \<Rightarrow> 'k \<Rightarrow> u32 \<Rightarrow> u64 option" where
  "mapped_at contents k tgid = Option.bind (contents tgid_cohort_map k (u32_bytes tgid)) u64_read"

lemmas at_defs = counters_at_def load_at_def stat_at_def mapped_at_def

lemma at_cong:
  "contents cohort_counters k' = contents cohort_counters k \<Longrightarrow> counters_at contents k' = counters_at contents k"
  "contents llc_load k' = contents llc_load k \<Longrightarrow> load_at contents k' = load_at contents k"
  "contents task_stats k' = contents task_stats k \<Longrightarrow> stat_at contents k' = stat_at contents k"
  "contents tgid_cohort_map k' = contents tgid_cohort_map k \<Longrightarrow> mapped_at contents k' = mapped_at contents k"
  by (simp_all add: at_defs fun_eq_iff)

text \<open>An in-place addition to a counter is an update of the decoded value.\<close>

lemma counters_fields:
  assumes "length v = 16"
  shows "slice v 0 8 @ u64_bytes n = CohortCounters_bytes \<lparr> k_nr_tasks = le_dec (slice v 0 8), k_load_sum = n \<rparr>"
    and "u64_bytes n @ slice v 8 8 = CohortCounters_bytes \<lparr> k_nr_tasks = n, k_load_sum = le_dec (slice v 8 8) \<rparr>"
  using assms by (simp_all add: CohortCounters_bytes_def layout_simps)

context bpf_side
begin

lemma add_counters:
  assumes "kinv k"
    and "\<And>v. contents cohort_counters k (u64_bytes i) = Some v \<Longrightarrow> length v = 16 \<Longrightarrow> k' =
      map_store bh cohort_counters (u64_bytes i) (CohortCounters_bytes (f \<lparr> k_nr_tasks = le_dec (slice v 0 8), k_load_sum = le_dec (slice v 8 8) \<rparr>)) k"
    and "contents cohort_counters k (u64_bytes i) = None \<Longrightarrow> k' = k"
  shows "kinv k'" and "m \<noteq> cohort_counters \<Longrightarrow> contents m k' = contents m k"
    and "counters_at contents k' = (counters_at contents k)(i := map_option f (counters_at contents k i))"
proof -
  have "kinv k' \<and> (m \<noteq> cohort_counters \<longrightarrow> contents m k' = contents m k) \<and>
    counters_at contents k' = (counters_at contents k)(i := map_option f (counters_at contents k i))"
  proof (cases "contents cohort_counters k (u64_bytes i)")
    case (Some v)
    then have len: "length v = 16" using sizes [OF assms(1) Some] by simp
    let ?c = "\<lparr> k_nr_tasks = le_dec (slice v 0 8), k_load_sum = le_dec (slice v 8 8) \<rparr>"
    have "CohortCounters_read v = Some ?c" using len by (simp add: CohortCounters_read_def)
    then show ?thesis
      using h_store [OF assms(1), of cohort_counters "u64_bytes i" "CohortCounters_bytes (f ?c)"] Some assms(2) [OF Some len]
      by (auto simp: counters_at_def map_simps fun_eq_iff)
  qed (auto simp: assms counters_at_def)
  then show "kinv k'" and "m \<noteq> cohort_counters \<Longrightarrow> contents m k' = contents m k"
    and "counters_at contents k' = (counters_at contents k)(i := map_option f (counters_at contents k i))" by auto
qed

lemma add_load_effect:
  assumes "kinv k"
  shows "kinv (add_load bh i n k)" and "m \<noteq> cohort_counters \<Longrightarrow> contents m (add_load bh i n k) = contents m k"
    and "counters_at contents (add_load bh i n k) =
      (counters_at contents k)(i := map_option (\<lambda>c. c\<lparr> k_load_sum := k_load_sum c + n \<rparr>) (counters_at contents k i))"
  using add_counters [OF assms, where i = i and f = "\<lambda>c. c\<lparr> k_load_sum := k_load_sum c + n \<rparr>" and k' = "add_load bh i n k"]
  by (auto simp: add_load_def h_lookup [OF assms] counters_fields split: option.splits)

lemma add_nr_tasks_effect:
  assumes "kinv k"
  shows "kinv (add_nr_tasks bh i n k)" and "m \<noteq> cohort_counters \<Longrightarrow> contents m (add_nr_tasks bh i n k) = contents m k"
    and "counters_at contents (add_nr_tasks bh i n k) =
      (counters_at contents k)(i := map_option (\<lambda>c. c\<lparr> k_nr_tasks := k_nr_tasks c + n \<rparr>) (counters_at contents k i))"
  using add_counters [OF assms, where i = i and f = "\<lambda>c. c\<lparr> k_nr_tasks := k_nr_tasks c + n \<rparr>" and k' = "add_nr_tasks bh i n k"]
  by (auto simp: add_nr_tasks_def h_lookup [OF assms] counters_fields split: option.splits)

lemma add_llc_load_effect:
  assumes "kinv k"
  shows "kinv (add_llc_load bh l n k)" and "m \<noteq> llc_load \<Longrightarrow> contents m (add_llc_load bh l n k) = contents m k"
    and "load_at contents (add_llc_load bh l n k) = (load_at contents k)(l := map_option (\<lambda>v. v + n) (load_at contents k l))"
proof -
  have "kinv (add_llc_load bh l n k) \<and> (m \<noteq> llc_load \<longrightarrow> contents m (add_llc_load bh l n k) = contents m k) \<and>
    load_at contents (add_llc_load bh l n k) = (load_at contents k)(l := map_option (\<lambda>v. v + n) (load_at contents k l))"
  proof (cases "contents llc_load k (u32_bytes l)")
    case (Some v)
    then have len: "length v = 8" using sizes [OF assms Some] by simp
    then show ?thesis
      using h_store [OF assms, of llc_load "u32_bytes l" "u64_bytes (le_dec v + n)"] Some
      by (auto simp: add_llc_load_def h_lookup [OF assms] load_at_def map_simps layout_simps u64_read_def fun_eq_iff)
  qed (auto simp: add_llc_load_def h_lookup [OF assms] load_at_def assms)
  then show "kinv (add_llc_load bh l n k)" and "m \<noteq> llc_load \<Longrightarrow> contents m (add_llc_load bh l n k) = contents m k"
    and "load_at contents (add_llc_load bh l n k) = (load_at contents k)(l := map_option (\<lambda>v. v + n) (load_at contents k l))" by auto
qed

lemma charge_task_effect:
  assumes "kinv k"
  shows "kinv (charge_task bh p delta at_home i k)" and "m \<noteq> task_stats \<Longrightarrow> contents m (charge_task bh p delta at_home i k) = contents m k"
    and "stat_at contents (charge_task bh p delta at_home i k) = (stat_at contents k)(tk_pid p := map_option (\<lambda>ts.
      ts\<lparr> ts_runtime_sum := ts_runtime_sum ts + delta, ts_runtime_home_sum := ts_runtime_home_sum ts + (if at_home then delta else 0),
          ts_cohort_id := i \<rparr>) (stat_at contents k (tk_pid p)))"
proof -
  let ?f = "\<lambda>ts. ts\<lparr> ts_runtime_sum := ts_runtime_sum ts + delta,
    ts_runtime_home_sum := ts_runtime_home_sum ts + (if at_home then delta else 0), ts_cohort_id := i \<rparr>"
  have "kinv (charge_task bh p delta at_home i k) \<and> (m \<noteq> task_stats \<longrightarrow> contents m (charge_task bh p delta at_home i k) = contents m k) \<and>
    stat_at contents (charge_task bh p delta at_home i k) = (stat_at contents k)(tk_pid p := map_option ?f (stat_at contents k (tk_pid p)))"
  proof (cases "contents task_stats k (u32_bytes (tk_pid p))")
    case (Some v)
    then have "length v = 48" using sizes [OF assms Some] by simp
    then obtain ts where ts: "TaskStat_read v = Some ts" "length (ts_comm ts) = 16" using task_stat.dec_any by blast
    have len: "length (TaskStat_bytes (?f ts)) = 48" using ts(2) by (intro task_stat.enc_size) simp
    have "TaskStat_read (TaskStat_bytes (?f ts)) = Some (?f ts)" using ts(2) by (intro task_stat.dec_enc) simp
    then show ?thesis
      using h_store [OF assms, of task_stats "u32_bytes (tk_pid p)" "TaskStat_bytes (?f ts)"] Some ts len
      by (auto simp: charge_task_def h_lookup [OF assms] stat_at_def map_simps fun_eq_iff)
  qed (auto simp: charge_task_def h_lookup [OF assms] stat_at_def assms)
  then show "kinv (charge_task bh p delta at_home i k)" and "m \<noteq> task_stats \<Longrightarrow> contents m (charge_task bh p delta at_home i k) = contents m k"
    and "stat_at contents (charge_task bh p delta at_home i k) = (stat_at contents k)(tk_pid p := map_option ?f (stat_at contents k (tk_pid p)))"
    by auto
qed

lemmas charge_effects = add_load_effect add_nr_tasks_effect add_llc_load_effect charge_task_effect

end

section \<open>ops.stopping\<close>

definition scaled_of :: "Ctx \<Rightarrow> Task \<Rightarrow> TaskCtx \<Rightarrow> u64" where
  "scaled_of cx p t = (cx_now cx - tc_last_run_at t) * ucast (tk_weight p) div 100"

context bpf_side
begin

lemma stopping_maps:
  fixes cx :: Ctx
  assumes "kinv (b_maps st)" and "b_task_ctxs st (tk_pid p) = Some t"
  defines "k \<equiv> b_maps st" and "run_llc \<equiv> llc_of_cpu (b_rodata st) (cx_task_cpu cx)" and "delta \<equiv> cx_now cx - tc_last_run_at t"
  defines "k' \<equiv> b_maps (cohort_stopping bh cx p st)"
  shows "kinv k'" and "m \<notin> {cohort_counters, llc_load, task_stats} \<Longrightarrow> contents m k' = contents m k"
    and "counters_at contents k' = (counters_at contents k)(tc_cohort_id t := map_option
      (\<lambda>c. c\<lparr> k_load_sum := k_load_sum c + scaled_of cx p t \<rparr>) (counters_at contents k (tc_cohort_id t)))"
    and "load_at contents k' = (load_at contents k)(run_llc := map_option (\<lambda>v. v + scaled_of cx p t) (load_at contents k run_llc))"
    and "stat_at contents k' = (stat_at contents k)(tk_pid p := map_option (\<lambda>ts. ts\<lparr> ts_runtime_sum := ts_runtime_sum ts + delta,
      ts_runtime_home_sum := ts_runtime_home_sum ts + (if run_llc = tc_home_llc t then delta else 0), ts_cohort_id := tc_cohort_id t \<rparr>)
      (stat_at contents k (tk_pid p)))"
proof -
  let ?k1 = "add_load bh (tc_cohort_id t) (scaled_of cx p t) k" and ?n = "scaled_of cx p t"
  let ?k2 = "add_llc_load bh run_llc ?n ?k1"
  have k': "k' = charge_task bh p delta (run_llc = tc_home_llc t) (tc_cohort_id t) ?k2"
    using assms(2) by (simp add: k'_def k_def run_llc_def delta_def scaled_of_def cohort_stopping_def lookup_task_ctx_def Let_def bpf_frame)
  have inv: "kinv k" using assms(1) by (simp add: k_def)
  note i1 = add_load_effect(1) [OF inv, of "tc_cohort_id t" ?n]
  note i2 = add_llc_load_effect(1) [OF i1, of run_llc ?n]
  show "kinv k'" using charge_task_effect(1) [OF i2] by (simp add: k')
  show "contents m k' = contents m k" if "m \<notin> {cohort_counters, llc_load, task_stats}" for m
    using that charge_task_effect(2) [OF i2] add_llc_load_effect(2) [OF i1] add_load_effect(2) [OF inv] by (simp add: k')
  have c: "contents cohort_counters k' = contents cohort_counters ?k1"
    using charge_task_effect(2) [OF i2] add_llc_load_effect(2) [OF i1] by (simp add: k')
  show "counters_at contents k' = (counters_at contents k)(tc_cohort_id t := map_option
      (\<lambda>c. c\<lparr> k_load_sum := k_load_sum c + scaled_of cx p t \<rparr>) (counters_at contents k (tc_cohort_id t)))"
    using add_load_effect(3) [OF inv] by (simp only: at_cong(1) [where contents = contents, OF c])
  have l1: "contents llc_load ?k1 = contents llc_load k" and l2: "contents llc_load k' = contents llc_load ?k2"
    using charge_task_effect(2) [OF i2] add_load_effect(2) [OF inv] by (simp_all add: k')
  show "load_at contents k' = (load_at contents k)(run_llc := map_option (\<lambda>v. v + scaled_of cx p t) (load_at contents k run_llc))"
    using add_llc_load_effect(3) [OF i1] by (simp only: at_cong(2) [where contents = contents, OF l1] at_cong(2) [where contents = contents, OF l2])
  have s: "contents task_stats ?k2 = contents task_stats k"
    using add_llc_load_effect(2) [OF i1] add_load_effect(2) [OF inv] by simp
  show "stat_at contents k' = (stat_at contents k)(tk_pid p := map_option (\<lambda>ts. ts\<lparr> ts_runtime_sum := ts_runtime_sum ts + delta,
      ts_runtime_home_sum := ts_runtime_home_sum ts + (if run_llc = tc_home_llc t then delta else 0), ts_cohort_id := tc_cohort_id t \<rparr>)
      (stat_at contents k (tk_pid p)))"
    using charge_task_effect(3) [OF i2] by (simp only: k' at_cong(3) [where contents = contents, OF s])
qed

lemma stopping_frame:
  assumes "b_task_ctxs st (tk_pid p) = Some t"
  shows "b_rodata (cohort_stopping bh cx p st) = b_rodata st"
    and "b_task_ctxs (cohort_stopping bh cx p st) = (b_task_ctxs st)(tk_pid p := Some (t\<lparr>
      tc_vtime := tc_vtime t + (cx_now cx - tc_last_run_at t) * 100 div ucast (tk_weight p),
      tc_avg_runtime_ns := (tc_avg_runtime_ns t * 3 + (cx_now cx - tc_last_run_at t)) div 4 \<rparr>))"
  using assms by (simp_all add: cohort_stopping_def lookup_task_ctx_def Let_def put_ctx_def)

end

text \<open>The work the LLCs executed and the work the cohorts were charged, as the counters have it.\<close>

definition executed :: "(map_id \<Rightarrow> 'k \<Rightarrow> bytes \<Rightarrow> bytes option) \<Rightarrow> 'k \<Rightarrow> u64" where
  "executed contents k = (\<Sum>l \<in> UNIV. case load_at contents k l of Some v \<Rightarrow> v | None \<Rightarrow> 0)"

definition charged :: "(map_id \<Rightarrow> 'k \<Rightarrow> bytes \<Rightarrow> bytes option) \<Rightarrow> 'k \<Rightarrow> u64" where
  "charged contents k = (\<Sum>i \<in> UNIV. case counters_at contents k i of Some c \<Rightarrow> k_load_sum c | None \<Rightarrow> 0)"

lemma sum_upd: "(\<Sum>i \<in> UNIV. g ((f(a := v)) i)) = (\<Sum>i \<in> UNIV. g (f i)) - g (f a) + g v"
  for f :: "'i::finite \<Rightarrow> 'v" and g :: "'v \<Rightarrow> u64"
proof -
  have "(\<Sum>i \<in> UNIV - {a}. g ((f(a := v)) i)) = (\<Sum>i \<in> UNIV - {a}. g (f i))" by (rule sum.cong) auto
  then show ?thesis by (simp add: sum.remove [of UNIV a])
qed

section \<open>Runs and stops\<close>

text \<open>
  A task starts and stops running; callbacks of different tasks and CPUs interleave. What ran is read off
  the events alone: every stop ends a time slice that began at the task's last start, on the CPU of the stop.
\<close>

datatype sched_event = Runs Ctx Task | Stops Ctx Task

fun sched_event_step :: "'k bpf_helpers \<Rightarrow> sched_event \<Rightarrow> ('k, 'x) Bpf \<Rightarrow> ('k, 'x) Bpf" where
  "sched_event_step bh (Runs cx p) st = cohort_running cx p st"
| "sched_event_step bh (Stops cx p) st = cohort_stopping bh cx p st"

fun time_slices :: "(u32 \<Rightarrow> u64) \<Rightarrow> sched_event list \<Rightarrow> (Ctx \<times> Task \<times> u64) list" where
  "time_slices started [] = []"
| "time_slices started (Runs cx p # es) = time_slices (started(tk_pid p := cx_now cx)) es"
| "time_slices started (Stops cx p # es) = (cx, p, cx_now cx - started (tk_pid p)) # time_slices started es"

text \<open>When each task last started, and its home, as its context has them.\<close>

definition started_at :: "('k, 'x) Bpf \<Rightarrow> u32 \<Rightarrow> u64" where
  "started_at st pid = (case b_task_ctxs st pid of Some t \<Rightarrow> tc_last_run_at t | None \<Rightarrow> 0)"

definition home_of :: "('k, 'x) Bpf \<Rightarrow> u32 \<Rightarrow> u32" where
  "home_of st pid = (case b_task_ctxs st pid of Some t \<Rightarrow> tc_home_llc t | None \<Rightarrow> 0)"

text \<open>Every task of the events has its context, and its cohort has counters.\<close>

fun event_task :: "sched_event \<Rightarrow> Task" where
  "event_task (Runs cx p) = p"
| "event_task (Stops cx p) = p"

definition charges_land :: "(map_id \<Rightarrow> 'k \<Rightarrow> bytes \<Rightarrow> bytes option) \<Rightarrow> sched_event list \<Rightarrow> ('k, 'x) Bpf \<Rightarrow> bool" where
  "charges_land contents es st \<longleftrightarrow> (\<forall>e \<in> set es.
     case b_task_ctxs st (tk_pid (event_task e)) of None \<Rightarrow> False | Some t \<Rightarrow> counters_at contents (b_maps st) (tc_cohort_id t) \<noteq> None)"

lemma running_frame:
  assumes "b_task_ctxs st (tk_pid p) = Some t"
  shows "b_rodata (cohort_running cx p st) = b_rodata st" and "b_maps (cohort_running cx p st) = b_maps st"
    and "b_task_ctxs (cohort_running cx p st) = (b_task_ctxs st)(tk_pid p := Some (t\<lparr> tc_last_run_at := cx_now cx \<rparr>))"
  using assms by (auto simp: cohort_running_def lookup_task_ctx_def Let_def put_ctx_def bpf_frame split: option.splits)

lemma charges_land_step:
  assumes "charges_land contents es st" and "\<And>i. counters_at contents (b_maps st) i \<noteq> None \<Longrightarrow> counters_at contents (b_maps st') i \<noteq> None"
    and "b_task_ctxs st' = (b_task_ctxs st)(pid := Some t')" and "b_task_ctxs st pid = Some t" and "tc_cohort_id t' = tc_cohort_id t"
  shows "charges_land contents es st'"
  using assms unfolding charges_land_def by (auto split: option.splits)

context bpf_arrays
begin

lemma load_present:
  assumes "kinv k" and "0 < ro_nr_llcs ro" and "ro_nr_llcs ro \<le> MAX_LLCS"
  shows "load_at contents k (llc_of_cpu ro cpu) \<noteq> None"
proof -
  have "llc_of_cpu ro cpu < MAX_LLCS" using llc_of_cpu_range [OF assms(2), of cpu] assms(3) by (rule less_le_trans)
  then obtain v where v: "contents llc_load k (u32_bytes (llc_of_cpu ro cpu)) = Some v" using array_entry [OF assms(1)] by blast
  with sizes [OF assms(1) v] show ?thesis by (simp add: load_at_def u64_read_def)
qed

text \<open>One stop, on every counter it feeds.\<close>

lemma stop_accounts:
  fixes cx :: Ctx
  assumes "kinv (b_maps st)" and "0 < ro_nr_llcs (b_rodata st)" and "ro_nr_llcs (b_rodata st) \<le> MAX_LLCS"
    and "b_task_ctxs st (tk_pid p) = Some t" and "counters_at contents (b_maps st) (tc_cohort_id t) \<noteq> None"
  defines "k \<equiv> b_maps st" and "k' \<equiv> b_maps (cohort_stopping bh cx p st)" and "d \<equiv> cx_now cx - tc_last_run_at t"
  shows "executed contents k' = executed contents k + d * ucast (tk_weight p) div 100"
    and "charged contents k' = charged contents k + d * ucast (tk_weight p) div 100"
    and "map_option ts_runtime_sum (stat_at contents k' pid) = map_option (\<lambda>ts. ts_runtime_sum ts + (if tk_pid p = pid then d else 0)) (stat_at contents k pid)"
    and "map_option ts_runtime_home_sum (stat_at contents k' pid) = map_option (\<lambda>ts. ts_runtime_home_sum ts +
      (if tk_pid p = pid \<and> llc_of_cpu (b_rodata st) (cx_task_cpu cx) = tc_home_llc t then d else 0)) (stat_at contents k pid)"
proof -
  note m = stopping_maps [OF assms(1,4), where cx = cx, folded k_def k'_def]
  have sc: "scaled_of cx p t = d * ucast (tk_weight p) div 100" by (simp add: scaled_of_def d_def)
  show "executed contents k' = executed contents k + d * ucast (tk_weight p) div 100"
    using load_present [OF assms(1-3), of "cx_task_cpu cx"]
    unfolding executed_def m(4) sum_upd [where g = "\<lambda>v. case v of Some v \<Rightarrow> v | None \<Rightarrow> 0"] sc k_def by auto
  show "charged contents k' = charged contents k + d * ucast (tk_weight p) div 100"
    using assms(5) unfolding charged_def m(3) sum_upd [where g = "\<lambda>v. case v of Some c \<Rightarrow> k_load_sum c | None \<Rightarrow> 0"] sc k_def by auto
  show "map_option ts_runtime_sum (stat_at contents k' pid) = map_option (\<lambda>ts. ts_runtime_sum ts + (if tk_pid p = pid then d else 0)) (stat_at contents k pid)"
    and "map_option ts_runtime_home_sum (stat_at contents k' pid) = map_option (\<lambda>ts. ts_runtime_home_sum ts +
      (if tk_pid p = pid \<and> llc_of_cpu (b_rodata st) (cx_task_cpu cx) = tc_home_llc t then d else 0)) (stat_at contents k pid)"
    by (auto simp: m(5) d_def option.map_comp o_def)
qed

lemma events_account:
  fixes st :: "('k, 'x) Bpf"
  assumes "kinv (b_maps st)" and "0 < ro_nr_llcs (b_rodata st)" and "ro_nr_llcs (b_rodata st) \<le> MAX_LLCS" and "charges_land contents es st"
  defines "st' \<equiv> fold (sched_event_step bh) es st" and "sl \<equiv> time_slices (started_at st) es"
  shows "executed contents (b_maps st') = executed contents (b_maps st) + (\<Sum>(cx, p, d) \<leftarrow> sl. d * ucast (tk_weight p) div 100) \<and>
    charged contents (b_maps st') = charged contents (b_maps st) + (\<Sum>(cx, p, d) \<leftarrow> sl. d * ucast (tk_weight p) div 100) \<and>
    (\<forall>pid. map_option ts_runtime_sum (stat_at contents (b_maps st') pid) =
      map_option (\<lambda>ts. ts_runtime_sum ts + (\<Sum>(cx, p, d) \<leftarrow> sl. if tk_pid p = pid then d else 0)) (stat_at contents (b_maps st) pid)) \<and>
    (\<forall>pid. map_option ts_runtime_home_sum (stat_at contents (b_maps st') pid) =
      map_option (\<lambda>ts. ts_runtime_home_sum ts + (\<Sum>(cx, p, d) \<leftarrow> sl.
        if tk_pid p = pid \<and> llc_of_cpu (b_rodata st) (cx_task_cpu cx) = home_of st pid then d else 0)) (stat_at contents (b_maps st) pid))"
  using assms(1-4) unfolding st'_def sl_def
proof (induction es arbitrary: st)
  case Nil
  then show ?case by (simp add: option.map_ident_strong)
next
  case (Cons e es)
  obtain t where t: "b_task_ctxs st (tk_pid (event_task e)) = Some t" "counters_at contents (b_maps st) (tc_cohort_id t) \<noteq> None"
    using Cons.prems(4) by (auto simp: charges_land_def split: option.splits)
  have tail: "charges_land contents es st" using Cons.prems(4) by (simp add: charges_land_def)
  show ?case
  proof (cases e)
    case (Runs cx p)
    let ?s = "cohort_running cx p st"
    have t': "b_task_ctxs st (tk_pid p) = Some t" using t Runs by simp
    note f = running_frame [OF t', where cx = cx]
    have land: "charges_land contents es ?s" by (rule charges_land_step [OF tail _ f(3) t']) (simp_all add: f)
    have st: "started_at ?s = (started_at st)(tk_pid p := cx_now cx)" "home_of ?s = home_of st"
      using t' by (auto simp: started_at_def home_of_def f(3))
    have sl: "time_slices (started_at st) (e # es) = time_slices ((started_at st)(tk_pid p := cx_now cx)) es"
      and run: "fold (sched_event_step bh) (e # es) st = fold (sched_event_step bh) es ?s" by (simp_all add: Runs)
    show ?thesis
      unfolding sl run using Cons.IH [of ?s, OF _ _ _ land, unfolded f(1,2) st] Cons.prems(1-3) by blast
  next
    case (Stops cx p)
    let ?s = "cohort_stopping bh cx p st"
    have t': "b_task_ctxs st (tk_pid p) = Some t" using t Stops by simp
    note f = stopping_frame [OF t', where cx = cx] and m = stopping_maps [OF Cons.prems(1) t', where cx = cx]
    have land: "charges_land contents es ?s" by (rule charges_land_step [OF tail _ f(2) t']) (auto simp: m(3))
    have st: "started_at ?s = started_at st" "home_of ?s = home_of st" "started_at st (tk_pid p) = tc_last_run_at t" "home_of st (tk_pid p) = tc_home_llc t"
      using t' by (auto simp: started_at_def home_of_def f(2))
    note a = stop_accounts [OF Cons.prems(1-3) t' t(2), where cx = cx]
    note ih = Cons.IH [of ?s, OF m(1) _ _ land, unfolded f(1) st(1,2), OF Cons.prems(2,3)]
    have lift: "map_option g (stat_at contents (b_maps st'') pid) = map_option (\<lambda>ts. g ts + (a + b)) (stat_at contents (b_maps st) pid)"
      if "map_option g (stat_at contents (b_maps st'') pid) = map_option (\<lambda>ts. g ts + b) (stat_at contents (b_maps ?s) pid)"
        "map_option g (stat_at contents (b_maps ?s) pid) = map_option (\<lambda>ts. g ts + a) (stat_at contents (b_maps st) pid)"
      for g :: "TaskStat \<Rightarrow> u64" and st'' :: "('k, 'x) Bpf" and pid a b
      using that by (cases "stat_at contents (b_maps st) pid"; cases "stat_at contents (b_maps ?s) pid") (auto simp: algebra_simps)
    have sl: "time_slices (started_at st) (e # es) = (cx, p, cx_now cx - tc_last_run_at t) # time_slices (started_at st) es"
      and run: "fold (sched_event_step bh) (e # es) st = fold (sched_event_step bh) es ?s" by (simp_all add: Stops st)
    have home: "(tk_pid p = pid \<and> llc = home_of st pid) = (tk_pid p = pid \<and> llc = tc_home_llc t)" for pid llc using st(4) by auto
    show ?thesis
      unfolding sl run list.map sum_list.Cons prod.case home
    proof (intro conjI allI, goal_cases)
      case 1
      show ?case using ih a(1) by (simp only: add.assoc)
    next
      case 2
      show ?case using ih a(2) by (simp only: add.assoc)
    next
      case (3 pid)
      show ?case by (rule lift [OF _ a(3)]) (use ih in blast)
    next
      case (4 pid)
      show ?case by (rule lift [OF _ a(4)]) (use ih in blast)
    qed
  qed
qed

end

text \<open>
  C16. What ran is what is charged. Over any interleaving of starts and stops of tasks that have a
  context and belong to cohorts that have counters, let the time slices be the periods from a task's last
  start to its stop. The load counters of the LLCs together grow by the sum of the slices, each weighted by its
  task's weight over 100, and so do the load counters of the cohorts: nothing is lost or
  charged twice, and the balancer's two views of the load do not drift apart. The runtime of every task with a
  statistics entry grows by exactly its own slices, and its runtime at home by those that ran on its home LLC.
  All sums are modulo \<open>2^64\<close>, as the counters are.
\<close>

theorem stops_conserve_load:
  fixes st :: "('k, 'x) Bpf"
  assumes "bpf_arrays ko contents kinv bh" and "kinv (b_maps st)" and "0 < ro_nr_llcs (b_rodata st)" and "ro_nr_llcs (b_rodata st) \<le> MAX_LLCS"
    and "charges_land contents es st"
  defines "st' \<equiv> fold (sched_event_step bh) es st" and "sl \<equiv> time_slices (started_at st) es"
  shows "executed contents (b_maps st') = executed contents (b_maps st) + (\<Sum>(cx, p, d) \<leftarrow> sl. d * ucast (tk_weight p) div 100) \<and>
    charged contents (b_maps st') = charged contents (b_maps st) + (\<Sum>(cx, p, d) \<leftarrow> sl. d * ucast (tk_weight p) div 100) \<and>
    (\<forall>pid. map_option ts_runtime_sum (stat_at contents (b_maps st') pid) =
      map_option (\<lambda>ts. ts_runtime_sum ts + (\<Sum>(cx, p, d) \<leftarrow> sl. if tk_pid p = pid then d else 0)) (stat_at contents (b_maps st) pid)) \<and>
    (\<forall>pid. map_option ts_runtime_home_sum (stat_at contents (b_maps st') pid) =
      map_option (\<lambda>ts. ts_runtime_home_sum ts + (\<Sum>(cx, p, d) \<leftarrow> sl.
        if tk_pid p = pid \<and> llc_of_cpu (b_rodata st) (cx_task_cpu cx) = home_of st pid then d else 0)) (stat_at contents (b_maps st) pid))"
  unfolding st'_def sl_def by (rule bpf_arrays.events_account [OF assms(1-5)])

definition demo_events :: "sched_event list" where
  "demo_events = [Runs demo_cx demo_task, Stops (demo_cx\<lparr> cx_now := 8000 \<rparr>) demo_task,
     Runs (demo_cx\<lparr> cx_now := 9000, cx_task_cpu := 3 \<rparr>) demo_task, Stops (demo_cx\<lparr> cx_now := 9500, cx_task_cpu := 3 \<rparr>) demo_task]"

text \<open>The array of load counters as it is created.\<close>

definition zero_loads :: "(bytes \<times> bytes) list" where
  "zero_loads = map (\<lambda>l. (u32_bytes l, u64_bytes 0)) [0, 1, 2, 3, 4, 5, 6, 7]"

lemma zero_loads_all: "l < MAX_LLCS \<Longrightarrow> hm_get zero_loads (u32_bytes l) = Some (u64_bytes 0)"
proof -
  assume "l < MAX_LLCS"
  then have "unat l < 8" by (simp add: MAX_LLCS_def word_less_nat_alt)
  then have "unat l \<in> {0, 1, 2, 3, 4, 5, 6, 7}" by auto
  then have "l \<in> {0, 1, 2, 3, 4, 5, 6, 7}" by (simp add: word_unat_eq_iff)
  then show ?thesis by (auto simp: zero_loads_def map_simps)
qed

lemma zero_loads_sized: "map_sized llc_load zero_loads"
  by (simp add: zero_loads_def map_sized_def hm_wf_def map_simps layout_simps)

lemma ref_array_inv_upd: "ref_inv k \<Longrightarrow> ref_array_inv (k(llc_load := zero_loads))"
  using ref_inv_upd [OF _ zero_loads_sized] zero_loads_all by (simp add: ref_array_inv_def)

definition array_maps :: ref_kernel where
  "array_maps = demo_maps(llc_load := zero_loads)"

text \<open>
  Witness of C16: the task, in cohort 1 with home LLC 1, runs from 5000 to 8000 on CPU 0 and then from 9000
  to 9500 on CPU 3, at home.
\<close>

theorem stops_conserve_load_witness:
  defines "st \<equiv> demo_bpf\<lparr> b_maps := array_maps \<rparr>"
  defines "st' \<equiv> fold (sched_event_step ref_helpers) demo_events st"
  shows "executed ref_contents (b_maps st') = executed ref_contents array_maps + 3500 \<and>
    charged ref_contents (b_maps st') = charged ref_contents array_maps + 3500 \<and>
    map_option ts_runtime_sum (stat_at ref_contents (b_maps st') 100) = Some 3500 \<and>
    map_option ts_runtime_home_sum (stat_at ref_contents (b_maps st') 100) = Some 500"
proof -
  have inv: "ref_array_inv (b_maps st)" using ref_array_inv_upd [OF demo_maps_inv] by (simp add: st_def array_maps_def)
  have ro: "b_rodata st = demo_rodata" "0 < ro_nr_llcs (b_rodata st)" "ro_nr_llcs (b_rodata st) \<le> MAX_LLCS" "b_maps st = array_maps"
    by (simp_all add: st_def MAX_LLCS_def)
  have land: "charges_land ref_contents demo_events st"
    by (simp add: st_def charges_land_def demo_events_def demo_task_def demo_ctx_def counters_at_def ref_contents_def array_maps_def demo_maps_def map_simps)
  have sl: "time_slices (started_at st) demo_events = [(demo_cx\<lparr> cx_now := 8000 \<rparr>, demo_task, 3000), (demo_cx\<lparr> cx_now := 9500, cx_task_cpu := 3 \<rparr>, demo_task, 500)]"
    by (simp add: demo_events_def demo_cx_def)
  have stat: "stat_at ref_contents array_maps 100 = Some \<lparr> ts_tgid = 10, ts_pad = 0, ts_cohort_id = 1, ts_runtime_sum = 0,
        ts_runtime_home_sum = 0, ts_comm = replicate 16 0 \<rparr>"
    by (simp add: stat_at_def ref_contents_def array_maps_def demo_maps_def task_stat.dec_enc)
  have llc: "llc_of_cpu demo_rodata 0 = 0" "llc_of_cpu demo_rodata 3 = 1" "home_of st 100 = 1"
    "tk_pid demo_task = 100" "tk_weight demo_task = 100" "cx_task_cpu demo_cx = 0"
    by (simp_all add: llc_of_cpu_def safe_llc_def demo_rodata_def MAX_CPUS_def home_of_def st_def demo_ctx_def demo_task_def demo_cx_def)
  note all = stops_conserve_load [OF ref_arrays.bpf_arrays_axioms inv ro(2,3) land, folded st'_def, unfolded sl ro(1,4)]
  then have "executed ref_contents (b_maps st') = executed ref_contents array_maps + 3500" "charged ref_contents (b_maps st') = charged ref_contents array_maps + 3500"
    by (simp_all add: llc)
  moreover from all have "map_option ts_runtime_sum (stat_at ref_contents (b_maps st') 100) = Some 3500"
    "map_option ts_runtime_home_sum (stat_at ref_contents (b_maps st') 100) = Some 500"
    by (simp_all add: llc stat)
  ultimately show ?thesis by blast
qed

end
