(* ===== verification/Bpf_Members.thy ===== *)
theory Bpf_Members
  imports Bpf_Accounting
begin

text \<open>
  Tasks coming and going: \<open>ops.init_task\<close> and \<open>ops.exit_task\<close> refine an abstract register of tasks,
  processes and member counts, on which the counting invariant is proved.
\<close>

section \<open>The abstract register\<close>

text \<open>How many tasks each cohort counts, the process of each live task, the cohort of each process.\<close>

record Members =
  mb_count :: "u64 \<Rightarrow> u64 option"
  mb_task :: "u32 \<Rightarrow> u32 option"
  mb_cohort :: "u32 \<Rightarrow> u64 option"

definition members :: "Members \<Rightarrow> u64 \<Rightarrow> u32 set" where
  "members m c = {pid. \<exists>tgid. mb_task m pid = Some tgid \<and> mb_cohort m tgid = Some c}"

definition counted :: "Members \<Rightarrow> bool" where
  "counted m \<longleftrightarrow> (\<forall>c n. mb_count m c = Some n \<longrightarrow> n = of_nat (card (members m c))) \<and>
     (\<forall>pid tgid. mb_task m pid = Some tgid \<longrightarrow> mb_cohort m tgid \<noteq> None)"

definition open_cohort :: "u64 \<Rightarrow> Members \<Rightarrow> Members" where
  "open_cohort i m = m\<lparr> mb_count := (mb_count m)(i := case mb_count m i of None \<Rightarrow> Some 0 | n \<Rightarrow> n) \<rparr>"

definition map_process :: "u32 \<Rightarrow> u64 \<Rightarrow> Members \<Rightarrow> Members" where
  "map_process tgid i m = m\<lparr> mb_cohort := (mb_cohort m)(tgid \<mapsto> i) \<rparr>"

definition enroll :: "u32 \<Rightarrow> u32 \<Rightarrow> u64 \<Rightarrow> Members \<Rightarrow> Members" where
  "enroll pid tgid i m = m\<lparr> mb_count := (mb_count m)(i := map_option (\<lambda>n. n + 1) (mb_count m i)), mb_task := (mb_task m)(pid \<mapsto> tgid) \<rparr>"

definition withdraw :: "u32 \<Rightarrow> u64 \<Rightarrow> Members \<Rightarrow> Members" where
  "withdraw pid i m = m\<lparr> mb_count := (mb_count m)(i := map_option (\<lambda>n. n - 1) (mb_count m i)), mb_task := (mb_task m)(pid := None) \<rparr>"

lemma counted_open:
  assumes "counted m" and "\<forall>tgid. mb_cohort m tgid \<noteq> Some i"
  shows "counted (open_cohort i m)"
proof -
  have "members (open_cohort i m) c = members m c" for c by (simp add: members_def open_cohort_def)
  moreover have "members m i = {}" using assms(2) by (auto simp: members_def)
  moreover have "mb_count m i = Some n \<Longrightarrow> n = 0" for n using assms(1) calculation(2) by (fastforce simp: counted_def)
  ultimately show ?thesis using assms(1) by (auto simp: counted_def open_cohort_def split: option.splits if_splits)
qed

lemma counted_map:
  assumes "counted m" and "mb_cohort m tgid = None"
  shows "counted (map_process tgid i m)"
proof -
  have "mb_task m pid \<noteq> Some tgid" for pid using assms by (fastforce simp: counted_def)
  then have "members (map_process tgid i m) c = members m c" for c by (auto simp: members_def map_process_def) metis
  then show ?thesis using assms(1) by (auto simp: counted_def map_process_def)
qed

lemma counted_enroll:
  assumes "counted m" and "mb_task m pid = None" and "mb_cohort m tgid = Some i"
  shows "counted (enroll pid tgid i m)"
proof -
  have m: "members (enroll pid tgid i m) c = (if c = i then insert pid (members m c) else members m c)" for c
    using assms(2,3) by (auto simp: members_def enroll_def)
  have "pid \<notin> members m i" using assms(2) by (simp add: members_def)
  then have "card (members (enroll pid tgid i m) i) = card (members m i) + 1" unfolding m by simp
  then show ?thesis using assms m by (auto simp: counted_def enroll_def split: if_splits)
qed

lemma counted_withdraw:
  assumes "counted m" and "mb_task m pid = Some tgid" and "mb_cohort m tgid = Some i"
  shows "counted (withdraw pid i m)"
proof -
  have m: "members (withdraw pid i m) c = (if c = i then members m c - {pid} else members m c)" for c
    using assms(2,3) by (auto simp: members_def withdraw_def)
  have "pid \<in> members m i" using assms(2,3) by (simp add: members_def)
  then have "card (members m i) = card (members (withdraw pid i m) i) + 1" unfolding m using card_Suc_Diff1 [of "members m i" pid] by simp
  then have "of_nat (card (members m i)) - 1 = (of_nat (card (members (withdraw pid i m) i)) :: u64)" by simp
  then show ?thesis using assms m by (auto simp: counted_def withdraw_def split: if_splits)
qed

section \<open>Maps with room\<close>

text \<open>A hash map that is not full takes every update that the flags allow.\<close>

locale bpf_room = bpf_side ko contents kinv bh
  for ko :: "'k kernel_ops" and contents and kinv and bh +
  assumes h_room: "kinv k \<Longrightarrow> plain_hash m \<Longrightarrow> length key = key_size m \<Longrightarrow> length v = val_size m \<Longrightarrow>
    flags_allow fl (contents m k key) \<Longrightarrow> contents m (map_update_elem bh m key v fl k) = (contents m k)(key \<mapsto> v)"

interpretation ref_room: bpf_room ref_ops ref_contents ref_inv ref_helpers
proof (unfold_locales, goal_cases)
  case (1 k m key v fl)
  then show ?case by (cases fl) (auto simp: ref_helpers_def ref_ops_def ref_contents_def hm_get_insert)
qed

section \<open>The register in the maps\<close>

definition register :: "(map_id \<Rightarrow> 'k \<Rightarrow> bytes \<Rightarrow> bytes option) \<Rightarrow> 'k \<Rightarrow> Members" where
  "register contents k = \<lparr> mb_count = (\<lambda>c. map_option k_nr_tasks (counters_at contents k c)),
     mb_task = (\<lambda>pid. map_option ts_tgid (stat_at contents k pid)), mb_cohort = mapped_at contents k \<rparr>"

lemma register_cong:
  assumes "contents cohort_counters k' = contents cohort_counters k" and "contents task_stats k' = contents task_stats k"
    and "contents tgid_cohort_map k' = contents tgid_cohort_map k"
  shows "register contents k' = register contents k"
  unfolding register_def at_cong(1) [where contents = contents, OF assms(1)] at_cong(3) [where contents = contents, OF assms(2)]
    at_cong(4) [where contents = contents, OF assms(3)] ..

context bpf_room
begin

lemma policy_insert:
  fixes i :: u64 and pol :: CohortPolicy
  assumes "kinv k"
  defines "k' \<equiv> map_update_elem bh cohort_policy (u64_bytes i) (CohortPolicy_bytes pol) F_NO_EXIST k"
  shows "kinv k'" and "m \<noteq> cohort_policy \<Longrightarrow> contents m k' = contents m k"
    and "contents cohort_policy k' = (contents cohort_policy k)(u64_bytes i := case contents cohort_policy k (u64_bytes i) of
      None \<Rightarrow> Some (CohortPolicy_bytes pol) | v \<Rightarrow> v)"
proof -
  note u = h_update [OF assms(1), where key = "u64_bytes i" and m = cohort_policy and v = "CohortPolicy_bytes pol" and fl = F_NO_EXIST]
  note r = h_room [OF assms(1), of cohort_policy "u64_bytes i" "CohortPolicy_bytes pol" F_NO_EXIST]
  show "kinv k'" "m \<noteq> cohort_policy \<Longrightarrow> contents m k' = contents m k" using u by (simp_all add: k'_def map_simps)
  show "contents cohort_policy k' = (contents cohort_policy k)(u64_bytes i := case contents cohort_policy k (u64_bytes i) of
      None \<Rightarrow> Some (CohortPolicy_bytes pol) | v \<Rightarrow> v)"
    using u [where m' = cohort_policy] r by (auto simp: k'_def map_simps split: option.splits)
qed

lemma counters_insert:
  fixes i :: u64 and c :: CohortCounters
  assumes "kinv k"
  defines "k' \<equiv> map_update_elem bh cohort_counters (u64_bytes i) (CohortCounters_bytes c) F_NO_EXIST k"
  shows "kinv k'" and "m \<noteq> cohort_counters \<Longrightarrow> contents m k' = contents m k"
    and "counters_at contents k' = (counters_at contents k)(i := case counters_at contents k i of None \<Rightarrow> Some c | v \<Rightarrow> v)"
proof -
  note u = h_update [OF assms(1), where key = "u64_bytes i" and m = cohort_counters and v = "CohortCounters_bytes c" and fl = F_NO_EXIST]
  note r = h_room [OF assms(1), of cohort_counters "u64_bytes i" "CohortCounters_bytes c" F_NO_EXIST]
  show "kinv k'" "m \<noteq> cohort_counters \<Longrightarrow> contents m k' = contents m k" using u by (simp_all add: k'_def map_simps)
  have read: "CohortCounters_read v \<noteq> None" if "contents cohort_counters k (u64_bytes i) = Some v" for v
    using sizes [OF assms(1) that] counters.dec_None_iff [of v] by simp
  show "counters_at contents k' = (counters_at contents k)(i := case counters_at contents k i of None \<Rightarrow> Some c | v \<Rightarrow> v)"
  proof (cases "contents cohort_counters k (u64_bytes i)")
    case None
    then show ?thesis using r by (simp add: k'_def counters_at_def map_simps fun_eq_iff)
  next
    case (Some v)
    then have "contents cohort_counters k' = contents cohort_counters k" using u [where m' = cohort_counters] by (simp add: k'_def map_simps)
    then show ?thesis using read [OF Some] Some by (auto simp: counters_at_def fun_eq_iff split: option.splits)
  qed
qed

lemma process_insert:
  fixes tgid :: u32 and i :: u64
  assumes "kinv k"
  defines "k' \<equiv> map_update_elem bh tgid_cohort_map (u32_bytes tgid) (u64_bytes i) F_ANY k"
  shows "kinv k'" and "m \<noteq> tgid_cohort_map \<Longrightarrow> contents m k' = contents m k"
    and "mapped_at contents k' = (mapped_at contents k)(tgid \<mapsto> i)"
  using h_update [OF assms(1), where key = "u32_bytes tgid" and m = tgid_cohort_map and v = "u64_bytes i" and fl = F_ANY]
    h_room [OF assms(1), of tgid_cohort_map "u32_bytes tgid" "u64_bytes i" F_ANY]
  by (simp_all add: k'_def mapped_at_def map_simps fun_eq_iff)

lemma stat_insert:
  fixes pid :: u32
  assumes "kinv k" and "length (ts_comm ts) = 16"
  defines "k' \<equiv> map_update_elem bh task_stats (u32_bytes pid) (TaskStat_bytes ts) F_ANY k"
  shows "kinv k'" and "m \<noteq> task_stats \<Longrightarrow> contents m k' = contents m k"
    and "stat_at contents k' = (stat_at contents k)(pid \<mapsto> ts)"
  using h_update [OF assms(1), where key = "u32_bytes pid" and m = task_stats and v = "TaskStat_bytes ts" and fl = F_ANY]
    h_room [OF assms(1), of task_stats "u32_bytes pid" "TaskStat_bytes ts" F_ANY] task_stat.enc_size [OF assms(2)] task_stat.dec_enc [OF assms(2)]
  by (simp_all add: k'_def stat_at_def map_simps fun_eq_iff)

end

section \<open>init_task and exit_task refine the register\<close>

text \<open>The cohort a forked task gets from its parent's cached context.\<close>

definition inherited_cohort :: "Ctx \<Rightarrow> bool \<Rightarrow> ('k, 'x) Bpf \<Rightarrow> u64" where
  "inherited_cohort cx fork st =
     (if fork then (case Option.bind (cx_current cx) (\<lambda>par. b_task_ctxs st (tk_pid par)) of Some t \<Rightarrow> tc_cohort_id t | None \<Rightarrow> COHORT_INVALID)
      else COHORT_INVALID)"

context bpf_room
begin

lemma mapped_lookup:
  assumes "kinv k"
  shows "map_lookup_elem bh tgid_cohort_map (u32_bytes tgid) k = map_option u64_bytes (mapped_at contents k tgid)"
proof (cases "contents tgid_cohort_map k (u32_bytes tgid)")
  case (Some v)
  then have "length v = 8" using sizes [OF assms Some] by simp
  then show ?thesis using Some by (simp add: h_lookup [OF assms] mapped_at_def u64_read_def layout_simps)
qed (simp add: h_lookup [OF assms] mapped_at_def)

lemma assign_known:
  assumes "kinv (b_maps st)" and "mapped_at contents (b_maps st) (tk_tgid p) = Some c"
  shows "assign_cohort bh cx p fork st = (c, st)"
  using assms(2) by (simp add: assign_cohort_def mapped_lookup [OF assms(1)] layout_simps)

lemma assign_new:
  assumes "kinv (b_maps st)" and "mapped_at contents (b_maps st) (tk_tgid p) = None" and "assign_cohort bh cx p fork st = (i, st')"
  defines "old \<equiv> register contents (b_maps st)" and "new \<equiv> register contents (b_maps st')" and "seq \<equiv> b_cohort_seq st"
  shows "kinv (b_maps st')" and "contents spill_tasks (b_maps st') = contents spill_tasks (b_maps st)"
    and "b_task_ctxs st' = b_task_ctxs st \<and> b_rodata st' = b_rodata st \<and> b_llcs st' = b_llcs st"
    and "if inherited_cohort cx fork st = COHORT_INVALID
      then i = seq + 1 \<and> b_cohort_seq st' = i \<and> new = map_process (tk_tgid p) i (open_cohort i old) \<and>
        contents cohort_policy (b_maps st') = (contents cohort_policy (b_maps st))(u64_bytes i := case contents cohort_policy (b_maps st) (u64_bytes i) of
          None \<Rightarrow> Some (CohortPolicy_bytes \<lparr> p_home_llc = b_rr_ctr st mod ro_nr_llcs (b_rodata st), p_flags = 0 \<rparr>) | v \<Rightarrow> v)
      else i = inherited_cohort cx fork st \<and> b_cohort_seq st' = seq \<and> new = map_process (tk_tgid p) i old \<and>
        contents cohort_policy (b_maps st') = contents cohort_policy (b_maps st)"
proof -
  let ?k = "b_maps st" and ?pol = "\<lparr> p_home_llc = b_rr_ctr st mod ro_nr_llcs (b_rodata st), p_flags = 0 \<rparr>"
  define k1 where "k1 = map_update_elem bh cohort_policy (u64_bytes (seq + 1)) (CohortPolicy_bytes ?pol) F_NO_EXIST ?k"
  define k2 where "k2 = map_update_elem bh cohort_counters (u64_bytes (seq + 1)) (CohortCounters_bytes CohortCounters_default) F_NO_EXIST k1"
  define k0 where "k0 = (if inherited_cohort cx fork st = COHORT_INVALID then k2 else ?k)"
  have st': "b_maps st' = map_update_elem bh tgid_cohort_map (u32_bytes (tk_tgid p)) (u64_bytes i) F_ANY k0"
    and i: "if inherited_cohort cx fork st = COHORT_INVALID then i = seq + 1 \<and> b_cohort_seq st' = i
      else i = inherited_cohort cx fork st \<and> b_cohort_seq st' = seq"
    and frame: "b_task_ctxs st' = b_task_ctxs st \<and> b_rodata st' = b_rodata st \<and> b_llcs st' = b_llcs st"
    using assms(2,3) by (auto simp: assign_cohort_def mapped_lookup [OF assms(1)] Let_def k0_def k1_def k2_def seq_def
        simp flip: inherited_cohort_def split: if_splits)
  note p1 = policy_insert [OF assms(1), where i = "seq + 1" and pol = ?pol, folded k1_def]
  note p2 = counters_insert [OF p1(1), where i = "seq + 1" and c = CohortCounters_default, folded k2_def]
  have k0: "kinv k0" using p2(1) assms(1) by (simp add: k0_def)
  note p3 = process_insert [OF k0, where tgid = "tk_tgid p" and i = i, folded st']
  show "kinv (b_maps st')" by (rule p3(1))
  show "contents spill_tasks (b_maps st') = contents spill_tasks (b_maps st)" using p3(2) p2(2) p1(2) by (simp add: k0_def)
  show "b_task_ctxs st' = b_task_ctxs st \<and> b_rodata st' = b_rodata st \<and> b_llcs st' = b_llcs st" by (rule frame)
  have new: "new = map_process (tk_tgid p) i (register contents k0)"
  proof -
    have s: "contents task_stats (b_maps st') = contents task_stats k0" and c: "contents cohort_counters (b_maps st') = contents cohort_counters k0"
      using p3(2) by simp_all
    show ?thesis
      unfolding new_def register_def p3(3) at_cong(1) [where contents = contents, OF c] at_cong(3) [where contents = contents, OF s]
      by (simp add: map_process_def)
  qed
  have k2: "register contents k2 = open_cohort (seq + 1) (register contents ?k)"
  proof -
    have s: "contents task_stats k2 = contents task_stats ?k" and t: "contents tgid_cohort_map k2 = contents tgid_cohort_map ?k"
      and c: "contents cohort_counters k1 = contents cohort_counters ?k" using p2(2) p1(2) by simp_all
    show ?thesis
      unfolding register_def p2(3) at_cong(1) [where contents = contents, OF c] at_cong(3) [where contents = contents, OF s]
        at_cong(4) [where contents = contents, OF t]
      by (auto simp: open_cohort_def fun_eq_iff CohortCounters_default_def split: option.splits)
  qed
  have pol: "contents cohort_policy (b_maps st') = contents cohort_policy k0" "contents cohort_policy k2 = contents cohort_policy k1"
    using p3(2) p2(2) by simp_all
  show "if inherited_cohort cx fork st = COHORT_INVALID
      then i = seq + 1 \<and> b_cohort_seq st' = i \<and> new = map_process (tk_tgid p) i (open_cohort i old) \<and>
        contents cohort_policy (b_maps st') = (contents cohort_policy (b_maps st))(u64_bytes i := case contents cohort_policy (b_maps st) (u64_bytes i) of
          None \<Rightarrow> Some (CohortPolicy_bytes ?pol) | v \<Rightarrow> v)
      else i = inherited_cohort cx fork st \<and> b_cohort_seq st' = seq \<and> new = map_process (tk_tgid p) i old \<and>
        contents cohort_policy (b_maps st') = contents cohort_policy (b_maps st)"
    using i new k2 pol p1(3) by (auto simp: k0_def old_def)
qed

end

text \<open>The ids the BPF side has yet to issue, and what holds between its callbacks.\<close>

definition unissued :: "u64 \<Rightarrow> u64 \<Rightarrow> bool" where
  "unissued seq c \<longleftrightarrow> seq < c \<and> c < DAEMON_COHORT_BASE"

definition members_inv :: "(map_id \<Rightarrow> 'k \<Rightarrow> bytes \<Rightarrow> bytes option) \<Rightarrow> ('k \<Rightarrow> bool) \<Rightarrow> ('k, 'x) Bpf \<Rightarrow> bool" where
  "members_inv contents kinv st \<longleftrightarrow> kinv (b_maps st) \<and> counted (register contents (b_maps st)) \<and>
     (\<forall>tgid c. mapped_at contents (b_maps st) tgid = Some c \<longrightarrow> \<not> unissued (b_cohort_seq st) c) \<and>
     (\<forall>pid t. b_task_ctxs st pid = Some t \<longrightarrow> \<not> unissued (b_cohort_seq st) (tc_cohort_id t))"

lemma unissued_next:
  assumes "seq < DAEMON_COHORT_BASE - 1"
  shows "unissued seq (seq + 1)" and "unissued (seq + 1) c \<Longrightarrow> unissued seq c" and "\<not> unissued (seq + 1) (seq + 1)"
proof -
  have "unat seq < 4294967295" using assms by (simp add: DAEMON_COHORT_BASE_def word_less_nat_alt)
  then have "unat (seq + 1) = unat seq + 1" by (simp add: unat_word_ariths)
  then have "seq < seq + 1" "seq + 1 < DAEMON_COHORT_BASE" "seq < c" if "seq + 1 < c \<or> c = seq + 1" for c
    using \<open>unat seq < 4294967295\<close> that by (auto simp: word_less_nat_alt DAEMON_COHORT_BASE_def)
  then show "unissued seq (seq + 1)" and "unissued (seq + 1) c \<Longrightarrow> unissued seq c" and "\<not> unissued (seq + 1) (seq + 1)"
    using assms by (auto simp: unissued_def)
qed

context bpf_room
begin

lemma init_task_refines:
  assumes "kinv (b_maps st)" and "length (tk_comm p) = 16" and "alloc \<or> b_task_ctxs st (tk_pid p) \<noteq> None"
  obtains t i st1 where "assign_cohort bh cx p fork (put_ctx p t st) = (i, st1)" and "tc_cohort_id t \<in> {COHORT_INVALID} \<union> tc_cohort_id ` ran (b_task_ctxs st)"
    and "\<And>st'. cohort_init_task bh cx alloc p fork st = (0, st') \<Longrightarrow> kinv (b_maps st1) \<Longrightarrow> kinv (b_maps st') \<and>
      register contents (b_maps st') = enroll (tk_pid p) (tk_tgid p) i (register contents (b_maps st1)) \<and> b_cohort_seq st' = b_cohort_seq st1 \<and>
      (\<exists>t'. tc_cohort_id t' = i \<and> b_task_ctxs st' = (b_task_ctxs st1)(tk_pid p \<mapsto> t')) \<and>
      (\<forall>m. m \<notin> {cohort_counters, task_stats} \<longrightarrow> contents m (b_maps st') = contents m (b_maps st1))"
proof -
  define t where "t = (case b_task_ctxs st (tk_pid p) of Some t \<Rightarrow> t | None \<Rightarrow> TaskCtx_zero)"
  have t: "(case b_task_ctxs st (tk_pid p) of Some t \<Rightarrow> Some t | None \<Rightarrow> if alloc then Some TaskCtx_zero else None) = Some t"
    using assms(3) by (auto simp: t_def split: option.splits)
  have id: "tc_cohort_id t \<in> {COHORT_INVALID} \<union> tc_cohort_id ` ran (b_task_ctxs st)"
    by (auto simp: t_def TaskCtx_zero_def COHORT_INVALID_def ran_def split: option.splits)
  obtain i st1 where a: "assign_cohort bh cx p fork (put_ctx p t st) = (i, st1)" by fastforce
  let ?k = "b_maps st1"
  let ?ts = "\<lparr> ts_tgid = tk_tgid p, ts_pad = 0, ts_cohort_id = i, ts_runtime_sum = 0, ts_runtime_home_sum = 0, ts_comm = tk_comm p \<rparr>"
  have "kinv (b_maps st') \<and>
      register contents (b_maps st') = enroll (tk_pid p) (tk_tgid p) i (register contents ?k) \<and> b_cohort_seq st' = b_cohort_seq st1 \<and>
      (\<exists>t'. tc_cohort_id t' = i \<and> b_task_ctxs st' = (b_task_ctxs st1)(tk_pid p \<mapsto> t')) \<and>
      (\<forall>m. m \<notin> {cohort_counters, task_stats} \<longrightarrow> contents m (b_maps st') = contents m ?k)"
    if i: "cohort_init_task bh cx alloc p fork st = (0, st')" and inv: "kinv ?k" for st'
  proof -
    define k1 where "k1 = add_nr_tasks bh i 1 ?k"
    note e1 = add_nr_tasks_effect [OF inv, where i = i and n = 1, folded k1_def]
    define k2 where "k2 = map_update_elem bh task_stats (u32_bytes (tk_pid p)) (TaskStat_bytes ?ts) F_ANY k1"
    have ts: "length (ts_comm ?ts) = 16" using assms(2) by simp
    note e2 = stat_insert [OF e1(1) ts, where pid = "tk_pid p", folded k2_def]
    obtain vt where "st' = put_ctx p (t\<lparr> tc_cohort_id := i, tc_vtime := vt \<rparr>) (st1\<lparr> b_maps := k2 \<rparr>)"
      using i unfolding cohort_init_task_def t option.case a Let_def prod.case prod.inject k1_def [symmetric] k2_def [symmetric] by blast
    then have st': "\<exists>t'. tc_cohort_id t' = i \<and> st' = put_ctx p t' (st1\<lparr> b_maps := k2 \<rparr>)"
      by (intro exI [of _ "t\<lparr> tc_cohort_id := i, tc_vtime := vt \<rparr>"]) simp
    have c: "contents cohort_counters k2 = contents cohort_counters k1" and s: "contents task_stats k1 = contents task_stats ?k"
      and m: "contents tgid_cohort_map k2 = contents tgid_cohort_map ?k" using e1(2) e2(2) by simp_all
    have "register contents k2 = enroll (tk_pid p) (tk_tgid p) i (register contents ?k)"
      unfolding register_def e2(3) at_cong(1) [where contents = contents, OF c] e1(3) at_cong(3) [where contents = contents, OF s]
        at_cong(4) [where contents = contents, OF m]
      by (simp add: enroll_def fun_eq_iff option.map_comp comp_def)
    then show ?thesis using st' e2(1,2) e1(2) by (auto simp: bpf_frame put_ctx_def)
  qed
  with a id show ?thesis by (rule that)
qed

lemma init_task_members:
  assumes "members_inv contents kinv st" and "stat_at contents (b_maps st) (tk_pid p) = None" and "length (tk_comm p) = 16"
    and "b_cohort_seq st < DAEMON_COHORT_BASE - 1" and "cohort_init_task bh cx alloc p fork st = (r, st')"
  shows "members_inv contents kinv st'"
proof (cases "alloc \<or> b_task_ctxs st (tk_pid p) \<noteq> None")
  case False
  then show ?thesis using assms by (simp add: cohort_init_task_def)
next
  case True
  have inv: "kinv (b_maps st)" "counted (register contents (b_maps st))"
    "\<And>tgid c. mapped_at contents (b_maps st) tgid = Some c \<Longrightarrow> \<not> unissued (b_cohort_seq st) c"
    "\<And>pid t. b_task_ctxs st pid = Some t \<Longrightarrow> \<not> unissued (b_cohort_seq st) (tc_cohort_id t)"
    using assms(1) by (auto simp: members_inv_def)
  have r: "r = 0" using assms(5) True by (auto simp: cohort_init_task_def Let_def split: option.splits prod.splits if_splits)
  obtain t i st1 where a: "assign_cohort bh cx p fork (put_ctx p t st) = (i, st1)"
    and t: "tc_cohort_id t \<in> {COHORT_INVALID} \<union> tc_cohort_id ` ran (b_task_ctxs st)"
    and j: "kinv (b_maps st1) \<Longrightarrow> kinv (b_maps st') \<and>
      register contents (b_maps st') = enroll (tk_pid p) (tk_tgid p) i (register contents (b_maps st1)) \<and> b_cohort_seq st' = b_cohort_seq st1 \<and>
      (\<exists>t'. tc_cohort_id t' = i \<and> b_task_ctxs st' = (b_task_ctxs st1)(tk_pid p \<mapsto> t')) \<and>
      (\<forall>m. m \<notin> {cohort_counters, task_stats} \<longrightarrow> contents m (b_maps st') = contents m (b_maps st1))"
    using init_task_refines [OF inv(1) assms(3) True, of cx fork] assms(5) r by metis
  let ?st0 = "put_ctx p t st" and ?seq = "b_cohort_seq st"
  have zero: "\<not> unissued ?seq COHORT_INVALID" by (simp add: unissued_def COHORT_INVALID_def)
  have t_old: "\<not> unissued ?seq (tc_cohort_id t)" using t zero inv(4) by (auto simp: ran_def)
  have ctxs: "\<not> unissued ?seq (tc_cohort_id t1)" if "b_task_ctxs ?st0 pid = Some t1" for pid t1
    using that t_old inv(4) by (auto simp: put_ctx_def split: if_splits)
  have inh: "\<not> unissued ?seq (inherited_cohort cx fork ?st0)"
    using ctxs zero by (auto simp: inherited_cohort_def split: option.splits Option.bind_splits)
  have 1: "kinv (b_maps st1) \<and> counted (register contents (b_maps st1)) \<and> mapped_at contents (b_maps st1) (tk_tgid p) = Some i \<and>
      mb_task (register contents (b_maps st1)) (tk_pid p) = None \<and> b_task_ctxs st1 = b_task_ctxs ?st0 \<and>
      (\<forall>c. unissued (b_cohort_seq st1) c \<longrightarrow> unissued ?seq c) \<and> \<not> unissued (b_cohort_seq st1) i \<and>
      (\<forall>tgid c. mapped_at contents (b_maps st1) tgid = Some c \<longrightarrow> c = i \<or> mapped_at contents (b_maps st) tgid = Some c)"
  proof (cases "mapped_at contents (b_maps st) (tk_tgid p)")
    case (Some c)
    then have "i = c" "st1 = ?st0" using assign_known [of ?st0 p c cx fork] a inv(1) by (simp_all add: bpf_frame)
    then show ?thesis using inv Some assms(2) by (auto simp: bpf_frame register_def)
  next
    case None
    have k0: "kinv (b_maps ?st0)" "mapped_at contents (b_maps ?st0) (tk_tgid p) = None" using inv(1) None by (simp_all add: bpf_frame)
    note n = assign_new [OF k0 a, unfolded put_ctx_frame]
    have map: "mapped_at contents (b_maps st1) = mb_cohort (register contents (b_maps st1))" by (simp add: register_def)
    have task: "mb_task (register contents (b_maps st)) (tk_pid p) = None" using assms(2) by (simp add: register_def)
    have fresh: "\<forall>tgid. mb_cohort (register contents (b_maps st)) tgid \<noteq> Some (?seq + 1)"
      using inv(3) unissued_next(1) [OF assms(4)] by (auto simp: register_def)
    have none: "mb_cohort (register contents (b_maps st)) (tk_tgid p) = None" using None by (simp add: register_def)
    show ?thesis
    proof (cases "inherited_cohort cx fork ?st0 = COHORT_INVALID")
      case True
      then have "i = ?seq + 1" "b_cohort_seq st1 = i" and reg: "register contents (b_maps st1) = map_process (tk_tgid p) i (open_cohort i (register contents (b_maps st)))"
        using n(4) by simp_all
      moreover have "counted (register contents (b_maps st1))"
        unfolding reg using counted_open [OF inv(2)] fresh none calculation(1) by (intro counted_map) (simp_all add: open_cohort_def)
      ultimately show ?thesis using n(1,3) unissued_next [OF assms(4)] task unfolding map reg
        by (auto simp: map_process_def open_cohort_def) (simp_all add: register_def)
    next
      case False
      then have "i = inherited_cohort cx fork ?st0" "b_cohort_seq st1 = ?seq" and reg: "register contents (b_maps st1) = map_process (tk_tgid p) i (register contents (b_maps st))"
        using n(4) by simp_all
      moreover have "counted (register contents (b_maps st1))" unfolding reg by (rule counted_map [OF inv(2) none])
      ultimately show ?thesis using n(1,3) inh task unfolding map reg
        by (auto simp: map_process_def) (simp_all add: register_def)
    qed
  qed
  from j 1 obtain t' where j': "kinv (b_maps st')" "register contents (b_maps st') = enroll (tk_pid p) (tk_tgid p) i (register contents (b_maps st1))"
    "b_cohort_seq st' = b_cohort_seq st1" "tc_cohort_id t' = i" "b_task_ctxs st' = (b_task_ctxs st1)(tk_pid p \<mapsto> t')" by blast
  have "counted (register contents (b_maps st'))"
    unfolding j'(2) using 1 by (intro counted_enroll) (simp_all add: register_def)
  moreover have "mapped_at contents (b_maps st') = mapped_at contents (b_maps st1)"
    using arg_cong [OF j'(2), of mb_cohort] by (simp add: register_def enroll_def)
  moreover have "\<not> unissued (b_cohort_seq st') (tc_cohort_id t1)" if "b_task_ctxs st' pid = Some t1" for pid t1
    using that 1 ctxs [of pid t1] j' by (auto split: if_splits)
  moreover have "\<not> unissued (b_cohort_seq st') c" if "mapped_at contents (b_maps st1) tgid = Some c" for tgid c
    using that 1 inv(3) [of tgid c] j'(3) by metis
  ultimately show ?thesis using j'(1) by (auto simp: members_inv_def)
qed

lemma exit_task_refines:
  assumes "kinv (b_maps st)" and "b_task_ctxs st (tk_pid p) = Some t" and "mapped_at contents (b_maps st) (tk_tgid p) = Some c"
  defines "st' \<equiv> cohort_exit_task bh p st"
  shows "kinv (b_maps st')" and "register contents (b_maps st') = withdraw (tk_pid p) c (register contents (b_maps st))"
    and "b_cohort_seq st' = b_cohort_seq st \<and> b_task_ctxs st' = (b_task_ctxs st)(tk_pid p \<mapsto> t\<lparr> tc_cohort_id := c \<rparr>)"
    and "contents spill_tasks (b_maps st') = (contents spill_tasks (b_maps st))(u32_bytes (tk_pid p) := None)"
proof -
  let ?k = "b_maps st"
  define k1 where "k1 = add_nr_tasks bh c (- 1) ?k"
  define k2 where "k2 = map_delete_elem bh task_stats (u32_bytes (tk_pid p)) k1"
  have st': "st' = put_ctx p (t\<lparr> tc_cohort_id := c \<rparr>) st\<lparr> b_maps := map_delete_elem bh spill_tasks (u32_bytes (tk_pid p)) k2 \<rparr>"
    using assms(2,3) by (simp add: st'_def cohort_exit_task_def resolve_cohort_def mapped_lookup [OF assms(1)] layout_simps Let_def k1_def k2_def bpf_frame)
  note e1 = add_nr_tasks_effect [OF assms(1), where i = c and n = "- 1", folded k1_def]
  note e2 = h_delete [OF e1(1), of task_stats "u32_bytes (tk_pid p)", folded k2_def]
  have k2: "kinv k2" using e2 by (simp add: map_simps)
  note e3 = h_delete [OF k2, of spill_tasks "u32_bytes (tk_pid p)"]
  show "kinv (b_maps st')" using e3 by (simp add: st' map_simps)
  have c: "contents cohort_counters (b_maps st') = contents cohort_counters k1" and m: "contents tgid_cohort_map (b_maps st') = contents tgid_cohort_map ?k"
    and s: "contents task_stats (b_maps st') = (contents task_stats ?k)(u32_bytes (tk_pid p) := None)"
    and sp: "contents spill_tasks (b_maps st') = (contents spill_tasks ?k)(u32_bytes (tk_pid p) := None)"
    using e1(2) e2 e3 by (simp_all add: st' map_simps)
  have "stat_at contents (b_maps st') = (stat_at contents ?k)(tk_pid p := None)"
    using s by (simp add: stat_at_def fun_eq_iff map_simps)
  then show "register contents (b_maps st') = withdraw (tk_pid p) c (register contents ?k)"
    unfolding register_def at_cong(1) [where contents = contents, OF c] e1(3) at_cong(4) [where contents = contents, OF m]
    by (simp add: withdraw_def fun_eq_iff option.map_comp comp_def)
  show "b_cohort_seq st' = b_cohort_seq st \<and> b_task_ctxs st' = (b_task_ctxs st)(tk_pid p \<mapsto> t\<lparr> tc_cohort_id := c \<rparr>)"
    by (simp add: st' put_ctx_def)
  show "contents spill_tasks (b_maps st') = (contents spill_tasks ?k)(u32_bytes (tk_pid p) := None)" by (rule sp)
qed

lemma exit_task_members:
  assumes "members_inv contents kinv st" and "b_task_ctxs st (tk_pid p) = Some t"
    and "stat_at contents (b_maps st) (tk_pid p) = Some ts" and "ts_tgid ts = tk_tgid p"
  shows "members_inv contents kinv (cohort_exit_task bh p st)"
proof -
  have inv: "kinv (b_maps st)" "counted (register contents (b_maps st))" using assms(1) by (simp_all add: members_inv_def)
  have task: "mb_task (register contents (b_maps st)) (tk_pid p) = Some (tk_tgid p)" using assms(3,4) by (simp add: register_def)
  then obtain c where c: "mapped_at contents (b_maps st) (tk_tgid p) = Some c" using inv(2) by (fastforce simp: counted_def register_def)
  note e = exit_task_refines [OF inv(1) assms(2) c]
  have "counted (register contents (b_maps (cohort_exit_task bh p st)))"
    unfolding e(2) using inv(2) task c by (intro counted_withdraw) (simp_all add: register_def)
  moreover have "mapped_at contents (b_maps (cohort_exit_task bh p st)) = mapped_at contents (b_maps st)"
    using arg_cong [OF e(2), of mb_cohort] by (simp add: register_def withdraw_def)
  ultimately show ?thesis using e(1,3) assms(1) c by (auto simp: members_inv_def split: if_splits)
qed

end

end
