(* ===== verification/Bpf_System.thy ===== *)
theory Bpf_System
  imports Bpf_Members
begin

text \<open>
  The BPF program as a state machine: its callbacks are the events, in any order the kernel calls them.
  Composed with the event loop of the daemon, which shares the maps with it, it is the whole
  scheduler.
\<close>

section \<open>Callbacks as events\<close>

datatype bpf_event = SelectCpu Task nat bool | Enqueue Task u64 | Dispatch nat | Runnable Task | Running Task | Stopping Task
  | InitTask bool Task bool | ExitTask Task

text \<open>
  The task contexts live in task storage, which goes with the task: after \<open>ops.exit_task\<close> the kernel frees
  it, so a pid that is used again starts without one.
\<close>

definition free_task_storage :: "Task \<Rightarrow> ('k, 'x) Bpf \<Rightarrow> ('k, 'x) Bpf" where
  "free_task_storage p st = st\<lparr> b_task_ctxs := (b_task_ctxs st)(tk_pid p := None) \<rparr>"

fun bpf_step :: "'k bpf_helpers \<Rightarrow> 'x scx_ops \<Rightarrow> Ctx \<times> bpf_event \<Rightarrow> ('k, 'x) Bpf \<Rightarrow> ('k, 'x) Bpf" where
  "bpf_step bh so (cx, SelectCpu p prev_cpu sync) st = snd (cohort_select_cpu bh so cx p prev_cpu sync st)"
| "bpf_step bh so (cx, Enqueue p fl) st = cohort_enqueue bh so cx p fl st"
| "bpf_step bh so (cx, Dispatch cpu) st = cohort_dispatch so cx cpu st"
| "bpf_step bh so (cx, Runnable p) st = cohort_runnable cx p st"
| "bpf_step bh so (cx, Running p) st = cohort_running cx p st"
| "bpf_step bh so (cx, Stopping p) st = cohort_stopping bh cx p st"
| "bpf_step bh so (cx, InitTask alloc p fork) st = snd (cohort_init_task bh cx alloc p fork st)"
| "bpf_step bh so (cx, ExitTask p) st = free_task_storage p (cohort_exit_task bh p st)"

definition bpf_run :: "'k bpf_helpers \<Rightarrow> 'x scx_ops \<Rightarrow> (Ctx \<times> bpf_event) list \<Rightarrow> ('k, 'x) Bpf \<Rightarrow> ('k, 'x) Bpf" where
  "bpf_run bh so evs st = fold (bpf_step bh so) evs st"

text \<open>
  What a callback that only schedules leaves alone: the maps but for the wake edges and the load
  counters, the sequence number, and the cohort ids in the task contexts, but for ids read from the maps.
\<close>

definition ids_from :: "('k, 'x) Bpf \<Rightarrow> u64 set \<Rightarrow> ('k, 'x) Bpf \<Rightarrow> bool" where
  "ids_from st new st' \<longleftrightarrow> b_cohort_seq st' = b_cohort_seq st \<and>
     (\<forall>pid t. b_task_ctxs st' pid = Some t \<longrightarrow> tc_cohort_id t \<in> tc_cohort_id ` ran (b_task_ctxs st) \<union> new)"

lemma ids_from_same: "b_cohort_seq st' = b_cohort_seq st \<Longrightarrow> b_task_ctxs st' = b_task_ctxs st \<Longrightarrow> ids_from st new st'"
  by (auto simp: ids_from_def ran_def)

lemma ids_from_put:
  "b_cohort_seq st' = b_cohort_seq st \<Longrightarrow> b_task_ctxs st' = (b_task_ctxs st)(pid \<mapsto> t) \<Longrightarrow>
     tc_cohort_id t \<in> tc_cohort_id ` ran (b_task_ctxs st) \<union> new \<Longrightarrow> ids_from st new st'"
  by (auto simp: ids_from_def ran_def)

lemma place_frame [bpf_frame]:
  "b_maps (place so cx p i st) = b_maps st" "b_task_ctxs (place so cx p i st) = b_task_ctxs st"
  "b_cohort_seq (place so cx p i st) = b_cohort_seq st" "b_rodata (place so cx p i st) = b_rodata st"
  by (simp_all add: place_def bpf_frame Let_def)

lemma idle_search_frame [bpf_frame]:
  "b_maps (snd (idle_search so cx p prev_cpu prev_in_home scratch st)) = b_maps st"
  "b_task_ctxs (snd (idle_search so cx p prev_cpu prev_in_home scratch st)) = b_task_ctxs st"
  "b_cohort_seq (snd (idle_search so cx p prev_cpu prev_in_home scratch st)) = b_cohort_seq st"
  by (simp_all add: idle_search_def bpf_frame Let_def split: prod.splits)

lemma select_in_home_frame [bpf_frame]:
  "b_maps (snd (select_in_home so cx p prev_cpu sync home_cpus st)) = b_maps st"
  "b_task_ctxs (snd (select_in_home so cx p prev_cpu sync home_cpus st)) = b_task_ctxs st"
  "b_cohort_seq (snd (select_in_home so cx p prev_cpu sync home_cpus st)) = b_cohort_seq st"
  by (simp_all add: select_in_home_def bpf_frame Let_def split: prod.splits)

lemma steal_loop_frame [bpf_frame]:
  "b_maps (steal_loop so cx cpu my_llc is st) = b_maps st \<and> b_task_ctxs (steal_loop so cx cpu my_llc is st) = b_task_ctxs st \<and>
   b_cohort_seq (steal_loop so cx cpu my_llc is st) = b_cohort_seq st"
  by (induction so cx cpu my_llc "is" st rule: steal_loop.induct) (auto simp: bpf_frame Let_def split: option.splits prod.splits)

lemma dispatch_frame [bpf_frame]:
  "b_maps (cohort_dispatch so cx cpu st) = b_maps st" "b_task_ctxs (cohort_dispatch so cx cpu st) = b_task_ctxs st"
  "b_cohort_seq (cohort_dispatch so cx cpu st) = b_cohort_seq st"
  by (auto simp: cohort_dispatch_def bpf_frame Let_def split: option.splits prod.splits)

section \<open>What every event keeps\<close>

context bpf_side
begin

lemma mapped_lookup_dec: "kinv k \<Longrightarrow> map_lookup_elem bh tgid_cohort_map (u32_bytes tgid) k = Some v \<Longrightarrow> mapped_at contents k tgid = Some (le_dec v)"
  using sizes [of k tgid_cohort_map "u32_bytes tgid" v] by (simp add: h_lookup mapped_at_def u64_read_def)

lemma home_keeps:
  assumes "kinv (b_maps st)" and "tctx = None \<or> tctx = b_task_ctxs st (tk_pid p)"
  shows "b_maps (snd (task_home_llc bh cx p tctx st)) = b_maps st"
    and "ids_from st (ran (mapped_at contents (b_maps st))) (snd (task_home_llc bh cx p tctx st))"
proof -
  obtain home st' where h: "task_home_llc bh cx p tctx st = (home, st')" by fastforce
  show "b_maps (snd (task_home_llc bh cx p tctx st)) = b_maps st"
    by (simp add: task_home_llc_def resolve_cohort_def bpf_frame Let_def split: option.splits prod.splits)
  show "ids_from st (ran (mapped_at contents (b_maps st))) (snd (task_home_llc bh cx p tctx st))"
  proof (cases tctx)
    case None
    then show ?thesis by (simp add: task_home_llc_def ids_from_same)
  next
    case (Some t)
    with assms(2) have t: "b_task_ctxs st (tk_pid p) = Some t" by simp
    obtain t' where st': "st' = put_ctx p t' st" and c: "tc_cohort_id t' = (if contents spill_tasks (b_maps st) (u32_bytes (tk_pid p)) = None
        then (case contents tgid_cohort_map (b_maps st) (u32_bytes (tk_tgid p)) of Some v \<Rightarrow> le_dec v | None \<Rightarrow> tc_cohort_id t) else tc_cohort_id t)"
      using task_home_decided(2) [OF assms(1) h [unfolded Some]] by blast
    have "tc_cohort_id t' \<in> tc_cohort_id ` ran (b_task_ctxs st) \<union> ran (mapped_at contents (b_maps st))"
      using c t mapped_lookup_dec [OF assms(1)] by (auto simp: h_lookup [OF assms(1)] intro: ranI split: option.splits if_splits)
    then show ?thesis by (simp add: h st' ids_from_put bpf_frame put_ctx_def)
  qed
qed

lemma effective_keeps:
  assumes "kinv (b_maps st)" and "tctx = None \<or> tctx = b_task_ctxs st (tk_pid p)"
  shows "b_maps (snd (task_effective_llc bh cx p tctx st)) = b_maps st"
    and "ids_from st (ran (mapped_at contents (b_maps st))) (snd (task_effective_llc bh cx p tctx st))"
proof -
  have "snd (task_effective_llc bh cx p tctx st) = snd (task_home_llc bh cx p tctx st)"
    by (auto simp: task_effective_llc_def Let_def split: prod.splits option.splits)
  then show "b_maps (snd (task_effective_llc bh cx p tctx st)) = b_maps st"
    "ids_from st (ran (mapped_at contents (b_maps st))) (snd (task_effective_llc bh cx p tctx st))" using home_keeps [OF assms] by simp_all
qed

lemma lookup_ctx_keeps:
  assumes "lookup_task_ctx cx p st = (tctx, st')"
  shows "tctx = b_task_ctxs st' (tk_pid p)" "b_maps st' = b_maps st" "b_task_ctxs st' = b_task_ctxs st" "b_cohort_seq st' = b_cohort_seq st"
  using assms by (auto simp: lookup_task_ctx_def bpf_frame split: option.splits)

lemma ids_from_cong:
  "ids_from st1 new st' \<Longrightarrow> b_cohort_seq st1 = b_cohort_seq st \<Longrightarrow> b_task_ctxs st1 = b_task_ctxs st \<Longrightarrow>
   b_cohort_seq st2 = b_cohort_seq st' \<Longrightarrow> b_task_ctxs st2 = b_task_ctxs st' \<Longrightarrow> ids_from st new st2"
  by (simp add: ids_from_def)

lemma select_cpu_keeps:
  assumes "kinv (b_maps st)"
    and st'_def: "st' = snd (cohort_select_cpu bh so cx p prev_cpu sync st)"
  shows "kinv (b_maps st') \<and> (\<forall>m. m \<noteq> wake_edges \<longrightarrow> contents m (b_maps st') = contents m (b_maps st)) \<and>
    ids_from st (ran (mapped_at contents (b_maps st))) st'"
proof -
  define st1 where "st1 = record_wake_edge bh cx p st"
  have k1: "kinv (b_maps st1)" and same: "\<forall>m. m \<noteq> wake_edges \<longrightarrow> contents m (b_maps st1) = contents m (b_maps st)"
    using record_wake_edge_effect [OF assms(1)] by (auto simp: st1_def)
  have map: "mapped_at contents (b_maps st1) = mapped_at contents (b_maps st)" using same by (simp add: mapped_at_def fun_eq_iff)
  obtain tctx st2 where c: "lookup_task_ctx cx p st1 = (tctx, st2)" by fastforce
  note c2 = lookup_ctx_keeps [OF c]
  obtain home st3 where h: "task_home_llc bh cx p tctx st2 = (home, st3)" by fastforce
  have k2: "kinv (b_maps st2)" using c2 k1 by simp
  have h3: "b_maps st3 = b_maps st2" "ids_from st2 (ran (mapped_at contents (b_maps st2))) st3"
    using home_keeps [OF k2, of tctx p cx, unfolded h] c2(1) by simp_all
  have "b_maps st' = b_maps st1 \<and> (b_task_ctxs st' = b_task_ctxs st1 \<and> b_cohort_seq st' = b_cohort_seq st1 \<or>
      b_task_ctxs st' = b_task_ctxs st3 \<and> b_cohort_seq st' = b_cohort_seq st3)"
    unfolding st'_def cohort_select_cpu_def Let_def st1_def [symmetric] c prod.case h
    using h3(1) c2 by (auto simp: bpf_frame split: option.splits)
  then show ?thesis
    using k1 same ids_from_same [of st' st] ids_from_cong [OF h3(2), of st st'] c2 map by (auto simp: st1_def bpf_frame)
qed

lemma enqueue_keeps:
  assumes "kinv (b_maps st)"
    and st'_def: "st' = cohort_enqueue bh so cx p fl st"
  shows "b_maps st' = b_maps st \<and> ids_from st (ran (mapped_at contents (b_maps st))) st'"
proof -
  obtain tctx st2 where c: "lookup_task_ctx cx p st = (tctx, st2)" by fastforce
  note c2 = lookup_ctx_keeps [OF c]
  obtain llc st3 where h: "task_effective_llc bh cx p tctx st2 = (llc, st3)" by fastforce
  have k2: "kinv (b_maps st2)" using c2 assms(1) by simp
  have h3: "b_maps st3 = b_maps st2" "ids_from st2 (ran (mapped_at contents (b_maps st2))) st3"
    using effective_keeps [OF k2, of tctx p cx, unfolded h] c2(1) by simp_all
  have "b_maps st' = b_maps st3 \<and> b_task_ctxs st' = b_task_ctxs st3 \<and> b_cohort_seq st' = b_cohort_seq st3"
    unfolding st'_def cohort_enqueue_def Let_def c prod.case h by (auto simp: bpf_frame split: option.splits)
  then show ?thesis using h3 c2 ids_from_cong [OF h3(2), of st st'] by simp
qed

lemma runnable_keeps:
  "b_maps (cohort_runnable cx p st) = b_maps st \<and> ids_from st new (cohort_runnable cx p st)"
proof (cases "b_task_ctxs st (tk_pid p)")
  case None
  then show ?thesis by (simp add: cohort_runnable_def lookup_task_ctx_def bpf_frame ids_from_same)
next
  case (Some t)
  then obtain freq where "cohort_runnable cx p st = put_ctx p (t\<lparr> tc_wake_freq := freq, tc_last_wake_at := cx_now cx \<rparr>) st"
    by (simp add: cohort_runnable_def lookup_task_ctx_def Let_def)
  then show ?thesis using Some by (auto simp: put_ctx_def intro!: ids_from_put intro: ranI)
qed

lemma running_keeps:
  "b_maps (cohort_running cx p st) = b_maps st \<and> ids_from st new (cohort_running cx p st)"
proof (cases "b_task_ctxs st (tk_pid p)")
  case None
  then show ?thesis by (simp add: cohort_running_def lookup_task_ctx_def bpf_frame ids_from_same)
next
  case (Some t)
  then have "b_maps (cohort_running cx p st) = b_maps st \<and> b_cohort_seq (cohort_running cx p st) = b_cohort_seq st \<and>
      b_task_ctxs (cohort_running cx p st) = (b_task_ctxs st)(tk_pid p \<mapsto> t\<lparr> tc_last_run_at := cx_now cx \<rparr>)"
    by (auto simp: cohort_running_def lookup_task_ctx_def put_ctx_def put_llc_def Let_def split: option.splits)
  then show ?thesis using Some by (auto intro!: ids_from_put intro: ranI)
qed

lemma stopping_keeps:
  assumes "kinv (b_maps st)"
    and st'_def: "st' = cohort_stopping bh cx p st"
  shows "kinv (b_maps st') \<and> (\<forall>m. m \<notin> {cohort_counters, llc_load, task_stats} \<longrightarrow> contents m (b_maps st') = contents m (b_maps st)) \<and>
    register contents (b_maps st') = register contents (b_maps st) \<and> ids_from st new st'"
proof (cases "b_task_ctxs st (tk_pid p)")
  case None
  then have "st' = stat_inc cx STAT_TCTX_ERR st" by (simp add: st'_def cohort_stopping_def lookup_task_ctx_def)
  then show ?thesis using assms(1) by (simp add: bpf_frame ids_from_same)
next
  case (Some t)
  note m = stopping_maps [OF assms(1) Some, where cx = cx, folded st'_def]
  note f = stopping_frame [OF Some, where cx = cx, folded st'_def]
  have "contents tgid_cohort_map (b_maps st') = contents tgid_cohort_map (b_maps st)" using m(2) by simp
  note map = at_cong(4) [where contents = contents, OF this]
  have "b_cohort_seq st' = b_cohort_seq st" using Some by (simp add: st'_def cohort_stopping_def lookup_task_ctx_def Let_def bpf_frame)
  then have "ids_from st new st'" using f(2) Some by (auto intro!: ids_from_put intro: ranI)
  then show ?thesis using m(1,2) unfolding register_def m(3,5) map by (auto simp: fun_eq_iff option.map_comp comp_def)
qed

end

text \<open>\<open>task_struct::comm\<close> is an array of 16 bytes.\<close>

fun event_typed :: "Ctx \<times> bpf_event \<Rightarrow> bool" where
  "event_typed (cx, InitTask alloc p fork) \<longleftrightarrow> length (tk_comm p) = 16"
| "event_typed _ \<longleftrightarrow> True"

context bpf_side
begin

lemma hash_update_keeps:
  assumes "kinv k" and "length key = key_size m" and "length v = val_size m" and "m \<noteq> spill_tasks"
  shows "kinv (map_update_elem bh m key v fl k) \<and> contents spill_tasks (map_update_elem bh m key v fl k) = contents spill_tasks k"
  using h_update [OF assms(1-3), where m' = spill_tasks and fl = fl] assms(4) by simp

lemma assign_keeps:
  assumes "kinv (b_maps st)"
  shows "kinv (b_maps (snd (assign_cohort bh cx p fork st))) \<and>
    contents spill_tasks (b_maps (snd (assign_cohort bh cx p fork st))) = contents spill_tasks (b_maps st)"
proof -
  let ?I = "\<lambda>k. kinv k \<and> contents spill_tasks k = contents spill_tasks (b_maps st)"
  have pol: "?I (map_update_elem bh cohort_policy (u64_bytes i) (CohortPolicy_bytes pl) F_NO_EXIST k)" if "?I k" for i pl k
    using that hash_update_keeps [of k "u64_bytes i" cohort_policy "CohortPolicy_bytes pl" F_NO_EXIST] by (simp add: map_simps)
  have ctr: "?I (map_update_elem bh cohort_counters (u64_bytes i) (CohortCounters_bytes c) F_NO_EXIST k)" if "?I k" for i c k
    using that hash_update_keeps [of k "u64_bytes i" cohort_counters "CohortCounters_bytes c" F_NO_EXIST] by (simp add: map_simps)
  have proc: "?I (map_update_elem bh tgid_cohort_map (u32_bytes g) (u64_bytes i) F_ANY k)" if "?I k" for g i k
    using that hash_update_keeps [of k "u32_bytes g" tgid_cohort_map "u64_bytes i" F_ANY] by (simp add: map_simps)
  have "?I (b_maps (snd (assign_cohort bh cx p fork st)))"
    unfolding assign_cohort_def Let_def using assms pol ctr proc by (simp split: option.splits)
  then show ?thesis .
qed

lemma init_task_keeps:
  assumes "kinv (b_maps st)" and "length (tk_comm p) = 16"
  shows "kinv (b_maps (snd (cohort_init_task bh cx alloc p fork st))) \<and>
    contents spill_tasks (b_maps (snd (cohort_init_task bh cx alloc p fork st))) = contents spill_tasks (b_maps st)"
proof -
  have "kinv (map_update_elem bh task_stats (u32_bytes pid) (TaskStat_bytes ts) F_ANY (add_nr_tasks bh i 1 k)) \<and>
      contents spill_tasks (map_update_elem bh task_stats (u32_bytes pid) (TaskStat_bytes ts) F_ANY (add_nr_tasks bh i 1 k)) = contents spill_tasks k"
    if "kinv k" "ts_comm ts = tk_comm p" for ts i k pid
  proof -
    have "length (TaskStat_bytes ts) = 48" using that assms(2) by (intro task_stat.enc_size) simp
    then show ?thesis
      using hash_update_keeps [OF add_nr_tasks_effect(1) [OF that(1), of i 1], of "u32_bytes pid" task_stats "TaskStat_bytes ts" F_ANY]
        add_nr_tasks_effect(2) [OF that(1), of spill_tasks i 1] by (simp add: map_simps)
  qed
  moreover have "kinv (b_maps (snd (assign_cohort bh cx p fork (put_ctx p t st)))) \<and>
      contents spill_tasks (b_maps (snd (assign_cohort bh cx p fork (put_ctx p t st)))) = contents spill_tasks (b_maps st)" for t
    using assign_keeps [of "put_ctx p t st"] assms(1) by (simp add: bpf_frame)
  ultimately have stored: "kinv (b_maps (snd (cohort_init_task bh cx alloc p fork st))) \<and>
      contents spill_tasks (b_maps (snd (cohort_init_task bh cx alloc p fork st))) = contents spill_tasks (b_maps st)"
    if "(case b_task_ctxs st (tk_pid p) of Some t \<Rightarrow> Some t | None \<Rightarrow> if alloc then Some TaskCtx_zero else None) = Some t" for t
    unfolding cohort_init_task_def that option.case Let_def by (simp add: bpf_frame split_beta)
  show ?thesis
  proof (cases "case b_task_ctxs st (tk_pid p) of Some t \<Rightarrow> Some t | None \<Rightarrow> if alloc then Some TaskCtx_zero else None")
    case None
    then show ?thesis using assms(1) unfolding cohort_init_task_def None by simp
  qed (rule stored)
qed

lemma exit_task_keeps:
  assumes "kinv (b_maps st)"
  shows "kinv (b_maps (cohort_exit_task bh p st)) \<and>
    contents spill_tasks (b_maps (cohort_exit_task bh p st)) key \<in> {contents spill_tasks (b_maps st) key, None}"
proof -
  have "kinv (map_delete_elem bh spill_tasks pid (map_delete_elem bh task_stats pid (add_nr_tasks bh i n k))) \<and>
      contents spill_tasks (map_delete_elem bh spill_tasks pid (map_delete_elem bh task_stats pid (add_nr_tasks bh i n k))) = (contents spill_tasks k)(pid := None)"
    if "kinv k" for pid i n k
  proof -
    note e = add_nr_tasks_effect [OF that, where i = i and n = n]
    have "kinv (map_delete_elem bh task_stats pid (add_nr_tasks bh i n k))" using h_delete [OF e(1)] by (simp add: map_simps)
    then show ?thesis using h_delete [OF e(1), of task_stats pid] h_delete [of _ spill_tasks pid] e(2) by (simp add: map_simps)
  qed
  moreover have "b_maps (snd (resolve_cohort bh p (Some t) st)) = b_maps st" for t
    by (simp add: resolve_cohort_def Let_def bpf_frame split: option.splits)
  ultimately show ?thesis using assms by (simp add: cohort_exit_task_def Let_def split_beta split: option.splits)
qed

lemma step_keeps:
  assumes "kinv (b_maps st)" and "event_typed e"
  shows "kinv (b_maps (bpf_step bh so e st)) \<and> contents spill_tasks (b_maps (bpf_step bh so e st)) key \<in> {contents spill_tasks (b_maps st) key, None}"
proof -
  obtain cx ev where e: "e = (cx, ev)" by (cases e)
  show ?thesis
  proof (cases ev)
    case (SelectCpu p c sync)
    then show ?thesis using select_cpu_keeps [OF assms(1) refl, of so cx p c sync] by (simp add: e)
  next
    case (Enqueue p fl)
    then show ?thesis using enqueue_keeps [OF assms(1) refl, of so cx p fl] assms(1) by (simp add: e)
  next
    case (Runnable p)
    then show ?thesis using runnable_keeps [of cx p st "{}"] assms(1) by (simp add: e)
  next
    case (Running p)
    then show ?thesis using running_keeps [of cx p st "{}"] assms(1) by (simp add: e)
  next
    case (Stopping p)
    then show ?thesis using stopping_keeps [OF assms(1) refl, of cx p "{}"] by (simp add: e)
  next
    case (InitTask alloc p fork)
    then show ?thesis using init_task_keeps [OF assms(1), of p cx alloc fork] assms(2) by (simp add: e)
  next
    case (ExitTask p)
    then show ?thesis using exit_task_keeps [OF assms(1), of p key] by (simp add: e free_task_storage_def)
  qed (simp add: e assms(1) bpf_frame)
qed

lemma run_keeps:
  "kinv (b_maps st) \<Longrightarrow> \<forall>e \<in> set evs. event_typed e \<Longrightarrow>
     kinv (b_maps (bpf_run bh so evs st)) \<and> contents spill_tasks (b_maps (bpf_run bh so evs st)) key \<in> {contents spill_tasks (b_maps st) key, None}"
proof (induction evs arbitrary: st)
  case (Cons e evs)
  note s = step_keeps [OF Cons.prems(1), of e so key]
  show ?case using Cons.IH [of "bpf_step bh so e st"] s Cons.prems(2) by (auto simp: bpf_run_def)
qed (simp add: bpf_run_def)

lemma run_step_ok:
  assumes "\<forall>e \<in> set evs. event_typed e"
  shows "kernel_step_ok contents kinv (\<lambda>k. b_maps (bpf_run bh so evs (st\<lparr> b_maps := k \<rparr>)))"
  unfolding kernel_step_ok_def using run_keeps [of "st\<lparr> b_maps := _ \<rparr>" evs so, OF _ assms] by simp

end

section \<open>Members are counted\<close>

text \<open>
  The kernel initialises a task once, and lets it exit once, with the process it was initialised with.
  The BPF side issues fewer than \<open>2^32\<close> ids.
\<close>

fun event_ok :: "(map_id \<Rightarrow> 'k \<Rightarrow> bytes \<Rightarrow> bytes option) \<Rightarrow> Ctx \<times> bpf_event \<Rightarrow> ('k, 'x) Bpf \<Rightarrow> bool" where
  "event_ok contents (cx, InitTask alloc p fork) st \<longleftrightarrow>
     length (tk_comm p) = 16 \<and> stat_at contents (b_maps st) (tk_pid p) = None \<and> b_cohort_seq st < DAEMON_COHORT_BASE - 1"
| "event_ok contents (cx, ExitTask p) st \<longleftrightarrow>
     (case (b_task_ctxs st (tk_pid p), stat_at contents (b_maps st) (tk_pid p)) of (Some t, Some ts) \<Rightarrow> ts_tgid ts = tk_tgid p | _ \<Rightarrow> False)"
| "event_ok contents _ st \<longleftrightarrow> True"

inductive bpf_reach :: "'k bpf_helpers \<Rightarrow> 'x scx_ops \<Rightarrow> (map_id \<Rightarrow> 'k \<Rightarrow> bytes \<Rightarrow> bytes option) \<Rightarrow> ('k, 'x) Bpf \<Rightarrow> ('k, 'x) Bpf \<Rightarrow> bool"
  for bh so contents st0 where
  start: "bpf_reach bh so contents st0 st0"
| event: "bpf_reach bh so contents st0 st \<Longrightarrow> event_ok contents e st \<Longrightarrow> bpf_reach bh so contents st0 (bpf_step bh so e st)"

lemma members_inv_quiet:
  assumes "members_inv contents kinv st" and "kinv (b_maps st')" and "register contents (b_maps st') = register contents (b_maps st)"
    and "ids_from st (ran (mapped_at contents (b_maps st))) st'"
  shows "members_inv contents kinv st'"
proof -
  have "mapped_at contents (b_maps st') = mapped_at contents (b_maps st)" using arg_cong [OF assms(3), of mb_cohort] by (simp add: register_def)
  then show ?thesis using assms by (fastforce simp: members_inv_def ids_from_def ran_def)
qed

context bpf_room
begin

lemma step_members:
  assumes "members_inv contents kinv st" and "event_ok contents e st"
  shows "members_inv contents kinv (bpf_step bh so e st)"
proof -
  have k: "kinv (b_maps st)" using assms(1) by (simp add: members_inv_def)
  obtain cx ev where e: "e = (cx, ev)" by (cases e)
  let ?ids = "ran (mapped_at contents (b_maps st))"
  show ?thesis
  proof (cases ev)
    case (SelectCpu p c sync)
    then show ?thesis using select_cpu_keeps [OF k refl, of so cx p c sync]
      by (intro members_inv_quiet [OF assms(1)] register_cong) (simp_all add: e)
  next
    case (Enqueue p fl)
    then show ?thesis using enqueue_keeps [OF k refl, of so cx p fl] k by (intro members_inv_quiet [OF assms(1)]) (simp_all add: e)
  next
    case (Dispatch cpu)
    then show ?thesis using k by (intro members_inv_quiet [OF assms(1)]) (simp_all add: e bpf_frame ids_from_same)
  next
    case (Runnable p)
    then show ?thesis using runnable_keeps [of cx p st ?ids] k by (intro members_inv_quiet [OF assms(1)]) (simp_all add: e)
  next
    case (Running p)
    then show ?thesis using running_keeps [of cx p st ?ids] k by (intro members_inv_quiet [OF assms(1)]) (simp_all add: e)
  next
    case (Stopping p)
    then show ?thesis using stopping_keeps [OF k refl, of cx p ?ids] by (intro members_inv_quiet [OF assms(1)]) (simp_all add: e)
  next
    case (InitTask alloc p fork)
    then show ?thesis using init_task_members [OF assms(1), of p cx alloc fork "fst (cohort_init_task bh cx alloc p fork st)"] assms(2) by (simp add: e)
  next
    case (ExitTask p)
    then have "members_inv contents kinv (cohort_exit_task bh p st)"
      using exit_task_members [OF assms(1), of p] assms(2) by (auto simp: e split: option.splits)
    then show ?thesis by (simp add: e ExitTask members_inv_def free_task_storage_def)
  qed
qed

lemma reach_members:
  assumes "bpf_reach bh so contents st0 st" and "members_inv contents kinv st0"
  shows "members_inv contents kinv st"
  using assms by (induction rule: bpf_reach.induct) (auto intro: step_members)

end

text \<open>
  C7. The member counts are exact. Started on empty maps, after any sequence of callbacks of any
  tasks, in any order that initialises and exits each task once, every cohort's \<open>nr_tasks\<close> is the
  number of live tasks whose process is mapped to the cohort: it never underflows, forked and
  inherited tasks are counted where they belong, and no wake-up, dispatch or accounting callback
  disturbs it. The maps are assumed not to be full.
\<close>

theorem members_counted:
  assumes "bpf_room ko contents kinv bh" and "kinv (b_maps st0)" and "b_task_ctxs st0 = Map.empty"
    and "\<forall>m \<in> {cohort_counters, tgid_cohort_map, task_stats}. contents m (b_maps st0) = Map.empty"
    and "bpf_reach bh so contents st0 st" and "counters_at contents (b_maps st) c = Some cs"
  shows "k_nr_tasks cs = of_nat (card {pid. \<exists>ts. stat_at contents (b_maps st) pid = Some ts \<and> mapped_at contents (b_maps st) (ts_tgid ts) = Some c})"
proof -
  have "members_inv contents kinv st0"
    using assms(2-4) by (simp add: members_inv_def counted_def register_def at_defs)
  from bpf_room.reach_members [OF assms(1,5) this] have "counted (register contents (b_maps st))" by (simp add: members_inv_def)
  moreover have "members (register contents (b_maps st)) c =
      {pid. \<exists>ts. stat_at contents (b_maps st) pid = Some ts \<and> mapped_at contents (b_maps st) (ts_tgid ts) = Some c}"
    by (auto simp: members_def register_def)
  moreover have "mb_count (register contents (b_maps st)) c = Some (k_nr_tasks cs)" using assms(6) by (simp add: register_def)
  ultimately show ?thesis unfolding counted_def by metis
qed

text \<open>The machine before any task is known to the scheduler, and the first task.\<close>

definition empty_bpf :: "(ref_kernel, ref_scx) Bpf" where
  "empty_bpf = demo_bpf\<lparr> b_maps := (\<lambda>_. []), b_task_ctxs := Map.empty, b_cohort_seq := 0 \<rparr>"

lemma first_task_counters:
  "counters_at ref_contents (b_maps (bpf_step ref_helpers ref_scx_ops (demo_cx, InitTask True demo_task False) empty_bpf)) 1 =
     Some \<lparr> k_nr_tasks = 1, k_load_sum = 0 \<rparr>"
  by (simp add: empty_bpf_def cohort_init_task_def assign_cohort_def ref_helpers_def ref_ops_def add_nr_tasks_def put_ctx_def counters_at_def
      ref_contents_def policy_home_def Let_def map_simps layout_simps hm_get_insert CohortCounters_default_def CohortCounters_bytes_def
      CohortCounters_read_def demo_bpf_def)

text \<open>Witness of C7.\<close>

theorem members_counted_witness:
  defines "st \<equiv> bpf_step ref_helpers ref_scx_ops (demo_cx, InitTask True demo_task False) empty_bpf"
  shows "1 = (of_nat (card {pid. \<exists>ts. stat_at ref_contents (b_maps st) pid = Some ts \<and> mapped_at ref_contents (b_maps st) (ts_tgid ts) = Some 1}) :: u64)"
proof -
  have "bpf_reach ref_helpers ref_scx_ops ref_contents empty_bpf st"
    unfolding st_def by (rule bpf_reach.event [OF bpf_reach.start])
      (simp add: demo_task_def stat_at_def ref_contents_def empty_bpf_def DAEMON_COHORT_BASE_def)
  from members_counted [OF ref_room.bpf_room_axioms _ _ _ this first_task_counters [folded st_def]] show ?thesis
    by (simp add: empty_bpf_def demo_kernel ref_contents_def fun_eq_iff)
qed

end
