(* ===== verification/System_Scenario.thy ===== *)
theory System_Scenario
  imports Bpf_System
begin

text \<open>
  A run of the whole scheduler, computed: on the machine of two LLCs with two CPUs each, a process of two
  tasks starts before the first tick; before the second one its first task, of weight 200, has run for 190 ms
  and its second task for 20 ms on LLC 1. The cohort then exceeds the high mark of its home, and the daemon
  spills the colder task to LLC 0. The witnesses of the properties of the composed scheduler use it.
\<close>

section \<open>The maps\<close>

definition hot_task :: Task where
  "hot_task = demo_task\<lparr> tk_weight := 200 \<rparr>"

definition cold_task :: Task where
  "cold_task = demo_task\<lparr> tk_pid := 101 \<rparr>"

definition busy_stat :: "u64 \<Rightarrow> TaskStat" where
  "busy_stat r = \<lparr> ts_tgid = 10, ts_pad = 0, ts_cohort_id = 1, ts_runtime_sum = r, ts_runtime_home_sum = 0, ts_comm = replicate 16 0 \<rparr>"

definition busy_maps :: "u64 \<Rightarrow> u64 \<Rightarrow> u64 \<Rightarrow> (bytes \<times> bytes) list \<Rightarrow> ref_kernel" where
  "busy_maps load hot cold spills = (\<lambda>_. [])
     (tgid_cohort_map := [(u32_bytes 10, u64_bytes 1)],
      cohort_policy := [(u64_bytes 1, CohortPolicy_bytes \<lparr> p_home_llc = 1, p_flags = 0 \<rparr>)],
      cohort_counters := [(u64_bytes 1, CohortCounters_bytes \<lparr> k_nr_tasks = 2, k_load_sum = load \<rparr>)],
      task_stats := [(u32_bytes 100, TaskStat_bytes (busy_stat hot)), (u32_bytes 101, TaskStat_bytes (busy_stat cold))],
      llc_load := hm_insert (u32_bytes 1) (u64_bytes load) zero_loads,
      spill_tasks := spills)"

lemma TaskStat_read_busy [simp]: "TaskStat_read (TaskStat_bytes (busy_stat r)) = Some (busy_stat r)"
  by (intro task_stat.dec_enc) (simp add: busy_stat_def)

section \<open>The ticks\<close>

definition busy_tasks :: "u64 \<Rightarrow> u64 \<Rightarrow> TaskSnapshot list" where
  "busy_tasks dh dc = [\<lparr> t_pid = 100, t_tgid = 10, t_cohort_id = 1, t_duty_ns = dh, t_home_ns = 0, t_comm = comm_string (replicate 16 0) \<rparr>,
     \<lparr> t_pid = 101, t_tgid = 10, t_cohort_id = 1, t_duty_ns = dc, t_home_ns = 0, t_comm = comm_string (replicate 16 0) \<rparr>]"

definition busy_cohort :: "u64 \<Rightarrow> CohortSnapshot" where
  "busy_cohort d = \<lparr> c_id = 1, c_home_llc = 1, c_pinned = False, c_nr_tasks = 2, c_load_ns = d, c_residency_ms = None \<rparr>"

definition busy_llcs :: "u64 \<Rightarrow> LlcLoad list" where
  "busy_llcs d = [\<lparr> l_llc = 0, l_load_ns = 0, l_capacity_ns = 400000000 \<rparr>, \<lparr> l_llc = 1, l_load_ns = d, l_capacity_ns = 400000000 \<rparr>]"

definition seen_runtime :: "u64 \<Rightarrow> u64 \<Rightarrow> (u32, u64 \<times> u64) hashmap" where
  "seen_runtime h c = [(100, h, 0), (101, c, 0)]"

lemma busy_stat_simps [simp]:
  "ts_tgid (busy_stat r) = 10" "ts_cohort_id (busy_stat r) = 1" "ts_runtime_sum (busy_stat r) = r" "ts_runtime_home_sum (busy_stat r) = 0"
  "ts_comm (busy_stat r) = replicate 16 0"
  by (simp_all add: busy_stat_def)

lemma busy_snapshot:
  "snapshot_tasks ref_ops (busy_maps l h c sp) s =
     (let prev = (\<lambda>pid r. fst (case hm_get (prev_runtime s) pid of Some p \<Rightarrow> p | None \<Rightarrow> (r, 0)))
      in Inr (busy_tasks (saturating_sub h (prev 100 h)) (saturating_sub c (prev 101 c)), s\<lparr> prev_runtime := seen_runtime h c \<rparr>))"
  if "prev_runtime s = [] \<or> (\<exists>h c. prev_runtime s = seen_runtime h c)"
  using that by (auto simp: snapshot_tasks_def task_row_def ref_ops_def busy_maps_def busy_tasks_def seen_runtime_def Let_def map_simps saturating_sub_def)

lemma busy_processes: "snapshot_tgid_cohort ref_ops (busy_maps l h c sp) = Inr [(10, 1)]"
  by (simp add: snapshot_tgid_cohort_def ref_ops_def busy_maps_def map_simps)

lemma busy_cohorts:
  "snapshot_cohorts ref_ops (busy_tasks dh dc) [(10, 1)] (busy_maps l h c sp) s =
     Inr ([busy_cohort (saturating_sub l (case hm_get (prev_load_sum s) 1 of Some p \<Rightarrow> p | None \<Rightarrow> l))],
       s\<lparr> dead_cohorts := {}, prev_load_sum := [(1, l)], balancer := retain_cohorts (\<lambda>i. i = 1) (balancer s) \<rparr>, busy_maps l h c sp)"
  if "residency_overrides s = []"
  using that by (simp add: snapshot_cohorts_def cohort_row_def count_tasks_def read_policies_def ref_ops_def busy_maps_def busy_tasks_def busy_cohort_def
      map_simps Let_def hm_entry_def split: option.split)

lemma busy_loads:
  "llc_loads ref_ops (busy_maps l h c sp) s =
     Inr (busy_llcs (saturating_sub l (case hm_get (prev_llc_load s) 1 of Some p \<Rightarrow> p | None \<Rightarrow> l)), s\<lparr> prev_llc_load := [(0, 0), (1, l)] \<rparr>)"
  if "llc_cpus s = [(0, 2), (1, 2)]" "interval_ms s = 200" "prev_llc_load s = [] \<or> (\<exists>x. prev_llc_load s = [(0, 0), (1, x)])"
  using that by (auto simp: llc_loads_def llc_row_def ref_ops_def busy_maps_def busy_llcs_def zero_loads_def interval_ns_def Let_def map_simps saturating_sub_def)

lemma busy_gc: "gc_tgid_map ref_ops [(10, 1)] (busy_tasks dh dc) k s = (s\<lparr> dead_tgids := {} \<rparr>, k)"
  by (simp add: gc_tgid_map_def gc_tgid_def busy_tasks_def)

text \<open>The only cohort of a loaded LLC never moves: it would take the whole gap with it.\<close>

lemma busy_plan:
  assumes "b_cfg b = \<lparr> imbalance_pct = 20, confirm_ticks = 2, cfg_residency_ms = 2000 \<rparr>" and "d \<in> {0, 400000000}" and "streak b = 0"
  shows "plan now (busy_llcs d) [busy_cohort d] b = Inr (b\<lparr> streak := if d = 0 then 0 else 1 \<rparr>, [])"
  using assms by (auto simp: plan_def busy_llcs_def Let_def)

lemma busy_spills:
  assumes "cfg = SpillCfg_default" 
  shows "plan_spills cfg (busy_llcs 0) [busy_cohort 0] (busy_tasks 0 0) [] = Inr []"
    "plan_spills cfg (busy_llcs 400000000) [busy_cohort 400000000] (busy_tasks 190000000 20000000) [] = Inr [(101, 0)]"
  by (simp_all add: assms plan_spills_def spill_cohort_def busy_llcs_def busy_cohort_def busy_tasks_def SpillCfg_default_def Let_def
    keep_already_def hm_collect_def hm_contains_def)

lemma busy_apply_spills:
  assumes "current_spills s = []"
  shows "apply_spills demo_env ref_ops [] k s = Inr (s\<lparr> current_spills := [] \<rparr>, k)"
    "apply_spills demo_env ref_ops [(101, 0)] (busy_maps l h c []) s = Inr (s\<lparr> current_spills := [(101, 0)] \<rparr>, busy_maps l h c [(u32_bytes 101, u32_bytes 0)])"
  using assms by (simp_all add: apply_spills_def hm_iter_def ref_ops_def busy_maps_def map_simps)

lemma busy_relations:
  assumes "edges (wake_graph s) = []" and "split_streak (wake_graph s) = []"
  shows "discover_relationships demo_env ref_ops [busy_cohort d] (busy_tasks dh dc) [(10, 1)] (busy_maps l h c sp) s = Inr (s, busy_maps l h c sp)"
proof -
  let ?g = "wake_graph s" and ?k = "busy_maps l h c sp"
  have g: "?g\<lparr> edges := [] \<rparr> = ?g" "?g\<lparr> split_streak := [] \<rparr> = ?g" using assms by (cases ?g; simp)+
  have "?k(wake_edges := []) = ?k" "?k wake_edges = []" by (simp_all add: busy_maps_def fun_eq_iff)
  then have e: "snapshot_edges ref_ops ?k = Inr ([], ?k)" by (simp add: snapshot_edges_def ref_ops_def)
  have o: "observe [] dt m ?g = ?g" for dt m
    using assms g by (simp add: observe_code fresh_counts_def hm_retain_def)
  have m: "merges tc sizes (?g\<lparr> edges := hm_iter pri (edges ?g) \<rparr>) = (?g, [])" for tc sizes pri
    using assms g by (simp add: merges_def hm_iter_def)
  have mem: "cohort_members_of (cohort_sizes_of [busy_cohort d]) (tgid_task_counts (busy_tasks dh dc)) [(10, 1)] = [(1, [(10, 2)])]"
    by (simp add: cohort_members_of_def cohort_sizes_of_def tgid_task_counts_def busy_cohort_def busy_tasks_def hm_contains_def hm_entry_def hm_collect_def)
  have sp: "splits pri (hm_iter pri' [(1, [(10, 2)])]) ?g = Inr (?g, [])" for pri pri'
    using assms g by (simp add: splits_def split_cohort_def hm_iter_def hm_retain_def)
  have "s\<lparr> wake_graph := wake_graph s \<rparr> = s" by (cases s) simp
  then show ?thesis by (simp add: discover_relationships_def e o m mem sp Let_def)
qed

definition busy_scheduler :: Scheduler where
  "busy_scheduler = (new_scheduler Opts_default Config_default demo_topology)
     \<lparr> prev_runtime := seen_runtime 0 0, prev_load_sum := [(1, 0)], prev_llc_load := [(0, 0), (1, 0)], last_tasks := busy_tasks 0 0 \<rparr>"

lemma new_fields:
  fixes s defines "s \<equiv> new_scheduler Opts_default Config_default demo_topology"
  shows "interval_ms s = 200" "balancer s = Balancer_new \<lparr> imbalance_pct = 20, confirm_ticks = 2, cfg_residency_ms = 2000 \<rparr>" "llc_cpus s = [(0, 2), (1, 2)]"
    "prev_load_sum s = []" "prev_llc_load s = []" "dead_cohorts s = {}" "dead_tgids s = {}" "edges (wake_graph s) = []" "split_streak (wake_graph s) = []"
    "rules (config s) = []" "spill_cfg s = SpillCfg_default" "current_spills s = []" "prev_runtime s = []" "residency_overrides s = []" "last_tasks s = []"
  by (simp_all add: s_def new_scheduler_def Opts_default_def Config_default_def WakeGraph_new_def SpillCfg_default_def demo_llc_cpus [unfolded new_scheduler_def, simplified])

lemmas busy_steps = busy_snapshot busy_processes busy_cohorts busy_gc busy_loads busy_plan busy_spills busy_apply_spills busy_relations
  apply_rules_def apply_decisions_def new_fields saturating_sub_def Balancer_new_def retain_cohorts_def hm_retain_def seen_runtime_def

lemma busy_tick1:
  "tick demo_env ref_ops (busy_maps 0 0 0 []) (new_scheduler Opts_default Config_default demo_topology) =
     Inr (([busy_cohort 0], busy_llcs 0), busy_scheduler, busy_maps 0 0 0 [])"
  unfolding tick_def
  by (simp add: busy_steps) (simp add: busy_scheduler_def seen_runtime_def new_scheduler_def Balancer_new_def Opts_default_def)

lemma busy_tick2:
  "\<exists>v s. tick demo_env ref_ops (busy_maps 400000000 190000000 20000000 []) busy_scheduler =
     Inr (v, s, busy_maps 400000000 190000000 20000000 [(u32_bytes 101, u32_bytes 0)]) \<and> current_spills s = [(101, 0)]"
  unfolding tick_def
  by (simp add: busy_steps busy_scheduler_def)

section \<open>The callbacks\<close>

text \<open>Before the first task: the hash maps are empty, the array of load counters is in place.\<close>

definition busy_bpf :: "(ref_kernel, ref_scx) Bpf" where
  "busy_bpf = empty_bpf\<lparr> b_maps := (\<lambda>_. [])(llc_load := zero_loads) \<rparr>"

definition cx_at :: "u64 \<Rightarrow> Ctx" where
  "cx_at t = demo_cx\<lparr> cx_now := t, cx_task_cpu := 2 \<rparr>"

definition start_events :: "(Ctx \<times> bpf_event) list" where
  "start_events = [(cx_at 0, InitTask True hot_task False), (cx_at 0, InitTask True cold_task False)]"

definition load_events :: "(Ctx \<times> bpf_event) list" where
  "load_events = [(cx_at 190000000, Stopping hot_task), (cx_at 20000000, Stopping cold_task)]"

lemmas bpf_eval = ref_helpers_def ref_ops_def add_nr_tasks_def put_ctx_def policy_home_def Let_def map_simps layout_simps hm_get_insert
  CohortCounters_default_def CohortCounters_bytes_def hot_task_def cold_task_def demo_task_def cx_at_def demo_cx_def task_stat.enc_size

definition ready_to_run :: "TaskCtx option \<Rightarrow> bool" where
  "ready_to_run t = (case t of None \<Rightarrow> False | Some t \<Rightarrow> tc_last_run_at t = 0 \<and> tc_cohort_id t = 1 \<and> tc_home_llc t = 0)"

lemma busy_start:
  fixes so :: "ref_scx scx_ops"
  defines "b \<equiv> bpf_run ref_helpers so start_events busy_bpf"
  shows "b_maps b = busy_maps 0 0 0 []" and "b_rodata b = demo_rodata" and "ready_to_run (b_task_ctxs b 100)" and "ready_to_run (b_task_ctxs b 101)"
proof -
  have rr: "b_rr_ctr demo_bpf = 1" by (simp add: demo_bpf_def)
  note eval = b_def bpf_run_def start_events_def cohort_init_task_def assign_cohort_def busy_bpf_def empty_bpf_def bpf_eval rr
  show "b_maps b = busy_maps 0 0 0 []" by (simp add: eval busy_maps_def busy_stat_def zero_loads_def fun_eq_iff)
  show "b_rodata b = demo_rodata" "ready_to_run (b_task_ctxs b 100)" "ready_to_run (b_task_ctxs b 101)"
    by (simp_all add: eval ready_to_run_def TaskCtx_zero_def)
qed

lemma busy_load:
  fixes so :: "ref_scx scx_ops"
  assumes "b_maps b = busy_maps 0 0 0 []" and "b_rodata b = demo_rodata" and "ready_to_run (b_task_ctxs b 100)" and "ready_to_run (b_task_ctxs b 101)"
  shows "b_maps (bpf_run ref_helpers so load_events b) = busy_maps 400000000 190000000 20000000 []"
proof -
  obtain t1 t2 where t: "b_task_ctxs b 100 = Some t1" "b_task_ctxs b 101 = Some t2" "tc_last_run_at t1 = 0" "tc_last_run_at t2 = 0"
    "tc_cohort_id t1 = 1" "tc_cohort_id t2 = 1" "tc_home_llc t1 = 0" "tc_home_llc t2 = 0"
    using assms(3,4) by (auto simp: ready_to_run_def split: option.splits)
  have llc: "llc_of_cpu demo_rodata 2 = 1" by (simp add: llc_of_cpu_def safe_llc_def demo_rodata_def MAX_CPUS_def)
  show ?thesis
    using assms(1,2) t llc
    by (simp add: bpf_run_def load_events_def cohort_stopping_def lookup_task_ctx_def add_load_def add_llc_load_def charge_task_def
        busy_maps_def zero_loads_def fun_eq_iff bpf_eval) (simp add: busy_stat_def)
qed

end
