(* ===== verification/Cohort_System.thy ===== *)
theory Cohort_System
  imports System_Scenario Daemon_Ids
begin

text \<open>
  The whole scheduler: the BPF program and the daemon on the same maps. Between two turns of the daemon's
  event loop the kernel calls any callbacks of the BPF program; a turn then sees the maps as these left
  them, and the next callbacks see what the daemon wrote.
\<close>

section \<open>What no callback changes\<close>

text \<open>The read-only data that the daemon fills in before loading.\<close>

lemma task_home_rodata: "b_rodata (snd (task_home_llc bh cx p tctx st)) = b_rodata st"
  by (simp add: task_home_llc_def resolve_cohort_def bpf_frame Let_def split: option.splits prod.splits)

lemma task_effective_rodata: "b_rodata (snd (task_effective_llc bh cx p tctx st)) = b_rodata st"
proof -
  have "snd (task_effective_llc bh cx p tctx st) = snd (task_home_llc bh cx p tctx st)"
    by (auto simp: task_effective_llc_def Let_def split: prod.splits option.splits)
  then show ?thesis by (simp add: task_home_rodata)
qed

lemma lookup_ctx_rodata: "b_rodata (snd (lookup_task_ctx cx p st)) = b_rodata st"
  by (simp add: lookup_task_ctx_def bpf_frame split: option.splits)

lemma select_in_home_rodata: "b_rodata (snd (select_in_home so cx p prev_cpu sync home_cpus st)) = b_rodata st"
  by (simp add: select_in_home_def idle_search_def bpf_frame Let_def split: prod.splits)

lemma select_cpu_rodata: "b_rodata (snd (cohort_select_cpu bh so cx p prev_cpu sync st)) = b_rodata st"
proof -
  define st1 where "st1 = record_wake_edge bh cx p st"
  obtain tctx st2 where c: "lookup_task_ctx cx p st1 = (tctx, st2)" by fastforce
  obtain home st3 where h: "task_home_llc bh cx p tctx st2 = (home, st3)" by fastforce
  have e: "b_rodata st1 = b_rodata st" "b_rodata st2 = b_rodata st" "b_rodata st3 = b_rodata st"
    using lookup_ctx_rodata [of cx p st1] task_home_rodata [of bh cx p tctx st2] by (simp_all add: c h) (simp_all add: st1_def bpf_frame)
  show ?thesis
    unfolding cohort_select_cpu_def Let_def st1_def [symmetric] c prod.case h
    using e by (simp add: select_in_home_rodata split: option.splits)
qed

lemma enqueue_rodata: "b_rodata (cohort_enqueue bh so cx p fl st) = b_rodata st"
proof -
  obtain tctx st2 where c: "lookup_task_ctx cx p st = (tctx, st2)" by fastforce
  obtain llc st3 where h: "task_effective_llc bh cx p tctx st2 = (llc, st3)" by fastforce
  have "b_rodata st2 = b_rodata st" "b_rodata st3 = b_rodata st2"
    using lookup_ctx_rodata [of cx p st] task_effective_rodata [of bh cx p tctx st2] by (simp_all add: c h)
  then show ?thesis
    unfolding cohort_enqueue_def Let_def c prod.case h by (simp add: bpf_frame split: option.splits)
qed

lemma steal_loop_rodata: "b_rodata (steal_loop so cx cpu my_llc is st) = b_rodata st"
  by (induction so cx cpu my_llc "is" st rule: steal_loop.induct) (auto simp: bpf_frame Let_def split: option.splits prod.splits)

lemma assign_rodata: "b_rodata (snd (assign_cohort bh cx p fork st)) = b_rodata st"
  by (simp add: assign_cohort_def Let_def split: option.splits)

lemma init_task_rodata: "b_rodata (snd (cohort_init_task bh cx alloc p fork st)) = b_rodata st"
  by (simp add: cohort_init_task_def Let_def bpf_frame assign_rodata split_beta split: option.splits)

lemma step_rodata: "b_rodata (bpf_step bh so e st) = b_rodata st"
proof -
  obtain cx ev where e: "e = (cx, ev)" by (cases e)
  show ?thesis
  proof (cases ev)
    case (Dispatch cpu)
    then show ?thesis by (auto simp: e cohort_dispatch_def Let_def bpf_frame steal_loop_rodata split: prod.splits option.splits)
  next
    case (Stopping p)
    then show ?thesis by (auto simp: e cohort_stopping_def lookup_task_ctx_def Let_def bpf_frame split: option.splits)
  next
    case (Running p)
    then show ?thesis by (auto simp: e cohort_running_def lookup_task_ctx_def Let_def bpf_frame split: option.splits)
  next
    case (Runnable p)
    then show ?thesis by (auto simp: e cohort_runnable_def lookup_task_ctx_def Let_def bpf_frame split: option.splits)
  next
    case (ExitTask p)
    then show ?thesis by (auto simp: e free_task_storage_def cohort_exit_task_def resolve_cohort_def Let_def bpf_frame split: option.splits)
  qed (simp_all add: e select_cpu_rodata enqueue_rodata init_task_rodata)
qed

lemma run_rodata: "b_rodata (bpf_run bh so evs st) = b_rodata st"
  by (induction evs arbitrary: st) (simp_all add: bpf_run_def step_rodata)

section \<open>The ids the BPF side puts into the maps\<close>

definition ctx_ids :: "('k, 'x) Bpf \<Rightarrow> u64 set" where
  "ctx_ids st = tc_cohort_id ` ran (b_task_ctxs st)"

text \<open>The ids of a state: in the maps or in a task's context.\<close>

definition ids :: "(map_id \<Rightarrow> 'k \<Rightarrow> bytes \<Rightarrow> bytes option) \<Rightarrow> ('k, 'x) Bpf \<Rightarrow> u64 set" where
  "ids contents st = present contents (b_maps st) \<union> ctx_ids st"

definition starts_task :: "Ctx \<times> bpf_event \<Rightarrow> bool" where
  "starts_task e \<longleftrightarrow> (case snd e of InitTask _ _ _ \<Rightarrow> True | _ \<Rightarrow> False)"

context bpf_side
begin

lemma present_at:
  assumes "kinv k"
  shows "present contents k = {c. contents cohort_policy k (u64_bytes c) \<noteq> None \<or> counters_at contents k c \<noteq> None} \<union> ran (mapped_at contents k)"
proof -
  have "counters_at contents k c \<noteq> None \<longleftrightarrow> contents cohort_counters k (u64_bytes c) \<noteq> None" for c
    using sizes [OF assms] counters.dec_None_iff by (auto simp: counters_at_def split: Option.bind_splits) fastforce+
  moreover have "mapped_at contents k tgid = Some c \<longleftrightarrow> contents tgid_cohort_map k (u32_bytes tgid) = Some (u64_bytes c)" for tgid c
    using u64.dec_iff by (auto simp: mapped_at_def Option.bind_eq_Some_conv)
  ultimately show ?thesis by (auto simp: present_def ran_def)
qed

lemma quiet_ids:
  assumes "kinv (b_maps st)" and "kinv (b_maps st')" and "ids_from st (ran (mapped_at contents (b_maps st))) st'"
    and "contents cohort_policy (b_maps st') = contents cohort_policy (b_maps st)"
    and "register contents (b_maps st') = register contents (b_maps st)"
  shows "ids contents st' \<subseteq> ids contents st"
proof -
  have c: "counters_at contents (b_maps st') c \<noteq> None \<longleftrightarrow> counters_at contents (b_maps st) c \<noteq> None" for c
    using fun_cong [OF arg_cong [OF assms(5), of mb_count], of c]
    by (cases "counters_at contents (b_maps st') c"; cases "counters_at contents (b_maps st) c") (simp_all add: register_def)
  have m: "mapped_at contents (b_maps st') = mapped_at contents (b_maps st)" using arg_cong [OF assms(5), of mb_cohort] by (simp add: register_def)
  have "present contents (b_maps st') = present contents (b_maps st)" unfolding present_at [OF assms(1)] present_at [OF assms(2)] assms(4) c m ..
  moreover have "ctx_ids st' \<subseteq> ctx_ids st \<union> present contents (b_maps st)"
    using assms(3) unfolding present_at [OF assms(1)] by (auto simp: ids_from_def ctx_ids_def ran_def)
  ultimately show ?thesis by (auto simp: ids_def)
qed

lemma hash_update_present:
  assumes "kinv k"
  shows "present contents (map_update_elem bh cohort_policy (u64_bytes i) (CohortPolicy_bytes pol) fl k) \<subseteq> insert i (present contents k)"
    and "present contents (map_update_elem bh cohort_counters (u64_bytes i) (CohortCounters_bytes c) fl k) \<subseteq> insert i (present contents k)"
    and "present contents (map_update_elem bh tgid_cohort_map (u32_bytes tgid) (u64_bytes i) fl k) \<subseteq> insert i (present contents k)"
    and "length v = val_size task_stats \<Longrightarrow> present contents (map_update_elem bh task_stats (u32_bytes pid) v fl k) \<subseteq> present contents k"
proof -
  let ?k1 = "map_update_elem bh cohort_policy (u64_bytes i) (CohortPolicy_bytes pol) fl k"
  have "\<forall>m. m \<noteq> cohort_policy \<longrightarrow> contents m ?k1 = contents m k"
    "contents cohort_policy ?k1 \<in> {contents cohort_policy k, (contents cohort_policy k)(u64_bytes i \<mapsto> CohortPolicy_bytes pol)}"
    using h_update [OF assms, where key = "u64_bytes i" and m = cohort_policy and v = "CohortPolicy_bytes pol" and fl = fl] by (auto simp: map_simps)
  then show "present contents ?k1 \<subseteq> insert i (present contents k)" by (auto simp: present_def map_simps split: if_splits)
  let ?k2 = "map_update_elem bh cohort_counters (u64_bytes i) (CohortCounters_bytes c) fl k"
  have "\<forall>m. m \<noteq> cohort_counters \<longrightarrow> contents m ?k2 = contents m k"
    "contents cohort_counters ?k2 \<in> {contents cohort_counters k, (contents cohort_counters k)(u64_bytes i \<mapsto> CohortCounters_bytes c)}"
    using h_update [OF assms, where key = "u64_bytes i" and m = cohort_counters and v = "CohortCounters_bytes c" and fl = fl] by (auto simp: map_simps)
  then show "present contents ?k2 \<subseteq> insert i (present contents k)" by (auto simp: present_def map_simps split: if_splits)
  let ?k3 = "map_update_elem bh tgid_cohort_map (u32_bytes tgid) (u64_bytes i) fl k"
  have "\<forall>m. m \<noteq> tgid_cohort_map \<longrightarrow> contents m ?k3 = contents m k"
    "contents tgid_cohort_map ?k3 \<in> {contents tgid_cohort_map k, (contents tgid_cohort_map k)(u32_bytes tgid \<mapsto> u64_bytes i)}"
    using h_update [OF assms, where key = "u32_bytes tgid" and m = tgid_cohort_map and v = "u64_bytes i" and fl = fl] by (auto simp: map_simps)
  then show "present contents ?k3 \<subseteq> insert i (present contents k)" by (auto simp: present_def map_simps split: if_splits)
  let ?k4 = "map_update_elem bh task_stats (u32_bytes pid) v fl k"
  show "present contents ?k4 \<subseteq> present contents k" if "length v = val_size task_stats"
    using h_update [OF assms, where key = "u32_bytes pid" and m = task_stats and v = v and fl = fl] that by (auto simp: present_def map_simps)
qed

lemma add_nr_tasks_present: "kinv k \<Longrightarrow> present contents (add_nr_tasks bh i n k) = present contents k"
proof -
  assume k: "kinv k"
  note e = add_nr_tasks_effect [OF k, where i = i and n = n]
  have "contents tgid_cohort_map (add_nr_tasks bh i n k) = contents tgid_cohort_map k" using e(2) by simp
  note m = at_cong(4) [where contents = contents, OF this]
  have c: "counters_at contents (add_nr_tasks bh i n k) c \<noteq> None \<longleftrightarrow> counters_at contents k c \<noteq> None" for c unfolding e(3) by simp
  show ?thesis unfolding present_at [OF e(1)] present_at [OF k] c m using e(2) by simp
qed

lemma assign_ids:
  assumes "kinv (b_maps st)" and "assign_cohort bh cx p fork st = (i, st')"
  shows "kinv (b_maps st')" and "present contents (b_maps st') \<subseteq> insert i (present contents (b_maps st))" and "b_task_ctxs st' = b_task_ctxs st"
    and "i \<in> present contents (b_maps st) \<union> ctx_ids st \<and> b_cohort_seq st' = b_cohort_seq st \<or> i = b_cohort_seq st' \<and> i = b_cohort_seq st + 1"
proof -
  let ?P = "present contents (b_maps st)"
  show "kinv (b_maps st')" using assign_keeps [OF assms(1), of cx p fork] by (simp add: assms(2))
  have mapped: "le_dec v \<in> ?P" if "map_lookup_elem bh tgid_cohort_map (u32_bytes (tk_tgid p)) (b_maps st) = Some v" for v
    using mapped_lookup_dec [OF assms(1) that] unfolding present_at [OF assms(1)] by (auto simp: ran_def)
  have inherit: "inherited_cohort cx fork st \<in> ctx_ids st" if "inherited_cohort cx fork st \<noteq> COHORT_INVALID"
    using that by (auto simp: inherited_cohort_def ctx_ids_def ran_def split: if_splits option.splits Option.bind_splits)
  have keeps: "kinv (map_update_elem bh cohort_policy (u64_bytes j) (CohortPolicy_bytes pl) F_NO_EXIST k)"
    "kinv (map_update_elem bh cohort_counters (u64_bytes j) (CohortCounters_bytes c) F_NO_EXIST k)" if "kinv k" for j pl c k
    using hash_update_keeps [OF that, of "u64_bytes j" cohort_policy "CohortPolicy_bytes pl" F_NO_EXIST]
      hash_update_keeps [OF that, of "u64_bytes j" cohort_counters "CohortCounters_bytes c" F_NO_EXIST] by (simp_all add: map_simps)
  have new: "present contents (map_update_elem bh tgid_cohort_map (u32_bytes (tk_tgid p)) (u64_bytes j) F_ANY
      (map_update_elem bh cohort_counters (u64_bytes j) (CohortCounters_bytes c) F_NO_EXIST
        (map_update_elem bh cohort_policy (u64_bytes j) (CohortPolicy_bytes pl) F_NO_EXIST (b_maps st)))) \<subseteq> insert j ?P" for j c pl
  proof -
    note k1 = keeps(1) [OF assms(1), of j pl]
    note k2 = keeps(2) [OF k1, of j c]
    show ?thesis using hash_update_present(3) [OF k2, of "tk_tgid p" j F_ANY] hash_update_present(2) [OF k1, of j c F_NO_EXIST]
        hash_update_present(1) [OF assms(1), of j pl F_NO_EXIST] by blast
  qed
  have "present contents (b_maps st') \<subseteq> insert i ?P \<and> b_task_ctxs st' = b_task_ctxs st \<and>
    (i \<in> ?P \<union> ctx_ids st \<and> b_cohort_seq st' = b_cohort_seq st \<or> i = b_cohort_seq st' \<and> i = b_cohort_seq st + 1)"
  proof (cases "map_lookup_elem bh tgid_cohort_map (u32_bytes (tk_tgid p)) (b_maps st)")
    case (Some v)
    then show ?thesis using assms(2) mapped by (auto simp: assign_cohort_def)
  next
    case None
    show ?thesis
    proof (cases "inherited_cohort cx fork st = COHORT_INVALID")
      case True
      define pl where "pl = \<lparr> p_home_llc = b_rr_ctr st mod ro_nr_llcs (b_rodata st), p_flags = 0 \<rparr>"
      have "i = b_cohort_seq st + 1" "b_cohort_seq st' = i" "b_task_ctxs st' = b_task_ctxs st"
        "b_maps st' = map_update_elem bh tgid_cohort_map (u32_bytes (tk_tgid p)) (u64_bytes i) F_ANY
          (map_update_elem bh cohort_counters (u64_bytes i) (CohortCounters_bytes CohortCounters_default) F_NO_EXIST
            (map_update_elem bh cohort_policy (u64_bytes i) (CohortPolicy_bytes pl) F_NO_EXIST (b_maps st)))"
        using assms(2) None True by (auto simp: assign_cohort_def Let_def pl_def simp flip: inherited_cohort_def)
      then show ?thesis using new [of i CohortCounters_default pl] by simp
    next
      case False
      then have "i = inherited_cohort cx fork st" "st' = st\<lparr> b_maps := map_update_elem bh tgid_cohort_map (u32_bytes (tk_tgid p)) (u64_bytes i) F_ANY (b_maps st) \<rparr>"
        using assms(2) None by (auto simp: assign_cohort_def Let_def simp flip: inherited_cohort_def)
      then show ?thesis using inherit [OF False] hash_update_present(3) [OF assms(1), of "tk_tgid p" i F_ANY] by simp
    qed
  qed
  then show "present contents (b_maps st') \<subseteq> insert i ?P" "b_task_ctxs st' = b_task_ctxs st"
    "i \<in> ?P \<union> ctx_ids st \<and> b_cohort_seq st' = b_cohort_seq st \<or> i = b_cohort_seq st' \<and> i = b_cohort_seq st + 1" by blast+
qed

lemma init_task_ids:
  assumes "kinv (b_maps st)" and "length (tk_comm p) = 16" and st'_def: "st' = snd (cohort_init_task bh cx alloc p fork st)"
  shows "ids contents st' \<subseteq> ids contents st \<union> {COHORT_INVALID, b_cohort_seq st'} \<and> b_cohort_seq st' \<in> {b_cohort_seq st, b_cohort_seq st + 1}"
proof (cases "case b_task_ctxs st (tk_pid p) of Some t \<Rightarrow> Some t | None \<Rightarrow> if alloc then Some TaskCtx_zero else None")
  case None
  then have "st' = st" unfolding st'_def cohort_init_task_def None by simp
  then show ?thesis by auto
next
  case (Some t)
  let ?st0 = "put_ctx p t st"
  have t: "tc_cohort_id t \<in> insert COHORT_INVALID (ctx_ids st)"
    using Some by (auto simp: TaskCtx_zero_def COHORT_INVALID_def ctx_ids_def ran_def split: option.splits if_splits)
  obtain i st1 where a: "assign_cohort bh cx p fork ?st0 = (i, st1)" by fastforce
  have k0: "kinv (b_maps ?st0)" using assms(1) by (simp add: bpf_frame)
  note as = assign_ids [OF k0 a]
  define ts where "ts = \<lparr> ts_tgid = tk_tgid p, ts_pad = 0, ts_cohort_id = i, ts_runtime_sum = 0, ts_runtime_home_sum = 0, ts_comm = tk_comm p \<rparr>"
  define k1 where "k1 = add_nr_tasks bh i 1 (b_maps st1)"
  define k2 where "k2 = map_update_elem bh task_stats (u32_bytes (tk_pid p)) (TaskStat_bytes ts) F_ANY k1"
  obtain vt where st': "st' = put_ctx p (t\<lparr> tc_cohort_id := i, tc_vtime := vt \<rparr>) (st1\<lparr> b_maps := k2 \<rparr>)"
    unfolding st'_def cohort_init_task_def Some option.case a Let_def prod.case snd_conv ts_def [symmetric] k1_def [symmetric] k2_def [symmetric] by blast
  have len: "length (TaskStat_bytes ts) = val_size task_stats" using assms(2) by (simp add: ts_def task_stat.enc_size)
  have "kinv k1" unfolding k1_def by (rule add_nr_tasks_effect(1) [OF as(1)])
  from hash_update_present(4) [OF this len, of "tk_pid p" F_ANY]
  have "present contents k2 \<subseteq> present contents (b_maps st1)" unfolding k2_def k1_def add_nr_tasks_present [OF as(1)] .
  then have p: "present contents (b_maps st') \<subseteq> insert i (present contents (b_maps st))" using as(2) by (auto simp: st' bpf_frame)
  have c: "ctx_ids st' \<subseteq> insert i (ctx_ids st)"
    using as(3) by (auto simp: st' ctx_ids_def put_ctx_def ran_def split: if_splits)
  have c0: "ctx_ids ?st0 \<subseteq> insert COHORT_INVALID (ctx_ids st)" using t by (auto simp: ctx_ids_def put_ctx_def ran_def split: if_splits)
  have "b_cohort_seq st' = b_cohort_seq st1" by (simp add: st' bpf_frame)
  then show ?thesis using p c c0 as(4) by (auto simp: ids_def bpf_frame)
qed

lemma exit_task_ids:
  assumes "kinv (b_maps st)" and st'_def: "st' = cohort_exit_task bh p st"
  shows "ids contents st' \<subseteq> ids contents st \<and> b_cohort_seq st' = b_cohort_seq st"
proof (cases "b_task_ctxs st (tk_pid p)")
  case None
  then show ?thesis by (simp add: st'_def cohort_exit_task_def)
next
  case (Some t)
  obtain i st1 where r: "resolve_cohort bh p (Some t) st = (i, st1)" by fastforce
  have st1: "b_maps st1 = b_maps st" "b_cohort_seq st1 = b_cohort_seq st" "ctx_ids st1 \<subseteq> ids contents st"
  proof -
    show "b_maps st1 = b_maps st" "b_cohort_seq st1 = b_cohort_seq st"
      using r by (auto simp: resolve_cohort_def Let_def bpf_frame split: option.splits)
    show "ctx_ids st1 \<subseteq> ids contents st"
    proof (cases "map_lookup_elem bh tgid_cohort_map (u32_bytes (tk_tgid p)) (b_maps st)")
      case None
      then show ?thesis using r by (auto simp: resolve_cohort_def ids_def)
    next
      case (Some v)
      then have "le_dec v \<in> present contents (b_maps st)"
        using mapped_lookup_dec [OF assms(1) Some] unfolding present_at [OF assms(1)] by (auto simp: ran_def)
      then show ?thesis using r Some by (fastforce simp: resolve_cohort_def Let_def ids_def ctx_ids_def put_ctx_def ran_def split: if_splits)
    qed
  qed
  define k1 where "k1 = add_nr_tasks bh i (- 1) (b_maps st)"
  have k1: "kinv k1" "present contents k1 = present contents (b_maps st)"
    unfolding k1_def by (rule add_nr_tasks_effect(1) [OF assms(1)], rule add_nr_tasks_present [OF assms(1)])
  define k2 where "k2 = map_delete_elem bh task_stats (u32_bytes (tk_pid p)) k1"
  have k2: "kinv k2" "present contents k2 = present contents k1"
    using h_delete [OF k1(1), of task_stats "u32_bytes (tk_pid p)"] by (simp_all add: k2_def map_simps present_def)
  have "present contents (map_delete_elem bh spill_tasks (u32_bytes (tk_pid p)) k2) = present contents k2"
    using h_delete [OF k2(1), of spill_tasks "u32_bytes (tk_pid p)"] by (simp add: map_simps present_def)
  moreover have "st' = st1\<lparr> b_maps := map_delete_elem bh spill_tasks (u32_bytes (tk_pid p)) k2 \<rparr>"
    using Some r st1(1) by (simp add: st'_def cohort_exit_task_def Let_def k2_def k1_def)
  ultimately show ?thesis using st1 k1 k2 by (auto simp: ids_def ctx_ids_def)
qed

lemma step_ids:
  assumes "kinv (b_maps st)" and "event_typed e" and st'_def: "st' = bpf_step bh so e st"
  shows "ids contents st' \<subseteq> ids contents st \<union> {COHORT_INVALID, b_cohort_seq st'} \<and>
    (if starts_task e then b_cohort_seq st' \<in> {b_cohort_seq st, b_cohort_seq st + 1} else b_cohort_seq st' = b_cohort_seq st)"
proof -
  obtain cx ev where e: "e = (cx, ev)" by (cases e)
  have inv: "kinv (b_maps st')" using step_keeps [OF assms(1,2), of so] by (simp add: st'_def)
  let ?m = "ran (mapped_at contents (b_maps st))"
  have quiet: "ids contents st' \<subseteq> ids contents st \<and> b_cohort_seq st' = b_cohort_seq st"
    if "ids_from st ?m st'" "contents cohort_policy (b_maps st') = contents cohort_policy (b_maps st)"
      "register contents (b_maps st') = register contents (b_maps st)"
    using quiet_ids [OF assms(1) inv that] that(1) by (simp add: ids_from_def)
  show ?thesis
  proof (cases ev)
    case (SelectCpu p c sync)
    then have "ids contents st' \<subseteq> ids contents st \<and> b_cohort_seq st' = b_cohort_seq st"
      using select_cpu_keeps [OF assms(1) refl, of so cx p c sync] by (intro quiet register_cong) (simp_all add: e st'_def)
    then show ?thesis using SelectCpu by (auto simp: e starts_task_def)
  next
    case (Enqueue p fl)
    then have "ids contents st' \<subseteq> ids contents st \<and> b_cohort_seq st' = b_cohort_seq st"
      using enqueue_keeps [OF assms(1) refl, of so cx p fl] by (intro quiet) (simp_all add: e st'_def)
    then show ?thesis using Enqueue by (auto simp: e starts_task_def)
  next
    case (Dispatch cpu)
    then have "ids contents st' \<subseteq> ids contents st \<and> b_cohort_seq st' = b_cohort_seq st"
      by (intro quiet) (simp_all add: e st'_def bpf_frame ids_from_same)
    then show ?thesis using Dispatch by (auto simp: e starts_task_def)
  next
    case (Runnable p)
    then have "ids contents st' \<subseteq> ids contents st \<and> b_cohort_seq st' = b_cohort_seq st"
      using runnable_keeps [of cx p st ?m] by (intro quiet) (simp_all add: e st'_def)
    then show ?thesis using Runnable by (auto simp: e starts_task_def)
  next
    case (Running p)
    then have "ids contents st' \<subseteq> ids contents st \<and> b_cohort_seq st' = b_cohort_seq st"
      using running_keeps [of cx p st ?m] by (intro quiet) (simp_all add: e st'_def)
    then show ?thesis using Running by (auto simp: e starts_task_def)
  next
    case (Stopping p)
    then have "ids contents st' \<subseteq> ids contents st \<and> b_cohort_seq st' = b_cohort_seq st"
      using stopping_keeps [OF assms(1) refl, of cx p ?m] by (intro quiet) (simp_all add: e st'_def)
    then show ?thesis using Stopping by (auto simp: e starts_task_def)
  next
    case (InitTask alloc p fork)
    then show ?thesis using init_task_ids [OF assms(1) _ refl, of p cx alloc fork] assms(2) by (simp add: e st'_def starts_task_def)
  next
    case (ExitTask p)
    have "ids contents st' \<subseteq> ids contents (cohort_exit_task bh p st)" "b_cohort_seq st' = b_cohort_seq (cohort_exit_task bh p st)"
      by (auto simp: e st'_def ExitTask free_task_storage_def ids_def ctx_ids_def ran_def split: if_splits)
    then show ?thesis using exit_task_ids [OF assms(1) refl, of p] by (auto simp: e ExitTask starts_task_def)
  qed
qed

end

definition starts :: "(Ctx \<times> bpf_event) list \<Rightarrow> nat" where
  "starts evs = length (filter starts_task evs)"

context bpf_side
begin

lemma run_ids:
  assumes "kinv (b_maps st)" and "\<forall>e \<in> set evs. event_typed e" and "unat (b_cohort_seq st) + starts evs < 2 ^ 64"
  shows "ids contents (bpf_run bh so evs st) \<subseteq> ids contents st \<union> {.. b_cohort_seq (bpf_run bh so evs st)} \<and>
    unat (b_cohort_seq st) \<le> unat (b_cohort_seq (bpf_run bh so evs st)) \<and> unat (b_cohort_seq (bpf_run bh so evs st)) \<le> unat (b_cohort_seq st) + starts evs"
  using assms
proof (induction evs arbitrary: st)
  case Nil
  then show ?case by (simp add: bpf_run_def)
next
  case (Cons e evs)
  define s1 where "s1 = bpf_step bh so e st"
  have t: "event_typed e" using Cons.prems(2) by simp
  have k1: "kinv (b_maps s1)" using step_keeps [OF Cons.prems(1) t, of so] by (simp add: s1_def)
  note i = step_ids [OF Cons.prems(1) t s1_def]
  have seq: "unat (b_cohort_seq st) \<le> unat (b_cohort_seq s1) \<and> unat (b_cohort_seq s1) \<le> unat (b_cohort_seq st) + starts [e]"
  proof (cases "starts_task e")
    case True
    then have "unat (b_cohort_seq st + 1) = unat (b_cohort_seq st) + 1" using Cons.prems(3) by (simp add: starts_def unat_word_ariths)
    then show ?thesis using i True by (auto simp: starts_def)
  qed (use i in \<open>simp add: starts_def\<close>)
  have st: "starts (e # evs) = starts [e] + starts evs" by (simp add: starts_def)
  from Cons.IH [OF k1] Cons.prems seq have ih: "ids contents (bpf_run bh so evs s1) \<subseteq> ids contents s1 \<union> {.. b_cohort_seq (bpf_run bh so evs s1)}"
    "unat (b_cohort_seq s1) \<le> unat (b_cohort_seq (bpf_run bh so evs s1))" "unat (b_cohort_seq (bpf_run bh so evs s1)) \<le> unat (b_cohort_seq s1) + starts evs"
    by (auto simp: st)
  have run: "bpf_run bh so (e # evs) st = bpf_run bh so evs s1" by (simp add: bpf_run_def s1_def)
  have "COHORT_INVALID \<le> b_cohort_seq (bpf_run bh so evs s1)" by (simp add: COHORT_INVALID_def)
  moreover have "b_cohort_seq s1 \<le> b_cohort_seq (bpf_run bh so evs s1)" using ih(2) by (simp add: word_le_nat_alt)
  ultimately show ?case unfolding run using ih i seq st by auto
qed

end

context bpf_maps
begin

lemma loop_body_present:
  assumes "kinv (li_kernel i (ls_kernel ls))" and "loop_body ko i ls = Inr ls'"
  shows "\<exists>n \<le> 2 ^ 32. daemon_seq (ls_sched ls') = daemon_seq (ls_sched ls) + of_nat n \<and>
    present contents (ls_kernel ls') \<subseteq> present contents (li_kernel i (ls_kernel ls)) \<union> issued (DAEMON_COHORT_BASE + daemon_seq (ls_sched ls)) n"
proof (cases "li_recv i")
  case (Received req)
  then have "ls_sched ls' = ls_sched ls" "ls_kernel ls' = li_kernel i (ls_kernel ls)"
    using assms(2) by (auto simp: loop_body_def Let_def split: StatsReq.splits if_splits)
  then show ?thesis by (intro exI [of _ 0]) simp
next
  case TimedOut
  then obtain view where "tick (li_env i) ko (li_kernel i (ls_kernel ls)) (ls_sched ls) = Inr (view, ls_sched ls', ls_kernel ls')"
    using assms(2) by (auto simp: loop_body_def Let_def split: sum.splits daemon_error.splits)
  from tick_present [OF assms(1) this] show ?thesis .
next
  case Disconnected
  then show ?thesis using assms(2) by (simp add: loop_body_def)
qed

end

section \<open>The composed run\<close>

fun system_run :: "'k kernel_ops \<Rightarrow> 'k bpf_helpers \<Rightarrow> 'x scx_ops \<Rightarrow> ((Ctx \<times> bpf_event) list \<times> 'k LoopInput) list \<Rightarrow> ('k, 'x) Bpf \<Rightarrow>
    'k LoopState \<Rightarrow> ('k, 'x) Bpf \<times> 'k run_result" where
  "system_run ko bh so [] b ls = (b, RunPending ls)"
| "system_run ko bh so ((evs, i) # turns) b ls =
     (if li_shutdown i \<or> li_exited i then (b, RunStopped ls)
      else
        let b1 = bpf_run bh so evs (b\<lparr> b_maps := ls_kernel ls \<rparr>)
        in case loop_body ko (i\<lparr> li_kernel := (\<lambda>k. b_maps (bpf_run bh so evs (b\<lparr> b_maps := k \<rparr>))) \<rparr>) ls of
             Inl e \<Rightarrow> (b1, RunFailed e)
           | Inr ls' \<Rightarrow> system_run ko bh so turns (b1\<lparr> b_maps := ls_kernel ls' \<rparr>) ls')"

definition system_start :: "'k kernel_ops \<Rightarrow> 'k bpf_helpers \<Rightarrow> 'x scx_ops \<Rightarrow> nat \<Rightarrow> ((Ctx \<times> bpf_event) list \<times> 'k LoopInput) list \<Rightarrow>
    ('k, 'x) Bpf \<Rightarrow> Scheduler \<Rightarrow> ('k, 'x) Bpf \<times> 'k run_result" where
  "system_start ko bh so start turns b s = system_run ko bh so turns b
     \<lparr> ls_sched = s, ls_kernel = b_maps b, ls_view = ([], []), ls_next_tick = start + interval s, ls_sent = [] \<rparr>"

context bpf_side
begin

lemma turn_keeps:
  fixes b :: "('k, 'x) Bpf"
  assumes "daemon_inv contents kinv ls" and "\<forall>e \<in> set evs. event_typed e"
    and i': "i' = i\<lparr> li_kernel := (\<lambda>k. b_maps (bpf_run bh so evs (b\<lparr> b_maps := k \<rparr>))) \<rparr>"
  shows "case loop_body ko i' ls of Inl e \<Rightarrow> \<forall>p. e \<noteq> MainPanic p | Inr ls' \<Rightarrow> daemon_inv contents kinv ls'"
  using loop_body_keeps [OF assms(1), of i'] run_step_ok [OF assms(2), of so b] by (simp add: i' split: sum.splits)

lemma system_run_keeps:
  fixes b :: "('k, 'x) Bpf"
  assumes "daemon_inv contents kinv ls" and "\<forall>(evs, i) \<in> set turns. \<forall>e \<in> set evs. event_typed e"
  shows "case snd (system_run ko bh so turns b ls) of RunFailed e \<Rightarrow> \<forall>p. e \<noteq> MainPanic p
    | RunPending ls' \<Rightarrow> daemon_inv contents kinv ls' | RunStopped ls' \<Rightarrow> daemon_inv contents kinv ls'"
  using assms
proof (induction turns arbitrary: b ls)
  case (Cons t turns)
  obtain evs i where t: "t = (evs, i)" by (cases t)
  have "\<forall>e \<in> set evs. event_typed e" using Cons.prems(2) by (simp add: t)
  note tk = turn_keeps [OF Cons.prems(1) this refl, where i = i and so = so and b = b]
  show ?case
  proof (cases "loop_body ko (i\<lparr> li_kernel := (\<lambda>k. b_maps (bpf_run bh so evs (b\<lparr> b_maps := k \<rparr>))) \<rparr>) ls")
    case (Inl e)
    then show ?thesis using tk Cons.prems(1) by (simp add: t Let_def)
  next
    case (Inr ls')
    then show ?thesis using tk Cons by (simp add: t Let_def)
  qed
qed simp

text \<open>The invariant on ids along a run: \<open>n\<close> daemon ids have been issued.\<close>

lemma system_run_ids:
  fixes b :: "('k, 'x) Bpf"
  assumes "daemon_inv contents kinv ls" and "\<forall>(evs, i) \<in> set turns. \<forall>e \<in> set evs. event_typed e" and "b_maps b = ls_kernel ls"
    and "ids contents b \<subseteq> {.. b_cohort_seq b} \<union> issued DAEMON_COHORT_BASE n" and "daemon_seq (ls_sched ls) = of_nat n"
    and "unat (b_cohort_seq b) + sum_list (map (\<lambda>(evs, _). starts evs) turns) < 2 ^ 64"
    and "system_run ko bh so turns b ls = (b', r)" and "r \<in> {RunPending ls', RunStopped ls'}"
  shows "\<exists>n' \<le> n + length turns * 2 ^ 32. b_maps b' = ls_kernel ls' \<and> ids contents b' \<subseteq> {.. b_cohort_seq b'} \<union> issued DAEMON_COHORT_BASE n' \<and>
    daemon_seq (ls_sched ls') = of_nat n' \<and> unat (b_cohort_seq b') \<le> unat (b_cohort_seq b) + sum_list (map (\<lambda>(evs, _). starts evs) turns)"
  using assms
proof (induction turns arbitrary: b ls n)
  case Nil
  then show ?case by (intro exI [of _ n]) auto
next
  case (Cons t turns)
  obtain evs i where t: "t = (evs, i)" by (cases t)
  define b1 where "b1 = bpf_run bh so evs b"
  let ?i = "i\<lparr> li_kernel := (\<lambda>k. b_maps (bpf_run bh so evs (b\<lparr> b_maps := k \<rparr>))) \<rparr>"
  have b: "b\<lparr> b_maps := ls_kernel ls \<rparr> = b" using Cons.prems(3) by simp
  have ty: "\<forall>e \<in> set evs. event_typed e" using Cons.prems(2) by (simp add: t)
  show ?case
  proof (cases "li_shutdown i \<or> li_exited i")
    case True
    then show ?thesis using Cons.prems by (intro exI [of _ n]) (auto simp: t)
  next
    case False
    then obtain ls1 where l: "loop_body ko ?i ls = Inr ls1" and s: "system_run ko bh so turns (b1\<lparr> b_maps := ls_kernel ls1 \<rparr>) ls1 = (b', r)"
      using Cons.prems(7,8) unfolding t system_run.simps b b1_def [symmetric] Let_def by (auto split: sum.splits)
    have k: "kinv (b_maps b)" using Cons.prems(1,3) by (simp add: daemon_inv_def)
    have "unat (b_cohort_seq b) + starts evs < 2 ^ 64" using Cons.prems(6) by (simp add: t)
    note r1 = run_ids [OF k ty this, of so, folded b1_def]
    have k1: "li_kernel ?i (ls_kernel ls) = b_maps b1" using b by (simp add: b1_def)
    have "kinv (b_maps b1)" using run_keeps [OF k ty, of so] by (simp add: b1_def)
    then have "kinv (li_kernel ?i (ls_kernel ls))" using k1 by simp
    from loop_body_present [OF this l] obtain m where m: "m \<le> 2 ^ 32" "daemon_seq (ls_sched ls1) = of_nat n + of_nat m"
      "present contents (ls_kernel ls1) \<subseteq> present contents (b_maps b1) \<union> issued (DAEMON_COHORT_BASE + of_nat n) m"
      unfolding k1 Cons.prems(5) by blast
    have "ids contents (b1\<lparr> b_maps := ls_kernel ls1 \<rparr>) \<subseteq> ids contents b1 \<union> issued (DAEMON_COHORT_BASE + of_nat n) m"
      using m(3) by (auto simp: ids_def ctx_ids_def)
    moreover have "ids contents b1 \<subseteq> {.. b_cohort_seq b1} \<union> issued DAEMON_COHORT_BASE n"
      using r1 Cons.prems(4) by (auto simp: word_le_nat_alt)
    ultimately have ids: "ids contents (b1\<lparr> b_maps := ls_kernel ls1 \<rparr>) \<subseteq> {.. b_cohort_seq (b1\<lparr> b_maps := ls_kernel ls1 \<rparr>)} \<union> issued DAEMON_COHORT_BASE (n + m)"
      using issued_add [of DAEMON_COHORT_BASE n m] by auto
    have inv: "daemon_inv contents kinv ls1" using turn_keeps [OF Cons.prems(1) ty refl, where i = i and so = so and b = b] by (simp add: l)
    obtain n' where "n' \<le> n + m + length turns * 2 ^ 32" "b_maps b' = ls_kernel ls'" "ids contents b' \<subseteq> {.. b_cohort_seq b'} \<union> issued DAEMON_COHORT_BASE n'"
      "daemon_seq (ls_sched ls') = of_nat n'" "unat (b_cohort_seq b') \<le> unat (b_cohort_seq b1) + sum_list (map (\<lambda>(evs, _). starts evs) turns)"
      using Cons.IH [OF inv _ _ ids _ _ s Cons.prems(8)] Cons.prems(2,6) m(2) r1 by (auto simp: t)
    then show ?thesis using m(1) r1 by (intro exI [of _ n']) (auto simp: t)
  qed
qed

end

section \<open>Properties of the whole scheduler\<close>

context bpf_side
begin

lemma system_run_shared:
  fixes b :: "('k, 'x) Bpf"
  assumes "b_maps b = ls_kernel ls" and "system_run ko bh so turns b ls = (b', r)" and "r \<in> {RunPending ls', RunStopped ls'}"
  shows "b_maps b' = ls_kernel ls' \<and> b_rodata b' = b_rodata b"
  using assms
proof (induction turns arbitrary: b ls)
  case (Cons t turns)
  obtain evs i where t: "t = (evs, i)" by (cases t)
  let ?i = "i\<lparr> li_kernel := (\<lambda>k. b_maps (bpf_run bh so evs (b\<lparr> b_maps := k \<rparr>))) \<rparr>"
  let ?b = "\<lambda>ls1. (bpf_run bh so evs (b\<lparr> b_maps := ls_kernel ls \<rparr>))\<lparr> b_maps := ls_kernel ls1 \<rparr>"
  show ?case
  proof (cases "li_shutdown i \<or> li_exited i")
    case True
    then show ?thesis using Cons.prems by (auto simp: t)
  next
    case False
    then obtain ls1 where s: "system_run ko bh so turns (?b ls1) ls1 = (b', r)"
      using Cons.prems(2,3) by (auto simp: t Let_def split: sum.splits)
    from Cons.IH [OF _ s Cons.prems(3)] show ?thesis by (simp add: run_rodata)
  qed
qed auto

end

text \<open>
  C6. The composed scheduler never panics, and every task is placed where the daemon wants it. Started
  on maps without spills, with the kernel calling any callbacks of the BPF program between any turns of
  the daemon's event loop, no run ends in a panic. And after every turn, the home that the BPF program
  computes for a task on the maps as they then are is this: for a task it finds in the spill map, the target
  that the daemon's current plan has for this very task; for any other task whose process is
  mapped to a cohort that has a policy, the home in that policy.
\<close>

theorem system_never_panics:
  fixes b :: "('k, 'x) Bpf"
  assumes "bpf_side ko contents kinv bh" and "Scheduler_init opts cfg bo = Inr (ro, tn, s)" and "b_rodata b = ro" and "kinv (b_maps b)"
    and "\<forall>key. contents spill_tasks (b_maps b) key = None" and "\<forall>(evs, i) \<in> set turns. \<forall>e \<in> set evs. event_typed e"
    and "system_start ko bh so start turns b s = (b', r)"
  shows "(\<forall>e p. r = RunFailed e \<longrightarrow> e \<noteq> MainPanic p) \<and>
    (\<forall>ls cx p t. r \<in> {RunPending ls, RunStopped ls} \<longrightarrow>
      (if contents spill_tasks (ls_kernel ls) (u32_bytes (tk_pid p)) \<noteq> None
       then \<exists>l. hm_get (current_spills (ls_sched ls)) (tk_pid p) = Some l \<and> fst (task_home_llc bh cx p (Some t) b') = safe_llc ro l
       else \<forall>i pol. contents tgid_cohort_map (ls_kernel ls) (u32_bytes (tk_tgid p)) = Some (u64_bytes i) \<and>
           contents cohort_policy (ls_kernel ls) (u64_bytes i) = Some (CohortPolicy_bytes pol) \<longrightarrow>
           fst (task_home_llc bh cx p (Some t) b') = safe_llc ro (p_home_llc pol)))"
proof -
  obtain topo where s: "s = new_scheduler opts cfg topo" using Scheduler_init_new [OF assms(2)] by blast
  let ?ls = "\<lparr> ls_sched = s, ls_kernel = b_maps b, ls_view = ([], []), ls_next_tick = start + interval s, ls_sent = [] \<rparr>"
  have inv: "daemon_inv contents kinv ?ls" using assms(4,5) new_scheduler_wf by (simp add: s daemon_inv_def spills_within_def)
  have run: "system_run ko bh so turns b ?ls = (b', r)" using assms(7) by (simp add: system_start_def)
  note keeps = bpf_side.system_run_keeps [OF assms(1) inv assms(6), of so b, unfolded run snd_conv]
  have home: "if contents spill_tasks (ls_kernel ls) (u32_bytes (tk_pid p)) \<noteq> None
       then \<exists>l. hm_get (current_spills (ls_sched ls)) (tk_pid p) = Some l \<and> fst (task_home_llc bh cx p (Some t) b') = safe_llc ro l
       else \<forall>i pol. contents tgid_cohort_map (ls_kernel ls) (u32_bytes (tk_tgid p)) = Some (u64_bytes i) \<and>
           contents cohort_policy (ls_kernel ls) (u64_bytes i) = Some (CohortPolicy_bytes pol) \<longrightarrow>
           fst (task_home_llc bh cx p (Some t) b') = safe_llc ro (p_home_llc pol)"
    if r: "r \<in> {RunPending ls, RunStopped ls}" for ls cx p t
  proof -
    have "daemon_inv contents kinv ls" using keeps r by auto
    then have k: "kinv (ls_kernel ls)" "spills_within contents (current_spills (ls_sched ls)) (ls_kernel ls)" by (simp_all add: daemon_inv_def)
    have b': "b_maps b' = ls_kernel ls" "b_rodata b' = ro" using bpf_side.system_run_shared [OF assms(1) _ run r] assms(3) by simp_all
    have "kinv (b_maps b')" using k(1) b'(1) by simp
    from bpf_side.task_home_decided(1) [OF assms(1) this surjective_pairing]
    have "fst (task_home_llc bh cx p (Some t) b') = decided_llc contents ro (cx_task_cpu cx) p t (ls_kernel ls)" by (simp add: b')
    moreover have "hm_get (current_spills (ls_sched ls)) (tk_pid p) = Some (le_dec v)"
      if "contents spill_tasks (ls_kernel ls) (u32_bytes (tk_pid p)) = Some v" for v
      using k(2) that by (auto simp: spills_within_def u32_read_def split: if_splits)
    ultimately show ?thesis
      by (cases "contents spill_tasks (ls_kernel ls) (u32_bytes (tk_pid p))")
        (auto simp: decided_llc_def CohortPolicy_bytes_def layout_simps)
  qed
  show ?thesis using keeps home by (auto split: run_result.splits)
qed

lemma demo_events_typed: "event_typed (demo_cx, InitTask True demo_task False)"
  by (simp add: demo_task_def)

text \<open>The computed run: after its second tick the colder task of the process is spilled to LLC 0.\<close>

definition scenario_turns :: "((Ctx \<times> bpf_event) list \<times> ref_kernel LoopInput) list" where
  "scenario_turns = [(start_events, demo_turn TimedOut 0), (load_events, demo_turn TimedOut 200000100)]"

lemma scenario_typed: "\<forall>(evs, i) \<in> set scenario_turns. \<forall>e \<in> set evs. event_typed e"
  by (simp add: scenario_turns_def start_events_def load_events_def hot_task_def cold_task_def demo_task_def)

lemma scenario_init:
  "\<exists>tn. Scheduler_init Opts_default Config_default demo_boot = Inr (demo_rodata, tn, new_scheduler Opts_default Config_default demo_topology)"
proof -
  have "replicate 512 (0 :: u32) = [0, 0, 0, 0] @ replicate 508 0"
    using replicate_add [of 4 508 "0 :: u32"] by (simp add: numeral_eq_Suc)
  then show ?thesis
    by (simp add: Scheduler_init_def demo_boot_def demo_topology_def fill_rodata_def set_cpu_llc_def MAX_CPUS_def MAX_LLCS_def demo_rodata_def Opts_default_def)
qed

lemma scenario_run:
  "\<exists>b' ls. system_start ref_ops ref_helpers ref_scx_ops 0 scenario_turns busy_bpf (new_scheduler Opts_default Config_default demo_topology) = (b', RunPending ls) \<and>
     current_spills (ls_sched ls) = [(101, 0)] \<and> ls_kernel ls = busy_maps 400000000 190000000 20000000 [(u32_bytes 101, u32_bytes 0)]"
proof -
  have id: "b\<lparr> b_maps := b_maps b \<rparr> = b" for b :: "(ref_kernel, ref_scx) Bpf" by (cases b) simp
  define b1 where "b1 = bpf_run ref_helpers ref_scx_ops start_events busy_bpf"
  note s = busy_start [of ref_scx_ops, folded b1_def]
  have i1: "b1\<lparr> b_maps := busy_maps 0 0 0 [] \<rparr> = b1" using id [of b1] s(1) by simp
  obtain v2 s2 where t: "tick demo_env ref_ops (busy_maps 400000000 190000000 20000000 []) busy_scheduler =
      Inr (v2, s2, busy_maps 400000000 190000000 20000000 [(u32_bytes 101, u32_bytes 0)])" "current_spills s2 = [(101, 0)]"
    using busy_tick2 by blast
  show ?thesis
    using t(2) by (simp add: system_start_def scenario_turns_def loop_body_def demo_turn_def Let_def id s(1) i1 busy_load [OF s] busy_tick1 t(1) flip: b1_def)
qed

text \<open>Witness of C6: in the computed run the cold task is placed on its spill target, the hot one on the home of the cohort.\<close>

theorem system_never_panics_witness:
  "\<exists>b' ls. system_start ref_ops ref_helpers ref_scx_ops 0 scenario_turns busy_bpf (new_scheduler Opts_default Config_default demo_topology) = (b', RunPending ls) \<and>
     (\<forall>cx t. fst (task_home_llc ref_helpers cx cold_task (Some t) b') = 0 \<and> fst (task_home_llc ref_helpers cx hot_task (Some t) b') = 1)"
proof -
  obtain tn where i: "Scheduler_init Opts_default Config_default demo_boot = Inr (demo_rodata, tn, new_scheduler Opts_default Config_default demo_topology)"
    using scenario_init by blast
  obtain b' ls where r: "system_start ref_ops ref_helpers ref_scx_ops 0 scenario_turns busy_bpf (new_scheduler Opts_default Config_default demo_topology) = (b', RunPending ls)"
    and ls: "current_spills (ls_sched ls) = [(101, 0)]" "ls_kernel ls = busy_maps 400000000 190000000 20000000 [(u32_bytes 101, u32_bytes 0)]"
    using scenario_run by blast
  have b: "b_rodata busy_bpf = demo_rodata" "ref_inv (b_maps busy_bpf)" "\<forall>key. ref_contents spill_tasks (b_maps busy_bpf) key = None"
    using ref_inv_upd [OF demo_kernel(1) zero_loads_sized] by (simp_all add: busy_bpf_def empty_bpf_def ref_contents_def)
  have tasks: "tk_pid cold_task = 101" "tk_pid hot_task = 100" "tk_tgid hot_task = 10" by (simp_all add: cold_task_def hot_task_def demo_task_def)
  have k: "ref_contents spill_tasks (ls_kernel ls) (u32_bytes 101) \<noteq> None" "ref_contents spill_tasks (ls_kernel ls) (u32_bytes 100) = None"
    "ref_contents tgid_cohort_map (ls_kernel ls) (u32_bytes 10) = Some (u64_bytes 1)"
    "ref_contents cohort_policy (ls_kernel ls) (u64_bytes 1) = Some (CohortPolicy_bytes \<lparr> p_home_llc = 1, p_flags = 0 \<rparr>)"
    by (simp_all add: ls ref_contents_def busy_maps_def map_simps)
  have llc: "safe_llc demo_rodata 0 = 0" "safe_llc demo_rodata 1 = 1" by (simp_all add: safe_llc_def)
  note home = system_never_panics [OF ref_bpf.bpf_side_axioms, OF i b scenario_typed r, THEN conjunct2, rule_format, of ls]
  have "fst (task_home_llc ref_helpers cx cold_task (Some t) b') = 0" for cx t
    using home [of cold_task cx t] k(1) llc(1) by (simp add: tasks ls(1))
  moreover have "fst (task_home_llc ref_helpers cx hot_task (Some t) b') = 1" for cx t
    using home [of hot_task cx t] k(2-4) llc(2) by (fastforce simp: tasks)
  ultimately show ?thesis using r by blast
qed

lemma issued_fresh:
  assumes "n < 2 ^ 63"
  shows "DAEMON_COHORT_BASE + of_nat n \<notin> issued DAEMON_COHORT_BASE n" and "c < DAEMON_COHORT_BASE \<Longrightarrow> c \<notin> issued DAEMON_COHORT_BASE n"
    and "DAEMON_COHORT_BASE \<le> DAEMON_COHORT_BASE + of_nat n"
proof -
  have u: "unat (DAEMON_COHORT_BASE + of_nat i) = 2 ^ 32 + i" if "i \<le> n" for i
    using that assms by (simp add: DAEMON_COHORT_BASE_def unat_word_ariths unsigned_of_nat take_bit_nat_eq_self)
  show "DAEMON_COHORT_BASE + of_nat n \<notin> issued DAEMON_COHORT_BASE n"
  proof
    assume "DAEMON_COHORT_BASE + of_nat n \<in> issued DAEMON_COHORT_BASE n"
    then obtain i where i: "i < n" "DAEMON_COHORT_BASE + of_nat n = DAEMON_COHORT_BASE + of_nat i" by (auto simp: issued_def)
    then have "unat (DAEMON_COHORT_BASE + of_nat n) = unat (DAEMON_COHORT_BASE + of_nat i)" by (simp only: i(2))
    then show False using u [of n] u [of i] i(1) by linarith
  qed
  have base: "unat DAEMON_COHORT_BASE = 2 ^ 32" by (simp add: DAEMON_COHORT_BASE_def)
  show "c \<notin> issued DAEMON_COHORT_BASE n" if "c < DAEMON_COHORT_BASE" for c
  proof
    assume "c \<in> issued DAEMON_COHORT_BASE n"
    then obtain i where "i < n" "c = DAEMON_COHORT_BASE + of_nat i" by (auto simp: issued_def)
    then have "unat c = 2 ^ 32 + i" using u [of i] by simp
    then show False using that base unfolding word_less_nat_alt by linarith
  qed
  show "DAEMON_COHORT_BASE \<le> DAEMON_COHORT_BASE + of_nat n" using u [of n] base by (simp add: word_le_nat_alt)
qed

text \<open>
  C15. The two id spaces never meet. Both sides create cohorts without asking the other: the BPF
  program numbers them from 1, the daemon from \<open>2^32\<close>. Started on empty hash maps
  (the arrays of load and event counters are never empty and hold whatever they hold), with fewer than
  \<open>2^31\<close> turns of the event loop and fewer than \<open>2^32 - 1\<close> tasks started, after every turn neither the id
  the daemon would give to the next cohort it splits off nor the id the BPF program would give to
  the next process has a policy, counters or a process: creating a cohort never fails on an existing
  id and never joins strangers, although merges, splits and garbage collection recycle entries.
\<close>

theorem cohort_ids_fresh:
  fixes b :: "('k, 'x) Bpf"
  assumes "bpf_side ko contents kinv bh" and "Scheduler_init opts cfg bo = Inr (ro, tn, s)" and "kinv (b_maps b)"
    and "\<forall>m. m \<notin> {llc_load, stats_map} \<longrightarrow> contents m (b_maps b) = Map.empty" and "b_task_ctxs b = Map.empty" and "b_cohort_seq b = 0"
    and "\<forall>(evs, i) \<in> set turns. \<forall>e \<in> set evs. event_typed e"
    and "length turns < 2 ^ 31" and "sum_list (map (\<lambda>(evs, _). starts evs) turns) < 2 ^ 32 - 1"
    and "system_start ko bh so start turns b s = (b', r)" and "r \<in> {RunPending ls, RunStopped ls}"
  shows "DAEMON_COHORT_BASE + daemon_seq (ls_sched ls) \<notin> present contents (ls_kernel ls) \<and> b_cohort_seq b' + 1 \<notin> present contents (ls_kernel ls)"
proof -
  obtain topo where s: "s = new_scheduler opts cfg topo" using Scheduler_init_new [OF assms(2)] by blast
  let ?ls = "\<lparr> ls_sched = s, ls_kernel = b_maps b, ls_view = ([], []), ls_next_tick = start + interval s, ls_sent = [] \<rparr>"
  have inv: "daemon_inv contents kinv ?ls" using assms(3,4) new_scheduler_wf by (simp add: s daemon_inv_def spills_within_def)
  have zero: "ids contents b \<subseteq> {.. b_cohort_seq b} \<union> issued DAEMON_COHORT_BASE 0" "daemon_seq (ls_sched ?ls) = of_nat 0"
    using assms(4,5) by (simp_all add: ids_def ctx_ids_def present_def s new_scheduler_def)
  have few: "unat (b_cohort_seq b) + sum_list (map (\<lambda>(evs, _). starts evs) turns) < 2 ^ 64" using assms(6,9) by simp
  obtain n where n: "n \<le> length turns * 2 ^ 32" "b_maps b' = ls_kernel ls" "ids contents b' \<subseteq> {.. b_cohort_seq b'} \<union> issued DAEMON_COHORT_BASE n"
    "daemon_seq (ls_sched ls) = of_nat n" "unat (b_cohort_seq b') \<le> sum_list (map (\<lambda>(evs, _). starts evs) turns)"
    using bpf_side.system_run_ids [OF assms(1) inv assms(7) _ zero few assms(10) [unfolded system_start_def] assms(11)] assms(6) by auto
  have "n < 2 ^ 63" using n(1) assms(8) by simp
  note f = issued_fresh [OF this]
  have seq: "unat (b_cohort_seq b') < 2 ^ 32 - 1" using n(5) assms(9) by linarith
  then have next_seq: "unat (b_cohort_seq b' + 1) = unat (b_cohort_seq b') + 1" by (simp add: unat_word_ariths)
  have base: "unat DAEMON_COHORT_BASE = 2 ^ 32" by (simp add: DAEMON_COHORT_BASE_def)
  have "b_cohort_seq b' < DAEMON_COHORT_BASE" "b_cohort_seq b' + 1 < DAEMON_COHORT_BASE" "b_cohort_seq b' < b_cohort_seq b' + 1"
    using seq next_seq base by (simp_all add: word_less_nat_alt)
  then have "DAEMON_COHORT_BASE + daemon_seq (ls_sched ls) \<notin> {.. b_cohort_seq b'} \<union> issued DAEMON_COHORT_BASE n"
    "b_cohort_seq b' + 1 \<notin> {.. b_cohort_seq b'} \<union> issued DAEMON_COHORT_BASE n"
    using f(1,3) f(2) [of "b_cohort_seq b' + 1"] by (auto simp: n(4))
  then show ?thesis using n(2,3) by (auto simp: ids_def)
qed

text \<open>Witness of C15: the computed run, in which a cohort is created and a task is spilled.\<close>

theorem cohort_ids_fresh_witness:
  "\<exists>b' ls. system_start ref_ops ref_helpers ref_scx_ops 0 scenario_turns busy_bpf (new_scheduler Opts_default Config_default demo_topology) = (b', RunPending ls) \<and>
     current_spills (ls_sched ls) = [(101, 0)] \<and>
     DAEMON_COHORT_BASE + daemon_seq (ls_sched ls) \<notin> present ref_contents (ls_kernel ls) \<and> b_cohort_seq b' + 1 \<notin> present ref_contents (ls_kernel ls)"
proof -
  obtain tn where i: "Scheduler_init Opts_default Config_default demo_boot = Inr (demo_rodata, tn, new_scheduler Opts_default Config_default demo_topology)"
    using scenario_init by blast
  obtain b' ls where r: "system_start ref_ops ref_helpers ref_scx_ops 0 scenario_turns busy_bpf (new_scheduler Opts_default Config_default demo_topology) = (b', RunPending ls)"
    and ls: "current_spills (ls_sched ls) = [(101, 0)]" using scenario_run by blast
  have b: "ref_inv (b_maps busy_bpf)" "\<forall>m. m \<notin> {llc_load, stats_map} \<longrightarrow> ref_contents m (b_maps busy_bpf) = Map.empty"
    "b_task_ctxs busy_bpf = Map.empty" "b_cohort_seq busy_bpf = 0"
    using ref_inv_upd [OF demo_kernel(1) zero_loads_sized] by (simp_all add: busy_bpf_def empty_bpf_def ref_contents_def)
  have few: "length scenario_turns < 2 ^ 31" "sum_list (map (\<lambda>(evs, _). starts evs) scenario_turns) < 2 ^ 32 - 1"
    by (simp_all add: scenario_turns_def start_events_def load_events_def starts_def starts_task_def)
  from cohort_ids_fresh [OF ref_bpf.bpf_side_axioms, OF i b scenario_typed few r, of ls] show ?thesis using r ls by simp
qed

section \<open>What a merge does not reach\<close>

context bpf_room
begin

lemma spilled_wakeup_stale:
  assumes "kinv (b_maps st)" and "b_task_ctxs st (tk_pid p) = Some t" and "contents spill_tasks (b_maps st) (u32_bytes (tk_pid p)) \<noteq> None"
  obtains t' where "b_task_ctxs (snd (cohort_select_cpu bh so cx p prev_cpu sync st)) = (b_task_ctxs st)(tk_pid p \<mapsto> t')"
    and "tc_cohort_id t' = tc_cohort_id t"
proof -
  define st1 where "st1 = record_wake_edge bh cx p st"
  have k1: "kinv (b_maps st1)" and same: "contents spill_tasks (b_maps st1) = contents spill_tasks (b_maps st)"
    using record_wake_edge_effect [OF assms(1)] by (auto simp: st1_def)
  have ctx: "lookup_task_ctx cx p st1 = (Some t, st1)" using assms(2) by (simp add: lookup_task_ctx_def st1_def bpf_frame)
  obtain home st2 where h: "task_home_llc bh cx p (Some t) st1 = (home, st2)" by fastforce
  obtain t' where st2: "st2 = put_ctx p t' st1" and t': "tc_cohort_id t' = tc_cohort_id t"
    using task_home_decided(2) [OF k1 h] assms(3) by (auto simp: same)
  have "b_task_ctxs (snd (cohort_select_cpu bh so cx p prev_cpu sync st)) \<in> {b_task_ctxs st1, b_task_ctxs st2}"
    unfolding cohort_select_cpu_def Let_def st1_def [symmetric] ctx prod.case h by (auto simp: bpf_frame split: option.splits)
  moreover have "b_task_ctxs st1 = b_task_ctxs st" "b_task_ctxs st2 = (b_task_ctxs st)(tk_pid p \<mapsto> t')"
    by (simp_all add: st2 st1_def put_ctx_def bpf_frame)
  ultimately show ?thesis
  proof (elim insertE emptyE)
    assume "b_task_ctxs (snd (cohort_select_cpu bh so cx p prev_cpu sync st)) = b_task_ctxs st1"
    then show ?thesis using assms(2) \<open>b_task_ctxs st1 = b_task_ctxs st\<close> by (intro that [of t]) (simp_all add: fun_upd_idem)
  next
    assume "b_task_ctxs (snd (cohort_select_cpu bh so cx p prev_cpu sync st)) = b_task_ctxs st2"
    then show ?thesis using t' \<open>b_task_ctxs st2 = _\<close> by (intro that [of t']) simp_all
  qed
qed

end

text \<open>
  C26. A process forked by a spilled task can be lost to a cohort that no longer exists. The wake-up of a
  spilled task does not look at the map that merges rewrite, so its context keeps naming the absorbed
  cohort; and a fork inherits the id from that context, not from the parent's process. The new process is
  then mapped to an id that has neither policy nor counters: it has no home, wherever the parent's cohort
  lives now, and the balancer does not see it.
\<close>

theorem fork_into_merged_cohort:
  fixes st :: "('k, 'x) Bpf" and so :: "'x scx_ops" and cx0 :: Ctx and prev_cpu :: nat and sync :: bool
  assumes "bpf_room ko contents kinv bh" and "kinv (b_maps st)"
    and "b_task_ctxs st (tk_pid par) = Some t" and "contents spill_tasks (b_maps st) (u32_bytes (tk_pid par)) \<noteq> None"
    and "mapped_at contents (b_maps st) (tk_tgid par) = Some into" and "into \<noteq> tc_cohort_id t" and "tc_cohort_id t \<noteq> COHORT_INVALID"
    and "contents cohort_policy (b_maps st) (u64_bytes (tc_cohort_id t)) = None" and "contents cohort_counters (b_maps st) (u64_bytes (tc_cohort_id t)) = None"
    and "mapped_at contents (b_maps st) (tk_tgid p) = None" and "tk_pid p \<noteq> tk_pid par" and "length (tk_comm p) = 16" and "cx_current cx = Some par"
  defines "st1 \<equiv> snd (cohort_select_cpu bh so cx0 par prev_cpu sync st)"
  defines "st2 \<equiv> snd (cohort_init_task bh cx True p True st1)"
  shows "mapped_at contents (b_maps st2) (tk_tgid p) = Some (tc_cohort_id t) \<and> mapped_at contents (b_maps st2) (tk_tgid par) = Some into \<and>
    contents cohort_policy (b_maps st2) (u64_bytes (tc_cohort_id t)) = None \<and> counters_at contents (b_maps st2) (tc_cohort_id t) = None"
proof -
  have side: "bpf_side ko contents kinv bh" using assms(1) by (simp add: bpf_room_def)
  obtain t1 where ctxs: "b_task_ctxs st1 = (b_task_ctxs st)(tk_pid par \<mapsto> t1)" and id: "tc_cohort_id t1 = tc_cohort_id t"
    using bpf_room.spilled_wakeup_stale [OF assms(1-4)] unfolding st1_def by metis
  note keep = bpf_side.select_cpu_keeps [OF side assms(2) st1_def [THEN meta_eq_to_obj_eq]]
  then have k1: "kinv (b_maps st1)" and same: "\<And>m. m \<noteq> wake_edges \<Longrightarrow> contents m (b_maps st1) = contents m (b_maps st)" by blast+
  have map: "mapped_at contents (b_maps st1) = mapped_at contents (b_maps st)" "counters_at contents (b_maps st1) = counters_at contents (b_maps st)"
    using same by (simp_all add: mapped_at_def counters_at_def fun_eq_iff)
  obtain t0 i st1' where a: "assign_cohort bh cx p True (put_ctx p t0 st1) = (i, st1')"
    and "tc_cohort_id t0 \<in> {COHORT_INVALID} \<union> tc_cohort_id ` ran (b_task_ctxs st1)" and j: "\<And>st'. cohort_init_task bh cx True p True st1 = (0, st') \<Longrightarrow> kinv (b_maps st1') \<Longrightarrow> kinv (b_maps st') \<and>
      register contents (b_maps st') = enroll (tk_pid p) (tk_tgid p) i (register contents (b_maps st1')) \<and> b_cohort_seq st' = b_cohort_seq st1' \<and>
      (\<exists>t'. tc_cohort_id t' = i \<and> b_task_ctxs st' = (b_task_ctxs st1')(tk_pid p \<mapsto> t')) \<and>
      (\<forall>m. m \<notin> {cohort_counters, task_stats} \<longrightarrow> contents m (b_maps st') = contents m (b_maps st1'))"
    by (rule bpf_room.init_task_refines [where alloc = True and cx = cx and fork = True, OF assms(1) k1 assms(12) disjI1 [OF TrueI]]) (rule that)
  let ?st0 = "put_ctx p t0 st1"
  have inh: "inherited_cohort cx True ?st0 = tc_cohort_id t" using assms(11,13) by (simp add: inherited_cohort_def put_ctx_def ctxs id)
  have k0: "kinv (b_maps ?st0)" "mapped_at contents (b_maps ?st0) (tk_tgid p) = None" using k1 assms(10) map by (simp_all add: bpf_frame)
  note n = bpf_room.assign_new [OF assms(1) k0 a, unfolded inh]
  have i: "i = tc_cohort_id t" and reg: "register contents (b_maps st1') = map_process (tk_tgid p) i (register contents (b_maps st1))"
    and pol: "contents cohort_policy (b_maps st1') = contents cohort_policy (b_maps st1)" using n(4) assms(7) by (simp_all add: bpf_frame)
  have "fst (cohort_init_task bh cx True p True st1) = 0" by (simp add: cohort_init_task_def Let_def split: option.splits prod.splits)
  then have "cohort_init_task bh cx True p True st1 = (0, st2)" by (metis prod.collapse st2_def)
  note j = j [OF this n(1)]
  have new: "register contents (b_maps st2) = enroll (tk_pid p) (tk_tgid p) i (map_process (tk_tgid p) i (register contents (b_maps st1)))" using j reg by simp
  have "counters_at contents (b_maps st1) i = None" using assms(9) by (simp add: map i counters_at_def)
  then have "mb_count (register contents (b_maps st2)) i = None" unfolding new by (simp add: enroll_def map_process_def register_def)
  moreover have "mb_cohort (register contents (b_maps st2)) = (mapped_at contents (b_maps st))(tk_tgid p \<mapsto> i)"
    unfolding new by (simp add: enroll_def map_process_def register_def map)
  moreover have "tk_tgid par \<noteq> tk_tgid p" using assms(5,10) by auto
  ultimately show ?thesis using j pol same assms(5,8) i by (simp add: register_def)
qed

text \<open>Witness of C26: the parent is of a process merged from cohort 2 into cohort 1, spilled to LLC 0.\<close>

theorem fork_into_merged_cohort_witness:
  defines "st \<equiv> demo_bpf\<lparr> b_maps := demo_maps(spill_tasks := [(u32_bytes 100, u32_bytes 0)]), b_task_ctxs := [100 \<mapsto> demo_ctx\<lparr> tc_cohort_id := 2 \<rparr>] \<rparr>"
    and "child \<equiv> demo_task\<lparr> tk_pid := 101, tk_tgid := 11 \<rparr>"
  shows "mapped_at ref_contents (b_maps (snd (cohort_init_task ref_helpers (demo_cx\<lparr> cx_current := Some demo_task \<rparr>) True child True
      (snd (cohort_select_cpu ref_helpers ref_scx_ops demo_cx demo_task 0 False st))))) 11 = Some 2"
proof -
  have inv: "ref_inv (b_maps st)" using ref_inv_upd [OF demo_maps_inv, of spill_tasks "[(u32_bytes 100, u32_bytes 0)]"]
    by (simp add: st_def map_sized_def hm_wf_def map_simps)
  from fork_into_merged_cohort [OF ref_room.bpf_room_axioms, OF inv, of demo_task "demo_ctx\<lparr> tc_cohort_id := 2 \<rparr>" 1 child
      "demo_cx\<lparr> cx_current := Some demo_task \<rparr>" ref_scx_ops demo_cx 0 False]
  show ?thesis
    by (simp add: st_def child_def demo_task_def mapped_at_def ref_contents_def demo_maps_def map_simps COHORT_INVALID_def)
qed

text \<open>
  A merge leaves the member counts behind: nothing adds the count of the absorbed cohort to that of the
  absorbing one, so the exits that follow take the absorbing cohort's \<open>nr_tasks\<close> below zero. The daemon
  does not read this field; it counts the entries of \<open>task_stats\<close>.
\<close>

definition merged_maps :: ref_kernel where
  "merged_maps = demo_maps
     (tgid_cohort_map := [(u32_bytes 10, u64_bytes 1), (u32_bytes 11, u64_bytes 2)],
      cohort_counters := [(u64_bytes 1, CohortCounters_bytes \<lparr> k_nr_tasks = 1, k_load_sum = 0 \<rparr>), (u64_bytes 2, CohortCounters_bytes \<lparr> k_nr_tasks = 1, k_load_sum = 0 \<rparr>)])"

lemma merge_then_exits_underflow:
  "\<exists>s k. apply_merge ref_ops [(10, 1), (11, 2)] \<lparr> m_into = 1, m_from = 2 \<rparr> (new_scheduler Opts_default Config_default demo_topology, merged_maps) = Inr (s, k) \<and>
     counters_at ref_contents (b_maps (cohort_exit_task ref_helpers demo_task (cohort_exit_task ref_helpers (demo_task\<lparr> tk_pid := 101, tk_tgid := 11 \<rparr>)
       (demo_bpf\<lparr> b_maps := k, b_task_ctxs := [100 \<mapsto> demo_ctx, 101 \<mapsto> demo_ctx] \<rparr>)))) 1 = Some \<lparr> k_nr_tasks = - 1, k_load_sum = 0 \<rparr>"
  by (simp add: apply_merge_def ref_ops_def merged_maps_def demo_maps_def map_simps k_try_update_def k_try_delete_def delete_cohort_def
      cohort_exit_task_def resolve_cohort_def ref_helpers_def add_nr_tasks_def demo_task_def put_ctx_def counters_at_def ref_contents_def
      layout_simps CohortCounters_bytes_def CohortCounters_read_def hm_contains_def hm_get_insert Let_def)

end
