(* ===== verification/Daemon_Homes.thy ===== *)
theory Daemon_Homes
  imports Daemon_Ids
begin

text \<open>
  Every LLC the daemon names is one of the machine: the homes in the policy map and the targets in its
  spill plan stay below the number of LLCs through every tick.
\<close>

section \<open>LLC numbers in the maps\<close>

definition homes_ok :: "(map_id \<Rightarrow> 'k \<Rightarrow> bytes \<Rightarrow> bytes option) \<Rightarrow> u32 \<Rightarrow> 'k \<Rightarrow> bool" where
  "homes_ok contents n k \<longleftrightarrow>
     (\<forall>c pol. contents cohort_policy k (u64_bytes c) = Some (CohortPolicy_bytes pol) \<longrightarrow> p_home_llc pol < n)"

definition targets_ok :: "u32 \<Rightarrow> (u32, u32) hashmap \<Rightarrow> bool" where
  "targets_ok n d \<longleftrightarrow> (\<forall>pid l. hm_get d pid = Some l \<longrightarrow> l < n)"

text \<open>The LLCs the daemon knows are numbered from 0 without gaps.\<close>

definition llcs_numbered :: "u32 \<Rightarrow> Scheduler \<Rightarrow> bool" where
  "llcs_numbered n s \<longleftrightarrow> 0 < n \<and> of_nat (length (llc_cpus s)) = n \<and> (\<forall>l \<in> fst ` set (llc_cpus s). l < n)"

lemma homes_ok_mono:
  assumes "homes_ok contents n k" and "\<And>c v. contents cohort_policy k' (u64_bytes c) = Some v \<Longrightarrow> contents cohort_policy k (u64_bytes c) = Some v"
  shows "homes_ok contents n k'"
  using assms unfolding homes_ok_def by blast

lemma homes_ok_update:
  assumes "homes_ok contents n k" and "contents cohort_policy k' = (contents cohort_policy k)(u64_bytes c \<mapsto> CohortPolicy_bytes pol)" and "p_home_llc pol < n"
  shows "homes_ok contents n k'"
  unfolding homes_ok_def
proof (intro allI impI)
  fix c' pol' assume p: "contents cohort_policy k' (u64_bytes c') = Some (CohortPolicy_bytes pol')"
  show "p_home_llc pol' < n"
  proof (cases "c' = c")
    case True
    then have "CohortPolicy_bytes pol' = CohortPolicy_bytes pol" using p assms(2) by simp
    then show ?thesis using policy.enc_inj [of pol' pol] assms(3) by simp
  next
    case False
    then show ?thesis using p assms(1,2) by (auto simp: homes_ok_def map_simps)
  qed
qed

lemma pin_below: "0 < n \<Longrightarrow> min ccd (n - 1) < n" for n :: u32
proof -
  assume "0 < n"
  then have "unat (n - 1) < unat n" by (intro measure_unat) auto
  then have "n - 1 < n" by (simp add: word_less_nat_alt)
  then show ?thesis by (simp add: min_less_iff_disj)
qed

section \<open>The spill plan\<close>

lemma targets_ok_insert: "targets_ok n d \<Longrightarrow> l < n \<Longrightarrow> targets_ok n (hm_insert pid l d)"
  by (simp add: targets_ok_def hm_get_insert)

lemma keep_already_targets:
  assumes "keep_already current ps d = Inr d'" and "targets_ok n current" and "targets_ok n d"
  shows "targets_ok n d'"
  using assms(1,3) unfolding keep_already_def
  by (rule try_fold_invariant) (use assms(2) in \<open>auto simp: targets_ok_def hm_get_insert split: option.splits if_splits\<close>)

lemma shed_members_targets: "targets_ok n d \<Longrightarrow> target < n \<Longrightarrow> targets_ok n (shed_members target excess shed ms d)"
  by (induction target excess shed ms d rule: shed_members.induct) (auto simp: targets_ok_insert)

lemma spill_cohort_targets:
  assumes "spill_cohort cfg llcs cap tasks current c d = Inr d'" and "\<forall>l \<in> set llcs. l_llc l < n" and "targets_ok n current" and "targets_ok n d"
  shows "targets_ok n d'"
proof -
  have min: "l_llc l < n" if "min_by_key l_load_ns (filter (\<lambda>l. l_llc l \<noteq> c_home_llc c) llcs) = Some l" for l
    using min_by_key_in [OF that] assms(2) by auto
  show ?thesis
    using assms(1,4) min keep_already_targets [OF _ assms(3,4)]
    by (auto simp: spill_cohort_def Let_def intro!: shed_members_targets split: option.splits sum.splits if_splits)
qed

lemma plan_spills_targets:
  assumes "plan_spills cfg llcs cohorts tasks current = Inr d" and "\<forall>l \<in> set llcs. l_llc l < n" and "targets_ok n current"
  shows "targets_ok n d"
proof (cases "length llcs < 2")
  case True
  then show ?thesis using assms(1) by (simp add: plan_spills_def targets_ok_def)
next
  case False
  then have "try_fold (spill_cohort cfg llcs (hm_collect (map (\<lambda>l. (l_llc l, l_capacity_ns l)) llcs)) tasks current) cohorts [] = Inr d"
    using assms(1) by (simp add: plan_spills_def)
  then show ?thesis
    by (rule try_fold_invariant [where I = "targets_ok n"]) (auto simp: targets_ok_def [of n "[]"] intro: spill_cohort_targets [OF _ assms(2,3)])
qed

section \<open>The stages of a tick\<close>

lemma llc_loads_ids: "llc_loads ko k s = Inr (llcs, s') \<Longrightarrow> l_llc ` set llcs = fst ` set (llc_cpus s)"
proof -
  assume "llc_loads ko k s = Inr (llcs, s')"
  then obtain prevs' where "try_fold (llc_row ko k (interval_ns (interval_ms s))) (llc_cpus s) ([], prev_llc_load s) = Inr (llcs, prevs')"
    by (auto simp: llc_loads_def split: sum.splits)
  from arg_cong [OF llc_rows [OF this], of set] show ?thesis by simp
qed

lemma plan_moves_to: "plan now llcs cohorts b = Inr (b', ds) \<Longrightarrow> MoveCohort i to \<in> set ds \<Longrightarrow> to \<in> l_llc ` set llcs"
proof -
  assume p: "plan now llcs cohorts b = Inr (b', ds)" and m: "MoveCohort i to \<in> set ds"
  obtain c :: CohortSnapshot where len: "2 \<le> length llcs" and ds: "ds = [MoveCohort (c_id c) (l_llc (idle_llc llcs))]"
  proof -
    have "ds \<noteq> []" using m by auto
    with p show thesis by (rule plan_moveE) (rule that, assumption+)
  qed
  show ?thesis using m ds idle_llc_in [OF llcs_nonempty [OF len]] by simp
qed

context bpf_maps
begin

lemma apply_rules_homes:
  assumes "kinv k" and "apply_rules env ko tasks k s = Inr (s', k')" and "homes_ok contents n k" and "llcs_numbered n s"
  shows "homes_ok contents n k'"
proof -
  have pins: "kinv k1 \<and> homes_ok contents n k1" if "try_fold (apply_pin ko (length (llc_cpus s))) xs k = Inr k1" for xs k1
    using that
  proof (rule try_fold_invariant [where I = "\<lambda>k1. kinv k1 \<and> homes_ok contents n k1"])
    fix x k1 k2 assume i: "kinv k1 \<and> homes_ok contents n k1" and p: "apply_pin ko (length (llc_cpus s)) x k1 = Inr k2"
    have below: "min ccd (of_nat (length (llc_cpus s)) - 1) < n" for ccd using pin_below [of n] assms(4) by (auto simp: llcs_numbered_def)
    have "k2 = k1 \<or> (\<exists>c pol. p_home_llc pol < n \<and> k_update ko cohort_policy (u64_bytes c) (CohortPolicy_bytes pol) F_EXIST k1 = Inr k2)"
      using p i below by (fastforce simp: apply_pin_def lookup Let_def split: prod.splits option.splits if_splits)
    then show "kinv k2 \<and> homes_ok contents n k2"
    proof (elim disjE exE conjE)
      fix c pol assume l: "p_home_llc pol < n" and u: "k_update ko cohort_policy (u64_bytes c) (CohortPolicy_bytes pol) F_EXIST k1 = Inr k2"
      have e: "kinv k2" "contents cohort_policy k2 = (contents cohort_policy k1)(u64_bytes c \<mapsto> CohortPolicy_bytes pol)"
        using update_effect [OF conjunct1 [OF i] plain_hash_simps(2) u] by simp_all
      show ?thesis using e(1) homes_ok_update [where contents = contents, OF conjunct2 [OF i] e(2) l] by simp
    qed (use i in simp)
  qed (simp add: assms)
  show ?thesis using assms pins by (auto simp: apply_rules_def Let_def split: if_splits prod.splits sum.splits)
qed

lemma apply_decisions_homes:
  assumes "kinv k" and "apply_decisions ko ds k s = Inr (s', k')" and "homes_ok contents n k" and "\<And>i to. MoveCohort i to \<in> set ds \<Longrightarrow> to < n"
  shows "homes_ok contents n k'"
proof -
  let ?I = "\<lambda>(s', k'). kinv k' \<and> homes_ok contents n k'"
  have "?I (s', k')" using assms(2) unfolding apply_decisions_def
  proof (rule try_fold_invariant [where I = ?I])
    fix d r1 r2 assume d: "d \<in> set ds" and i: "?I r1" and a: "apply_decision ko d r1 = Inr r2"
    obtain s1 k1 s2 k2 where r: "r1 = (s1, k1)" "r2 = (s2, k2)" by (metis surj_pair)
    obtain c to where c: "d = MoveCohort c to" by (cases d)
    have k1: "kinv k1" "homes_ok contents n k1" using i r by simp_all
    have to: "to < n" using assms(4) d c by simp
    have "k2 = k1 \<or> (\<exists>pol. p_home_llc pol = to \<and> k_update ko cohort_policy (u64_bytes c) (CohortPolicy_bytes pol) F_EXIST k1 = Inr k2)"
      using a unfolding r c by (fastforce simp: apply_decision_def lookup [OF k1(1)] split: option.splits sum.splits)
    then show "?I r2"
    proof (elim disjE exE conjE)
      fix pol assume l: "p_home_llc pol = to" and u: "k_update ko cohort_policy (u64_bytes c) (CohortPolicy_bytes pol) F_EXIST k1 = Inr k2"
      have e: "kinv k2" "contents cohort_policy k2 = (contents cohort_policy k1)(u64_bytes c \<mapsto> CohortPolicy_bytes pol)"
        using update_effect [OF k1(1) plain_hash_simps(2) u] by simp_all
      show ?thesis using e(1) homes_ok_update [where contents = contents, OF k1(2) e(2)] l to r by simp
    qed (use i r in simp)
  qed (simp add: assms)
  then show ?thesis by simp
qed

lemma discover_homes:
  assumes "kinv k" and "hm_wf tc" and "discover_relationships env ko cohorts tasks tc k s = Inr (s', k')" and "homes_ok contents n k"
  shows "homes_ok contents n k'"
proof -
  let ?I = "\<lambda>(s', k'). kinv k' \<and> homes_ok contents n k'"
  obtain deltas k1 where e: "snapshot_edges ko k = Inr (deltas, k1)" using assms(3)
    by (auto simp: discover_relationships_def split: sum.splits)
  have k1: "kinv k1" "homes_ok contents n k1"
    using snapshot_edges_effect [OF assms(1) e] assms(4) by (simp_all add: homes_ok_def)
  have merge: "?I (s2, k2)" if "try_fold (apply_merge ko tc) plans (s0, k1) = Inr (s2, k2)" for plans s0 s2 k2
    using that
  proof (rule try_fold_invariant [where I = ?I])
    fix p r1 r2 assume i: "?I r1" and a: "apply_merge ko tc p r1 = Inr r2"
    obtain s1 ka s2 kb where r: "r1 = (s1, ka)" "r2 = (s2, kb)" by (metis surj_pair)
    have ka: "kinv ka" "homes_ok contents n ka" using i r by simp_all
    note pr = apply_merge_present [OF ka(1) assms(2) a [unfolded r]]
    let ?kc = "fold (\<lambda>(tgid, cohort) k. if cohort = m_from p
      then k_try_update ko tgid_cohort_map (u32_bytes tgid) (u64_bytes (m_into p)) F_EXIST k else k) tc ka"
    note e1 = relabel_loop [OF ka(1) refl assms(2), of "m_from p" "m_into p"]
    note e2 = delete_cohort_effect [OF conjunct1 [OF e1], of "m_from p"]
    have "kb = ka \<or> kb = delete_cohort ko (m_from p) ?kc"
      using a ka(1) unfolding r by (auto simp: apply_merge_def lookup Let_def split: option.splits)
    then have "homes_ok contents n kb"
    proof
      assume kb: "kb = delete_cohort ko (m_from p) ?kc"
      show ?thesis by (rule homes_ok_mono [OF ka(2)]) (use e1 e2 in \<open>auto simp: kb split: if_splits\<close>)
    qed (use ka in simp)
    then show "?I r2" using pr r by simp
  qed (use k1 in simp)
  have split: "?I (s3, k3)" if "try_fold (apply_split ko) plans (s2, k2) = Inr (s3, k3)" "?I (s2, k2)" for plans s2 k2 s3 k3
    using that
  proof (rule try_fold_invariant [where I = ?I])
    fix p r1 r2 assume i: "?I r1" and a: "apply_split ko p r1 = Inr r2"
    obtain s1 ka s2 kb where r: "r1 = (s1, ka)" "r2 = (s2, kb)" by (metis surj_pair)
    have ka: "kinv ka" "homes_ok contents n ka" using i r by simp_all
    show "?I r2"
    proof (cases "\<exists>old. contents cohort_policy ka (u64_bytes (s_cohort p)) = Some (CohortPolicy_bytes old)")
      case True
      then obtain old where old: "contents cohort_policy ka (u64_bytes (s_cohort p)) = Some (CohortPolicy_bytes old)" by blast
      note e = apply_split_effect [OF ka(1) old a [unfolded r], unfolded Let_def]
      have "p_home_llc old < n" using ka(2) old by (auto simp: homes_ok_def)
      then show ?thesis using e homes_ok_update [where contents = contents and k' = kb, OF ka(2)] r by auto
    next
      case False
      have "CohortPolicy_read w = None" if "contents cohort_policy ka (u64_bytes (s_cohort p)) = Some w" for w
        using False that policy.dec_iff by (metis not_None_eq)
      then have "kb = ka" using ka(1) a unfolding r by (auto simp: apply_split_def lookup split: option.splits)
      then show ?thesis using ka r by simp
    qed
  qed
  have "?I (s', k')"
    using assms(3) merge split unfolding discover_relationships_def e by (auto simp: Let_def split: sum.splits prod.splits)
  then show ?thesis by simp
qed

lemma tick_homes:
  assumes "kinv k" and "homes_ok contents n k" and "llcs_numbered n s" and "targets_ok n (current_spills s)"
    and "tick env ko k s = Inr (view, s', k')"
  shows "homes_ok contents n k' \<and> targets_ok n (current_spills s')"
proof -
  obtain cohorts llcs where view: "view = (cohorts, llcs)" by (cases view)
  from assms(5) [unfolded view] show ?thesis
  proof (rule tickE)
    fix tasks s1 tc s2 k2 s3 k3 s4 k4 s5 b ds s6 k6 d s7 k7 s8
    assume t1: "snapshot_tasks ko k s = Inr (tasks, s1)" and t2: "snapshot_tgid_cohort ko k = Inr tc"
      and t3: "apply_rules env ko tasks k s1 = Inr (s2, k2)" and t4: "snapshot_cohorts ko tasks tc k2 s2 = Inr (cohorts, s3, k3)"
      and t5: "gc_tgid_map ko tc tasks k3 s3 = (s4, k4)" and t6: "llc_loads ko k4 s4 = Inr (llcs, s5)"
      and t7: "plan (e_now_ms env) llcs cohorts (balancer s5) = Inr (b, ds)"
      and t8: "apply_decisions ko ds k4 (s5\<lparr> balancer := b \<rparr>) = Inr (s6, k6)"
      and t9: "plan_spills (spill_cfg s6) llcs cohorts tasks (current_spills s6) = Inr d"
      and t10: "apply_spills env ko d k6 s6 = Inr (s7, k7)"
      and t11: "discover_relationships env ko cohorts tasks tc k7 s7 = Inr (s8, k')" and s': "s' = s8\<lparr> last_tasks := tasks \<rparr>"
    have tc: "hm_wf tc" using snapshot_tgid_cohort_safe [OF assms(1)] by (simp add: t2)
    have c1: "core s1 = core s" "core s4 = core s" "core s6 = core s"
      using snapshot_tasks_frame [OF t1] apply_rules_state [OF t3] snapshot_cohorts_frame [OF t4] llc_loads_core [OF t6]
        apply_decisions_state [OF t8] t5 by (auto simp: core_def gc_tgid_map_def split: prod.splits)
    have n1: "llcs_numbered n s1" using assms(3) c1(1) by (simp add: llcs_numbered_def core_def)
    have k2: "kinv k2" using apply_rules_maps [OF assms(1) t3] by blast
    have h2: "homes_ok contents n k2" by (rule apply_rules_homes [OF assms(1) t3 assms(2) n1])
    have k3: "kinv k3" using snapshot_cohorts_effect [OF k2 t4] by simp
    have h3: "homes_ok contents n k3"
      by (rule homes_ok_mono [OF h2]) (use snapshot_cohorts_effect [OF k2 t4] in \<open>auto split: if_splits\<close>)
    have k4: "kinv k4" "homes_ok contents n k4" using gc_tgid_map_effect [OF k3 t5] h3 by (simp_all add: homes_ok_def)
    have "l_llc ` set llcs = fst ` set (llc_cpus s)" using llc_loads_ids [OF t6] c1(2) by (simp add: core_def)
    then have llcs: "\<forall>l \<in> set llcs. l_llc l < n" using assms(3) unfolding llcs_numbered_def by blast
    have k6: "kinv k6" using apply_decisions_effect [OF k4(1) t8 [unfolded apply_decisions_def]] by simp
    have h6: "homes_ok contents n k6"
      by (rule apply_decisions_homes [OF k4(1) t8 k4(2)]) (use plan_moves_to [OF t7] llcs in auto)
    have d: "hm_wf d" "targets_ok n d"
      using plan_spills_wf [OF t9] plan_spills_targets [OF t9 llcs] assms(4) c1(3) by (simp_all add: core_def)
    have k7: "kinv k7" "homes_ok contents n k7" "current_spills s7 = d" using apply_spills_effect [OF k6 d(1) t10] h6 by (simp_all add: homes_ok_def)
    have "homes_ok contents n k'" by (rule discover_homes [OF k7(1) tc t11 k7(2)])
    moreover have "current_spills s8 = d"
      using discover_core [OF t11] k7(3) by (simp add: core_def)
    ultimately show ?thesis using d(2) by (simp add: s')
  qed
qed

end

end
