(* ===== verification/System_Homes.thy ===== *)
theory System_Homes
  imports Cohort_System Daemon_Homes
begin

text \<open>
  LLC numbers are typed by the machine: both sides only ever write the numbers of LLCs that exist, so
  the clamp of \<open>safe_llc\<close> on the BPF side is never what decides a home.
\<close>

section \<open>The BPF side\<close>

context bpf_side
begin

lemma assign_homes:
  assumes "kinv (b_maps st)" and "homes_ok contents (ro_nr_llcs (b_rodata st)) (b_maps st)" and "0 < ro_nr_llcs (b_rodata st)"
  shows "homes_ok contents (ro_nr_llcs (b_rodata st)) (b_maps (snd (assign_cohort bh cx p fork st)))"
proof -
  let ?n = "ro_nr_llcs (b_rodata st)" and ?I = "\<lambda>k. kinv k \<and> homes_ok contents (ro_nr_llcs (b_rodata st)) k"
  have pol: "?I (map_update_elem bh cohort_policy (u64_bytes i) (CohortPolicy_bytes pl) F_NO_EXIST k)"
    if "?I k" "p_home_llc pl < ?n" for i pl k
  proof -
    let ?k = "map_update_elem bh cohort_policy (u64_bytes i) (CohortPolicy_bytes pl) F_NO_EXIST k"
    have u: "kinv ?k" "contents cohort_policy ?k = contents cohort_policy k \<or>
        contents cohort_policy ?k = (contents cohort_policy k)(u64_bytes i \<mapsto> CohortPolicy_bytes pl)"
      using h_update [where k = k and key = "u64_bytes i" and m = cohort_policy and v = "CohortPolicy_bytes pl" and fl = F_NO_EXIST] that(1) by (auto simp: map_simps)
    from u(2) show ?thesis
    proof
      assume "contents cohort_policy ?k = contents cohort_policy k"
      then show ?thesis using u(1) that(1) by (simp add: homes_ok_def)
    next
      assume "contents cohort_policy ?k = (contents cohort_policy k)(u64_bytes i \<mapsto> CohortPolicy_bytes pl)"
      then show ?thesis using u(1) homes_ok_update [of contents ?n k ?k i pl] that by simp
    qed
  qed
  have other: "?I (map_update_elem bh m key v fl k)"
    if "?I k" "length key = key_size m" "length v = val_size m" "m \<noteq> cohort_policy" for m key v fl k
    using h_update [where k = k and key = key and m = m and v = v and fl = fl and m' = cohort_policy] that by (simp add: homes_ok_def)
  have home: "b_rr_ctr st mod ?n < ?n" using assms(3) by (simp add: word_mod_less_divisor)
  have "?I (b_maps (snd (assign_cohort bh cx p fork st)))"
    unfolding assign_cohort_def Let_def using assms(1,2) pol other home by (simp add: map_simps split: option.splits)
  then show ?thesis by simp
qed

lemma step_homes:
  assumes "kinv (b_maps st)" and "event_typed e" and "homes_ok contents (ro_nr_llcs (b_rodata st)) (b_maps st)" and "0 < ro_nr_llcs (b_rodata st)"
  shows "homes_ok contents (ro_nr_llcs (b_rodata st)) (b_maps (bpf_step bh so e st))"
proof -
  obtain cx ev where e: "e = (cx, ev)" by (cases e)
  have same: "homes_ok contents (ro_nr_llcs (b_rodata st)) k" if "contents cohort_policy k = contents cohort_policy (b_maps st)" for k
    using assms(3) that by (simp add: homes_ok_def)
  show ?thesis
  proof (cases ev)
    case (SelectCpu p c sync)
    then show ?thesis using select_cpu_keeps [OF assms(1) refl, of so cx p c sync] by (intro same) (simp add: e)
  next
    case (Enqueue p fl)
    then show ?thesis using enqueue_keeps [OF assms(1) refl, of so cx p fl] by (intro same) (simp add: e)
  next
    case (Runnable p)
    then show ?thesis using runnable_keeps [of cx p st "{}"] by (intro same) (simp add: e)
  next
    case (Running p)
    then show ?thesis using running_keeps [of cx p st "{}"] by (intro same) (simp add: e)
  next
    case (Stopping p)
    then show ?thesis using stopping_keeps [OF assms(1) refl, of cx p "{}"] by (intro same) (simp add: e)
  next
    case (InitTask alloc p fork)
    show ?thesis
    proof (cases "case b_task_ctxs st (tk_pid p) of Some t \<Rightarrow> Some t | None \<Rightarrow> if alloc then Some TaskCtx_zero else None")
      case None
      then show ?thesis using assms(3) unfolding e InitTask bpf_step.simps cohort_init_task_def None by simp
    next
      case (Some t)
      obtain i st1 where a: "assign_cohort bh cx p fork (put_ctx p t st) = (i, st1)" by fastforce
      have k1: "kinv (b_maps st1)" "homes_ok contents (ro_nr_llcs (b_rodata st)) (b_maps st1)"
        using assign_keeps [of "put_ctx p t st" cx p fork] assign_homes [of "put_ctx p t st" cx p fork] assms by (simp_all add: a bpf_frame)
      define ts where "ts = \<lparr> ts_tgid = tk_tgid p, ts_pad = 0, ts_cohort_id = i, ts_runtime_sum = 0, ts_runtime_home_sum = 0, ts_comm = tk_comm p \<rparr>"
      let ?k = "map_update_elem bh task_stats (u32_bytes (tk_pid p)) (TaskStat_bytes ts) F_ANY (add_nr_tasks bh i 1 (b_maps st1))"
      have "length (TaskStat_bytes ts) = 48" using assms(2) by (intro task_stat.enc_size) (simp add: ts_def e InitTask)
      then have "contents cohort_policy ?k = contents cohort_policy (b_maps st1)"
        using h_update [OF add_nr_tasks_effect(1) [OF k1(1), of i 1], where key = "u32_bytes (tk_pid p)" and m = task_stats and v = "TaskStat_bytes ts" and m' = cohort_policy and fl = F_ANY]
          add_nr_tasks_effect(2) [OF k1(1), of cohort_policy i 1] by (simp add: map_simps)
      then have "homes_ok contents (ro_nr_llcs (b_rodata st)) ?k" using k1(2) by (simp add: homes_ok_def)
      moreover have "b_maps (bpf_step bh so e st) = ?k"
        unfolding e InitTask bpf_step.simps cohort_init_task_def Some option.case a Let_def prod.case ts_def by (simp add: bpf_frame)
      ultimately show ?thesis by simp
    qed
  next
    case (ExitTask p)
    show ?thesis
    proof (cases "b_task_ctxs st (tk_pid p)")
      case (Some t)
      obtain i st1 where r: "resolve_cohort bh p (Some t) st = (i, st1)" by fastforce
      have st1: "b_maps st1 = b_maps st" using r by (auto simp: resolve_cohort_def Let_def bpf_frame split: option.splits)
      let ?k1 = "add_nr_tasks bh i (- 1) (b_maps st)" and ?pid = "u32_bytes (tk_pid p)"
      note e1 = add_nr_tasks_effect [OF assms(1), where i = i and n = "- 1"]
      have d: "kinv (map_delete_elem bh task_stats ?pid ?k1)" using h_delete [OF e1(1)] by (simp add: map_simps)
      have "contents cohort_policy (map_delete_elem bh spill_tasks ?pid (map_delete_elem bh task_stats ?pid ?k1)) = contents cohort_policy (b_maps st)"
        using h_delete [OF e1(1), where m = task_stats and m' = cohort_policy] h_delete [OF d, where m = spill_tasks and m' = cohort_policy] e1(2) by (simp add: map_simps)
      then show ?thesis by (intro same) (simp add: e ExitTask free_task_storage_def cohort_exit_task_def Some r Let_def st1)
    qed (simp add: e ExitTask free_task_storage_def cohort_exit_task_def assms(3))
  qed (simp add: e bpf_frame assms(3))
qed

lemma run_homes:
  "kinv (b_maps st) \<Longrightarrow> \<forall>e \<in> set evs. event_typed e \<Longrightarrow> homes_ok contents (ro_nr_llcs (b_rodata st)) (b_maps st) \<Longrightarrow>
     0 < ro_nr_llcs (b_rodata st) \<Longrightarrow> homes_ok contents (ro_nr_llcs (b_rodata st)) (b_maps (bpf_run bh so evs st))"
proof (induction evs arbitrary: st)
  case (Cons e evs)
  have "event_typed e" using Cons.prems(2) by simp
  note s = step_keeps [OF Cons.prems(1) this, of so] step_homes [OF Cons.prems(1) this Cons.prems(3,4), of so] step_rodata [of bh so e st]
  show ?case using Cons.IH [of "bpf_step bh so e st"] s Cons.prems(2,4) by (simp add: bpf_run_def)
qed (simp add: bpf_run_def)

end

section \<open>The daemon's LLCs\<close>

text \<open>The LLC ids of the topology are 0, 1, and so on.\<close>

definition llcs_consecutive :: "Topology \<Rightarrow> bool" where
  "llcs_consecutive topo \<longleftrightarrow> tp_all_llcs topo \<noteq> [] \<and> distinct (map (\<lambda>(_, l). llc_id l) (tp_all_llcs topo)) \<and>
     (\<forall>(_, l) \<in> set (tp_all_llcs topo). llc_id l < length (tp_all_llcs topo))"

lemma bt_collect_keys: "fst ` set (bt_collect xs) = fst ` set xs"
proof -
  have "map_of (bt_collect xs) = map_of (rev xs)" by (rule ext) (simp add: bt_get_collect)
  from arg_cong [OF this, of dom] show ?thesis by (simp add: dom_map_of_conv_image_fst)
qed

lemma bt_collect_length:
  assumes "distinct (map fst xs)"
  shows "length (bt_collect xs) = length xs"
proof -
  have "distinct (map fst (bt_collect xs))" using bt_wf_collect [of xs] by (simp add: bt_wf_def hm_wf_def)
  then have "length (bt_collect xs) = card (fst ` set (bt_collect xs))" by (metis distinct_card length_map list.set_map)
  also have "\<dots> = length xs" unfolding bt_collect_keys using assms by (metis distinct_card length_map list.set_map)
  finally show ?thesis .
qed

lemma new_scheduler_numbered:
  assumes "llcs_consecutive topo" and "length (tp_all_llcs topo) \<le> unat MAX_LLCS"
  shows "llcs_numbered (of_nat (length (tp_all_llcs topo))) (new_scheduler opts cfg topo)"
proof -
  let ?xs = "map (\<lambda>(_, l). (of_nat (llc_id l), of_nat (length (llc_all_cpus l)))) (tp_all_llcs topo) :: (u32 \<times> u64) list"
  have small: "length (tp_all_llcs topo) < 2 ^ 32" using assms(2) by (simp add: MAX_LLCS_def)
  have un: "unat (of_nat i :: u32) = i" if "i \<le> length (tp_all_llcs topo)" for i
    using that small by (simp add: unsigned_of_nat take_bit_nat_eq_self)
  have ids: "llc_id l < length (tp_all_llcs topo)" if "(k, l) \<in> set (tp_all_llcs topo)" for k l
    using assms(1) that by (auto simp: llcs_consecutive_def)
  have fsts: "map fst ?xs = map of_nat (map (\<lambda>(_, l). llc_id l) (tp_all_llcs topo))" by (simp add: split_beta comp_def)
  have inj: "inj_on (of_nat :: nat \<Rightarrow> u32) (set (map (\<lambda>(_, l). llc_id l) (tp_all_llcs topo)))"
    by (rule inj_on_inverseI [of _ unat]) (use ids un in \<open>auto intro: less_imp_le\<close>)
  have "distinct (map fst ?xs)" unfolding fsts distinct_map using inj assms(1) by (auto simp: llcs_consecutive_def distinct_map)
  then have len: "length (llc_cpus (new_scheduler opts cfg topo)) = length (tp_all_llcs topo)" by (simp add: new_scheduler_def bt_collect_length)
  have "of_nat (llc_id l) < (of_nat (length (tp_all_llcs topo)) :: u32)" if "(k, l) \<in> set (tp_all_llcs topo)" for k l
    using ids [OF that] un by (simp add: word_less_nat_alt)
  then have "\<forall>l \<in> fst ` set (llc_cpus (new_scheduler opts cfg topo)). l < of_nat (length (tp_all_llcs topo))"
    by (auto simp: new_scheduler_def bt_collect_keys)
  moreover have "(0 :: u32) < of_nat (length (tp_all_llcs topo))"
    using assms(1) un [of "length (tp_all_llcs topo)"] by (simp add: word_less_nat_alt llcs_consecutive_def)
  ultimately show ?thesis by (simp add: llcs_numbered_def len)
qed

section \<open>The composed run\<close>

definition llcs_inv :: "(map_id \<Rightarrow> 'k \<Rightarrow> bytes \<Rightarrow> bytes option) \<Rightarrow> u32 \<Rightarrow> 'k LoopState \<Rightarrow> bool" where
  "llcs_inv contents n ls \<longleftrightarrow> homes_ok contents n (ls_kernel ls) \<and> llcs_numbered n (ls_sched ls) \<and> targets_ok n (current_spills (ls_sched ls))"

context bpf_maps
begin

lemma loop_body_llcs:
  assumes "kinv (li_kernel i (ls_kernel ls))" and "hm_wf (split_streak (wake_graph (ls_sched ls)))"
    and "spills_within contents (current_spills (ls_sched ls)) (li_kernel i (ls_kernel ls))" and "loop_body ko i ls = Inr ls'"
    and "homes_ok contents n (li_kernel i (ls_kernel ls))" and "llcs_numbered n (ls_sched ls)" and "targets_ok n (current_spills (ls_sched ls))"
  shows "llcs_inv contents n ls'"
proof (cases "li_recv i")
  case (Received req)
  then have "ls_sched ls' = ls_sched ls" "ls_kernel ls' = li_kernel i (ls_kernel ls)"
    using assms(4) by (auto simp: loop_body_def Let_def split: StatsReq.splits if_splits)
  then show ?thesis using assms(5-7) by (simp add: llcs_inv_def)
next
  case TimedOut
  then obtain view where t: "tick (li_env i) ko (li_kernel i (ls_kernel ls)) (ls_sched ls) = Inr (view, ls_sched ls', ls_kernel ls')"
    using assms(4) by (auto simp: loop_body_def Let_def split: sum.splits daemon_error.splits)
  have "llcs_numbered n (ls_sched ls')" using tick_keeps [OF assms(1-3) t] assms(6) by (simp add: llcs_numbered_def)
  then show ?thesis using tick_homes [OF assms(1,5-7) t] by (simp add: llcs_inv_def)
next
  case Disconnected
  then show ?thesis using assms(4) by (simp add: loop_body_def)
qed

end

context bpf_side
begin

lemma system_run_llcs:
  fixes b :: "('k, 'x) Bpf"
  assumes "daemon_inv contents kinv ls" and "\<forall>(evs, i) \<in> set turns. \<forall>e \<in> set evs. event_typed e"
    and "llcs_inv contents n ls" and "ro_nr_llcs (b_rodata b) = n"
    and "snd (system_run ko bh so turns b ls) \<in> {RunPending ls', RunStopped ls'}"
  shows "daemon_inv contents kinv ls' \<and> llcs_inv contents n ls'"
  using assms
proof (induction turns arbitrary: b ls)
  case (Cons t turns)
  obtain evs i where t: "t = (evs, i)" by (cases t)
  let ?i = "i\<lparr> li_kernel := (\<lambda>k. b_maps (bpf_run bh so evs (b\<lparr> b_maps := k \<rparr>))) \<rparr>" and ?b = "b\<lparr> b_maps := ls_kernel ls \<rparr>"
  have ty: "\<forall>e \<in> set evs. event_typed e" using Cons.prems(2) by (simp add: t)
  show ?case
  proof (cases "li_shutdown i \<or> li_exited i")
    case True
    then show ?thesis using Cons.prems by (simp add: t)
  next
    case False
    then obtain ls1 where l: "loop_body ko ?i ls = Inr ls1"
      and s: "snd (system_run ko bh so turns ((bpf_run bh so evs ?b)\<lparr> b_maps := ls_kernel ls1 \<rparr>) ls1) \<in> {RunPending ls', RunStopped ls'}"
      using Cons.prems(5) by (auto simp: t Let_def split: sum.splits)
    have inv: "daemon_inv contents kinv ls1" using turn_keeps [OF Cons.prems(1) ty refl, where i = i and so = so and b = b] by (simp add: l)
    have k: "kinv (b_maps ?b)" "homes_ok contents n (ls_kernel ls)" "0 < n" using Cons.prems(1,3) by (simp_all add: daemon_inv_def llcs_inv_def llcs_numbered_def)
    have k1: "kinv (li_kernel ?i (ls_kernel ls))" using run_keeps [OF k(1) ty, of so] by simp
    have sp: "spills_within contents (current_spills (ls_sched ls)) (li_kernel ?i (ls_kernel ls))"
      using kernel_step_spills [OF run_step_ok [OF ty, of so b]] Cons.prems(1) by (simp add: daemon_inv_def)
    have "homes_ok contents n (li_kernel ?i (ls_kernel ls))" using run_homes [OF k(1) ty, of so] k(2,3) Cons.prems(4) by simp
    from loop_body_llcs [OF k1 _ sp l this] have "llcs_inv contents n ls1" using Cons.prems(1,3) by (simp add: daemon_inv_def llcs_inv_def)
    from Cons.IH [OF inv _ this _ s] show ?thesis using Cons.prems(2,4) by (simp add: run_rodata t)
  qed
qed auto

end

text \<open>
  C8. Every LLC number that either side ever writes is one of the machine. On a topology whose LLCs are
  numbered from 0 without gaps, started on empty hash maps (the arrays of load and event counters hold
  whatever they hold), after every run of the composed scheduler every
  home in the policy map and every target in the spill map is below the number of LLCs, whoever wrote
  it: the round robin of the BPF program, a rule that pins a cohort to a larger number, the balancer,
  a split, or the spill planner. So the clamp of the BPF program never redirects a task: a task
  of a cohort with a policy is placed on exactly the home written there.
\<close>

theorem homes_in_range:
  fixes b :: "('k, 'x) Bpf"
  assumes "bpf_side ko contents kinv bh" and "Scheduler_init opts cfg bo = Inr (ro, tn, s)" and "bo_topology bo = Some topo" and "llcs_consecutive topo"
    and "kinv (b_maps b)" and "\<forall>m. m \<notin> {llc_load, stats_map} \<longrightarrow> contents m (b_maps b) = Map.empty" and "b_rodata b = ro"
    and "\<forall>(evs, i) \<in> set turns. \<forall>e \<in> set evs. event_typed e"
    and "snd (system_start ko bh so start turns b s) \<in> {RunPending ls, RunStopped ls}"
  shows "(\<forall>c pol. contents cohort_policy (ls_kernel ls) (u64_bytes c) = Some (CohortPolicy_bytes pol) \<longrightarrow> p_home_llc pol < ro_nr_llcs ro \<and> safe_llc ro (p_home_llc pol) = p_home_llc pol) \<and>
    (\<forall>pid l. contents spill_tasks (ls_kernel ls) (u32_bytes pid) = Some (u32_bytes l) \<longrightarrow> l < ro_nr_llcs ro \<and> safe_llc ro l = l)"
proof -
  have s: "s = new_scheduler opts cfg topo" and few: "length (tp_all_llcs topo) \<le> unat MAX_LLCS" and nr: "ro_nr_llcs ro = of_nat (length (tp_all_llcs topo))"
    using assms(2,3) by (auto simp: Scheduler_init_def fill_rodata_def Let_def split: if_splits sum.splits)
  let ?ls = "\<lparr> ls_sched = s, ls_kernel = b_maps b, ls_view = ([], []), ls_next_tick = start + interval s, ls_sent = [] \<rparr>" and ?n = "ro_nr_llcs ro"
  have inv: "daemon_inv contents kinv ?ls" using assms(5,6) new_scheduler_wf by (simp add: s daemon_inv_def spills_within_def)
  have "llcs_inv contents ?n ?ls"
    using assms(6) new_scheduler_numbered [OF assms(4) few] by (simp add: llcs_inv_def homes_ok_def targets_ok_def s nr new_scheduler_def)
  from bpf_side.system_run_llcs [OF assms(1) inv assms(8) this arg_cong [OF assms(7)] assms(9) [unfolded system_start_def]]
  have r: "daemon_inv contents kinv ls" "llcs_inv contents ?n ls" by simp_all
  have "l < ?n" if "contents spill_tasks (ls_kernel ls) (u32_bytes pid) = Some (u32_bytes l)" for pid l
  proof -
    have "hm_get (current_spills (ls_sched ls)) pid = Some l"
      using r(1) that u32.dec_enc [OF TrueI] by (simp add: daemon_inv_def spills_within_def)
    then show ?thesis using r(2) by (simp add: llcs_inv_def targets_ok_def)
  qed
  then show ?thesis using r(2) by (auto simp: llcs_inv_def homes_ok_def safe_llc_def)
qed

text \<open>Witness of C8: the computed run, in which the BPF program writes a home and the daemon a spill target.\<close>

theorem homes_in_range_witness:
  "\<exists>b' ls. system_start ref_ops ref_helpers ref_scx_ops 0 scenario_turns busy_bpf (new_scheduler Opts_default Config_default demo_topology) = (b', RunPending ls) \<and>
     ref_contents spill_tasks (ls_kernel ls) (u32_bytes 101) = Some (u32_bytes 0) \<and>
     (\<forall>c pol. ref_contents cohort_policy (ls_kernel ls) (u64_bytes c) = Some (CohortPolicy_bytes pol) \<longrightarrow> p_home_llc pol < 2) \<and>
     (\<forall>pid l. ref_contents spill_tasks (ls_kernel ls) (u32_bytes pid) = Some (u32_bytes l) \<longrightarrow> l < 2)"
proof -
  obtain tn where i: "Scheduler_init Opts_default Config_default demo_boot = Inr (demo_rodata, tn, new_scheduler Opts_default Config_default demo_topology)"
    using scenario_init by blast
  have topo: "bo_topology demo_boot = Some demo_topology" "llcs_consecutive demo_topology"
    by (simp_all add: demo_boot_def llcs_consecutive_def demo_topology_def)
  obtain b' ls where r: "system_start ref_ops ref_helpers ref_scx_ops 0 scenario_turns busy_bpf (new_scheduler Opts_default Config_default demo_topology) = (b', RunPending ls)"
    and ls: "ls_kernel ls = busy_maps 400000000 190000000 20000000 [(u32_bytes 101, u32_bytes 0)]" using scenario_run by blast
  have b: "ref_inv (b_maps busy_bpf)" "\<forall>m. m \<notin> {llc_load, stats_map} \<longrightarrow> ref_contents m (b_maps busy_bpf) = Map.empty" "b_rodata busy_bpf = demo_rodata"
    using ref_inv_upd [OF demo_kernel(1) zero_loads_sized] by (simp_all add: busy_bpf_def empty_bpf_def ref_contents_def)
  have end_state: "snd (system_start ref_ops ref_helpers ref_scx_ops 0 scenario_turns busy_bpf (new_scheduler Opts_default Config_default demo_topology)) \<in> {RunPending ls, RunStopped ls}"
    by (simp add: r)
  have "ref_contents spill_tasks (ls_kernel ls) (u32_bytes 101) = Some (u32_bytes 0)" by (simp add: ls ref_contents_def busy_maps_def)
  with homes_in_range [OF ref_bpf.bpf_side_axioms, OF i topo b scenario_typed end_state] show ?thesis
    using r by auto
qed

end
