(* ===== verification/Tests_Balancer.thy ===== *)
theory Tests_Balancer
  imports Balancer Spill
begin

text \<open>
  The unit tests of \<open>scx_cohort/src/balancer.rs\<close>, run on the model: each \<open>#[test]\<close> function is a
  proposition over the definitions of \<open>Balancer\<close> and \<open>Spill\<close>, with the values the test asserts, and holds
  by evaluation in the kernel.
\<close>

section \<open>Fixtures\<close>

definition llc :: "u32 \<Rightarrow> u64 \<Rightarrow> u64 \<Rightarrow> LlcLoad" where
  "llc i load_ns capacity_ns = \<lparr> l_llc = i, l_load_ns = load_ns, l_capacity_ns = capacity_ns \<rparr>"

definition cohort :: "u64 \<Rightarrow> u32 \<Rightarrow> u64 \<Rightarrow> CohortSnapshot" where
  "cohort i home_llc load_ns =
     \<lparr> c_id = i, c_home_llc = home_llc, c_pinned = False, c_nr_tasks = 4, c_load_ns = load_ns, c_residency_ms = None \<rparr>"

definition task :: "u32 \<Rightarrow> u64 \<Rightarrow> u64 \<Rightarrow> TaskSnapshot" where
  "task pid cohort_id duty_ns =
     \<lparr> t_pid = pid, t_tgid = pid, t_cohort_id = cohort_id, t_duty_ns = duty_ns, t_home_ns = 0, t_comm = [] \<rparr>"

definition CAP :: u64 where "CAP = 8 * 200000000"

text \<open>The decisions of consecutive calls of \<open>plan\<close> on a new balancer.\<close>

fun plans :: "(u64 \<times> LlcLoad list \<times> CohortSnapshot list) list \<Rightarrow> Balancer \<Rightarrow> panic + Decision list list" where
  "plans [] b = Inr []"
| "plans ((now_ms, llcs, cohorts) # calls) b =
     (case plan now_ms llcs cohorts b of
        Inl e \<Rightarrow> Inl e
      | Inr (b', ds) \<Rightarrow> (case plans calls b' of Inl e \<Rightarrow> Inl e | Inr dss \<Rightarrow> Inr (ds # dss)))"

definition planned :: "(u64 \<times> LlcLoad list \<times> CohortSnapshot list) list \<Rightarrow> panic + Decision list list" where
  "planned calls = plans calls (Balancer_new BalancerCfg_default)"

section \<open>The balancer\<close>

definition no_move_below_threshold :: bool where
  "no_move_below_threshold \<longleftrightarrow>
     (let llcs = [llc 0 (CAP div 2 + CAP div 10) CAP, llc 1 (CAP div 2) CAP]; cohorts = [cohort 1 0 (CAP div 10)]
      in planned (replicate 5 (0, llcs, cohorts)) = Inr (replicate 5 []))"

definition two_tick_confirmation :: bool where
  "two_tick_confirmation \<longleftrightarrow>
     (let llcs = [llc 0 CAP CAP, llc 1 (CAP div 10) CAP]; cohorts = [cohort 1 0 (CAP div 4)]
      in planned [(0, llcs, cohorts), (200, llcs, cohorts)] = Inr [[], [MoveCohort 1 1]])"

definition transient_spike_resets_streak :: bool where
  "transient_spike_resets_streak \<longleftrightarrow>
     (let hot = [llc 0 CAP CAP, llc 1 0 CAP]; calm = [llc 0 (CAP div 2) CAP, llc 1 (CAP div 2) CAP]; cohorts = [cohort 1 0 (CAP div 4)]
      in case planned [(0, hot, cohorts), (200, calm, cohorts), (400, hot, cohorts), (600, hot, cohorts)] of
           Inr [a, b, c, d] \<Rightarrow> a = [] \<and> b = [] \<and> c = [] \<and> d \<noteq> [] | _ \<Rightarrow> False)"

definition picks_best_repairing_cohort :: bool where
  "picks_best_repairing_cohort \<longleftrightarrow>
     (let llcs = [llc 0 (CAP * 8 div 10) CAP, llc 1 (CAP * 2 div 10) CAP]; gap = CAP * 6 div 10;
          cohorts = [cohort 1 0 (CAP div 100), cohort 2 0 (gap div 2), cohort 3 0 gap]
      in case planned [(0, llcs, cohorts), (200, llcs, cohorts)] of Inr [_, b] \<Rightarrow> b = [MoveCohort 2 1] | _ \<Rightarrow> False)"

definition residency_immunity :: bool where
  "residency_immunity \<longleftrightarrow>
     (let llcs = [llc 0 CAP CAP, llc 1 (CAP div 10) CAP]; cohorts = [cohort 1 0 (CAP div 4)]
      in case planned (map (\<lambda>now_ms. (now_ms, llcs, cohorts)) [0, 200, 400, 600, 2500]) of
           Inr [_, b, _, d, e] \<Rightarrow> b \<noteq> [] \<and> d = [] \<and> e \<noteq> [] | _ \<Rightarrow> False)"

definition pinned_and_oversized_never_move :: bool where
  "pinned_and_oversized_never_move \<longleftrightarrow>
     (let llcs = [llc 0 (CAP * 2) CAP, llc 1 0 CAP]; pinned = (cohort 1 0 (CAP div 4))\<lparr> c_pinned := True \<rparr>;
          oversized = cohort 2 0 (CAP + CAP div 4); cohorts = [pinned, oversized]
      in case planned [(0, llcs, cohorts), (200, llcs, cohorts)] of Inr [_, b] \<Rightarrow> b = [] | _ \<Rightarrow> False)"

definition never_moves_to_make_things_worse :: bool where
  "never_moves_to_make_things_worse \<longleftrightarrow>
     (let llcs = [llc 0 (CAP * 65 div 100) CAP, llc 1 (CAP * 35 div 100) CAP]; cohorts = [cohort 1 0 (CAP * 60 div 100)]
      in case planned [(0, llcs, cohorts), (200, llcs, cohorts)] of Inr [_, b] \<Rightarrow> b = [] | _ \<Rightarrow> False)"

definition rule_residency_override_respected :: bool where
  "rule_residency_override_respected \<longleftrightarrow>
     (let llcs = [llc 0 CAP CAP, llc 1 (CAP div 10) CAP]; cohorts = [(cohort 1 0 (CAP div 4))\<lparr> c_residency_ms := Some 10000 \<rparr>]
      in case planned (map (\<lambda>now_ms. (now_ms, llcs, cohorts)) [0, 200, 3000, 3200, 10300]) of
           Inr [_, b, _, d, e] \<Rightarrow> b \<noteq> [] \<and> d = [] \<and> e \<noteq> [] | _ \<Rightarrow> False)"

lemma balancer_tests:
  "no_move_below_threshold" "two_tick_confirmation" "transient_spike_resets_streak" "picks_best_repairing_cohort"
  "residency_immunity" "pinned_and_oversized_never_move" "never_moves_to_make_things_worse" "rule_residency_override_respected"
  by code_simp+

section \<open>The spill planner\<close>

definition undersized_cohort_never_spills :: bool where
  "undersized_cohort_never_spills \<longleftrightarrow>
     (let llcs = [llc 0 (CAP div 2) CAP, llc 1 0 CAP]; cohorts = [cohort 1 0 (CAP div 2)]; tasks = map (\<lambda>i. task i 1 (CAP div 8)) [0, 1, 2, 3]
      in plan_spills SpillCfg_default llcs cohorts tasks [] = Inr [])"

definition oversized_cohort_spills_coldest_members :: bool where
  "oversized_cohort_spills_coldest_members \<longleftrightarrow>
     (let llcs = [llc 0 (CAP + CAP div 4) CAP, llc 1 0 CAP]; cohorts = [cohort 1 0 (CAP + CAP div 4)];
          tasks = [task 1 1 (CAP div 3), task 2 1 (CAP div 3), task 3 1 (CAP div 3), task 10 1 (CAP div 50), task 11 1 (CAP div 50), task 12 1 (CAP div 100)]
      in case plan_spills SpillCfg_default llcs cohorts tasks [] of
           Inl _ \<Rightarrow> False
         | Inr out \<Rightarrow> out \<noteq> [] \<and> list_all (\<lambda>pid. \<not> hm_contains out pid) [1, 2, 3] \<and> list_all (\<lambda>(pid, target). 10 \<le> pid \<and> target = 1) out)"

definition spill_selection_is_sticky :: bool where
  "spill_selection_is_sticky \<longleftrightarrow>
     (let llcs = [llc 0 (CAP + CAP div 4) CAP, llc 1 0 CAP]; cohorts = [cohort 1 0 (CAP + CAP div 4)];
          tasks = [task 1 1 (CAP div 2), task 2 1 (CAP div 2), task 10 1 (CAP div 50), task 11 1 (CAP div 50)]
      in case plan_spills SpillCfg_default llcs cohorts tasks [] of
           Inl _ \<Rightarrow> False
         | Inr first \<Rightarrow>
             (case plan_spills SpillCfg_default llcs cohorts tasks first of
                Inl _ \<Rightarrow> False
              | Inr second \<Rightarrow> list_all (\<lambda>(pid, _). hm_contains second pid) first))"

definition spill_set_holds_between_marks_and_clears_below_low :: bool where
  "spill_set_holds_between_marks_and_clears_below_low \<longleftrightarrow>
     (let cohorts_mid = [cohort 1 0 (CAP * 85 div 100)]; cohorts_low = [cohort 1 0 (CAP div 2)];
          llcs = [llc 0 CAP CAP, llc 1 0 CAP]; tasks = [task 1 1 (CAP div 2), task 10 1 (CAP div 100)]; current = [(10, 1)]
      in plan_spills SpillCfg_default llcs cohorts_mid tasks current = Inr current \<and>
         plan_spills SpillCfg_default llcs cohorts_low tasks current = Inr [])"

lemma spill_tests:
  "undersized_cohort_never_spills" "oversized_cohort_spills_coldest_members" "spill_selection_is_sticky"
  "spill_set_holds_between_marks_and_clears_below_low"
  by code_simp+

end
