(* ===== verification/Float64_Eval.thy ===== *)
theory Float64_Eval
  imports Float64
begin

text \<open>
  Rounding to binary64 on integers, for evaluation: a rational is taken apart once into numerator and
  denominator, and the rounded value is again a quotient of two integers. The results are code equations
  of the operations of \<open>Float64\<close>.
\<close>

section \<open>Rounding on integers\<close>

definition rhe_div :: "int \<Rightarrow> int \<Rightarrow> int" where
  "rhe_div a b =
     (let q = a div b; r = 2 * (a mod b) in if r < b then q else if b < r then q + 1 else if even q then q else q + 1)"

definition ilog2_int :: "int \<Rightarrow> int \<Rightarrow> int" where
  "ilog2_int n d =
     (let k = bitlen n - bitlen d
      in if (if 0 \<le> k then d * 2 ^ nat k \<le> n else d \<le> n * 2 ^ nat (- k)) then k else k - 1)"

definition round_parts :: "int \<Rightarrow> int \<Rightarrow> int \<times> int" where
  "round_parts n d =
     (let e = max (ilog2_int n d - 52) (- 1074)
      in if 0 \<le> e then (rhe_div n (d * 2 ^ nat e) * 2 ^ nat e, 1) else (rhe_div (n * 2 ^ nat (- e)) d, 2 ^ nat (- e)))"

lemma round_half_even_div:
  assumes "0 < b"
  shows "round_half_even (of_int a / of_int b) = rhe_div a b"
proof -
  let ?q = "a div b" and ?r = "a mod b"
  have f: "\<lfloor>(of_int a / of_int b :: rat)\<rfloor> = ?q" by (rule floor_divide_of_int_eq)
  have "of_int a = (of_int ?q * of_int b + of_int ?r :: rat)" by (metis div_mult_mod_eq of_int_add of_int_mult)
  then have r: "of_int a / of_int b - of_int ?q = (of_int ?r / of_int b :: rat)" using assms by (simp add: field_simps)
  have lt: "(of_int ?r / of_int b < (1 / 2 :: rat)) = (2 * ?r < b)" "((1 / 2 :: rat) < of_int ?r / of_int b) = (b < 2 * ?r)"
  proof -
    have "(of_int ?r / of_int b < (1 / 2 :: rat)) = (of_int (2 * ?r) < (of_int b :: rat))" using assms by (simp add: field_simps)
    then show "(of_int ?r / of_int b < (1 / 2 :: rat)) = (2 * ?r < b)" by (simp only: of_int_less_iff)
    have "((1 / 2 :: rat) < of_int ?r / of_int b) = (of_int b < (of_int (2 * ?r) :: rat))" using assms by (simp add: field_simps)
    then show "((1 / 2 :: rat) < of_int ?r / of_int b) = (b < 2 * ?r)" by (simp only: of_int_less_iff)
  qed
  show ?thesis by (simp only: round_half_even_def rhe_div_def Let_def f r lt)
qed

lemma ilog2_unique:
  assumes "0 < x" and "2 powi k \<le> x" and "x < 2 powi (k + 1)"
  shows "ilog2 x = k"
proof -
  have mono: "i \<le> j" if "(2 :: rat) powi i < 2 powi (j + 1)" for i j
    using that power_int_increasing [of "j + 1" i "2 :: rat"] by linarith
  note b = ilog2_bounds [OF assms(1)]
  have "ilog2 x \<le> k" using b(1) assms(3) by (intro mono) linarith
  moreover have "k \<le> ilog2 x" using b(2) assms(2) by (intro mono) linarith
  ultimately show ?thesis by simp
qed

lemma powi_le_quotient:
  assumes "0 < d"
  shows "(2 powi k \<le> (of_int n / of_int d :: rat)) = (if 0 \<le> k then d * 2 ^ nat k \<le> n else d \<le> n * 2 ^ nat (- k))"
proof (cases "0 \<le> k")
  case True
  have "(2 powi k \<le> (of_int n / of_int d :: rat)) = (of_int (d * 2 ^ nat k) \<le> (of_int n :: rat))"
    using True assms by (simp add: power_int_def pos_le_divide_eq mult.commute)
  then show ?thesis using True by (simp only: of_int_le_iff if_True)
next
  case False
  have "(2 powi k \<le> (of_int n / of_int d :: rat)) = (of_int d \<le> (of_int (n * 2 ^ nat (- k)) :: rat))"
    using False assms by (simp add: power_int_def field_simps)
  then show ?thesis using False by (simp only: of_int_le_iff if_False)
qed

text \<open>The logarithm of a quotient that need not be in lowest terms.\<close>

lemma ilog2_quotient:
  assumes "0 < n" and "0 < d"
  shows "ilog2 (of_int n / of_int d) = ilog2_int n d"
proof -
  let ?k = "bitlen n - bitlen d" and ?x = "of_int n / of_int d :: rat"
  have x: "0 < ?x" using assms by simp
  have bits: "2 powi (bitlen m - 1) \<le> (of_int m :: rat)" "(of_int m :: rat) < 2 powi bitlen m" if "0 < m" for m
  proof -
    have l: "1 \<le> bitlen m" using that bitlen_le_iff_power [of m 0] by (simp add: not_le [symmetric])
    have e: "2 ^ nat (bitlen m - 1) \<le> m" "m < 2 ^ nat (bitlen m)" using bitlen_bounds [OF that] by simp_all
    have "(of_int (2 ^ nat (bitlen m - 1)) :: rat) \<le> of_int m" "(of_int m :: rat) < of_int (2 ^ nat (bitlen m))"
      using e by (simp_all only: of_int_le_iff of_int_less_iff)
    then show "2 powi (bitlen m - 1) \<le> (of_int m :: rat)" "(of_int m :: rat) < 2 powi bitlen m" using l by (simp_all add: power_int_def)
  qed
  have "2 powi (?k - 1) * of_int d < (2 powi (?k - 1) * 2 powi bitlen d :: rat)"
    using bits(2) [OF assms(2)] by (intro mult_strict_left_mono) simp_all
  also have "\<dots> = 2 powi (bitlen n - 1)" by (simp flip: power_int_add)
  also have "\<dots> \<le> of_int n" by (rule bits(1) [OF assms(1)])
  finally have lo: "2 powi (?k - 1) \<le> ?x" using assms(2) by (simp add: pos_le_divide_eq)
  have "of_int n < (2 powi bitlen n :: rat)" by (rule bits(2) [OF assms(1)])
  also have "\<dots> = 2 powi (?k + 1) * 2 powi (bitlen d - 1)" by (simp flip: power_int_add)
  also have "\<dots> \<le> 2 powi (?k + 1) * of_int d" using bits(1) [OF assms(2)] by (intro mult_left_mono) simp_all
  finally have hi: "?x < 2 powi (?k + 1)" using assms(2) by (simp add: pos_divide_less_eq)
  show ?thesis
  proof (cases "2 powi ?k \<le> ?x")
    case True
    then show ?thesis using ilog2_unique [OF x True hi] powi_le_quotient [OF assms(2), of ?k n] by (simp add: ilog2_int_def Let_def)
  next
    case False
    then have "ilog2 ?x = ?k - 1" using lo by (intro ilog2_unique [OF x]) simp_all
    then show ?thesis using False powi_le_quotient [OF assms(2), of ?k n] by (simp add: ilog2_int_def Let_def)
  qed
qed

lemma round_pos_parts:
  assumes "0 < n" and "0 < d"
  shows "round_pos (of_int n / of_int d) = (case round_parts n d of (a, b) \<Rightarrow> of_int a / of_int b)"
proof -
  let ?e = "max (ilog2_int n d - 52) (- 1074)" and ?x = "of_int n / of_int d :: rat"
  have e: "ulp_exp ?x = ?e" by (simp add: ulp_exp_def ilog2_quotient [OF assms])
  show ?thesis
  proof (cases "0 \<le> ?e")
    case True
    have "?x / 2 powi ?e = of_int n / of_int (d * 2 ^ nat ?e)" using True assms(2) by (simp add: power_int_def)
    then have "round_half_even (?x / 2 powi ?e) = rhe_div n (d * 2 ^ nat ?e)" using assms(2) by (simp only:) (rule round_half_even_div, simp)
    then show ?thesis using True by (simp add: round_pos_def e round_parts_def Let_def power_int_def)
  next
    case False
    have "?x / 2 powi ?e = of_int (n * 2 ^ nat (- ?e)) / of_int d" using False assms(2) by (simp add: power_int_def field_simps)
    then have "round_half_even (?x / 2 powi ?e) = rhe_div (n * 2 ^ nat (- ?e)) d" using assms(2) by (simp only:) (rule round_half_even_div)
    then show ?thesis using False by (simp add: round_pos_def e round_parts_def Let_def power_int_def field_simps)
  qed
qed

section \<open>The operations on quotients\<close>

text \<open>The float nearest to a quotient of integers.\<close>

definition quot_f64 :: "int \<Rightarrow> int \<Rightarrow> f64" where
  "quot_f64 n d =
     (if n = 0 then Fin 0
      else case round_parts \<bar>n\<bar> d of (a, b) \<Rightarrow>
        if if a < 1267650600228229401496703205376 then True else a < 2 ^ 1024 * b then Fin (of_int (if n < 0 then - a else a) / of_int b)
        else if n < 0 then NInf else PInf)"

lemma to_f64_quotient:
  assumes d: "0 < d"
  shows "to_f64 (of_int n / of_int d) = quot_f64 n d"
proof (cases "n = 0")
  case True
  then show ?thesis by (simp add: quot_f64_def)
next
  case False
  obtain a b where r: "round_parts \<bar>n\<bar> d = (a, b)" by fastforce
  have b: "1 \<le> b" using r by (auto simp: round_parts_def Let_def split: if_splits)
  have a: "0 \<le> a"
  proof -
    have pos: "0 \<le> rhe_div m k" if "0 \<le> m" "0 < k" for m k
      using pos_imp_zdiv_nonneg_iff [of k m] that by (simp add: rhe_div_def Let_def)
    show ?thesis using r pos d by (auto simp: round_parts_def Let_def split: if_splits)
  qed
  have "0 < \<bar>n\<bar>" using False by simp
  note p = round_pos_parts [OF this d, unfolded r prod.case]
  have "f64_round (of_int n / of_int d) = (if n < 0 then - round_pos (of_int \<bar>n\<bar> / of_int d) else round_pos (of_int \<bar>n\<bar> / of_int d))"
    using False d by (auto simp: f64_round_def zero_less_divide_iff)
  then have y: "f64_round (of_int n / of_int d) = of_int (if n < 0 then - a else a) / of_int b" unfolding p by simp
  define M where "M = (2 :: int) ^ 1024"
  have lim: "(2 :: rat) ^ 1024 = of_int M" by (simp add: M_def)
  have M: "1 \<le> M" by (simp add: M_def)
  then have M': "0 < (of_int M :: rat)" by simp
  have big: "(of_int M \<le> (of_int a / of_int b :: rat)) = (M * b \<le> a)"
  proof -
    have "(of_int M \<le> (of_int a / of_int b :: rat)) = (of_int (M * b) \<le> (of_int a :: rat))" using b by (simp add: pos_le_divide_eq)
    then show ?thesis by (simp only: of_int_le_iff)
  qed
  have ge: "0 \<le> (of_int a / of_int b :: rat)" using a b by simp
  have small: "a < M * b" if "a < 1267650600228229401496703205376"
  proof -
    have "1267650600228229401496703205376 \<le> M * 1" by (simp add: M_def)
    also have "\<dots> \<le> M * b" using b M by (intro mult_left_mono) simp_all
    finally show ?thesis using that by simp
  qed
  show ?thesis
    unfolding to_f64_def quot_f64_def Let_def y r prod.case M_def [symmetric] lim
    using ge big small M' False by (cases "n < 0") (auto simp: r not_le)
qed

lemma to_f64_quot_code [code]: "to_f64 x = (case quotient_of x of (n, d) \<Rightarrow> quot_f64 n d)"
proof -
  obtain n d where q: "quotient_of x = (n, d)" by fastforce
  have "x = of_int n / of_int d" by (rule quotient_of_div [OF q])
  then have "to_f64 x = quot_f64 n d" using to_f64_quotient [OF quotient_of_denom_pos [OF q], of n] by (simp only:)
  then show ?thesis by (simp add: q)
qed

lemma u64_to_f64_code [code]: "u64_to_f64 w = quot_f64 (uint w) 1"
  using to_f64_quotient [of 1 "uint w"] by (simp add: u64_to_f64_def)

text \<open>Sums, products and quotients without reducing them first.\<close>

definition fin_add :: "rat \<Rightarrow> rat \<Rightarrow> f64" where "fin_add x y = to_f64 (x + y)"
definition fin_mul :: "rat \<Rightarrow> rat \<Rightarrow> f64" where "fin_mul x y = to_f64 (x * y)"
definition fin_div :: "rat \<Rightarrow> rat \<Rightarrow> f64" where "fin_div x y = to_f64 (x / y)"

lemma fin_code [code]:
  "fin_add x y = (case quotient_of x of (a, b) \<Rightarrow> case quotient_of y of (c, d) \<Rightarrow> quot_f64 (a * d + c * b) (b * d))"
  "fin_mul x y = (case quotient_of x of (a, b) \<Rightarrow> case quotient_of y of (c, d) \<Rightarrow> quot_f64 (a * c) (b * d))"
  "fin_div x y = (case quotient_of x of (a, b) \<Rightarrow> case quotient_of y of (c, d) \<Rightarrow>
     if c = 0 then Fin 0 else if c < 0 then quot_f64 (- (a * d)) (b * - c) else quot_f64 (a * d) (b * c))"
proof -
  obtain a b c d where q: "quotient_of x = (a, b)" "quotient_of y = (c, d)" by (metis surj_pair)
  have pos: "0 < b" "0 < d" using quotient_of_denom_pos [OF q(1)] quotient_of_denom_pos [OF q(2)] by simp_all
  have x: "x = of_int a / of_int b" and y: "y = of_int c / of_int d" using quotient_of_div [OF q(1)] quotient_of_div [OF q(2)] by simp_all
  have "x + y = of_int (a * d + c * b) / of_int (b * d)" "x * y = of_int (a * c) / of_int (b * d)"
    using pos by (simp_all add: x y add_frac_eq)
  then show "fin_add x y = (case quotient_of x of (a, b) \<Rightarrow> case quotient_of y of (c, d) \<Rightarrow> quot_f64 (a * d + c * b) (b * d))"
    "fin_mul x y = (case quotient_of x of (a, b) \<Rightarrow> case quotient_of y of (c, d) \<Rightarrow> quot_f64 (a * c) (b * d))"
    using pos to_f64_quotient [of "b * d"] by (simp_all add: q fin_add_def fin_mul_def del: of_int_mult of_int_add)
  have "fin_div x y = (if c = 0 then Fin 0 else if c < 0 then quot_f64 (- (a * d)) (b * - c) else quot_f64 (a * d) (b * c))"
  proof (cases c "0 :: int" rule: linorder_cases)
    case less
    have "x / y = of_int (- (a * d)) / of_int (b * - c)" by (simp add: x y)
    then show ?thesis using less pos to_f64_quotient [of "b * - c" "- (a * d)"] by (simp add: fin_div_def mult_pos_neg)
  next
    case greater
    have "x / y = of_int (a * d) / of_int (b * c)" by (simp add: x y)
    then show ?thesis using greater pos to_f64_quotient [of "b * c" "a * d"] by (simp add: fin_div_def)
  qed (simp add: fin_div_def y)
  then show "fin_div x y = (case quotient_of x of (a, b) \<Rightarrow> case quotient_of y of (c, d) \<Rightarrow>
     if c = 0 then Fin 0 else if c < 0 then quot_f64 (- (a * d)) (b * - c) else quot_f64 (a * d) (b * c))" by (simp add: q)
qed

lemma f_add_code [code]:
  "f_add (Fin a) (Fin b) = fin_add a b" "f_add NaN y = NaN" "f_add x NaN = NaN" "f_add PInf NInf = NaN" "f_add NInf PInf = NaN"
  "f_add PInf (Fin b) = PInf" "f_add PInf PInf = PInf" "f_add NInf (Fin b) = NInf" "f_add NInf NInf = NInf"
  "f_add (Fin a) PInf = PInf" "f_add (Fin a) NInf = NInf"
  by (simp_all add: fin_add_def) (cases x; simp)

lemma f_mul_code [code]:
  "f_mul (Fin a) (Fin b) = fin_mul a b" "f_mul NaN y = NaN" "f_mul x NaN = NaN"
  "f_mul (Fin a) PInf = (if a = 0 then NaN else inf_sign (a < 0))" "f_mul (Fin a) NInf = (if a = 0 then NaN else inf_sign (0 < a))"
  "f_mul PInf (Fin b) = (if b = 0 then NaN else inf_sign (b < 0))" "f_mul NInf (Fin b) = (if b = 0 then NaN else inf_sign (0 < b))"
  "f_mul PInf PInf = PInf" "f_mul NInf NInf = PInf" "f_mul PInf NInf = NInf" "f_mul NInf PInf = NInf"
  by (simp_all add: fin_mul_def) (cases x; simp)

lemma f_div_code [code]:
  "f_div (Fin a) (Fin b) = (if b = 0 then (if a = 0 then NaN else inf_sign (a < 0)) else fin_div a b)"
  "f_div NaN y = NaN" "f_div x NaN = NaN" "f_div (Fin a) PInf = Fin 0" "f_div (Fin a) NInf = Fin 0"
  "f_div PInf (Fin b) = inf_sign (b < 0)" "f_div NInf (Fin b) = inf_sign (0 \<le> b)"
  "f_div PInf PInf = NaN" "f_div PInf NInf = NaN" "f_div NInf PInf = NaN" "f_div NInf NInf = NaN"
  by (simp_all add: fin_div_def) (cases x; simp)

text \<open>A float's denominator is a power of two, so reducing it only has to halve.\<close>

lemma normalize_halves [code]:
  "Rat.normalize p =
     (let (a, b) = p in
        if 0 < b then
          if even a \<and> even b then Rat.normalize (a div 2, b div 2)
          else if b = 2 ^ nat (bitlen b - 1) then (a, b)
          else let g = gcd a b in (a div g, b div g)
        else if b = 0 then (0, 1) else let g = - gcd a b in (a div g, b div g))"
proof -
  obtain a b where p: "p = (a, b)" by (cases p)
  have half: "Rat.normalize (2 * c, 2 * d) = Rat.normalize (c, d)" for c d
    by (cases "d = 0") (auto simp: Rat.normalize_def Let_def gcd_mult_distrib_int [symmetric])
  show ?thesis
  proof (cases "0 < b \<and> even a \<and> even b")
    case True
    then show ?thesis using half [of "a div 2" "b div 2"] by (simp add: p)
  next
    case False
    have "coprime a b" if "0 < b" "b = 2 ^ nat (bitlen b - 1)"
    proof (cases "odd a")
      case True
      then have "coprime a (2 ^ nat (bitlen b - 1))" by simp
      then show ?thesis using that(2) by metis
    next
      case e: False
      then have "odd b" using False that(1) by simp
      then have "nat (bitlen b - 1) = 0" using that(2) by (metis even_power zero_less_iff_neq_zero even_numeral)
      then show ?thesis using that(2) by simp
    qed
    then show ?thesis using False by (auto simp: p Rat.normalize_def Let_def)
  qed
qed

end
