(* ===== verification/Tests_Wake_Graph.thy ===== *)
theory Tests_Wake_Graph
  imports Wake_Split Float64_Eval
begin

text \<open>
  The unit tests of \<open>scx_cohort/src/wake_graph.rs\<close>, run on the model with its rounded arithmetic: each
  \<open>#[test]\<close> function is a proposition with the values the test asserts, and holds by evaluation in
  the kernel. The order in which a \<open>HashMap\<close> is walked is the order of insertion.
\<close>

section \<open>Fixtures\<close>

definition DT :: f64 where "DT = to_f64 (1 / 5)"

definition cfg :: WakeGraphCfg where
  "cfg = \<lparr> merge_wakes_per_sec = Fin 300, merge_confirm_ticks = 3, split_min_wakes_per_sec = Fin 10, split_confirm_ticks = 5,
     split_min_tasks = 2, rate_tau_s = Fin (1 / 2) \<rparr>"

definition HOT :: u64 where "HOT = 500"

text \<open>
  The loops of the tests: observing the wake-ups of each tick and collecting the plans, and the same up to
  the first tick with a plan.
\<close>

fun observe_ticks :: "(u32 \<times> u32 \<times> u64) list list \<Rightarrow> WakeGraph \<Rightarrow> WakeGraph" where
  "observe_ticks [] g = g"
| "observe_ticks (ws # wss) g = observe_ticks wss (observe ws DT 1 g)"

fun merge_ticks :: "u64 \<Rightarrow> (u32, u64) hashmap \<Rightarrow> (u64, u64) hashmap \<Rightarrow> (u32 \<times> u32 \<times> u64) list list \<Rightarrow> WakeGraph \<Rightarrow> MergePlan list list" where
  "merge_ticks mult mapping sizes [] g = []"
| "merge_ticks mult mapping sizes (ws # wss) g =
     (case merges mapping sizes (observe ws DT mult g) of (g', out) \<Rightarrow> out # merge_ticks mult mapping sizes wss g')"

fun merge_until :: "(u32, u64) hashmap \<Rightarrow> (u64, u64) hashmap \<Rightarrow> (u32 \<times> u32 \<times> u64) list list \<Rightarrow> WakeGraph \<Rightarrow> MergePlan list" where
  "merge_until mapping sizes [] g = []"
| "merge_until mapping sizes (ws # wss) g =
     (case merges mapping sizes (observe ws DT 1 g) of (g', out) \<Rightarrow> if out = [] then merge_until mapping sizes wss g' else out)"

fun split_ticks :: "(u64, (u32 \<times> u64) list) hashmap \<Rightarrow> (u32 \<times> u32 \<times> u64) list list \<Rightarrow> WakeGraph \<Rightarrow> panic + SplitPlan list list \<times> WakeGraph" where
  "split_ticks members [] g = Inr ([], g)"
| "split_ticks members (ws # wss) g =
     (case splits (\<lambda>_. 0) members (observe ws DT 1 g) of
        Inl e \<Rightarrow> Inl e
      | Inr (g', out) \<Rightarrow> (case split_ticks members wss g' of Inl e \<Rightarrow> Inl e | Inr (outs, g'') \<Rightarrow> Inr (out # outs, g'')))"

fun split_until :: "(u64, (u32 \<times> u64) list) hashmap \<Rightarrow> (u32 \<times> u32 \<times> u64) list list \<Rightarrow> WakeGraph \<Rightarrow> panic + SplitPlan list" where
  "split_until members [] g = Inr []"
| "split_until members (ws # wss) g =
     (case splits (\<lambda>_. 0) members (observe ws DT 1 g) of
        Inl e \<Rightarrow> Inl e | Inr (g', out) \<Rightarrow> if out = [] then split_until members wss g' else Inr out)"

definition never_splits :: "(u64, (u32 \<times> u64) list) hashmap \<Rightarrow> (u32 \<times> u32 \<times> u64) list list \<Rightarrow> bool" where
  "never_splits members wss \<longleftrightarrow>
     (case split_ticks members wss (WakeGraph_new cfg) of Inl _ \<Rightarrow> False | Inr (outs, _) \<Rightarrow> list_all (\<lambda>out. out = []) outs)"

section \<open>The tests\<close>

definition sustained_rate_merges_into_bigger_cohort :: bool where
  "sustained_rate_merges_into_bigger_cohort \<longleftrightarrow>
     merge_until [(100, 1), (200, 2)] [(1, 24), (2, 2)] (replicate 10 [(100, 200, HOT)]) (WakeGraph_new cfg) = [\<lparr> m_into = 1, m_from = 2 \<rparr>]"

definition burst_does_not_merge :: bool where
  "burst_does_not_merge \<longleftrightarrow>
     list_all (\<lambda>m. m = []) (merge_ticks 1 [(100, 1), (200, 2)] [(1, 4), (2, 4)]
       (replicate 2 [(100, 200, HOT)] @ replicate 20 []) (WakeGraph_new cfg))"

definition rates_decay_when_traffic_stops :: bool where
  "rates_decay_when_traffic_stops \<longleftrightarrow>
     (let g = observe_ticks (replicate 10 [(100, 200, HOT)]) (WakeGraph_new cfg)
      in (case hm_get (edges g) (100, 200) of Some e \<Rightarrow> f_lt (Fin 300) (e_rate e) | None \<Rightarrow> False) \<and>
         (let g = observe_ticks (replicate 30 []) g
          in f_lt (case hm_get (edges g) (100, 200) of Some e \<Rightarrow> e_rate e | None \<Rightarrow> Fin 0) (Fin 10)))"

definition sample_compensation_applies :: bool where
  "sample_compensation_applies \<longleftrightarrow>
     list_ex (\<lambda>m. m \<noteq> []) (merge_ticks 8 [(100, 1), (200, 2)] [(1, 4), (2, 2)] (replicate 10 [(100, 200, HOT div 8)]) (WakeGraph_new cfg))"

definition disconnected_components_split_after_confirm :: bool where
  "disconnected_components_split_after_confirm \<longleftrightarrow>
     (case split_until [(1, [(10, 8), (11, 4), (20, 3), (21, 2)])] (replicate 7 [(10, 11, HOT), (20, 21, HOT)]) (WakeGraph_new cfg) of
        Inr [split] \<Rightarrow> s_cohort split = 1 \<and> sort (off_tgids split) = [20, 21] | _ \<Rightarrow> False)"

definition connected_cohort_never_splits :: bool where
  "connected_cohort_never_splits \<longleftrightarrow>
     never_splits [(1, [(10, 8), (11, 4), (20, 3)])] (replicate 30 [(10, 11, HOT), (11, 20, HOT)])"

definition momentary_disconnect_does_not_split :: bool where
  "momentary_disconnect_does_not_split \<longleftrightarrow>
     never_splits [(1, [(10, 8), (20, 4)])] (replicate 4 [] @ replicate 3 [(10, 20, HOT)] @ replicate 4 [])"

definition footprint_floor_blocks_tiny_splits :: bool where
  "footprint_floor_blocks_tiny_splits \<longleftrightarrow>
     never_splits [(1, [(10, 8), (11, 4), (20, 1)])] (replicate 10 [(10, 11, HOT)])"

section \<open>The constants of the tests, evaluated once\<close>

definition DT_value :: f64 where "DT_value = Fin (3602879701896397 / 18014398509481984)"
definition ALPHA :: f64 where "ALPHA = Fin (5146971002709139 / 18014398509481984)"

lemma constants: "DT = DT_value" "f_div DT_value (f_add DT_value (rate_tau_s cfg)) = ALPHA" "f_div (split_min_wakes_per_sec cfg) (Fin 10) = Fin 1"
  by code_simp+

definition tick_edges :: "u64 \<Rightarrow> (u32 \<times> u32 \<times> u64) list \<Rightarrow> (u32 \<times> u32, EdgeState) hashmap \<Rightarrow> (u32 \<times> u32, EdgeState) hashmap" where
  "tick_edges mult ws es =
     (let fresh = fresh_counts mult ws in
      hm_retain (\<lambda>_ st. f_le (Fin 1) (e_rate st)) (add_vacant ALPHA DT_value fresh (decay_edges ALPHA DT_value fresh es)))"

definition graph :: "(u32 \<times> u32, EdgeState) hashmap \<Rightarrow> (u64, u32) hashmap \<Rightarrow> WakeGraph" where
  "graph es streaks = \<lparr> wg_cfg = cfg, edges = es, split_streak = streaks \<rparr>"

lemma observe_graph: "observe ws DT mult (graph es streaks) = graph (tick_edges mult ws es) streaks"
proof -
  have "\<not> f_le DT_value (Fin 0)" by code_simp
  then show ?thesis using constants by (simp add: observe_code Let_def tick_edges_def graph_def)
qed

lemma new_graph: "WakeGraph_new cfg = graph [] []"
  by (simp add: WakeGraph_new_def graph_def)

text \<open>The loops on the edges and streaks alone.\<close>

fun merge_runs :: "u64 \<Rightarrow> (u32, u64) hashmap \<Rightarrow> (u64, u64) hashmap \<Rightarrow> (u32 \<times> u32 \<times> u64) list list \<Rightarrow>
    (u32 \<times> u32, EdgeState) hashmap \<Rightarrow> MergePlan list list" where
  "merge_runs mult mapping sizes [] es = []"
| "merge_runs mult mapping sizes (ws # wss) es =
     (case merges_loop cfg mapping sizes (tick_edges mult ws es) {} of (es', out) \<Rightarrow> out # merge_runs mult mapping sizes wss es')"

fun merge_first :: "(u32, u64) hashmap \<Rightarrow> (u64, u64) hashmap \<Rightarrow> (u32 \<times> u32 \<times> u64) list list \<Rightarrow> (u32 \<times> u32, EdgeState) hashmap \<Rightarrow> MergePlan list" where
  "merge_first mapping sizes [] es = []"
| "merge_first mapping sizes (ws # wss) es =
     (case merges_loop cfg mapping sizes (tick_edges 1 ws es) {} of (es', out) \<Rightarrow> if out = [] then merge_first mapping sizes wss es' else out)"

definition split_run :: "(u64, (u32 \<times> u64) list) hashmap \<Rightarrow> (u32 \<times> u32, EdgeState) hashmap \<Rightarrow> (u64, u32) hashmap \<Rightarrow>
    panic + ((u64, u32) hashmap \<times> SplitPlan list)" where
  "split_run members es streaks =
     try_fold (split_cohort (\<lambda>_. 0) cfg es) members (hm_retain (\<lambda>cohort _. hm_contains members cohort) streaks, [])"

fun split_runs :: "(u64, (u32 \<times> u64) list) hashmap \<Rightarrow> (u32 \<times> u32 \<times> u64) list list \<Rightarrow> (u32 \<times> u32, EdgeState) hashmap \<Rightarrow> (u64, u32) hashmap \<Rightarrow>
    ((u32 \<times> u32, EdgeState) hashmap \<times> (u64, u32) hashmap) option" where
  "split_runs members [] es streaks = Some (es, streaks)"
| "split_runs members (ws # wss) es streaks =
     (let es' = tick_edges 1 ws es
      in case split_run members es' streaks of
           Inl _ \<Rightarrow> None | Inr (streaks', out) \<Rightarrow> if out = [] then split_runs members wss es' streaks' else None)"

fun split_first :: "(u64, (u32 \<times> u64) list) hashmap \<Rightarrow> (u32 \<times> u32 \<times> u64) list list \<Rightarrow> (u32 \<times> u32, EdgeState) hashmap \<Rightarrow> (u64, u32) hashmap \<Rightarrow>
    panic + SplitPlan list" where
  "split_first members [] es streaks = Inr []"
| "split_first members (ws # wss) es streaks =
     (let es' = tick_edges 1 ws es
      in case split_run members es' streaks of
           Inl e \<Rightarrow> Inl e | Inr (streaks', out) \<Rightarrow> if out = [] then split_first members wss es' streaks' else Inr out)"

lemma splits_graph: "splits (\<lambda>_. 0) members (graph es streaks) =
    (case split_run members es streaks of Inl e \<Rightarrow> Inl e | Inr (streaks', out) \<Rightarrow> Inr (graph es streaks', out))"
  by (simp add: splits_def split_run_def graph_def split: sum.splits)

lemma merges_graph: "merges mapping sizes (graph es streaks) = (case merges_loop cfg mapping sizes es {} of (es', out) \<Rightarrow> (graph es' streaks, out))"
  by (simp add: merges_def graph_def split_beta)

lemma merge_ticks_runs: "merge_ticks mult mapping sizes wss (graph es streaks) = merge_runs mult mapping sizes wss es"
  by (induction wss arbitrary: es) (simp_all add: observe_graph merges_graph split_beta)

lemma merge_until_first: "merge_until mapping sizes wss (graph es streaks) = merge_first mapping sizes wss es"
  by (induction wss arbitrary: es) (simp_all add: observe_graph merges_graph split_beta)

lemma split_until_first: "split_until members wss (graph es streaks) = split_first members wss es streaks"
  by (induction wss arbitrary: es streaks) (auto simp: observe_graph splits_graph Let_def split: sum.splits)

lemma observe_ticks_fold: "observe_ticks wss (graph es streaks) = graph (fold (tick_edges 1) wss es) streaks"
  by (induction wss arbitrary: es) (simp_all add: observe_graph)

lemma split_ticks_runs:
  "split_runs members wss es streaks = Some (es', streaks') \<Longrightarrow>
     \<exists>outs. split_ticks members wss (graph es streaks) = Inr (outs, graph es' streaks') \<and> list_all (\<lambda>out. out = []) outs"
proof (induction wss arbitrary: es streaks)
  case (Cons ws wss)
  then obtain streaks1 where r: "split_run members (tick_edges 1 ws es) streaks = Inr (streaks1, [])"
    and n: "split_runs members wss (tick_edges 1 ws es) streaks1 = Some (es', streaks')"
    by (auto simp: Let_def split: sum.splits if_splits)
  from Cons.IH [OF n] show ?case by (auto simp: observe_graph splits_graph r)
qed simp

lemma never_splits_run: "split_runs members wss [] [] = Some r \<Longrightarrow> never_splits members wss"
  using split_ticks_runs [of members wss "[]" "[]" "fst r" "snd r"] by (auto simp: never_splits_def new_graph)

lemma split_runs_append:
  "split_runs members (wss @ wss') es streaks = Option.bind (split_runs members wss es streaks) (\<lambda>(es', streaks'). split_runs members wss' es' streaks')"
  by (induction wss arbitrary: es streaks) (auto simp: Let_def split: sum.splits)

section \<open>The tests hold\<close>

lemma merge_tests: "sustained_rate_merges_into_bigger_cohort" "burst_does_not_merge" "sample_compensation_applies"
  unfolding sustained_rate_merges_into_bigger_cohort_def burst_does_not_merge_def sample_compensation_applies_def
    new_graph merge_ticks_runs merge_until_first
  subgoal by code_simp
  subgoal by code_simp
  subgoal by code_simp
  done

text \<open>The states half-way through the longer loops.\<close>

lemma hot_edge: "fold (tick_edges 1) (replicate 10 [(100, 200, HOT)]) [] = [((100, 200), \<lparr> e_rate = Fin (5307498686272879 / 2199023255552), e_inst = Fin 2500, over_ticks = 0 \<rparr>)]"
  by code_simp

lemma decay_test: "rates_decay_when_traffic_stops"
  unfolding rates_decay_when_traffic_stops_def new_graph observe_ticks_fold hot_edge Let_def by code_simp

definition chain :: "rat \<Rightarrow> (u32 \<times> u32, EdgeState) hashmap" where
  "chain r = [((10, 11), \<lparr> e_rate = Fin r, e_inst = Fin 2500, over_ticks = 0 \<rparr>), ((11, 20), \<lparr> e_rate = Fin r, e_inst = Fin 2500, over_ticks = 0 \<rparr>)]"

definition chain_ticks :: "(u32 \<times> u32 \<times> u64) list list" where
  "chain_ticks = replicate 10 [(10, 11, HOT), (11, 20, HOT)]"

lemma connected_runs:
  "split_runs [(1, [(10, 8), (11, 4), (20, 3)])] chain_ticks [] [] = Some (chain (5307498686272879 / 2199023255552), [])"
  "split_runs [(1, [(10, 8), (11, 4), (20, 3)])] chain_ticks (chain (5307498686272879 / 2199023255552)) [] =
     Some (chain (5490987477031087 / 2199023255552), [])"
  "split_runs [(1, [(10, 8), (11, 4), (20, 3)])] chain_ticks (chain (5490987477031087 / 2199023255552)) [] =
     Some (chain (5497330980501185 / 2199023255552), [])"
  subgoal by code_simp
  subgoal by code_simp
  subgoal by code_simp
  done

lemma connected_test: "connected_cohort_never_splits"
proof -
  have e: "replicate 30 [(10, 11, HOT), (11, 20, HOT)] = chain_ticks @ chain_ticks @ chain_ticks"
    unfolding chain_ticks_def by (simp add: replicate_add [symmetric])
  have "split_runs [(1, [(10, 8), (11, 4), (20, 3)])] (chain_ticks @ chain_ticks @ chain_ticks) [] [] =
      Some (chain (5497330980501185 / 2199023255552), [])"
    by (simp only: split_runs_append connected_runs bind.bind_lunit prod.case)
  then show ?thesis unfolding connected_cohort_never_splits_def e by (rule never_splits_run)
qed

lemma split_tests: "disconnected_components_split_after_confirm" "momentary_disconnect_does_not_split" "footprint_floor_blocks_tiny_splits"
proof -
  show "disconnected_components_split_after_confirm"
    unfolding disconnected_components_split_after_confirm_def new_graph split_until_first by code_simp
  have "split_runs [(1, [(10, 8), (20, 4)])] (replicate 4 [] @ replicate 3 [(10, 20, HOT)] @ replicate 4 []) [] [] \<noteq> None" by code_simp
  then show "momentary_disconnect_does_not_split" unfolding momentary_disconnect_does_not_split_def using never_splits_run by blast
  have "split_runs [(1, [(10, 8), (11, 4), (20, 1)])] (replicate 10 [(10, 11, HOT)]) [] [] \<noteq> None" by code_simp
  then show "footprint_floor_blocks_tiny_splits" unfolding footprint_floor_blocks_tiny_splits_def using never_splits_run by blast
qed

end
