(* ===== verification/Tests_Interfaces.thy ===== *)
theory Tests_Interfaces
  imports Shared_Layout Rules_Config Stats_View Pingpong_Report Text_Format Float64_Eval
begin

text \<open>
  The unit tests of \<open>scx_cohort_common/src/lib.rs\<close>, \<open>scx_cohort/src/config.rs\<close>, \<open>scx_cohort/src/stats.rs\<close> and
  \<open>bench/ipc_pingpong/src/main.rs\<close>, run on the model. The layouts are computed from the types of the
  fields by the rules of \<open>repr(C)\<close>, and compared with the bytes of \<open>Shared_Layout\<close>. The tests of the
  configuration are propositions on the TOML reader and the glob compiler, and hold for those that
  read the texts of the tests as TOML does.
\<close>

section \<open>Layouts\<close>

text \<open>A type is its size and alignment; a struct is laid out field by field.\<close>

type_synonym layout = "nat \<times> nat"

definition u8_layout :: layout where "u8_layout = (1, 1)"
definition u32_layout :: layout where "u32_layout = (4, 4)"
definition u64_layout :: layout where "u64_layout = (8, 8)"

definition array_layout :: "layout \<Rightarrow> nat \<Rightarrow> layout" where
  "array_layout l n = (fst l * n, snd l)"

definition round_up :: "nat \<Rightarrow> nat \<Rightarrow> nat" where
  "round_up n a = (n + a - 1) div a * a"

fun repr_c_offsets :: "nat \<Rightarrow> layout list \<Rightarrow> nat list" where
  "repr_c_offsets off [] = []"
| "repr_c_offsets off ((sz, align) # ls) = (let o' = round_up off align in o' # repr_c_offsets (o' + sz) ls)"

fun repr_c_end :: "nat \<Rightarrow> layout list \<Rightarrow> nat" where
  "repr_c_end off [] = off"
| "repr_c_end off ((sz, align) # ls) = repr_c_end (round_up off align + sz) ls"

text \<open>\<open>min_align\<close> is the argument of \<open>align\<close>, or 1.\<close>

definition repr_c :: "nat \<Rightarrow> layout list \<Rightarrow> layout" where
  "repr_c min_align ls = (let a = fold (max \<circ> snd) ls min_align in (round_up (repr_c_end 0 ls) a, a))"

definition TaskCtx_fields :: "layout list" where "TaskCtx_fields = replicate 6 u64_layout @ replicate 4 u32_layout"
definition CohortPolicy_fields :: "layout list" where "CohortPolicy_fields = [u32_layout, u32_layout]"
definition CohortCounters_fields :: "layout list" where "CohortCounters_fields = [u64_layout, u64_layout]"
definition WakeEdgeKey_fields :: "layout list" where "WakeEdgeKey_fields = [u32_layout, u32_layout]"
definition TaskStat_fields :: "layout list" where
  "TaskStat_fields = [u32_layout, u32_layout, u64_layout, u64_layout, u64_layout, array_layout u8_layout 16]"
definition Tunables_fields :: "layout list" where "Tunables_fields = replicate 5 u64_layout @ [u32_layout, u32_layout]"

definition layouts_are_stable :: bool where
  "layouts_are_stable \<longleftrightarrow>
     fst (repr_c 1 TaskCtx_fields) = 64 \<and> snd (repr_c 1 TaskCtx_fields) = 8 \<and> fst (repr_c 1 CohortPolicy_fields) = 8 \<and>
     fst (repr_c 1 CohortCounters_fields) = 16 \<and> snd (repr_c 1 CohortCounters_fields) = 8 \<and>
     fst (repr_c 1 WakeEdgeKey_fields) = 8 \<and> fst (repr_c 1 TaskStat_fields) = 48 \<and> snd (repr_c 1 TaskStat_fields) = 8 \<and>
     fst (repr_c 1 Tunables_fields) = 48"

definition tunables_defaults_sane :: bool where
  "tunables_defaults_sane \<longleftrightarrow>
     0 < steal_delay_ns Tunables_default \<and> 0 < credit_max_ns Tunables_default \<and> sample_shift Tunables_default < 16"

lemma layout_tests: "layouts_are_stable" "tunables_defaults_sane"
  by code_simp+

text \<open>
  No struct has implicit padding, as the derive of \<open>IntoBytes\<close> demands, and the encoders write as many
  bytes as the struct has.
\<close>

lemma no_padding:
  "list_all (\<lambda>ls. fst (repr_c 1 ls) = sum_list (map fst ls))
     [TaskCtx_fields, CohortPolicy_fields, CohortCounters_fields, WakeEdgeKey_fields, TaskStat_fields, Tunables_fields]"
  by code_simp

lemma encoded_sizes:
  "length (TaskCtx_bytes tc) = fst (repr_c 1 TaskCtx_fields)" "length (CohortPolicy_bytes cp) = fst (repr_c 1 CohortPolicy_fields)"
  "length (CohortCounters_bytes cc) = fst (repr_c 1 CohortCounters_fields)" "length (WakeEdgeKey_bytes wk) = fst (repr_c 1 WakeEdgeKey_fields)"
  "length (ts_comm ts) = 16 \<Longrightarrow> length (TaskStat_bytes ts) = fst (repr_c 1 TaskStat_fields)"
  "length (Tunables_bytes tn) = fst (repr_c 1 Tunables_fields)"
  using layout_tests(1)
  by (simp_all add: layouts_are_stable_def TaskCtx_bytes_def CohortPolicy_bytes_def CohortCounters_bytes_def WakeEdgeKey_bytes_def
      TaskStat_bytes_def Tunables_bytes_def u32_bytes_def u64_bytes_def)

text \<open>The offsets at which the decoders read the fields with padding or an array between them.\<close>

lemma decoded_offsets:
  "repr_c_offsets 0 TaskCtx_fields = [0, 8, 16, 24, 32, 40, 48, 52, 56, 60]" "repr_c_offsets 0 TaskStat_fields = [0, 4, 8, 16, 24, 32]"
  "repr_c_offsets 0 Tunables_fields = [0, 8, 16, 24, 32, 40, 44]"
  by code_simp+

section \<open>The benchmark\<close>

definition FutexLine_layout :: layout where "FutexLine_layout = repr_c CACHE_LINE [u32_layout]"
definition Channel_fields :: "layout list" where "Channel_fields = [FutexLine_layout, FutexLine_layout]"

definition futex_lines_do_not_share_a_cache_line :: bool where
  "futex_lines_do_not_share_a_cache_line \<longleftrightarrow>
     (let pong = repr_c_offsets 0 Channel_fields ! 1 in pong mod CACHE_LINE = 0 \<and> CACHE_LINE \<le> pong)"

definition percentiles_index_the_sorted_tail :: bool where
  "percentiles_index_the_sorted_tail \<longleftrightarrow>
     (let v = map of_nat [1..<1001]
      in percentile v (Fin 50) = Inr 500 \<and> percentile v (Fin 99) = Inr 990 \<and> percentile v (to_f64 (999 / 10)) = Inr 999 \<and>
         percentile [42] (to_f64 (999 / 10)) = Inr 42)"

definition div_ceil :: "u64 \<Rightarrow> u64 \<Rightarrow> u64" where
  "div_ceil n d = n div d + (if 0 < n mod d then 1 else 0)"

definition stride_subsamples_into_the_buffer :: bool where
  "stride_subsamples_into_the_buffer \<longleftrightarrow>
     sample_stride 1 = 1 \<and> sample_stride (of_nat MAX_SAMPLES) = 1 \<and> sample_stride (of_nat MAX_SAMPLES + 1) = 2 \<and>
     list_all (\<lambda>iters. div_ceil iters (sample_stride iters) \<le> of_nat MAX_SAMPLES) [1, 12345, 3 * of_nat MAX_SAMPLES - 1]"

lemma channel_test: "futex_lines_do_not_share_a_cache_line" "fst (repr_c 1 Channel_fields) = size_of_Channel"
  by code_simp+

lemma max_samples_word: "(of_nat MAX_SAMPLES :: u64) = 524288"
  by (simp add: MAX_SAMPLES_def)

lemma stride_test: "stride_subsamples_into_the_buffer"
  unfolding stride_subsamples_into_the_buffer_def div_ceil_def sample_stride_def max_samples_word by code_simp

lemma percentile_constants:
  "u64_to_f64 999 = Fin 999" "f_mul (f_div (Fin 50) (Fin 100)) (Fin 999) = Fin (999 / 2)"
  "f_mul (f_div (Fin 99) (Fin 100)) (Fin 999) = Fin (4349711979946967 / 4398046511104)"
  "f_mul (f_div (to_f64 (999 / 10)) (Fin 100)) (Fin 999) = Fin (8778509632256607 / 8796093022208)"
  "f_mul (f_div (to_f64 (999 / 10)) (Fin 100)) (Fin 0) = Fin 0"
  by code_simp+

lemma percentile_test: "percentiles_index_the_sorted_tail"
proof -
  have fl: "nat \<lfloor>999 / 2 :: rat\<rfloor> = 499" "nat \<lfloor>4349711979946967 / 4398046511104 :: rat\<rfloor> = 989"
    "nat \<lfloor>8778509632256607 / 8796093022208 :: rat\<rfloor> = 998"
    by (simp_all add: floor_divide_of_int_eq [of 999 2, where ?'a = rat, simplified]
        floor_divide_of_int_eq [of 4349711979946967 4398046511104, where ?'a = rat, simplified]
        floor_divide_of_int_eq [of 8778509632256607 8796093022208, where ?'a = rat, simplified])
  have len: "u64_to_f64 (of_nat (length (map of_nat [1..<1001] :: u32 list)) - 1) = Fin 999"
    "u64_to_f64 (of_nat (length [42 :: u32]) - 1) = Fin 0"
    using percentile_constants(1) by (simp_all add: u64_to_f64_def)
  show ?thesis
    unfolding percentiles_index_the_sorted_tail_def percentile_def Let_def len percentile_constants f64_to_usize_def
    by (simp add: fl)
qed

section \<open>The process view\<close>

definition near :: "f64 \<Rightarrow> f64 \<Rightarrow> bool" where
  "near x y \<longleftrightarrow> (case f_sub x y of Fin q \<Rightarrow> f_lt (Fin \<bar>q\<bar>) (to_f64 (1 / 10)) | _ \<Rightarrow> False)"

definition tick_ns :: u64 where "tick_ns = 200000000"

definition view_cohorts :: "CohortSnapshot list" where
  "view_cohorts = [\<lparr> c_id = 7, c_home_llc = 1, c_pinned = True, c_nr_tasks = 3, c_load_ns = tick_ns, c_residency_ms = None \<rparr>]"

definition view_task :: "u32 \<Rightarrow> u32 \<Rightarrow> u64 \<Rightarrow> u64 \<Rightarrow> string \<Rightarrow> TaskSnapshot" where
  "view_task pid tgid duty home comm =
     \<lparr> t_pid = pid, t_tgid = tgid, t_cohort_id = 7, t_duty_ns = duty, t_home_ns = home, t_comm = comm \<rparr>"

definition view_tasks :: "TaskSnapshot list" where
  "view_tasks =
     [view_task 101 100 (tick_ns div 2) (tick_ns div 2) ''game'', view_task 102 100 (tick_ns div 2) (tick_ns div 4) ''game'',
      view_task 201 200 (tick_ns div 4) 0 ''helper'']"

definition view_llcs :: "LlcLoad list" where
  "view_llcs = [\<lparr> l_llc = 0, l_load_ns = 0, l_capacity_ns = tick_ns * 8 \<rparr>, \<lparr> l_llc = 1, l_load_ns = tick_ns, l_capacity_ns = tick_ns * 8 \<rparr>]"

text \<open>\<open>tick\<close> is 200 milliseconds. Indexing a map panics on a missing key.\<close>

definition procs_snapshot_aggregates_threads_and_affinity :: bool where
  "procs_snapshot_aggregates_threads_and_affinity \<longleftrightarrow>
     (let s = procs_snapshot view_cohorts view_tasks view_llcs [(201, 0)] 200000000
      in ps_nr_tasks s = 3 \<and>
         (case hm_get (ps_cohorts s) 7 of
            None \<Rightarrow> False
          | Some c \<Rightarrow>
              cr_home_llc c = 1 \<and> cr_pinned c = 1 \<and> cr_tasks c = 3 \<and> near (cr_util_pct c) (Fin 125) \<and> near (cr_affinity_pct c) (Fin 60) \<and>
              (case hm_get (cr_procs c) 100 of
                 None \<Rightarrow> False
               | Some game \<Rightarrow> pr_threads game = 2 \<and> pr_spilled game = 0 \<and> near (pr_util_pct game) (Fin 100) \<and> near (pr_affinity_pct game) (Fin 75)) \<and>
              (case hm_get (cr_procs c) 200 of
                 None \<Rightarrow> False | Some helper \<Rightarrow> pr_spilled helper = 1 \<and> near (pr_affinity_pct helper) (Fin 0))) \<and>
         (case hm_get (ps_llc_util_pct s) 1 of None \<Rightarrow> False | Some u \<Rightarrow> near u (to_f64 (25 / 2))))"

lemma tick_word: "(of_nat (max 200000000 1) :: u64) = 200000000"
  by simp

lemma view_test: "procs_snapshot_aggregates_threads_and_affinity"
  unfolding procs_snapshot_aggregates_threads_and_affinity_def procs_snapshot_def tick_word by code_simp

section \<open>The configuration\<close>

text \<open>The texts of the tests.\<close>

definition toml_lines :: "string list \<Rightarrow> string" where
  "toml_lines ls = concat (map (\<lambda>l. l @ newline) ls)"

definition SAMPLE :: string where
  "SAMPLE = toml_lines
     ['''', ''[[rule]]'', ''match_comm = [\"wineserver\", \"wine64-preloader\"]'', ''join_cohort_of = \"parent\"'', '''',
      ''[[rule]]'', ''match_cgroup = \"user.slice/*/app-steam*\"'', ''min_ccd_residency_ms = 5000'', '''',
      ''[[rule]]'', ''match_comm = [\"my-benchmark\"]'', ''pin_ccd = 0'']"

definition FIRST_MATCH :: string where
  "FIRST_MATCH = toml_lines
     ['''', ''[[rule]]'', ''match_comm = [\"x\"]'', ''pin_ccd = 0'', '''', ''[[rule]]'', ''match_comm = [\"x\"]'', ''pin_ccd = 1'']"

definition AND_RULE :: string where
  "AND_RULE = toml_lines ['''', ''[[rule]]'', ''match_comm = [\"game\"]'', ''match_cgroup = \"user.slice/*\"'', ''pin_ccd = 1'']"

definition OPTIONS :: string where
  "OPTIONS = ''[options]'' @ newline @ ''slice_us = 3000'' @ newline @ ''rt_priority = 0'' @ newline @ newline @
     ''[[rule]]'' @ newline @ ''match_comm = [\"a\"]'' @ newline @ ''pin_ccd = 1''"

definition DROP_PRIVS :: string where
  "DROP_PRIVS = ''[options]'' @ newline @ ''drop_privs = true''"

definition NO_OPTIONS :: string where
  "NO_OPTIONS = ''[[rule]]'' @ newline @ ''match_comm = [\"a\"]'' @ newline @ ''pin_ccd = 1''"

definition UNKNOWN_OPTION :: string where
  "UNKNOWN_OPTION = ''[options]'' @ newline @ ''slice_usec = 1''"

definition BAD_JOIN :: string where
  "BAD_JOIN = ''[[rule]]'' @ newline @ ''match_comm=[\"a\"]'' @ newline @ ''join_cohort_of=\"grandparent\"''"

definition NO_MATCHER :: string where
  "NO_MATCHER = ''[[rule]]'' @ newline @ ''pin_ccd = 1''"

definition UNKNOWN_KEY :: string where
  "UNKNOWN_KEY = ''[[rule]]'' @ newline @ ''match_com = [\"a\"]''"

text \<open>
  The tests. \<open>unwrap\<close> panics on an error, so a text that is rejected fails the test. The two
  arguments are the TOML reader and the glob compiler.
\<close>

type_synonym toml_reader = "string \<Rightarrow> ConfigFile option"
type_synonym glob_compiler = "string \<Rightarrow> (string \<Rightarrow> bool) option"

definition parsed :: "toml_reader \<Rightarrow> glob_compiler \<Rightarrow> string \<Rightarrow> (Config \<Rightarrow> bool) \<Rightarrow> bool" where
  "parsed toml glob txt P = (case Config_parse toml glob txt of Inl _ \<Rightarrow> False | Inr cfg \<Rightarrow> P cfg)"

definition is_err :: "'e + 'a \<Rightarrow> bool" where
  "is_err r = (case r of Inl _ \<Rightarrow> True | Inr _ \<Rightarrow> False)"

definition comm_exact_match :: "toml_reader \<Rightarrow> glob_compiler \<Rightarrow> bool" where
  "comm_exact_match toml glob = parsed toml glob SAMPLE (\<lambda>cfg.
     match_task cfg ''wineserver'' '''' \<noteq> None \<and> match_task cfg ''wine64-preloader'' '''' \<noteq> None \<and>
     match_task cfg ''wineserver2'' '''' = None \<and> match_task cfg ''wine'' '''' = None)"

definition cgroup_glob_match :: "toml_reader \<Rightarrow> glob_compiler \<Rightarrow> bool" where
  "cgroup_glob_match toml glob = parsed toml glob SAMPLE (\<lambda>cfg.
     (case match_task cfg ''GameThread'' ''user.slice/user-1000.slice/app-steam-12345.scope'' of
        None \<Rightarrow> False | Some rule \<Rightarrow> min_ccd_residency_ms rule = Some 5000) \<and>
     match_task cfg ''GameThread'' ''system.slice/sshd.service'' = None)"

definition pin_rule_carries_ccd :: "toml_reader \<Rightarrow> glob_compiler \<Rightarrow> bool" where
  "pin_rule_carries_ccd toml glob = parsed toml glob SAMPLE (\<lambda>cfg.
     case match_task cfg ''my-benchmark'' '''' of None \<Rightarrow> False | Some rule \<Rightarrow> pin_ccd rule = Some 0)"

definition first_match_wins :: "toml_reader \<Rightarrow> glob_compiler \<Rightarrow> bool" where
  "first_match_wins toml glob = parsed toml glob FIRST_MATCH (\<lambda>cfg.
     case match_task cfg ''x'' '''' of None \<Rightarrow> False | Some rule \<Rightarrow> pin_ccd rule = Some 0)"

definition and_semantics_within_a_rule :: "toml_reader \<Rightarrow> glob_compiler \<Rightarrow> bool" where
  "and_semantics_within_a_rule toml glob = parsed toml glob AND_RULE (\<lambda>cfg.
     match_task cfg ''game'' ''user.slice/foo'' \<noteq> None \<and> match_task cfg ''game'' ''system.slice/foo'' = None \<and>
     match_task cfg ''other'' ''user.slice/foo'' = None)"

definition options_table_parses :: "toml_reader \<Rightarrow> glob_compiler \<Rightarrow> bool" where
  "options_table_parses toml glob = parsed toml glob OPTIONS (\<lambda>cfg.
     o_slice_us (options cfg) = Some 3000 \<and> o_rt_priority (options cfg) = Some 0 \<and> o_interval_ms (options cfg) = None \<and> length (rules cfg) = 1)"

definition drop_privs_option_parses :: "toml_reader \<Rightarrow> glob_compiler \<Rightarrow> bool" where
  "drop_privs_option_parses toml glob \<longleftrightarrow>
     parsed toml glob DROP_PRIVS (\<lambda>cfg. o_drop_privs (options cfg) = Some True) \<and>
     parsed toml glob '''' (\<lambda>cfg. o_drop_privs (options cfg) = None)"

definition options_absent_is_fine :: "toml_reader \<Rightarrow> glob_compiler \<Rightarrow> bool" where
  "options_absent_is_fine toml glob = parsed toml glob NO_OPTIONS (\<lambda>cfg. o_slice_us (options cfg) = None)"

definition unknown_option_key_rejected :: "toml_reader \<Rightarrow> glob_compiler \<Rightarrow> bool" where
  "unknown_option_key_rejected toml glob = is_err (Config_parse toml glob UNKNOWN_OPTION)"

definition bad_configs_rejected :: "toml_reader \<Rightarrow> glob_compiler \<Rightarrow> bool" where
  "bad_configs_rejected toml glob \<longleftrightarrow>
     is_err (Config_parse toml glob BAD_JOIN) \<and> is_err (Config_parse toml glob NO_MATCHER) \<and> is_err (Config_parse toml glob UNKNOWN_KEY)"

text \<open>What the TOML reader makes of the texts. Unknown keys are refused, by \<open>deny_unknown_fields\<close>.\<close>

definition rule_file :: "string list option \<Rightarrow> string option \<Rightarrow> string option \<Rightarrow> u32 option \<Rightarrow> u64 option \<Rightarrow> RuleFile" where
  "rule_file comm cg parent pin residency =
     \<lparr> match_comm = comm, match_cgroup = cg, join_cohort_of = parent, rf_pin_ccd = pin, rf_min_ccd_residency_ms = residency \<rparr>"

definition rules_only :: "RuleFile list \<Rightarrow> ConfigFile" where
  "rules_only rs = \<lparr> cf_options = OptionsTable_default, cf_rules = rs \<rparr>"

definition toml_texts :: "(string \<times> ConfigFile option) list" where
  "toml_texts =
     [(SAMPLE, Some (rules_only
        [rule_file (Some [''wineserver'', ''wine64-preloader'']) None (Some ''parent'') None None,
         rule_file None (Some ''user.slice/*/app-steam*'') None None (Some 5000),
         rule_file (Some [''my-benchmark'']) None None (Some 0) None])),
      (FIRST_MATCH, Some (rules_only [rule_file (Some [''x'']) None None (Some 0) None, rule_file (Some [''x'']) None None (Some 1) None])),
      (AND_RULE, Some (rules_only [rule_file (Some [''game'']) (Some ''user.slice/*'') None (Some 1) None])),
      (OPTIONS, Some \<lparr> cf_options = OptionsTable_default\<lparr> o_slice_us := Some 3000, o_rt_priority := Some 0 \<rparr>,
        cf_rules = [rule_file (Some [''a'']) None None (Some 1) None] \<rparr>),
      (DROP_PRIVS, Some \<lparr> cf_options = OptionsTable_default\<lparr> o_drop_privs := Some True \<rparr>, cf_rules = [] \<rparr>),
      ('''', Some (rules_only [])),
      (NO_OPTIONS, Some (rules_only [rule_file (Some [''a'']) None None (Some 1) None])),
      (UNKNOWN_OPTION, None),
      (BAD_JOIN, Some (rules_only [rule_file (Some [''a'']) None (Some ''grandparent'') None None])),
      (NO_MATCHER, Some (rules_only [rule_file None None None (Some 1) None])),
      (UNKNOWN_KEY, None)]"

definition reads_texts :: "toml_reader \<Rightarrow> bool" where
  "reads_texts toml = list_all (\<lambda>(txt, file). toml txt = file) toml_texts"

text \<open>What the two patterns of the tests match among the paths of the tests.\<close>

definition glob_on :: "glob_compiler \<Rightarrow> string \<Rightarrow> (string \<times> bool) list \<Rightarrow> bool" where
  "glob_on glob pat paths = (case glob pat of None \<Rightarrow> False | Some g \<Rightarrow> list_all (\<lambda>(path, yes). g path = yes) paths)"

definition matches_paths :: "glob_compiler \<Rightarrow> bool" where
  "matches_paths glob \<longleftrightarrow>
     glob_on glob ''user.slice/*/app-steam*''
       [('''', False), (''user.slice/user-1000.slice/app-steam-12345.scope'', True), (''system.slice/sshd.service'', False)] \<and>
     glob_on glob ''user.slice/*'' [(''user.slice/foo'', True), (''system.slice/foo'', False)]"

lemma reads_text: "reads_texts toml \<Longrightarrow> (txt, file) \<in> set toml_texts \<Longrightarrow> toml txt = file"
  by (auto simp: reads_texts_def list_all_iff)

lemma parse_rules_only:
  "toml txt = Some (rules_only rs) \<Longrightarrow> parsed toml glob txt P = (case compile_rules glob 0 rs of Inl _ \<Rightarrow> False | Inr out \<Rightarrow> P \<lparr> options = OptionsTable_default, rules = out \<rparr>)"
  by (simp add: parsed_def Config_parse_def rules_only_def split: sum.split)

lemma globs:
  assumes "matches_paths glob"
  obtains g h where "glob ''user.slice/*/app-steam*'' = Some g" "\<not> g ''''" "g ''user.slice/user-1000.slice/app-steam-12345.scope''"
    "\<not> g ''system.slice/sshd.service''" "glob ''user.slice/*'' = Some h" "h ''user.slice/foo''" "\<not> h ''system.slice/foo''"
  using assms by (auto simp: matches_paths_def glob_on_def split: option.splits)

lemmas config_simps = compile_rule_def rule_file_def match_task_def rule_matches_def

lemma sample_tests:
  assumes "reads_texts toml" and "matches_paths glob"
  shows "comm_exact_match toml glob" and "cgroup_glob_match toml glob" and "pin_rule_carries_ccd toml glob"
proof -
  from assms(2) obtain g where g: "glob ''user.slice/*/app-steam*'' = Some g" "\<not> g ''''"
    "g ''user.slice/user-1000.slice/app-steam-12345.scope''" "\<not> g ''system.slice/sshd.service''" by (rule globs)
  have s: "toml SAMPLE = Some (rules_only
        [rule_file (Some [''wineserver'', ''wine64-preloader'']) None (Some ''parent'') None None,
         rule_file None (Some ''user.slice/*/app-steam*'') None None (Some 5000),
         rule_file (Some [''my-benchmark'']) None None (Some 0) None])"
    by (rule reads_text [OF assms(1)]) (simp add: toml_texts_def)
  show "comm_exact_match toml glob"
    unfolding comm_exact_match_def parse_rules_only [where toml = toml, OF s] by (simp add: config_simps g)
  show "cgroup_glob_match toml glob"
    unfolding cgroup_glob_match_def parse_rules_only [where toml = toml, OF s] by (simp add: config_simps g)
  show "pin_rule_carries_ccd toml glob"
    unfolding pin_rule_carries_ccd_def parse_rules_only [where toml = toml, OF s] by (simp add: config_simps g)
qed

lemma rule_order_tests:
  assumes "reads_texts toml" and "matches_paths glob"
  shows "first_match_wins toml glob" and "and_semantics_within_a_rule toml glob"
proof -
  from assms(2) obtain h where h: "glob ''user.slice/*'' = Some h" "h ''user.slice/foo''" "\<not> h ''system.slice/foo''" by (rule globs)
  have f: "toml FIRST_MATCH = Some (rules_only [rule_file (Some [''x'']) None None (Some 0) None, rule_file (Some [''x'']) None None (Some 1) None])"
    and a: "toml AND_RULE = Some (rules_only [rule_file (Some [''game'']) (Some ''user.slice/*'') None (Some 1) None])"
    by (rule reads_text [OF assms(1)], simp add: toml_texts_def)+
  show "first_match_wins toml glob"
    unfolding first_match_wins_def parse_rules_only [where toml = toml, OF f] by (simp add: config_simps)
  show "and_semantics_within_a_rule toml glob"
    unfolding and_semantics_within_a_rule_def parse_rules_only [where toml = toml, OF a] by (simp add: config_simps h)
qed

lemma option_tests:
  assumes "reads_texts toml"
  shows "options_table_parses toml glob" and "drop_privs_option_parses toml glob" and "options_absent_is_fine toml glob"
proof -
  note read = reads_text [OF assms]
  have o: "toml OPTIONS = Some \<lparr> cf_options = OptionsTable_default\<lparr> o_slice_us := Some 3000, o_rt_priority := Some 0 \<rparr>,
        cf_rules = [rule_file (Some [''a'']) None None (Some 1) None] \<rparr>"
    and d: "toml DROP_PRIVS = Some \<lparr> cf_options = OptionsTable_default\<lparr> o_drop_privs := Some True \<rparr>, cf_rules = [] \<rparr>"
    and e: "toml '''' = Some (rules_only [])"
    and n: "toml NO_OPTIONS = Some (rules_only [rule_file (Some [''a'']) None None (Some 1) None])"
    by (rule read, simp add: toml_texts_def)+
  show "options_table_parses toml glob"
    by (simp add: options_table_parses_def parsed_def Config_parse_def o config_simps OptionsTable_default_def)
  show "drop_privs_option_parses toml glob"
    by (simp add: drop_privs_option_parses_def parsed_def Config_parse_def d e rules_only_def OptionsTable_default_def)
  show "options_absent_is_fine toml glob"
    unfolding options_absent_is_fine_def parse_rules_only [where toml = toml, OF n] by (simp add: config_simps OptionsTable_default_def)
qed

lemma rejection_tests:
  assumes "reads_texts toml"
  shows "unknown_option_key_rejected toml glob" and "bad_configs_rejected toml glob"
proof -
  note read = reads_text [OF assms]
  have u: "toml UNKNOWN_OPTION = None" and k: "toml UNKNOWN_KEY = None"
    and j: "toml BAD_JOIN = Some (rules_only [rule_file (Some [''a'']) None (Some ''grandparent'') None None])"
    and m: "toml NO_MATCHER = Some (rules_only [rule_file None None None (Some 1) None])"
    by (rule read, simp add: toml_texts_def)+
  show "unknown_option_key_rejected toml glob" by (simp add: unknown_option_key_rejected_def Config_parse_def u is_err_def)
  show "bad_configs_rejected toml glob"
    by (simp add: bad_configs_rejected_def Config_parse_def j k m is_err_def rules_only_def config_simps)
qed

text \<open>Such a reader and compiler exist.\<close>

lemma toml_texts_distinct: "distinct (map fst toml_texts)"
  by code_simp

lemma libraries_exist: "\<exists>toml glob. reads_texts toml \<and> matches_paths glob"
proof (intro exI conjI)
  show "reads_texts (\<lambda>txt. case map_of toml_texts txt of None \<Rightarrow> None | Some file \<Rightarrow> file)"
    using toml_texts_distinct by (auto simp: reads_texts_def list_all_iff)
  show "matches_paths (\<lambda>pat. Some (\<lambda>path. path = ''user.slice/user-1000.slice/app-steam-12345.scope'' \<or> path = ''user.slice/foo''))"
    by (simp add: matches_paths_def glob_on_def)
qed

end
