(* ===== verification/Spec2Isabelle.thy ===== *)
theory Spec2Isabelle
  imports Wake_Split Daemon_Properties Daemon_Ownership Startup Process_Setup Privileges Text_Views Pingpong_Progress Bench_Main System_Homes
    Tests_Balancer Tests_Wake_Graph Tests_Interfaces
begin

text \<open>
  A verification of \<open>scx_cohort\<close>, a scheduler for Linux's \<open>sched_ext\<close> that keeps groups of related
  tasks (cohorts) on one last-level cache (LLC).

  \<^bold>\<open>The program.\<close> A BPF program in the kernel places and accounts tasks; a daemon in Rust decides
  policy. The two share maps in the kernel. Every tick the daemon reads the maps, applies the rules of
  its configuration, collects dead entries, moves one cohort if the LLCs are out of balance, spills
  members of a cohort that outgrows its LLC, and follows the wake-ups between processes to merge
  and split cohorts. Beside it are the statistics it serves, a live view of them, and a benchmark
  of the communication pattern the scheduler is made for. This development models both programs and
  their composition.

  \<^bold>\<open>Theories and sources.\<close>
  \<^item> \<open>Cohort_Prelude\<close>: machine integers, panics, hash maps and ordered maps, selection by key.
    \<open>Float64\<close>: binary64 arithmetic with its rounding; \<open>Float64_Eval\<close>: its evaluation on integers. \<open>Rust_String\<close>: lossy UTF-8 decoding, slicing
    at byte offsets, lines and prefixes. \<open>Text_Format\<close>: the number formats and padding of \<open>std::fmt\<close>.
    \<open>Hysteresis\<close> and \<open>Interval_Counters\<close>: locales for
    confirmation counters and for differences of monotonic counters.
  \<^item> \<open>Policy_Domain\<close>: \<open>scx_cohort/src/domain.rs\<close>.
  \<^item> \<open>Balancer\<close> and \<open>Spill\<close>: \<open>scx_cohort/src/balancer.rs\<close>, the load balancer with its residency and
    confirmation state, and the spill planner.
  \<^item> \<open>Wake_Graph\<close>, \<open>Union_Find_Forest\<close>, \<open>Wake_Split\<close>: \<open>scx_cohort/src/wake_graph.rs\<close>, the decayed wake
    rates and merges, and the splits with their recursive union-find.
  \<^item> \<open>Shared_Layout\<close>: \<open>scx_cohort_common/src/lib.rs\<close>, constants and structs with their bytes, as \<open>repr(C)\<close>
    lays them out and the \<open>zerocopy\<close> derives reinterpret them.
  \<^item> \<open>Rules_Config\<close>: \<open>scx_cohort/src/config.rs\<close>.
  \<^item> \<open>Kernel_Maps\<close>: the interface to the BPF maps. \<open>Daemon_Snapshots\<close>, \<open>Daemon_Actions\<close>: the methods of
    \<open>Scheduler\<close> in \<open>scx_cohort/src/main.rs\<close>, up to \<open>tick\<close>; \<open>Daemon_Proofs\<close>, \<open>Daemon_Cohorts\<close>,
    \<open>Daemon_Tick\<close>: their lemmas.
  \<^item> \<open>Stats_View\<close>: \<open>scx_cohort/src/stats.rs\<close> and \<open>get_metrics\<close>. \<open>Top_View\<close>: \<open>scx_cohort/src/top.rs\<close>.
    \<open>Text_Views\<close>: the text both print.
  \<^item> \<open>Daemon_Main\<close>: options, \<open>Scheduler::init\<close>, \<open>run\<close> and \<open>main\<close>. \<open>Privileges\<close>: \<open>drop_all_capabilities\<close>.
    \<open>Daemon_Runs\<close>, \<open>Daemon_Properties\<close>, \<open>Startup\<close>: what holds of whole runs, ticks and starts. \<open>Daemon_Ids\<close>, \<open>Daemon_Homes\<close>: the cohort ids and LLC
    numbers a tick puts into the maps. \<open>Daemon_Ownership\<close>: what a tick does not write, the
    counters and the pinned policies. \<open>Process_Setup\<close>: logger,
    signal handlers and \<open>set_realtime\<close>, and the shutdown flag in both loops.
  \<^item> \<open>Bpf_Kernel\<close>: what the BPF program calls of the kernel. \<open>Bpf_Scheduler\<close>: \<open>scx_cohort/src/bpf/main.bpf.c\<close>,
    its state and callbacks. \<open>Bpf_Placement\<close> (\<open>select_cpu\<close>), \<open>Bpf_Queues\<close> (\<open>init\<close>, \<open>enqueue\<close>, \<open>dispatch\<close>),
    \<open>Bpf_Accounting\<close> (\<open>stopping\<close>) and \<open>Bpf_Members\<close> (\<open>init_task\<close>, \<open>exit_task\<close>): what they do.
  \<^item> \<open>Bpf_System\<close>: the callbacks as events of a state machine, where the kernel frees the storage of a task
    that exited. \<open>System_Scenario\<close>: a computed run of both sides. \<open>Cohort_System\<close>, \<open>System_Homes\<close>: the BPF
    program and the daemon on the same maps.
  \<^item> \<open>Pingpong\<close>, \<open>Pingpong_Progress\<close>, \<open>Pingpong_Report\<close>, \<open>Bench_Main\<close>:
    \<open>bench/ipc_pingpong/src/main.rs\<close>, the protocol, the sampling and report, and the processes of \<open>main\<close>.
  \<^item> \<open>Tests_Balancer\<close>, \<open>Tests_Wake_Graph\<close>, \<open>Tests_Interfaces\<close>: the unit tests of the sources above, each a
    proposition over the model with the values the test asserts.

  \<^bold>\<open>How the code is modelled.\<close> A method of \<open>Scheduler\<close> is a function on the record of its fields and
  the state of the kernel's maps; every \<open>?\<close> and \<open>bail!\<close> is a branch that returns \<open>Inl\<close>, every
  panic a value of type \<open>panic\<close>. The kernel is a record of operations (\<open>kernel_ops\<close>) over an
  arbitrary state; the locale \<open>bpf_maps\<close> states what their documentation promises, the properties hold
  for every kernel that keeps it, and \<open>ref_ops\<close>, an implementation on finite maps, interprets it. The
  same is done for the capability system calls (\<open>linux_caps\<close>) and for \<open>sigaction\<close> (\<open>posix_signals\<close>). The TOML reader, the glob compiler, the
  topology, the clock, \<open>/proc\<close>, the results of loading the BPF object and the order in which a
  \<open>HashMap\<close> is walked are inputs. Between two turns of the event loop the BPF side may change the
  maps; the theorems about the daemon's runs quantify over what it does. In the composed scheduler it
  runs any callbacks there, so that each side meets what the other wrote. A callback is atomic, as is
  each operation of the daemon on a map. The BPF side's map helpers and the queues and idle masks of
  \<open>sched_ext\<close> are records of operations too, with the locales \<open>bpf_side\<close> (which extends \<open>bpf_maps\<close>) and
  \<open>scx_kernel\<close>, combined in \<open>bpf_kernel\<close>; \<open>bpf_room\<close> adds that the hash maps are not full, \<open>bpf_arrays\<close> that the entries of the
  load array always exist (it is a \<open>BPF_MAP_TYPE_ARRAY\<close>), and \<open>scx_idle\<close> what the idle functions claim. The benchmark's two
  processes are a step relation with free interleaving; what \<open>mmap\<close>, \<open>fork\<close> and \<open>waitpid\<close> return to its
  \<open>main\<close> are inputs.

  \<^bold>\<open>Integers.\<close> Words of the width the code has, wrapping as in the release profile. Where a theorem
  needs that a product or a sum does not wrap, it says so or proves it.

  \<^bold>\<open>Fuel and bounds.\<close> The recursion of \<open>find\<close> takes fuel; \<open>Wake_Split\<close> proves that the depth of the
  forest is always below it, so running out, which stands for a stack overflow, never happens. All
  other functions are total. Ids are shown fresh for fewer than \<open>2^31\<close> turns of the event loop and \<open>2^32 - 1\<close>
  new tasks, which keeps the two id spaces apart. A run of the daemon is a list of inputs of any length; a pair of the
  benchmark stops within a number of steps that \<open>Pingpong_Progress\<close> gives.

  \<^bold>\<open>What is shown.\<close>
  \<^item> Policy: a move of the balancer is safe, best and confirmed, and respects residency; a spill plan
    is the specified one, with its hysteresis; merges and splits follow confirmed edges and connected
    components, and wake rates stay finite under rounding.
  \<^item> Daemon: no run panics; pins hold through a tick; snapshots are exact; merges and splits move
    exactly the processes of their plans; entries are collected after two dead ticks only; LLC loads
    are conserved; ticks are never closer than the interval; the counters of the BPF program are never
    written.
  \<^item> BPF program: a woken task stays in its home and claims no CPU but the one it gets; a queued task is never stranded on an LLC it may not
    use and overtakes by a bounded amount; a CPU serves its own LLC first and steals only through
    the gate; cohorts, LLCs and tasks are charged exactly the time
    that was run; members are counted exactly, as a
    refinement of an abstract register; the CPU masks are the topology.
  \<^item> Both together: no run panics and tasks are placed where the daemon planned them; new cohort ids are
    never in use; every LLC number in the maps exists. A fork by a spilled task after a merge is shown
    to reach a cohort that no longer exists.
  \<^item> Start and stop: precedence of options, accepted machines, order of the privilege drop, the restart
    loop, what the drop leaves (no capability, but without \<open>CAP_SETPCAP\<close> the bounding set), and that a stop
    signal ends the loops.
  \<^item> Interfaces: layouts are lossless, rules are parsed and matched as documented, statistics add up,
    the process view agrees with its definition, the live view draws the frame it should or panics on
    a name that cannot be cut.
  \<^item> Benchmark: the protocol neither deadlocks nor loses a wake-up, messages arrive intact, samples
    are even, pairs do not share memory, percentiles are in order, a report is printed only for a run
    all of whose processes succeeded, and reads back as what was measured.

  \<^item> Tests: the model passes the unit tests of the program by evaluation in the kernel, which ties the
    definitions to the values the authors expect; the struct layouts follow from the rules of \<open>repr(C)\<close>.

  \<^bold>\<open>Not modelled.\<close> The callback \<open>cohort_exit\<close> of the BPF program, a macro of \<open>sched_ext\<close> that records the
  exit information the daemon reads, and interleavings inside a callback; the build script and the
  generated skeleton; log lines other than those of \<open>log_topology\<close> and \<open>set_realtime\<close>; JSON, and the servers
  and monitors of \<open>scx_stats\<close> and \<open>scx_utils\<close>, which \<open>server_data\<close>, \<open>monitor\<close> and \<open>top::run\<close> only call; the
  system calls themselves; the unit test that reads \<open>/proc\<close> after the capability drop; the scripts.
\<close>

end
